(* ===== verification/Prelude.thy ===== *)
theory Prelude
  imports Main "HOL-Library.Word" "HOL-Library.Char_ord" "HOL-Library.List_Lexorder"
begin

text \<open>
  Shared vocabulary of the development: machine integers and bytes, the outcome of a
  fallible Rust function (a value, an error, or a panic), programs that thread a state,
  Rust's checked and saturating arithmetic, and ordered finite maps that stand for
  \<open>BTreeMap\<close> and \<open>HashMap\<close>.
\<close>

section \<open>Machine integers and bytes\<close>

type_synonym u16 = "16 word"
type_synonym u32 = "32 word"
type_synonym u64 = "64 word"
type_synonym i32 = "32 word"
type_synonym i64 = "64 word"

text \<open>
  A \<open>u8\<close> is an Isabelle \<open>char\<close>: both are 8 bits, and \<open>Char_ord\<close> orders characters by
  their code. \<open>Vec<u8>\<close>, \<open>&[u8]\<close> and \<open>String\<close> (UTF-8 bytes) are lists of them;
  \<open>List_Lexorder\<close> gives the lexicographic order Rust uses for them.
\<close>

type_synonym bytes = string

text \<open>A \<open>SystemTime\<close>: seconds relative to the epoch (negative before it) and nanoseconds.\<close>

datatype system_time = SystemTime (st_secs: int) (st_nanos: int)

named_theorems outcome_simps \<open>evaluation of outcomes and programs\<close>
named_theorems unat_simps \<open>machine arithmetic read as arithmetic on natural numbers\<close>

definition checked_add :: "'a::len word \<Rightarrow> 'a word \<Rightarrow> 'a word option" where
  "checked_add a b = (if uint a + uint b < 2 ^ LENGTH('a) then Some (a + b) else None)"

definition saturating_add :: "'a::len word \<Rightarrow> 'a word \<Rightarrow> 'a word" where
  "saturating_add a b = (if uint a + uint b < 2 ^ LENGTH('a) then a + b else - 1)"

definition saturating_sub :: "'a::len word \<Rightarrow> 'a word \<Rightarrow> 'a word" where
  "saturating_sub a b = (if a < b then 0 else a - b)"

lemma uint_add_bound:
  "uint a + uint b < 2 ^ LENGTH('a) \<longleftrightarrow> unat a + unat b < 2 ^ LENGTH('a)" for a b :: "'a::len word"
proof -
  have sum: "uint a + uint b = int (unat a + unat b)" by simp
  have pow: "(2::int) ^ LENGTH('a) = int (2 ^ LENGTH('a))" by simp
  show ?thesis unfolding sum pow by (rule of_nat_less_iff)
qed

lemma unat_add_no_overflow [unat_simps]:
  "unat a + unat b < 2 ^ LENGTH('a) \<Longrightarrow> unat (a + b) = unat a + unat b" for a b :: "'a::len word"
  by (simp add: unat_word_ariths)

lemma unat_sub_no_underflow [unat_simps]:
  "b \<le> a \<Longrightarrow> unat (a - b) = unat a - unat b" for a b :: "'a::len word"
  by (rule unat_sub)

lemma checked_add_SomeD:
  "checked_add a b = Some c \<Longrightarrow> unat c = unat a + unat b"
  by (auto simp: checked_add_def uint_add_bound unat_simps split: if_splits)

lemma checked_add_NoneD:
  "checked_add a b = None \<Longrightarrow> 2 ^ LENGTH('a) \<le> unat a + unat b" for a b :: "'a::len word"
  by (auto simp: checked_add_def uint_add_bound split: if_splits)

lemma unat_max_word [unat_simps]: "unat (- 1 :: 'a::len word) = 2 ^ LENGTH('a) - 1"
  by (simp add: unsigned_minus_1_eq_mask mask_eq_exp_minus_1)

lemma unat_saturating_add [unat_simps]:
  "unat (saturating_add a b) = min (unat a + unat b) (2 ^ LENGTH('a) - 1)" for a b :: "'a::len word"
  by (auto simp: saturating_add_def uint_add_bound unat_simps)

lemma unat_saturating_sub [unat_simps]: "unat (saturating_sub a b) = unat a - unat b"
  by (auto simp: saturating_sub_def unat_simps word_less_nat_alt word_le_nat_alt)

lemma unat_max [unat_simps]: "unat (max a b) = max (unat a) (unat b)" for a b :: "'a::len word"
  by (auto simp: max_def word_le_nat_alt)

lemma unat_min [unat_simps]: "unat (min a b) = min (unat a) (unat b)" for a b :: "'a::len word"
  by (auto simp: min_def word_le_nat_alt)

lemma unat_of_nat_small [unat_simps]:
  "n < 2 ^ LENGTH('a) \<Longrightarrow> unat (of_nat n :: 'a::len word) = n"
  by (simp add: unat_of_nat take_bit_nat_eq_self)

lemma unat_inject: "a = b \<longleftrightarrow> unat a = unat b" for a b :: "'a::len word"
  by (simp add: word_unat_eq_iff)

text \<open>Rust keeps every vector and slice shorter than \<open>isize::MAX\<close> bytes.\<close>

definition isize_max :: int where
  "isize_max = 2 ^ 63 - 1"

lemma isize_max_lt_u64: "int n \<le> isize_max \<Longrightarrow> n < 2 ^ 64"
  by (simp add: isize_max_def)

lemma isize_max_lt: "int n \<le> isize_max \<Longrightarrow> n < 2 ^ 64 - 1"
  by (simp add: isize_max_def)

section \<open>Outcomes and state-threading programs\<close>

text \<open>
  \<open>Ok\<close> and \<open>Err\<close> are Rust's \<open>Result\<close>. \<open>Panic\<close> is a call that does not return: an
  integer overflow (in the build profile that checks it), an index out of range, a vector
  that would be longer than \<open>isize::MAX\<close>, or \<open>unreachable!()\<close>.
\<close>

datatype ('a, 'e) result = Ok 'a | Err 'e | Panic

fun map_err :: "('e \<Rightarrow> 'f) \<Rightarrow> ('a, 'e) result \<Rightarrow> ('a, 'f) result" where
  "map_err f (Ok x) = Ok x"
| "map_err f (Err e) = Err (f e)"
| "map_err f Panic = Panic"

fun is_ok :: "('a, 'e) result \<Rightarrow> bool" where
  "is_ok (Ok x) = True"
| "is_ok (Err e) = False"
| "is_ok Panic = False"

fun res_bind :: "('a, 'e) result \<Rightarrow> ('a \<Rightarrow> ('b, 'e) result) \<Rightarrow> ('b, 'e) result" where
  "res_bind (Ok x) k = k x"
| "res_bind (Err e) k = Err e"
| "res_bind Panic k = Panic"

definition ok_or :: "'a option \<Rightarrow> 'e \<Rightarrow> ('a, 'e) result" where
  "ok_or x e = (case x of None \<Rightarrow> Err e | Some v \<Rightarrow> Ok v)"

text \<open>A result of a function that cannot panic, such as a parser given as a parameter.\<close>

fun of_sum :: "'e + 'a \<Rightarrow> ('a, 'e) result" where
  "of_sum (Inl e) = Err e"
| "of_sum (Inr x) = Ok x"

lemma of_sum_iff [simp]:
  "of_sum x = Ok a \<longleftrightarrow> x = Inr a" "of_sum x = Err e \<longleftrightarrow> x = Inl e" "of_sum x \<noteq> Panic"
  by (cases x; simp)+

lemma ok_or_simps [simp]:
  "ok_or None e = Err e"
  "ok_or (Some v) e = Ok v"
  by (simp_all add: ok_or_def)

lemma ok_or_eq_Ok [simp]: "ok_or x e = Ok v \<longleftrightarrow> x = Some v"
  by (cases x) simp_all

lemma ok_or_eq_Err [simp]: "ok_or x e = Err e' \<longleftrightarrow> x = None \<and> e = e'"
  by (cases x) auto

lemma ok_or_not_Panic [simp]: "ok_or x e \<noteq> Panic"
  by (cases x) simp_all

lemma res_bind_eq_Ok [simp]:
  "res_bind r k = Ok y \<longleftrightarrow> (\<exists>x. r = Ok x \<and> k x = Ok y)"
  by (cases r) auto

lemma res_bind_eq_Err:
  "res_bind r k = Err e \<longleftrightarrow> r = Err e \<or> (\<exists>x. r = Ok x \<and> k x = Err e)"
  by (cases r) auto

lemma res_bind_eq_Panic:
  "res_bind r k = Panic \<longleftrightarrow> r = Panic \<or> (\<exists>x. r = Ok x \<and> k x = Panic)"
  by (cases r) auto

type_synonym ('s, 'a, 'e) prog = "'s \<Rightarrow> ('a, 'e) result \<times> 's"

text \<open>
  \<open>and_then m k\<close> is \<open>let x = m?; k x\<close>: the state reached by \<open>m\<close> is kept when \<open>m\<close> returns
  early, so that whether an operation undoes its effects on an error is a property to be
  proved and not part of the model.
\<close>

definition and_then :: "('s, 'a, 'e) prog \<Rightarrow> ('a \<Rightarrow> ('s, 'b, 'e) prog) \<Rightarrow> ('s, 'b, 'e) prog" where
  "and_then m k s = (case m s of (r, s') \<Rightarrow>
     (case r of Ok x \<Rightarrow> k x s' | Err e \<Rightarrow> (Err e, s') | Panic \<Rightarrow> (Panic, s')))"

definition ret :: "'a \<Rightarrow> ('s, 'a, 'e) prog" where
  "ret x s = (Ok x, s)"

definition fail :: "'e \<Rightarrow> ('s, 'a, 'e) prog" where
  "fail e s = (Err e, s)"

definition panic :: "('s, 'a, 'e) prog" where
  "panic s = (Panic, s)"

definition query :: "('s \<Rightarrow> ('a, 'e) result) \<Rightarrow> ('s, 'a, 'e) prog" where
  "query f s = (f s, s)"

definition modify :: "('s \<Rightarrow> 's) \<Rightarrow> ('s, unit, 'e) prog" where
  "modify f s = (Ok (), f s)"

lemma prog_apply [simp]:
  "ret x s = (Ok x, s)" "fail e s = (Err e, s)" "panic s = (Panic, s)"
  "query f s = (f s, s)" "modify g s = (Ok (), g s)"
  by (simp_all add: ret_def fail_def panic_def query_def modify_def)

lemma and_then_Ok:
  "and_then m k s = (Ok y, s'') \<longleftrightarrow> (\<exists>x s'. m s = (Ok x, s') \<and> k x s' = (Ok y, s''))"
  by (auto simp: and_then_def split: prod.splits result.splits)

lemma and_then_Err:
  "and_then m k s = (Err e, s'') \<longleftrightarrow>
     m s = (Err e, s'') \<or> (\<exists>x s'. m s = (Ok x, s') \<and> k x s' = (Err e, s''))"
  by (auto simp: and_then_def split: prod.splits result.splits)

lemma and_then_Panic:
  "and_then m k s = (Panic, s'') \<longleftrightarrow>
     m s = (Panic, s'') \<or> (\<exists>x s'. m s = (Ok x, s') \<and> k x s' = (Panic, s''))"
  by (auto simp: and_then_def split: prod.splits result.splits)

lemma and_then_eval [outcome_simps]:
  "m s = (Ok x, s') \<Longrightarrow> and_then m k s = k x s'"
  "m s = (Err e, s') \<Longrightarrow> and_then m k s = (Err e, s')"
  "m s = (Panic, s') \<Longrightarrow> and_then m k s = (Panic, s')"
  by (simp_all add: and_then_def)

lemmas and_then_cases = and_then_Ok and_then_Err and_then_Panic

lemma and_then_query:
  "and_then (query f) k s =
     (case f s of Ok x \<Rightarrow> k x s | Err e \<Rightarrow> (Err e, s) | Panic \<Rightarrow> (Panic, s))"
  by (simp add: and_then_def)

text \<open>Either branch of a conditional, forgetting the condition.\<close>

lemma if_eqE: "(if c then a else b) = x \<Longrightarrow> (a = x \<Longrightarrow> R) \<Longrightarrow> (b = x \<Longrightarrow> R) \<Longrightarrow> R"
  by (cases c) simp_all

lemma map_of_rev_distinct: "distinct (map fst xs) \<Longrightarrow> map_of (rev xs) = map_of xs"
  by (subst map_of_inject_set) (simp_all flip: rev_map)

section \<open>Ordered finite maps\<close>

text \<open>
  \<open>('k, 'v) omap\<close> is a finite map with its entries in increasing order of the keys: a
  \<open>BTreeMap\<close> as it is iterated. A \<open>HashMap\<close> is the same type: its iteration order is not
  specified in Rust, and the theorems about code that iterates one do not depend on it, or
  say so.
\<close>

typedef (overloaded) ('k::linorder, 'v) omap =
    "{xs :: ('k \<times> 'v) list. sorted_wrt (<) (map fst xs)}"
  morphisms om_entries Abs_omap
  by (rule exI [of _ "[]"]) simp

setup_lifting type_definition_omap

lift_definition om_empty :: "('k::linorder, 'v) omap" is "[]"
  by simp

fun ins_entry :: "'k::linorder \<Rightarrow> 'v \<Rightarrow> ('k \<times> 'v) list \<Rightarrow> ('k \<times> 'v) list" where
  "ins_entry k v [] = [(k, v)]"
| "ins_entry k v ((k', v') # xs) =
     (if k < k' then (k, v) # (k', v') # xs
      else if k = k' then (k, v) # xs
      else (k', v') # ins_entry k v xs)"

lemma set_map_fst_ins_entry: "fst ` set (ins_entry k v xs) = insert k (fst ` set xs)"
  by (induction k v xs rule: ins_entry.induct) auto

lemma sorted_ins_entry:
  "sorted_wrt (<) (map fst xs) \<Longrightarrow> sorted_wrt (<) (map fst (ins_entry k v xs))"
proof (induction k v xs rule: ins_entry.induct)
  case (2 k v k' v' xs)
  have "\<forall>x \<in> fst ` set (ins_entry k v xs). k' < x" if "k' < k"
    using 2 that by (auto simp: set_map_fst_ins_entry)
  with 2 show ?case by (auto simp: not_less order.order_iff_strict)
qed simp

lift_definition om_insert :: "'k::linorder \<Rightarrow> 'v \<Rightarrow> ('k, 'v) omap \<Rightarrow> ('k, 'v) omap" is ins_entry
  by (rule sorted_ins_entry)

lift_definition om_remove :: "'k::linorder \<Rightarrow> ('k, 'v) omap \<Rightarrow> ('k, 'v) omap"
  is "\<lambda>k. filter (\<lambda>e. fst e \<noteq> k)"
  by (simp add: sorted_wrt_map sorted_wrt_filter)

lift_definition om_lookup :: "('k::linorder, 'v) omap \<Rightarrow> 'k \<Rightarrow> 'v option" is map_of .

definition om_len :: "('k::linorder, 'v) omap \<Rightarrow> nat" where
  "om_len m = length (om_entries m)"

definition om_dom :: "('k::linorder, 'v) omap \<Rightarrow> 'k set" where
  "om_dom m = dom (om_lookup m)"

text \<open>\<open>collect()\<close> into a map: later entries of a key replace earlier ones.\<close>

definition om_of_list :: "('k::linorder \<times> 'v) list \<Rightarrow> ('k, 'v) omap" where
  "om_of_list xs = fold (\<lambda>(k, v). om_insert k v) xs om_empty"

lemma om_entries_sorted [simp]: "sorted_wrt (<) (map fst (om_entries m))"
  using om_entries [of m] by simp

lemma om_entries_distinct [simp]: "distinct (map fst (om_entries m))"
  using strict_sorted_iff [of "map fst (om_entries m)"] by simp

lemma om_entries_sorted_le [simp]: "sorted (map fst (om_entries m))"
  using strict_sorted_iff [of "map fst (om_entries m)"] by simp

lemma om_entries_simps [simp]:
  "om_entries om_empty = []"
  "om_entries (om_insert k v m) = ins_entry k v (om_entries m)"
  "om_entries (om_remove k m) = filter (\<lambda>e. fst e \<noteq> k) (om_entries m)"
  by (transfer, simp)+

lemma om_lookup_entries: "om_lookup m = map_of (om_entries m)"
  by transfer simp

lemma map_of_ins_entry: "map_of (ins_entry k v xs) = (map_of xs)(k \<mapsto> v)"
  by (induction k v xs rule: ins_entry.induct) auto

lemma om_lookup_empty [simp]: "om_lookup om_empty = Map.empty"
  by transfer simp

lemma om_lookup_insert [simp]: "om_lookup (om_insert k v m) = (om_lookup m)(k \<mapsto> v)"
  by transfer (rule map_of_ins_entry)

lemma map_of_filter_key: "map_of (filter (\<lambda>e. fst e \<noteq> k) xs) = (map_of xs)(k := None)"
  by (induction xs) auto

lemma om_lookup_remove [simp]: "om_lookup (om_remove k m) = (om_lookup m)(k := None)"
  by transfer (rule map_of_filter_key)

lemma om_eqI:
  assumes "om_lookup m = om_lookup m'"
  shows "m = m'"
proof -
  have "set (om_entries m) = set (om_entries m')"
    using assms by (simp add: om_lookup_entries map_of_inject_set)
  then have "om_entries m = om_entries m'"
    by (intro map_sorted_distinct_set_unique [of fst])
       (auto simp: inj_on_def eq_key_imp_eq_value strict_sorted_iff
         intro: eq_key_imp_eq_value [OF om_entries_distinct])
  then show ?thesis by (simp add: om_entries_inject)
qed

lemma om_eq_iff: "m = m' \<longleftrightarrow> om_lookup m = om_lookup m'"
  using om_eqI by blast

lemma finite_om_dom [simp]: "finite (om_dom m)"
  by (simp add: om_dom_def om_lookup_entries finite_dom_map_of)

lemma in_om_dom: "k \<in> om_dom m \<longleftrightarrow> om_lookup m k \<noteq> None"
  by (auto simp: om_dom_def)

lemma om_dom_simps [simp]:
  "om_dom om_empty = {}"
  "om_dom (om_insert k v m) = insert k (om_dom m)"
  "om_dom (om_remove k m) = om_dom m - {k}"
  by (auto simp: om_dom_def split: if_splits)

lemma om_dom_entries: "om_dom m = fst ` set (om_entries m)"
  by (simp add: om_dom_def om_lookup_entries dom_map_of_conv_image_fst)

lemma om_len_card: "om_len m = card (om_dom m)"
  by (metis om_dom_entries om_entries_distinct om_len_def distinct_card length_map set_map)

lemma om_len_empty [simp]: "om_len om_empty = 0"
  by (simp add: om_len_def)

lemma om_len_zero: "om_len m = 0 \<longleftrightarrow> om_lookup m = Map.empty"
  by (metis card_0_eq dom_eq_empty_conv finite_om_dom om_dom_def om_len_card)

lemma om_entries_mem: "(k, v) \<in> set (om_entries m) \<longleftrightarrow> om_lookup m k = Some v"
  by (simp add: om_lookup_entries)

lemma om_entries_eq_Nil [simp]: "om_entries m = [] \<longleftrightarrow> m = om_empty"
  by (metis om_entries_inject om_entries_simps(1))

lemma fold_om_insert:
  "om_lookup (fold (\<lambda>(k, v). om_insert k v) xs m) = om_lookup m ++ map_of (rev xs)"
  by (induction xs arbitrary: m) (auto simp: map_add_def split: option.splits)

lemma om_lookup_of_list: "om_lookup (om_of_list xs) = map_of (rev xs)"
  by (simp add: om_of_list_def fold_om_insert)

lemma om_of_list_entries [simp]: "om_of_list (om_entries m) = m"
  by (rule om_eqI)
     (metis distinct_map distinct_rev map_of_inject_set om_entries_distinct om_lookup_entries
        om_lookup_of_list rev_map set_rev)

text \<open>Normal form of a map built by updates: keys in increasing order, each once.\<close>

lemma om_insert_swap: "k' < k \<Longrightarrow> om_insert k v (om_insert k' v' m) = om_insert k' v' (om_insert k v m)"
  by (rule om_eqI) (auto simp: fun_eq_iff)

lemma om_remove_insert_eq: "om_remove k (om_insert k' v m) = (if k = k' then om_remove k m else om_insert k' v (om_remove k m))"
  by (rule om_eqI) (auto simp: fun_eq_iff)

lemma om_remove_empty: "om_remove k om_empty = om_empty"
  by (rule om_eqI) auto

lemmas om_eval = om_insert_swap om_remove_insert_eq om_remove_empty

text \<open>The sum of a measure of the values of a map.\<close>

definition om_sum :: "('v \<Rightarrow> nat) \<Rightarrow> ('k::linorder, 'v) omap \<Rightarrow> nat" where
  "om_sum f m = sum_list (map (\<lambda>(k, v). f v) (om_entries m))"

lemma om_remove_absent: "om_lookup m k = None \<Longrightarrow> om_remove k m = m"
  by (rule om_eqI) auto

lemma om_sum_empty [simp]: "om_sum f om_empty = 0"
  by (simp add: om_sum_def)

lemma om_remove_insert: "om_remove k (om_insert k v m) = om_remove k m"
  by (rule om_eqI) auto

lemma om_insert_insert [simp]: "om_insert k v (om_insert k v' m) = om_insert k v m"
  by (rule om_eqI) auto

lemma sum_list_filter_key:
  "distinct (map fst xs) \<Longrightarrow> map_of xs k = Some v \<Longrightarrow>
   sum_list (map (\<lambda>(k, v). f v) xs) =
     f v + sum_list (map (\<lambda>(k, v). f v) (filter (\<lambda>e. fst e \<noteq> k) xs))" for f :: "'v \<Rightarrow> nat"
proof (induction xs)
  case (Cons a xs)
  obtain k' v' where a: "a = (k', v')" by (cases a)
  have "filter (\<lambda>e. fst e \<noteq> k) xs = xs" if "k' = k"
    using Cons.prems(1) that by (auto simp: a filter_id_conv)
  with Cons show ?case by (auto simp: a split: if_splits)
qed simp

lemma om_sum_remove:
  "om_lookup m k = Some v \<Longrightarrow> om_sum f m = f v + om_sum f (om_remove k m)"
  by (simp add: om_sum_def om_lookup_entries sum_list_filter_key)

lemma om_sum_insert: "om_sum f (om_insert k v m) = f v + om_sum f (om_remove k m)"
  using om_sum_remove [of "om_insert k v m" k v f] by (simp add: om_remove_insert del: om_entries_simps)

lemma om_sum_insert_new: "om_lookup m k = None \<Longrightarrow> om_sum f (om_insert k v m) = f v + om_sum f m"
  by (simp add: om_sum_insert om_remove_absent)

lemma om_sum_update:
  "om_lookup m k = Some v \<Longrightarrow> om_sum f (om_insert k v' m) + f v = om_sum f m + f v'"
  by (simp add: om_sum_insert om_sum_remove)

lemma om_sum_le: "om_lookup m k = Some v \<Longrightarrow> f v \<le> om_sum f m"
  by (simp add: om_sum_remove)

text \<open>Library type classes for the map type: executable equality, and the size as a \<open>len()\<close>.\<close>

instantiation omap :: (linorder, equal) equal
begin

definition equal_omap :: "('a, 'b) omap \<Rightarrow> ('a, 'b) omap \<Rightarrow> bool" where
  "equal_omap m m' \<longleftrightarrow> om_entries m = om_entries m'"

instance
  by standard (simp add: equal_omap_def om_entries_inject)

end

instantiation omap :: (linorder, type) size
begin

definition size_omap :: "('a, 'b) omap \<Rightarrow> nat" where
  "size_omap m = om_len m"

instance ..

end

section \<open>The map interface\<close>

text \<open>
  What the components rely on when they use a \<open>HashMap\<close> or a \<open>BTreeMap\<close>: the laws of
  lookup against insert and remove, and the length as the number of keys.
\<close>

locale rust_map =
  fixes mempty :: 'm
    and minsert :: "'k \<Rightarrow> 'v \<Rightarrow> 'm \<Rightarrow> 'm"
    and mremove :: "'k \<Rightarrow> 'm \<Rightarrow> 'm"
    and mget :: "'m \<Rightarrow> 'k \<Rightarrow> 'v option"
    and mlen :: "'m \<Rightarrow> nat"
  assumes mget_empty: "mget mempty k = None"
    and mget_insert: "mget (minsert k v m) k' = (if k' = k then Some v else mget m k')"
    and mget_remove: "mget (mremove k m) k' = (if k' = k then None else mget m k')"
    and mfinite: "finite (dom (mget m))"
    and mlen_dom: "mlen m = card (dom (mget m))"
begin

lemma mlen_insert:
  "mlen (minsert k v m) = (if mget m k = None then Suc (mlen m) else mlen m)"
proof -
  have "mget (minsert k v m) = (mget m)(k \<mapsto> v)"
    by (rule ext) (simp add: mget_insert)
  then show ?thesis by (simp add: mlen_dom card_insert_if mfinite domIff)
qed

lemma mlen_remove:
  "mlen (mremove k m) = (if mget m k = None then mlen m else mlen m - 1)"
proof -
  have "mget (mremove k m) = (mget m)(k := None)"
    by (rule ext) (simp add: mget_remove)
  then show ?thesis by (simp add: mlen_dom card_Diff_singleton_if domIff mfinite)
qed

lemma remove_insert_get: "mget m k = None \<Longrightarrow> mget (mremove k (minsert k v m)) = mget m"
  by (rule ext) (auto simp: mget_insert mget_remove)

end

interpretation om: rust_map om_empty om_insert om_remove om_lookup om_len
  by unfold_locales (simp_all add: om_len_card om_dom_def, simp add: om_dom_def [symmetric])

lemmas om_len_insert = om.mlen_insert
lemmas om_len_remove = om.mlen_remove

end
