(* ===== verification/MemFs.thy ===== *)
theory MemFs
  imports Prelude
begin

text \<open>
  The inode-keyed in-memory filesystem, \<open>crates/devdev-workspace/src/mem.rs\<close>: its data, its
  internal helpers and every operation keyed by inode number. An operation is a program over
  the record \<open>fs\<close>; where the code samples its clock (\<open>self.now()\<close>) the sampled value is an
  argument, one argument for each call the operation makes.
\<close>

section \<open>Data\<close>

datatype ino = Ino (raw: u64)

instantiation ino :: linorder
begin

definition less_eq_ino :: "ino \<Rightarrow> ino \<Rightarrow> bool" where
  "less_eq_ino a b \<longleftrightarrow> raw a \<le> raw b"

definition less_ino :: "ino \<Rightarrow> ino \<Rightarrow> bool" where
  "less_ino a b \<longleftrightarrow> raw a < raw b"

instance
  by standard (auto simp: less_eq_ino_def less_ino_def intro: ino.expand)

end

lemma less_ino_simps [simp]:
  "Ino a < Ino b \<longleftrightarrow> a < b"
  "Ino a \<le> Ino b \<longleftrightarrow> a \<le> b"
  by (simp_all add: less_ino_def less_eq_ino_def)

definition ROOT_INO :: ino where "ROOT_INO = Ino 1"
definition DEFAULT_LIMIT :: u64 where "DEFAULT_LIMIT = 2 * 1024 * 1024 * 1024"
definition NAME_MAX :: nat where "NAME_MAX = 255"

text \<open>The octal literals \<open>0o755\<close>, \<open>0o644\<close> and \<open>0o777\<close>.\<close>

definition MODE_755 :: u16 where "MODE_755 = 7 * 64 + 5 * 8 + 5"
definition MODE_644 :: u16 where "MODE_644 = 6 * 64 + 4 * 8 + 4"
definition MODE_777 :: u16 where "MODE_777 = 7 * 64 + 7 * 8 + 7"

datatype kind = KFile | KDirectory | KSymlink

record timespec =
  secs :: u64  \<comment> \<open>an \<open>i64\<close>, read with \<open>sint\<close>\<close>
  nanos :: u32

record inode_attr =
  a_ino :: ino
  a_kind :: kind
  a_mode :: u16
  a_uid :: u32
  a_gid :: u32
  a_nlink :: u32
  a_size :: u64
  a_atime :: timespec
  a_mtime :: timespec
  a_ctime :: timespec
  a_crtime :: timespec

record set_attr =
  sa_mode :: "u16 option"
  sa_uid :: "u32 option"
  sa_gid :: "u32 option"
  sa_size :: "u64 option"
  sa_atime :: "timespec option"
  sa_mtime :: "timespec option"
  sa_ctime :: "timespec option"

definition set_attr_default :: set_attr where
  "set_attr_default = \<lparr>sa_mode = None, sa_uid = None, sa_gid = None, sa_size = None,
     sa_atime = None, sa_mtime = None, sa_ctime = None\<rparr>"

datatype errno = NoEnt | Exist | IsDir | NotDir | NotEmpty | Mlink | Acces | Inval | NoSpc
  | Io | NameTooLong | BadF | NoSys

record dir_entry =
  de_ino :: ino
  de_kind :: kind
  de_name :: bytes

datatype body = File (file_content: bytes) | Dir (dir_entries: "(bytes, ino) omap") | Symlink (link_target: bytes)

record inode =
  i_attr :: inode_attr
  i_body :: body
  i_parent :: "ino option"

record fs =
  inodes :: "(ino, inode) omap"
  next_ino :: u64
  bytes_used :: u64
  bytes_limit :: u64

type_synonym 'a fs_prog = "(fs, 'a, errno) prog"

definition new_attr :: "ino \<Rightarrow> kind \<Rightarrow> u16 \<Rightarrow> u32 \<Rightarrow> u64 \<Rightarrow> timespec \<Rightarrow> inode_attr" where
  "new_attr i k mode nlink sz now = \<lparr>a_ino = i, a_kind = k, a_mode = mode, a_uid = 0,
     a_gid = 0, a_nlink = nlink, a_size = sz, a_atime = now, a_mtime = now, a_ctime = now,
     a_crtime = now\<rparr>"

definition with_limit :: "u64 \<Rightarrow> timespec \<Rightarrow> fs" where
  "with_limit limit now = \<lparr>
     inodes = om_insert ROOT_INO
       \<lparr>i_attr = new_attr ROOT_INO KDirectory MODE_755 2 0 now,
        i_body = Dir om_empty, i_parent = Some ROOT_INO\<rparr> om_empty,
     next_ino = raw ROOT_INO + 1,
     bytes_used = 0,
     bytes_limit = limit\<rparr>"

definition new :: "timespec \<Rightarrow> fs" where
  "new now = with_limit DEFAULT_LIMIT now"

section \<open>Internal helpers\<close>

definition get :: "fs \<Rightarrow> ino \<Rightarrow> (inode, errno) result" where
  "get s i = ok_or (om_lookup (inodes s) i) NoEnt"

text \<open>
  \<open>get_mut i f\<close> is \<open>let node = self.get_mut(i)?\<close> followed by the mutation \<open>f\<close> of the node;
  \<open>if_present i f\<close> is the same under \<open>if let Some(node)\<close>, which does nothing when the inode
  does not exist.
\<close>

definition get_mut :: "ino \<Rightarrow> (inode \<Rightarrow> (inode, errno) result) \<Rightarrow> unit fs_prog" where
  "get_mut i f s = (case om_lookup (inodes s) i of
     None \<Rightarrow> (Err NoEnt, s)
   | Some n \<Rightarrow> (case f n of
       Ok n' \<Rightarrow> (Ok (), s\<lparr>inodes := om_insert i n' (inodes s)\<rparr>)
     | Err e \<Rightarrow> (Err e, s)
     | Panic \<Rightarrow> (Panic, s)))"

definition if_present :: "ino \<Rightarrow> (inode \<Rightarrow> (inode, errno) result) \<Rightarrow> unit fs_prog" where
  "if_present i f s = (if om_lookup (inodes s) i = None then (Ok (), s) else get_mut i f s)"

definition put_node :: "ino \<Rightarrow> inode \<Rightarrow> unit fs_prog" where
  "put_node i n = modify (\<lambda>s. s\<lparr>inodes := om_insert i n (inodes s)\<rparr>)"

definition drop_node :: "ino \<Rightarrow> unit fs_prog" where
  "drop_node i = modify (\<lambda>s. s\<lparr>inodes := om_remove i (inodes s)\<rparr>)"

definition alloc_ino :: "ino fs_prog" where
  "alloc_ino s = (if next_ino s = - 1 then (Panic, s)
     else (Ok (Ino (next_ino s)), s\<lparr>next_ino := next_ino s + 1\<rparr>))"

text \<open>\<open>bytes_used.checked_add(n).is_none_or(|u| u > bytes_limit)\<close>\<close>

definition over_limit :: "fs \<Rightarrow> u64 \<Rightarrow> bool" where
  "over_limit s n = (case checked_add (bytes_used s) n of None \<Rightarrow> True | Some u \<Rightarrow> bytes_limit s < u)"

text \<open>\<open>self.bytes_used += n\<close> and \<open>self.bytes_used -= n\<close>\<close>

definition add_bytes :: "u64 \<Rightarrow> unit fs_prog" where
  "add_bytes n s = (case checked_add (bytes_used s) n of
     None \<Rightarrow> (Panic, s) | Some u \<Rightarrow> (Ok (), s\<lparr>bytes_used := u\<rparr>))"

definition sub_bytes :: "u64 \<Rightarrow> unit fs_prog" where
  "sub_bytes n s = (if bytes_used s < n then (Panic, s)
     else (Ok (), s\<lparr>bytes_used := bytes_used s - n\<rparr>))"

definition validate_name :: "bytes \<Rightarrow> (unit, errno) result" where
  "validate_name name =
     (if name = [] \<or> name = ''.'' \<or> name = ''..'' then Err Inval
      else if length name > NAME_MAX then Err NameTooLong
      else if list_ex (\<lambda>b. b = CHR ''/'' \<or> b = CHR 0x00) name then Err Inval
      else Ok ())"

definition entries_of :: "fs \<Rightarrow> ino \<Rightarrow> ((bytes, ino) omap, errno) result" where
  "entries_of s parent = res_bind (get s parent) (\<lambda>p.
     case i_body p of Dir e \<Rightarrow> Ok e | _ \<Rightarrow> Err NotDir)"

definition ensure_dir_no_entry :: "fs \<Rightarrow> ino \<Rightarrow> bytes \<Rightarrow> (unit, errno) result" where
  "ensure_dir_no_entry s parent name = res_bind (entries_of s parent) (\<lambda>e.
     if om_lookup e name \<noteq> None then Err Exist else Ok ())"

definition child_ino :: "fs \<Rightarrow> ino \<Rightarrow> bytes \<Rightarrow> (ino, errno) result" where
  "child_ino s parent name = res_bind (entries_of s parent) (\<lambda>e. ok_or (om_lookup e name) NoEnt)"

text \<open>The update both entry operations make to the directory that holds the entry.\<close>

definition set_entries :: "(bytes, ino) omap \<Rightarrow> timespec \<Rightarrow> inode \<Rightarrow> inode" where
  "set_entries e now p = p\<lparr>i_body := Dir e,
     i_attr := (i_attr p)\<lparr>a_size := of_nat (om_len e), a_mtime := now, a_ctime := now\<rparr>\<rparr>"

definition insert_entry :: "ino \<Rightarrow> bytes \<Rightarrow> ino \<Rightarrow> timespec \<Rightarrow> unit fs_prog" where
  "insert_entry parent name child now = get_mut parent (\<lambda>p.
     case i_body p of
       Dir e \<Rightarrow> Ok (set_entries (om_insert name child e) now p)
     | _ \<Rightarrow> Err NotDir)"

definition remove_entry :: "ino \<Rightarrow> bytes \<Rightarrow> timespec \<Rightarrow> unit fs_prog" where
  "remove_entry parent name now = get_mut parent (\<lambda>p.
     case i_body p of
       Dir e \<Rightarrow> (case om_lookup e name of
           None \<Rightarrow> Err NoEnt
         | Some c \<Rightarrow> Ok (set_entries (om_remove name e) now p))
     | _ \<Rightarrow> Err NotDir)"

definition map_attr :: "(inode_attr \<Rightarrow> inode_attr) \<Rightarrow> inode \<Rightarrow> inode" where
  "map_attr f n = n\<lparr>i_attr := f (i_attr n)\<rparr>"

text \<open>\<open>attr.nlink += 1\<close> and \<open>attr.nlink -= 1\<close>\<close>

definition incr_nlink :: "inode \<Rightarrow> (inode, errno) result" where
  "incr_nlink n = (case checked_add (a_nlink (i_attr n)) 1 of
     None \<Rightarrow> Panic | Some k \<Rightarrow> Ok (map_attr (a_nlink_update (\<lambda>_. k)) n))"

definition decr_nlink :: "inode \<Rightarrow> (inode, errno) result" where
  "decr_nlink n = (if a_nlink (i_attr n) = 0 then Panic
     else Ok (map_attr (\<lambda>a. a\<lparr>a_nlink := a_nlink a - 1\<rparr>) n))"

definition parent_or_root :: "inode \<Rightarrow> ino" where
  "parent_or_root n = (case i_parent n of Some p \<Rightarrow> p | None \<Rightarrow> ROOT_INO)"

section \<open>Inode introspection and lookup\<close>

definition getattr :: "fs \<Rightarrow> ino \<Rightarrow> (inode_attr, errno) result" where
  "getattr s i = res_bind (get s i) (\<lambda>n. Ok (i_attr n))"

definition lookup :: "fs \<Rightarrow> ino \<Rightarrow> bytes \<Rightarrow> (inode_attr, errno) result" where
  "lookup s parent name =
     res_bind (validate_name name) (\<lambda>_.
     res_bind (entries_of s parent) (\<lambda>e.
     res_bind (ok_or (om_lookup e name) NoEnt) (\<lambda>i.
     getattr s i)))"

section \<open>File I/O\<close>

definition read :: "fs \<Rightarrow> ino \<Rightarrow> u64 \<Rightarrow> u32 \<Rightarrow> (bytes, errno) result" where
  "read s i offset sz = res_bind (get s i) (\<lambda>node.
     case i_body node of
       Dir _ \<Rightarrow> Err IsDir
     | Symlink _ \<Rightarrow> Err Inval
     | File content \<Rightarrow>
         (let len = of_nat (length content) in
          if len < offset then Ok []
          else let start = unat offset;
                   end = unat (min (saturating_add offset (ucast sz)) len)
               in Ok (take (end - start) (drop start content))))"

text \<open>\<open>Vec::resize(n, 0)\<close>, which panics when the new length is above \<open>isize::MAX\<close>.\<close>

definition vec_resize :: "nat \<Rightarrow> bytes \<Rightarrow> (bytes, errno) result" where
  "vec_resize n c = (if n \<le> length c then Ok (take n c)
     else if isize_max < int n then Panic
     else Ok (c @ replicate (n - length c) (CHR 0x00)))"

text \<open>\<open>content[start..start + data.len()].copy_from_slice(data)\<close>\<close>

definition copy_into :: "bytes \<Rightarrow> nat \<Rightarrow> bytes \<Rightarrow> (bytes, errno) result" where
  "copy_into c start data =
     (if length c < start + length data then Panic
      else Ok (take start c @ data @ drop (start + length data) c))"

definition set_file :: "bytes \<Rightarrow> u64 \<Rightarrow> timespec \<Rightarrow> inode \<Rightarrow> inode" where
  "set_file c sz now n = n\<lparr>i_body := File c,
     i_attr := (i_attr n)\<lparr>a_size := sz, a_mtime := now, a_ctime := now\<rparr>\<rparr>"

definition write_bytes :: "ino \<Rightarrow> u64 \<Rightarrow> bytes \<Rightarrow> timespec \<Rightarrow> u32 fs_prog" where
  "write_bytes i offset data now =
     and_then (query (\<lambda>s. get s i)) (\<lambda>node.
     and_then (case i_body node of File _ \<Rightarrow> ret () | Dir _ \<Rightarrow> fail IsDir | Symlink _ \<Rightarrow> fail Inval) (\<lambda>_.
     let old_len = a_size (i_attr node);
         new_end = saturating_add offset (of_nat (length data));
         new_len = max old_len new_end;
         delta = saturating_sub new_len old_len in
     and_then (query (\<lambda>s. if over_limit s delta then Err NoSpc else Ok ())) (\<lambda>_.
     and_then (get_mut i (\<lambda>node. case i_body node of
         File content \<Rightarrow>
           res_bind (if length content < unat new_len then vec_resize (unat new_len) content
                     else Ok content) (\<lambda>content.
           res_bind (copy_into content (unat offset) data) (\<lambda>content.
           Ok (set_file content new_len now node)))
       | _ \<Rightarrow> Panic)) (\<lambda>_.
     and_then (add_bytes delta) (\<lambda>_.
     ret (of_nat (length data)))))))"

definition truncate_file :: "ino \<Rightarrow> u64 \<Rightarrow> timespec \<Rightarrow> unit fs_prog" where
  "truncate_file i new_size now =
     and_then (query (\<lambda>s. get s i)) (\<lambda>node.
     and_then (case i_body node of File _ \<Rightarrow> ret () | Dir _ \<Rightarrow> fail IsDir | Symlink _ \<Rightarrow> fail Inval) (\<lambda>_.
     let old_len = a_size (i_attr node) in
     and_then (if old_len < new_size then
         and_then (query (\<lambda>s. if over_limit s (new_size - old_len) then Err NoSpc else Ok ())) (\<lambda>_.
         add_bytes (new_size - old_len))
       else sub_bytes (old_len - new_size)) (\<lambda>_.
     get_mut i (\<lambda>node. case i_body node of
         File content \<Rightarrow> res_bind (vec_resize (unat new_size) content) (\<lambda>content.
           Ok (set_file content new_size now node))
       | _ \<Rightarrow> Panic))))"

definition apply_set_attr :: "set_attr \<Rightarrow> timespec \<Rightarrow> inode_attr \<Rightarrow> inode_attr" where
  "apply_set_attr sa now a = (
     let a = (case sa_mode sa of Some m \<Rightarrow> a\<lparr>a_mode := m\<rparr> | None \<Rightarrow> a);
         a = (case sa_uid sa of Some u \<Rightarrow> a\<lparr>a_uid := u\<rparr> | None \<Rightarrow> a);
         a = (case sa_gid sa of Some g \<Rightarrow> a\<lparr>a_gid := g\<rparr> | None \<Rightarrow> a);
         a = (case sa_atime sa of Some t \<Rightarrow> a\<lparr>a_atime := t\<rparr> | None \<Rightarrow> a);
         a = (case sa_mtime sa of Some t \<Rightarrow> a\<lparr>a_mtime := t\<rparr> | None \<Rightarrow> a)
     in (case sa_ctime sa of Some t \<Rightarrow> a\<lparr>a_ctime := t\<rparr> | None \<Rightarrow> a\<lparr>a_ctime := now\<rparr>))"

text \<open>\<open>setattr\<close> samples the clock in \<open>truncate\<close> (\<open>now1\<close>) and then itself (\<open>now2\<close>).\<close>

definition setattr :: "ino \<Rightarrow> set_attr \<Rightarrow> timespec \<Rightarrow> timespec \<Rightarrow> inode_attr fs_prog" where
  "setattr i sa now1 now2 =
     and_then (case sa_size sa of Some new_size \<Rightarrow> truncate_file i new_size now1 | None \<Rightarrow> ret ()) (\<lambda>_.
     and_then (get_mut i (\<lambda>node. Ok (map_attr (apply_set_attr sa now2) node))) (\<lambda>_.
     query (\<lambda>s. getattr s i)))"

section \<open>Directory operations\<close>

definition mkdir :: "ino \<Rightarrow> bytes \<Rightarrow> u16 \<Rightarrow> timespec \<Rightarrow> inode_attr fs_prog" where
  "mkdir parent name mode now =
     and_then (query (\<lambda>_. validate_name name)) (\<lambda>_.
     and_then (query (\<lambda>s. ensure_dir_no_entry s parent name)) (\<lambda>_.
     and_then alloc_ino (\<lambda>i.
     and_then (put_node i \<lparr>i_attr = new_attr i KDirectory mode 2 0 now, i_body = Dir om_empty,
        i_parent = Some parent\<rparr>) (\<lambda>_.
     and_then (insert_entry parent name i now) (\<lambda>_.
     and_then (get_mut parent incr_nlink) (\<lambda>_.
     query (\<lambda>s. getattr s i)))))))"

definition rmdir :: "ino \<Rightarrow> bytes \<Rightarrow> timespec \<Rightarrow> unit fs_prog" where
  "rmdir parent name now =
     and_then (query (\<lambda>_. validate_name name)) (\<lambda>_.
     and_then (query (\<lambda>s. child_ino s parent name)) (\<lambda>target.
     and_then (query (\<lambda>s. get s target)) (\<lambda>node.
     and_then (case i_body node of
         Dir entries \<Rightarrow> if om_len entries \<noteq> 0 then fail NotEmpty else ret ()
       | _ \<Rightarrow> fail NotDir) (\<lambda>_.
     and_then (remove_entry parent name now) (\<lambda>_.
     and_then (get_mut parent decr_nlink) (\<lambda>_.
     drop_node target))))))"

fun child_dir_entries :: "fs \<Rightarrow> (bytes \<times> ino) list \<Rightarrow> (dir_entry list, errno) result" where
  "child_dir_entries s [] = Ok []"
| "child_dir_entries s ((name, i) # es) =
     res_bind (getattr s i) (\<lambda>a.
     res_bind (child_dir_entries s es) (\<lambda>rest.
     Ok (\<lparr>de_ino = i, de_kind = a_kind a, de_name = name\<rparr> # rest)))"

definition readdir :: "fs \<Rightarrow> ino \<Rightarrow> u64 \<Rightarrow> (dir_entry list, errno) result" where
  "readdir s i offset =
     res_bind (get s i) (\<lambda>node.
     res_bind (case i_body node of Dir e \<Rightarrow> Ok e | _ \<Rightarrow> Err NotDir) (\<lambda>entries.
     let dot = \<lparr>de_ino = i, de_kind = KDirectory, de_name = ''.''\<rparr>;
         dotdot = \<lparr>de_ino = parent_or_root node, de_kind = KDirectory, de_name = ''..''\<rparr> in
     res_bind (child_dir_entries s (om_entries entries)) (\<lambda>rest.
     let all = dot # dotdot # rest in
     if length all \<le> unat offset then Ok [] else Ok (drop (unat offset) all))))"

section \<open>File create and unlink\<close>

definition create :: "ino \<Rightarrow> bytes \<Rightarrow> u16 \<Rightarrow> timespec \<Rightarrow> inode_attr fs_prog" where
  "create parent name mode now =
     and_then (query (\<lambda>_. validate_name name)) (\<lambda>_.
     and_then (query (\<lambda>s. ensure_dir_no_entry s parent name)) (\<lambda>_.
     and_then alloc_ino (\<lambda>i.
     and_then (put_node i \<lparr>i_attr = new_attr i KFile mode 1 0 now, i_body = File [],
        i_parent = None\<rparr>) (\<lambda>_.
     and_then (insert_entry parent name i now) (\<lambda>_.
     query (\<lambda>s. getattr s i))))))"

fun body_bytes :: "body \<Rightarrow> nat" where
  "body_bytes (File c) = length c"
| "body_bytes (Symlink t) = length t"
| "body_bytes (Dir e) = 0"

definition unlink :: "ino \<Rightarrow> bytes \<Rightarrow> timespec \<Rightarrow> unit fs_prog" where
  "unlink parent name now =
     and_then (query (\<lambda>_. validate_name name)) (\<lambda>_.
     and_then (query (\<lambda>s. child_ino s parent name)) (\<lambda>target.
     and_then (query (\<lambda>s. get s target)) (\<lambda>node.
     and_then (if is_Dir (i_body node) then fail IsDir else ret ()) (\<lambda>_.
     and_then (remove_entry parent name now) (\<lambda>_.
     and_then (get_mut target (\<lambda>node.
        Ok (map_attr (\<lambda>a. a\<lparr>a_nlink := saturating_sub (a_nlink a) 1\<rparr>) node))) (\<lambda>_.
     and_then (query (\<lambda>s. get s target)) (\<lambda>node.
     if a_nlink (i_attr node) = 0 then
       and_then (modify (\<lambda>s. s\<lparr>bytes_used :=
           saturating_sub (bytes_used s) (of_nat (body_bytes (i_body node)))\<rparr>)) (\<lambda>_.
       drop_node target)
     else ret ())))))))"

section \<open>Symbolic and hard links\<close>

definition symlink :: "ino \<Rightarrow> bytes \<Rightarrow> bytes \<Rightarrow> timespec \<Rightarrow> inode_attr fs_prog" where
  "symlink parent name target now =
     and_then (query (\<lambda>_. validate_name name)) (\<lambda>_.
     and_then (query (\<lambda>s. ensure_dir_no_entry s parent name)) (\<lambda>_.
     let add = of_nat (length target) in
     and_then (query (\<lambda>s. if over_limit s add then Err NoSpc else Ok ())) (\<lambda>_.
     and_then alloc_ino (\<lambda>i.
     and_then (put_node i \<lparr>i_attr = new_attr i KSymlink MODE_777 1 (of_nat (length target)) now,
        i_body = Symlink target, i_parent = None\<rparr>) (\<lambda>_.
     and_then (insert_entry parent name i now) (\<lambda>_.
     and_then (add_bytes add) (\<lambda>_.
     query (\<lambda>s. getattr s i))))))))"

definition readlink :: "fs \<Rightarrow> ino \<Rightarrow> (bytes, errno) result" where
  "readlink s i = res_bind (get s i) (\<lambda>node.
     case i_body node of Symlink t \<Rightarrow> Ok t | Dir _ \<Rightarrow> Err IsDir | File _ \<Rightarrow> Err Inval)"

definition link :: "ino \<Rightarrow> ino \<Rightarrow> bytes \<Rightarrow> timespec \<Rightarrow> inode_attr fs_prog" where
  "link i new_parent new_name now =
     and_then (query (\<lambda>_. validate_name new_name)) (\<lambda>_.
     and_then (query (\<lambda>s. get s i)) (\<lambda>src.
     and_then (if is_Dir (i_body src) then fail IsDir else ret ()) (\<lambda>_.
     and_then (query (\<lambda>s. ensure_dir_no_entry s new_parent new_name)) (\<lambda>_.
     and_then (insert_entry new_parent new_name i now) (\<lambda>_.
     and_then (get_mut i (\<lambda>node. res_bind (incr_nlink node) (\<lambda>node.
        Ok (map_attr (a_ctime_update (\<lambda>_. now)) node)))) (\<lambda>_.
     query (\<lambda>s. getattr s i)))))))"

section \<open>Rename\<close>

text \<open>
  The loop of \<open>is_ancestor_or_self\<close> makes \<open>0..=self.inodes.len()\<close> rounds; the first argument
  counts the rounds that are left.
\<close>

fun ancestor_rounds :: "nat \<Rightarrow> fs \<Rightarrow> ino \<Rightarrow> ino \<Rightarrow> (bool, errno) result" where
  "ancestor_rounds 0 s ancestor cur = Err Io"
| "ancestor_rounds (Suc n) s ancestor cur =
     (if cur = ancestor then Ok True
      else res_bind (get s cur) (\<lambda>node.
        let p = parent_or_root node in
        if p = cur then Ok False else ancestor_rounds n s ancestor p))"

definition is_ancestor_or_self :: "fs \<Rightarrow> ino \<Rightarrow> ino \<Rightarrow> (bool, errno) result" where
  "is_ancestor_or_self s ancestor descendant =
     ancestor_rounds (Suc (om_len (inodes s))) s ancestor descendant"

text \<open>The overwrite of an existing destination: \<open>Ok True\<close> says that \<open>rename\<close> is finished.\<close>

definition rename_overwrite :: "ino \<Rightarrow> bytes \<Rightarrow> ino \<Rightarrow> bytes \<Rightarrow> ino \<Rightarrow> bool \<Rightarrow> timespec \<Rightarrow> bool fs_prog" where
  "rename_overwrite parent name new_parent new_name src src_is_dir now s =
     (case child_ino s new_parent new_name of
        Ok dst \<Rightarrow>
          (if dst = src then
             and_then (remove_entry parent name now) (\<lambda>_. ret True) s
           else
             and_then (query (\<lambda>s. get s dst)) (\<lambda>dnode.
             and_then (case (src_is_dir, is_Dir (i_body dnode)) of
                 (False, True) \<Rightarrow> fail IsDir
               | (True, False) \<Rightarrow> fail NotDir
               | (True, True) \<Rightarrow> rmdir new_parent new_name now
               | (False, False) \<Rightarrow> unlink new_parent new_name now) (\<lambda>_.
             ret False)) s)
      | _ \<Rightarrow> (Ok False, s))"

definition rename_move :: "ino \<Rightarrow> bytes \<Rightarrow> ino \<Rightarrow> bytes \<Rightarrow> ino \<Rightarrow> bool \<Rightarrow> timespec \<Rightarrow> unit fs_prog" where
  "rename_move parent name new_parent new_name src src_is_dir now =
     and_then (remove_entry parent name now) (\<lambda>_.
     and_then (insert_entry new_parent new_name src now) (\<lambda>_.
     if src_is_dir then
       and_then (if_present src (\<lambda>node.
          Ok (map_attr (a_ctime_update (\<lambda>_. now)) (node\<lparr>i_parent := Some new_parent\<rparr>)))) (\<lambda>_.
       if parent \<noteq> new_parent then
         and_then (if_present parent (\<lambda>p.
            Ok (map_attr (\<lambda>a. a\<lparr>a_nlink := saturating_sub (a_nlink a) 1\<rparr>) p))) (\<lambda>_.
         if_present new_parent incr_nlink)
       else ret ())
     else if_present src (\<lambda>node. Ok (map_attr (a_ctime_update (\<lambda>_. now)) node))))"

text \<open>
  \<open>rename\<close> samples the clock in the removal of the destination or of the alias (\<open>now1\<close>) and
  for the move (\<open>now2\<close>).
\<close>

definition rename :: "ino \<Rightarrow> bytes \<Rightarrow> ino \<Rightarrow> bytes \<Rightarrow> timespec \<Rightarrow> timespec \<Rightarrow> unit fs_prog" where
  "rename parent name new_parent new_name now1 now2 =
     and_then (query (\<lambda>_. validate_name name)) (\<lambda>_.
     and_then (query (\<lambda>_. validate_name new_name)) (\<lambda>_.
     if parent = new_parent \<and> name = new_name then
       and_then (query (\<lambda>s. child_ino s parent name)) (\<lambda>_. ret ())
     else
       and_then (query (\<lambda>s. child_ino s parent name)) (\<lambda>src.
       and_then (query (\<lambda>s. get s new_parent)) (\<lambda>np.
       and_then (if is_Dir (i_body np) then ret () else fail NotDir) (\<lambda>_.
       and_then (query (\<lambda>s. get s src)) (\<lambda>snode.
       let src_is_dir = is_Dir (i_body snode) in
       and_then (if src_is_dir then
           and_then (query (\<lambda>s. is_ancestor_or_self s src new_parent)) (\<lambda>anc.
           if anc then fail Inval else ret ())
         else ret ()) (\<lambda>_.
       and_then (rename_overwrite parent name new_parent new_name src src_is_dir now1) (\<lambda>finished.
       if finished then ret ()
       else rename_move parent name new_parent new_name src src_is_dir now2))))))))"

end
