(* ===== verification/MemFsTree.thy ===== *)
theory MemFsTree
  imports MemFs
begin

text \<open>
  The abstract specification of the filesystem: a rooted tree of directories whose entries
  name directories, files and symbolic links. The state keeps the entries and, for each
  inode, its content or (for a directory) its parent; attributes, counters and limits are
  not part of it. The lemmas say which changes keep the tree well-formed.
\<close>

section \<open>Trees\<close>

datatype tnode = TDir ino | TFile bytes | TSymlink bytes

record tree =
  t_node :: "ino \<Rightarrow> tnode option"
  t_ent :: "ino \<times> bytes \<Rightarrow> ino option"

definition t_isdir :: "tree \<Rightarrow> ino \<Rightarrow> bool" where
  "t_isdir t i \<longleftrightarrow> (\<exists>p. t_node t i = Some (TDir p))"

fun is_leaf :: "tnode \<Rightarrow> bool" where
  "is_leaf (TDir p) = False"
| "is_leaf (TFile c) = True"
| "is_leaf (TSymlink c) = True"

inductive rooted :: "tree \<Rightarrow> ino \<Rightarrow> bool" for t where
  root: "rooted t ROOT_INO"
| step: "t_node t c = Some (TDir p) \<Longrightarrow> rooted t p \<Longrightarrow> rooted t c"

inductive anc :: "tree \<Rightarrow> ino \<Rightarrow> ino \<Rightarrow> bool" for t a where
  refl: "anc t a a"
| step: "t_node t c = Some (TDir p) \<Longrightarrow> anc t a p \<Longrightarrow> anc t a c"

inductive_cases rootedE: "rooted t c"
inductive_cases ancE: "anc t a c"

definition tree_ok :: "tree \<Rightarrow> bool" where
  "tree_ok t \<longleftrightarrow>
     t_node t ROOT_INO = Some (TDir ROOT_INO)
   \<and> (\<forall>p nm c. t_ent t (p, nm) = Some c \<longrightarrow>
        t_isdir t p \<and> t_node t c \<noteq> None \<and> validate_name nm = Ok ())
   \<and> (\<forall>p nm c q. t_ent t (p, nm) = Some c \<longrightarrow> t_node t c = Some (TDir q) \<longrightarrow> c \<noteq> ROOT_INO \<and> q = p)
   \<and> (\<forall>p nm nm' c. t_ent t (p, nm) = Some c \<longrightarrow> t_ent t (p, nm') = Some c \<longrightarrow> t_isdir t c \<longrightarrow> nm = nm')
   \<and> (\<forall>c q. t_node t c = Some (TDir q) \<longrightarrow> c \<noteq> ROOT_INO \<longrightarrow> (\<exists>nm. t_ent t (q, nm) = Some c))
   \<and> (\<forall>c. t_isdir t c \<longrightarrow> rooted t c)"

lemma tree_okD:
  assumes "tree_ok t"
  shows tree_root: "t_node t ROOT_INO = Some (TDir ROOT_INO)"
    and tree_ent_dir: "t_ent t (p, nm) = Some c \<Longrightarrow> t_isdir t p"
    and tree_ent_target: "t_ent t (p, nm) = Some c \<Longrightarrow> t_node t c \<noteq> None"
    and tree_ent_name: "t_ent t (p, nm) = Some c \<Longrightarrow> validate_name nm = Ok ()"
    and tree_ent_not_root: "t_ent t (p, nm) \<noteq> Some ROOT_INO"
    and tree_ent_parent: "t_ent t (p, nm) = Some c \<Longrightarrow> t_node t c = Some (TDir q) \<Longrightarrow> q = p"
    and tree_dir_once: "t_ent t (p, nm) = Some c \<Longrightarrow> t_ent t (p, nm') = Some c \<Longrightarrow> t_isdir t c \<Longrightarrow> nm = nm'"
    and tree_dir_ent: "t_node t c = Some (TDir q) \<Longrightarrow> c \<noteq> ROOT_INO \<Longrightarrow> \<exists>nm. t_ent t (q, nm) = Some c"
    and tree_rooted: "t_isdir t c \<Longrightarrow> rooted t c"
  using assms unfolding tree_ok_def by blast+

lemma tree_dir_only:
  assumes "tree_ok t" "t_ent t (p, nm) = Some c" "t_isdir t c" "t_ent t (q, x) = Some c"
  shows "(q, x) = (p, nm)"
proof -
  obtain r where r: "t_node t c = Some (TDir r)" using assms(3) by (auto simp: t_isdir_def)
  have "r = p" "r = q"
    using tree_ent_parent [OF assms(1,2) r] tree_ent_parent [OF assms(1,4) r] by simp_all
  then show ?thesis using tree_dir_once [OF assms(1)] assms by blast
qed

lemma tree_parent_isdir:
  assumes "tree_ok t" "t_node t c = Some (TDir q)"
  shows "t_isdir t q"
proof (cases "c = ROOT_INO")
  case True
  with assms tree_root [OF assms(1)] show ?thesis by (auto simp: t_isdir_def)
next
  case False
  then obtain nm where "t_ent t (q, nm) = Some c" using tree_dir_ent assms by blast
  then show ?thesis by (rule tree_ent_dir [OF assms(1)])
qed

subsection \<open>Ancestors\<close>

lemma anc_trans: "anc t a b \<Longrightarrow> anc t b c \<Longrightarrow> anc t a c"
  by (rotate_tac 1, induction rule: anc.induct) (auto intro: anc.intros)

lemma anc_parent: "t_node t c = Some (TDir p) \<Longrightarrow> anc t p c"
  by (auto intro: anc.intros)

lemma anc_of_root: "tree_ok t \<Longrightarrow> anc t a c \<Longrightarrow> c = ROOT_INO \<Longrightarrow> a = ROOT_INO"
  by (rotate_tac 1, induction rule: anc.induct) (auto dest: tree_root)

lemma anc_step_iff:
  "t_node t c = Some (TDir p) \<Longrightarrow> anc t a c \<longleftrightarrow> a = c \<or> anc t a p"
  by (auto intro: anc.intros elim: ancE)

lemma not_anc_parent:
  assumes ok: "tree_ok t" and "rooted t c"
  shows "t_node t c = Some (TDir p) \<Longrightarrow> c \<noteq> ROOT_INO \<Longrightarrow> \<not> anc t c p"
  using assms(2)
proof (induction arbitrary: p rule: rooted.induct)
  case root
  then show ?case by simp
next
  case (step c q)
  then have [simp]: "p = q" by simp
  show ?case
  proof
    assume "anc t c p"
    show False
    proof (cases "q = ROOT_INO")
      case True
      with \<open>anc t c p\<close> step.prems anc_of_root [OF ok] show False by auto
    next
      case False
      from tree_parent_isdir [OF ok step.hyps(1)] obtain q' where q': "t_node t q = Some (TDir q')"
        by (auto simp: t_isdir_def)
      have "\<not> anc t q q'" using step.IH [OF q' False] .
      moreover have "anc t q c" using anc_parent [OF step.hyps(1)] .
      ultimately have "\<not> anc t c q'" using anc_trans by blast
      with \<open>anc t c p\<close> q' have "c = q" by (simp add: anc_step_iff)
      with q' step.hyps(1) \<open>\<not> anc t q q'\<close> show False by (auto intro: anc.refl)
    qed
  qed
qed

section \<open>Changes that keep a tree well-formed\<close>

definition t_put :: "tree \<Rightarrow> ino \<Rightarrow> bytes \<Rightarrow> ino \<Rightarrow> tree" where
  "t_put t p nm c = t\<lparr>t_ent := (t_ent t)((p, nm) \<mapsto> c)\<rparr>"

definition t_cut :: "tree \<Rightarrow> ino \<Rightarrow> bytes \<Rightarrow> tree" where
  "t_cut t p nm = t\<lparr>t_ent := (t_ent t)((p, nm) := None)\<rparr>"

definition t_set :: "tree \<Rightarrow> ino \<Rightarrow> tnode \<Rightarrow> tree" where
  "t_set t c nd = t\<lparr>t_node := (t_node t)(c \<mapsto> nd)\<rparr>"

definition t_drop :: "tree \<Rightarrow> ino \<Rightarrow> tree" where
  "t_drop t c = t\<lparr>t_node := (t_node t)(c := None)\<rparr>"

lemmas t_ops = t_put_def t_cut_def t_set_def t_drop_def

lemma t_ops_sel [simp]:
  "t_node (t_put t p nm c) = t_node t" "t_ent (t_put t p nm c) = (t_ent t)((p, nm) \<mapsto> c)"
  "t_node (t_cut t p nm) = t_node t" "t_ent (t_cut t p nm) = (t_ent t)((p, nm) := None)"
  "t_node (t_set t c nd) = (t_node t)(c \<mapsto> nd)" "t_ent (t_set t c nd) = t_ent t"
  "t_node (t_drop t c) = (t_node t)(c := None)" "t_ent (t_drop t c) = t_ent t"
  by (simp_all add: t_ops)

text \<open>The chain of parents of an inode is kept when the directories on it keep their parent.\<close>

lemma rooted_mono:
  assumes "rooted t c"
    and "\<And>d p. t_node t d = Some (TDir p) \<Longrightarrow> t_node t' d = Some (TDir p)"
  shows "rooted t' c"
  using assms(1) by induction (auto intro: rooted.intros assms(2))

lemma rooted_mono_dir:
  assumes "tree_ok t" "t_isdir t c"
    and "\<And>d p. t_node t d = Some (TDir p) \<Longrightarrow> t_node t' d = Some (TDir p)"
  shows "rooted t' c"
  by (rule rooted_mono [OF tree_rooted [OF assms(1,2)] assms(3)])

lemma tree_ok_intro:
  assumes "t_node t ROOT_INO = Some (TDir ROOT_INO)"
    and "\<And>p nm c. t_ent t (p, nm) = Some c \<Longrightarrow> t_isdir t p \<and> t_node t c \<noteq> None \<and> validate_name nm = Ok ()"
    and "\<And>p nm c q. t_ent t (p, nm) = Some c \<Longrightarrow> t_node t c = Some (TDir q) \<Longrightarrow> c \<noteq> ROOT_INO \<and> q = p"
    and "\<And>p nm nm' c. t_ent t (p, nm) = Some c \<Longrightarrow> t_ent t (p, nm') = Some c \<Longrightarrow> t_isdir t c \<Longrightarrow> nm = nm'"
    and "\<And>c q. t_node t c = Some (TDir q) \<Longrightarrow> c \<noteq> ROOT_INO \<Longrightarrow> \<exists>nm. t_ent t (q, nm) = Some c"
    and "\<And>c. t_isdir t c \<Longrightarrow> rooted t c"
  shows "tree_ok t"
  using assms unfolding tree_ok_def by blast

lemma tree_node_not_leaf:
  "tree_ok t \<Longrightarrow> t_ent t (p, nm) = Some c \<Longrightarrow> t_node t p \<noteq> None"
  using tree_ent_dir by (fastforce simp: t_isdir_def)

lemma tree_ok_add:
  assumes ok: "tree_ok t" and dir: "t_isdir t p" and free: "t_ent t (p, nm) = None"
    and nm: "validate_name nm = Ok ()" and fresh: "t_node t c = None"
    and nd: "nd = TDir p \<or> is_leaf nd"
  shows "tree_ok (t_put (t_set t c nd) p nm c)" (is "tree_ok ?t")
proof -
  have cnot: "c \<noteq> ROOT_INO" "c \<noteq> p"
    using fresh tree_root [OF ok] dir by (auto simp: t_isdir_def)
  have noent: "t_ent t (q, x) \<noteq> Some c" "t_ent t (c, x) = None" for q x
    using fresh tree_ent_target [OF ok] tree_node_not_leaf [OF ok] by (force, fastforce)
  have rooted: "rooted ?t d" if "rooted t d" for d
    by (rule rooted_mono [OF that]) (use fresh in auto)
  have keep: "t_isdir ?t d" if "t_isdir t d" for d
    using that fresh by (auto simp: t_isdir_def)
  show ?thesis
  proof (rule tree_ok_intro, goal_cases)
    case 1 then show ?case using cnot tree_root [OF ok] by simp
  next
    case (2 q x d)
    then show ?case
      using keep dir nm tree_ent_dir [OF ok] tree_ent_target [OF ok] tree_ent_name [OF ok]
      by (auto split: if_splits)
  next
    case (3 q x d r)
    then show ?case
      using nd cnot noent tree_ent_parent [OF ok] tree_ent_not_root [OF ok]
      by (auto split: if_splits)
  next
    case (4 q x x' d)
    show ?case
    proof (cases "d = c")
      case True
      with 4 noent show ?thesis by (auto split: if_splits)
    next
      case False
      with 4 have "t_ent t (q, x) = Some d" "t_ent t (q, x') = Some d" "t_isdir t d"
        by (auto simp: t_isdir_def split: if_splits)
      then show ?thesis by (rule tree_dir_once [OF ok])
    qed
  next
    case (5 d q)
    show ?case
    proof (cases "d = c")
      case True
      with 5 nd show ?thesis by (auto split: if_splits)
    next
      case False
      with 5 obtain x where x: "t_ent t (q, x) = Some d" using tree_dir_ent [OF ok] by auto
      with free have "(q, x) \<noteq> (p, nm)" by auto
      with x show ?thesis by auto
    qed
  next
    case (6 d)
    show ?case
    proof (cases "d = c")
      case True
      with 6 nd have "t_node ?t c = Some (TDir p)" by (auto simp: t_isdir_def)
      moreover have "rooted ?t p" by (rule rooted [OF tree_rooted [OF ok dir]])
      ultimately show ?thesis using True by (auto intro: rooted.step)
    next
      case False
      with 6 have "t_isdir t d" by (simp add: t_isdir_def)
      then show ?thesis by (intro rooted tree_rooted [OF ok])
    qed
  qed
qed

lemma tree_ok_put_leaf:
  assumes ok: "tree_ok t" and dir: "t_isdir t p"
    and free: "\<And>d. t_ent t (p, nm) = Some d \<Longrightarrow> \<not> t_isdir t d"
    and nm: "validate_name nm = Ok ()" and leaf: "t_node t c = Some nd" "is_leaf nd"
  shows "tree_ok (t_put t p nm c)" (is "tree_ok ?t")
proof -
  have same: "t_isdir ?t d = t_isdir t d" for d by (simp add: t_isdir_def)
  have "\<not> t_isdir t c" using leaf by (auto simp: t_isdir_def)
  show ?thesis
  proof (rule tree_ok_intro, goal_cases)
    case 1 then show ?case using tree_root [OF ok] by simp
  next
    case (2 q x d)
    then show ?case
      using dir nm leaf tree_ent_dir [OF ok] tree_ent_target [OF ok] tree_ent_name [OF ok]
      by (auto simp: same split: if_splits)
  next
    case (3 q x d r)
    then show ?case
      using leaf tree_ent_parent [OF ok] tree_ent_not_root [OF ok] by (auto split: if_splits)
  next
    case (4 q x x' d)
    then show ?case
      using \<open>\<not> t_isdir t c\<close> tree_dir_once [OF ok] by (auto simp: same split: if_splits)
  next
    case (5 d q)
    then obtain x where x: "t_ent t (q, x) = Some d" using tree_dir_ent [OF ok] by auto
    have "(q, x) \<noteq> (p, nm)" using free [of d] 5 x by (auto simp: t_isdir_def)
    with x show ?case by (intro exI [of _ x]) auto
  next
    case (6 d)
    then show ?case by (intro rooted_mono [OF tree_rooted [OF ok]]) (auto simp: same)
  qed
qed

lemma tree_ok_cut_leaf:
  assumes ok: "tree_ok t" and leaf: "\<And>d. t_ent t (p, nm) = Some d \<Longrightarrow> \<not> t_isdir t d"
  shows "tree_ok (t_cut t p nm)" (is "tree_ok ?t")
proof -
  have same: "t_isdir ?t d = t_isdir t d" for d by (simp add: t_isdir_def)
  show ?thesis
  proof (rule tree_ok_intro, goal_cases)
    case (5 d q)
    then obtain x where x: "t_ent t (q, x) = Some d" using tree_dir_ent [OF ok] by auto
    have "(q, x) \<noteq> (p, nm)" using leaf [of d] 5 x by (auto simp: t_isdir_def)
    with x show ?case by (intro exI [of _ x]) auto
  next
    case (6 d)
    then show ?case by (intro rooted_mono [OF tree_rooted [OF ok]]) (auto simp: same)
  next
    case (4 q x x' d)
    then show ?case using tree_dir_once [OF ok, of q x d x'] by (auto simp: same split: if_splits)
  qed (use tree_root [OF ok] tree_ent_dir [OF ok] tree_ent_target [OF ok] tree_ent_name [OF ok]
         tree_ent_parent [OF ok] tree_ent_not_root [OF ok]
       in \<open>auto simp: same split: if_splits\<close>)
qed

lemma tree_ok_set_leaf:
  assumes ok: "tree_ok t" and old: "t_node t c = Some nd" "is_leaf nd" and "is_leaf nd'"
  shows "tree_ok (t_set t c nd')" (is "tree_ok ?t")
proof -
  have cnot: "c \<noteq> ROOT_INO" using old tree_root [OF ok] by auto
  have node: "t_node ?t d = Some (TDir q) \<longleftrightarrow> t_node t d = Some (TDir q)" for d q
    using assms by auto
  have same: "t_isdir ?t d = t_isdir t d" for d using node by (simp add: t_isdir_def)
  show ?thesis
  proof (rule tree_ok_intro, goal_cases)
    case (5 d q)
    then show ?case using tree_dir_ent [OF ok] node by auto
  next
    case (6 d)
    then show ?case by (intro rooted_mono [OF tree_rooted [OF ok]]) (use same node in auto)
  next
    case (3 p nm d q)
    then show ?case using node tree_ent_parent [OF ok] tree_ent_not_root [OF ok] by auto
  next
    case (4 q x x' d)
    then show ?case using tree_dir_once [OF ok, of q x d x'] same by auto
  qed (use cnot tree_root [OF ok] tree_ent_dir [OF ok] tree_ent_target [OF ok] tree_ent_name [OF ok]
         same in auto)
qed

lemma tree_ok_drop_leaf:
  assumes ok: "tree_ok t" and old: "t_node t c = Some nd" "is_leaf nd"
    and unused: "\<And>p nm. t_ent t (p, nm) \<noteq> Some c"
  shows "tree_ok (t_drop t c)" (is "tree_ok ?t")
proof -
  have cnot: "c \<noteq> ROOT_INO" using old tree_root [OF ok] by auto
  have node: "t_node ?t d = Some (TDir q) \<longleftrightarrow> t_node t d = Some (TDir q)" for d q
    using old by auto
  have same: "t_isdir ?t d = t_isdir t d" for d using node by (simp add: t_isdir_def)
  show ?thesis
  proof (rule tree_ok_intro, goal_cases)
    case (2 p nm d)
    then show ?case
      using unused tree_ent_dir [OF ok] tree_ent_target [OF ok] tree_ent_name [OF ok] same by auto
  next
    case (5 d q)
    then show ?case using tree_dir_ent [OF ok] node by auto
  next
    case (6 d)
    then show ?case by (intro rooted_mono [OF tree_rooted [OF ok]]) (use same node in auto)
  next
    case (3 p nm d q)
    then show ?case using node tree_ent_parent [OF ok] tree_ent_not_root [OF ok] by auto
  next
    case (4 q x x' d)
    then show ?case using tree_dir_once [OF ok, of q x d x'] same by auto
  qed (use cnot tree_root [OF ok] in auto)
qed

text \<open>Removal of an empty directory together with its entry.\<close>

lemma tree_ok_rmdir:
  assumes ok: "tree_ok t" and ent: "t_ent t (p, nm) = Some c" and dir: "t_isdir t c"
    and empty: "\<And>x. t_ent t (c, x) = None"
  shows "tree_ok (t_drop (t_cut t p nm) c)" (is "tree_ok ?t")
proof -
  have cnot: "c \<noteq> ROOT_INO" using ent tree_ent_not_root [OF ok] by auto
  have only: "x = nm \<and> q = p" if "t_ent t (q, x) = Some c" for q x
    using tree_dir_only [OF ok ent dir that] by simp
  have nochild: "t_node t d = Some (TDir c) \<Longrightarrow> False" for d
    using tree_dir_ent [OF ok, of d c] empty cnot tree_root [OF ok] by fastforce
  have sub: "t_isdir ?t d \<longleftrightarrow> t_isdir t d \<and> d \<noteq> c" for d
    by (auto simp: t_isdir_def)
  have rooted: "d \<noteq> c \<longrightarrow> rooted ?t d" if "rooted t d" for d
    using that
  proof induction
    case (step d q)
    with nochild have "q \<noteq> c" by auto
    with step show ?case by (auto intro: rooted.step)
  qed (auto intro: rooted.root)
  show ?thesis
  proof (rule tree_ok_intro, goal_cases)
    case 1 then show ?case using cnot tree_root [OF ok] by simp
  next
    case (2 q x d)
    then have e: "t_ent t (q, x) = Some d" "(q, x) \<noteq> (p, nm)" by (auto split: if_splits)
    with only have "d \<noteq> c" by auto
    moreover have "q \<noteq> c" using e(1) empty by auto
    ultimately show ?case
      using tree_ent_dir [OF ok e(1)] tree_ent_target [OF ok e(1)] tree_ent_name [OF ok e(1)]
      by (simp add: sub)
  next
    case (3 q x d r)
    then show ?case
      using tree_ent_parent [OF ok, of q x d r] tree_ent_not_root [OF ok] by (auto split: if_splits)
  next
    case (4 q x x' d)
    then show ?case using tree_dir_once [OF ok, of q x d x'] by (auto simp: sub split: if_splits)
  next
    case (5 d q)
    then obtain x where x: "t_ent t (q, x) = Some d" "d \<noteq> c"
      using tree_dir_ent [OF ok, of d q] by (auto split: if_splits)
    with ent have "(q, x) \<noteq> (p, nm)" by auto
    with x show ?case by (intro exI [of _ x]) auto
  next
    case (6 d)
    then show ?case using rooted tree_rooted [OF ok] by (auto simp: sub)
  qed
qed

text \<open>A move of a directory to a place that is not below it.\<close>

lemma tree_ok_move_dir:
  assumes ok: "tree_ok t" and ent: "t_ent t (p, nm) = Some c" and dir: "t_isdir t c"
    and newdir: "t_isdir t q" and free: "(q, x) = (p, nm) \<or> t_ent t (q, x) = None"
    and nm: "validate_name x = Ok ()" and noanc: "\<not> anc t c q"
  shows "tree_ok (t_set (t_put (t_cut t p nm) q x c) c (TDir q))" (is "tree_ok ?t")
proof -
  have cnot: "c \<noteq> ROOT_INO" "c \<noteq> q"
    using ent tree_ent_not_root [OF ok] noanc by (auto intro: anc.refl)
  obtain p' where node: "t_node t c = Some (TDir p')" using dir by (auto simp: t_isdir_def)
  with ent tree_ent_parent [OF ok] have node: "t_node t c = Some (TDir p)" by auto
  have only: "x' = nm \<and> q' = p" if "t_ent t (q', x') = Some c" for q' x'
    using tree_dir_only [OF ok ent dir that] by simp
  have isdir: "t_isdir ?t d \<longleftrightarrow> t_isdir t d" for d
    using node by (auto simp: t_isdir_def)
  have off: "\<not> anc t c d \<longrightarrow> rooted ?t d" if "rooted t d" for d
    using that
  proof induction
    case (step d r)
    show ?case
    proof
      assume na: "\<not> anc t c d"
      then have "d \<noteq> c" by (auto intro: anc.refl)
      moreover have "\<not> anc t c r" using na step.hyps(1) by (auto intro: anc.step)
      ultimately show "rooted ?t d" using step by (auto intro: rooted.step [where p = r])
    qed
  qed (auto intro: rooted.root)
  have "rooted ?t q" using off [OF tree_rooted [OF ok newdir]] noanc by simp
  then have rc: "rooted ?t c" by (rule rooted.step [rotated]) simp
  have all: "rooted ?t d" if "rooted t d" for d
    using that
  proof induction
    case (step d r)
    then show ?case using rc by (cases "d = c") (auto intro: rooted.step [where p = r])
  qed (rule rooted.root)
  show ?thesis
  proof (rule tree_ok_intro, goal_cases)
    case 1 then show ?case using cnot tree_root [OF ok] by simp
  next
    case (2 q' x' d)
    then show ?case
      using newdir nm node tree_ent_dir [OF ok] tree_ent_target [OF ok] tree_ent_name [OF ok]
      unfolding isdir by (auto split: if_splits)
  next
    case (3 q' x' d r)
    then show ?case
      using only tree_ent_parent [OF ok] tree_ent_not_root [OF ok] cnot by (auto split: if_splits)
  next
    case (4 q' x' x'' d)
    show ?case
    proof (cases "d = c")
      case True
      with 4 only show ?thesis by (auto split: if_splits)
    next
      case False
      with 4 tree_dir_once [OF ok, of q' x' d x''] show ?thesis
        unfolding isdir by (auto split: if_splits)
    qed
  next
    case (5 d r)
    show ?case
    proof (cases "d = c")
      case True
      with 5 show ?thesis by auto
    next
      case False
      with 5 obtain x' where x': "t_ent t (r, x') = Some d"
        using tree_dir_ent [OF ok, of d r] by auto
      with False ent free have "(r, x') \<noteq> (p, nm)" "(r, x') \<noteq> (q, x)" by auto
      with x' show ?thesis by (intro exI [of _ x']) auto
    qed
  next
    case (6 d)
    then show ?case using all tree_rooted [OF ok] unfolding isdir by blast
  qed
qed

end
