(* ===== verification/MemFsInv.thy ===== *)
theory MemFsInv
  imports MemFsTree
begin

text \<open>
  The invariant of the filesystem state and the abstraction to trees, with the effect of the
  primitive state changes on both. \<open>slack\<close> is what makes the link counts tractable: the link
  count of an inode minus the count its tree position calls for. Every primitive change moves
  it by a known amount, so that an operation keeps the counts right exactly when its
  changes add up to zero.
\<close>

section \<open>Abstraction\<close>

definition tnode_of :: "inode \<Rightarrow> tnode" where
  "tnode_of n = (case i_body n of
     Dir _ \<Rightarrow> TDir (parent_or_root n) | File c \<Rightarrow> TFile c | Symlink c \<Rightarrow> TSymlink c)"

definition node_entries :: "inode \<Rightarrow> bytes \<Rightarrow> ino option" where
  "node_entries n = (case i_body n of Dir e \<Rightarrow> om_lookup e | _ \<Rightarrow> Map.empty)"

definition mtree :: "(ino, inode) omap \<Rightarrow> tree" where
  "mtree M = \<lparr>t_node = (\<lambda>i. map_option tnode_of (om_lookup M i)),
     t_ent = (\<lambda>(p, nm). Option.bind (om_lookup M p) (\<lambda>n. node_entries n nm))\<rparr>"

definition tree_of :: "fs \<Rightarrow> tree" where
  "tree_of s = mtree (inodes s)"

definition m_isdir :: "(ino, inode) omap \<Rightarrow> ino \<Rightarrow> bool" where
  "m_isdir M i \<longleftrightarrow> (\<exists>n. om_lookup M i = Some n \<and> is_Dir (i_body n))"

lemma mtree_sel:
  "t_node (mtree M) i = map_option tnode_of (om_lookup M i)"
  "t_ent (mtree M) (p, nm) = Option.bind (om_lookup M p) (\<lambda>n. node_entries n nm)"
  by (simp_all add: mtree_def)

lemma is_Dir_tnode: "is_Dir (i_body n) \<longleftrightarrow> (\<exists>p. tnode_of n = TDir p)"
  by (cases "i_body n") (auto simp: tnode_of_def)

lemma is_leaf_tnode: "is_leaf (tnode_of n) \<longleftrightarrow> \<not> is_Dir (i_body n)"
  by (cases "i_body n") (auto simp: tnode_of_def)

lemma t_isdir_mtree: "t_isdir (mtree M) i \<longleftrightarrow> m_isdir M i"
  by (auto simp: t_isdir_def m_isdir_def mtree_sel is_Dir_tnode)

lemma ent_mtree:
  "t_ent (mtree M) (p, nm) = Some c \<longleftrightarrow>
     (\<exists>n e. om_lookup M p = Some n \<and> i_body n = Dir e \<and> om_lookup e nm = Some c)"
proof (cases "om_lookup M p")
  case (Some n)
  then show ?thesis by (cases "i_body n") (auto simp: mtree_sel node_entries_def)
qed (simp add: mtree_sel)

lemma tnode_of_dir: "i_body n = Dir e \<Longrightarrow> tnode_of n = TDir (parent_or_root n)"
  by (simp add: tnode_of_def)

section \<open>The invariant\<close>

definition node_ok :: "u64 \<Rightarrow> ino \<Rightarrow> inode \<Rightarrow> bool" where
  "node_ok nxt i n \<longleftrightarrow> a_ino (i_attr n) = i \<and> raw i < nxt \<and>
     (case i_body n of
        File c \<Rightarrow> a_kind (i_attr n) = KFile \<and> unat (a_size (i_attr n)) = length c \<and> i_parent n = None
      | Symlink c \<Rightarrow> a_kind (i_attr n) = KSymlink \<and> unat (a_size (i_attr n)) = length c \<and> i_parent n = None
      | Dir e \<Rightarrow> a_kind (i_attr n) = KDirectory \<and> a_size (i_attr n) = of_nat (om_len e) \<and> i_parent n \<noteq> None)"

definition nodes_ok :: "u64 \<Rightarrow> (ino, inode) omap \<Rightarrow> bool" where
  "nodes_ok nxt M \<longleftrightarrow> (\<forall>i n. om_lookup M i = Some n \<longrightarrow> node_ok nxt i n)"

text \<open>The subdirectories of a directory and the names of an inode.\<close>

definition subdirs :: "(ino, inode) omap \<Rightarrow> ino \<Rightarrow> bytes set" where
  "subdirs M p = {nm. \<exists>c. t_ent (mtree M) (p, nm) = Some c \<and> m_isdir M c}"

definition names :: "(ino, inode) omap \<Rightarrow> ino \<Rightarrow> (ino \<times> bytes) set" where
  "names M i = {x. t_ent (mtree M) x = Some i}"

definition nlink_of :: "inode \<Rightarrow> nat" where
  "nlink_of n = unat (a_nlink (i_attr n))"

definition slack :: "(ino, inode) omap \<Rightarrow> ino \<Rightarrow> int" where
  "slack M i = (case om_lookup M i of
     None \<Rightarrow> 0
   | Some n \<Rightarrow> (if is_Dir (i_body n) then int (nlink_of n) - 2 - int (card (subdirs M i))
       else int (nlink_of n) - int (card (names M i))))"

text \<open>
  Directories count their subdirectories exactly; for files and symbolic links the count may
  be larger than the number of names (\<open>rename\<close> onto another name of the same inode makes it
  so), never smaller. \<open>no_leak\<close> says that it is exact.
\<close>

definition nlinks_ok :: "(ino, inode) omap \<Rightarrow> bool" where
  "nlinks_ok M \<longleftrightarrow> (\<forall>i n. om_lookup M i = Some n \<longrightarrow>
     0 < nlink_of n \<and> 0 \<le> slack M i \<and> (is_Dir (i_body n) \<longrightarrow> slack M i = 0))"

definition no_leak :: "fs \<Rightarrow> bool" where
  "no_leak s \<longleftrightarrow> (\<forall>i. slack (inodes s) i = 0)"

definition content_bytes :: "(ino, inode) omap \<Rightarrow> nat" where
  "content_bytes M = om_sum (\<lambda>n. body_bytes (i_body n)) M"

definition fs_wf :: "fs \<Rightarrow> bool" where
  "fs_wf s \<longleftrightarrow> tree_ok (tree_of s) \<and> nodes_ok (next_ino s) (inodes s) \<and> nlinks_ok (inodes s) \<and>
     unat (bytes_used s) = content_bytes (inodes s) \<and> bytes_used s \<le> bytes_limit s"

lemma wfD:
  assumes "fs_wf s"
  shows wf_tree: "tree_ok (mtree (inodes s))"
    and wf_nodes: "nodes_ok (next_ino s) (inodes s)"
    and wf_nlinks: "nlinks_ok (inodes s)"
    and wf_bytes: "unat (bytes_used s) = content_bytes (inodes s)"
    and wf_limit: "bytes_used s \<le> bytes_limit s"
  using assms by (auto simp: fs_wf_def tree_of_def)

lemma wf_node_ok: "fs_wf s \<Longrightarrow> om_lookup (inodes s) i = Some n \<Longrightarrow> node_ok (next_ino s) i n"
  by (auto simp: fs_wf_def nodes_ok_def)

lemma wf_fresh: "fs_wf s \<Longrightarrow> om_lookup (inodes s) (Ino (next_ino s)) = None"
  using wf_node_ok [of s "Ino (next_ino s)"]
  by (cases "om_lookup (inodes s) (Ino (next_ino s))") (auto simp: node_ok_def)

lemma node_ok_mono: "node_ok nxt i n \<Longrightarrow> nxt \<le> nxt' \<Longrightarrow> node_ok nxt' i n"
  by (auto simp: node_ok_def)

lemma nodes_ok_insert:
  "nodes_ok nxt M \<Longrightarrow> node_ok nxt i n \<Longrightarrow> nodes_ok nxt (om_insert i n M)"
  by (auto simp: nodes_ok_def)

lemma nodes_ok_remove: "nodes_ok nxt M \<Longrightarrow> nodes_ok nxt (om_remove i M)"
  by (auto simp: nodes_ok_def)

lemma nodes_ok_mono: "nodes_ok nxt M \<Longrightarrow> nxt \<le> nxt' \<Longrightarrow> nodes_ok nxt' M"
  by (auto simp: nodes_ok_def intro: node_ok_mono)

lemma nodes_okD: "nodes_ok nxt M \<Longrightarrow> om_lookup M i = Some n \<Longrightarrow> node_ok nxt i n"
  by (auto simp: nodes_ok_def)

subsection \<open>Finiteness\<close>

lemma finite_node_entries: "finite (dom (node_entries n))"
  by (auto simp: node_entries_def om_dom_def [symmetric] split: body.splits)

lemma finite_entries: "finite (dom (t_ent (mtree M)))"
proof -
  have "dom (t_ent (mtree M)) \<subseteq> (\<Union>p \<in> om_dom M. {p} \<times> dom (node_entries (the (om_lookup M p))))"
    by (auto simp: mtree_sel bind_eq_Some_conv om_dom_def)
  then show ?thesis
    by (rule finite_subset) (simp add: finite_node_entries)
qed

lemma finite_names [simp]: "finite (names M i)"
  by (rule finite_subset [OF _ finite_entries]) (auto simp: names_def)

lemma finite_subdirs [simp]: "finite (subdirs M p)"
proof -
  have "Pair p ` subdirs M p \<subseteq> dom (t_ent (mtree M))"
    by (auto simp: subdirs_def)
  then show ?thesis
    using finite_subset [OF _ finite_entries] finite_imageD by (metis Pair_inject inj_onI)
qed

section \<open>Effects of the primitive changes\<close>

text \<open>A change of a node that keeps its body: attributes and parent pointers.\<close>

lemma ent_same_body:
  assumes "om_lookup M i = Some n" "i_body n' = i_body n"
  shows "t_ent (mtree (om_insert i n' M)) = t_ent (mtree M)"
proof (rule ext)
  fix x :: "ino \<times> bytes"
  obtain p nm where "x = (p, nm)" by (cases x)
  with assms show "t_ent (mtree (om_insert i n' M)) x = t_ent (mtree M) x"
    by (auto simp: mtree_sel node_entries_def)
qed

lemma isdir_insert: "m_isdir (om_insert i n M) j \<longleftrightarrow> (if j = i then is_Dir (i_body n) else m_isdir M j)"
  by (auto simp: m_isdir_def)

lemma isdir_same:
  "om_lookup M i = Some n \<Longrightarrow> is_Dir (i_body n') = is_Dir (i_body n) \<Longrightarrow>
   m_isdir (om_insert i n' M) j \<longleftrightarrow> m_isdir M j"
  by (auto simp: m_isdir_def)

lemma node_insert: "t_node (mtree (om_insert i n M)) = (t_node (mtree M))(i \<mapsto> tnode_of n)"
  by (auto simp: mtree_sel)

lemma tree_eqI: "t_node t = t_node t' \<Longrightarrow> t_ent t = t_ent t' \<Longrightarrow> t = t'" for t t' :: tree
  by simp

lemma mtree_same_body:
  assumes "om_lookup M i = Some n" "i_body n' = i_body n"
  shows "mtree (om_insert i n' M) = t_set (mtree M) i (tnode_of n')"
  by (rule tree_eqI) (simp_all add: ent_same_body [OF assms] node_insert)

lemma mtree_same:
  assumes "om_lookup M i = Some n" "i_body n' = i_body n" "i_parent n' = i_parent n"
  shows "mtree (om_insert i n' M) = mtree M"
proof (rule tree_eqI)
  have "tnode_of n' = tnode_of n"
    using assms by (simp add: tnode_of_def parent_or_root_def split: body.split)
  with assms(1) show "t_node (mtree (om_insert i n' M)) = t_node (mtree M)"
    by (auto simp: mtree_sel)
qed (rule ent_same_body [OF assms(1,2)])

lemma slack_same_body:
  assumes "om_lookup M i = Some n" "i_body n' = i_body n"
  shows "slack (om_insert i n' M) j =
    slack M j + (if j = i then int (nlink_of n') - int (nlink_of n) else 0)"
  using assms
  by (simp add: slack_def names_def subdirs_def ent_same_body isdir_same split: option.splits)

text \<open>A change of the content of a file or symbolic link.\<close>

lemma ent_leaf:
  assumes "om_lookup M i = Some n" "\<not> is_Dir (i_body n)" "\<not> is_Dir (i_body n')"
  shows "t_ent (mtree (om_insert i n' M)) = t_ent (mtree M)"
proof (rule ext)
  fix x :: "ino \<times> bytes"
  obtain p nm where "x = (p, nm)" by (cases x)
  with assms show "t_ent (mtree (om_insert i n' M)) x = t_ent (mtree M) x"
    by (cases "i_body n"; cases "i_body n'") (auto simp: mtree_sel node_entries_def)
qed

lemma mtree_leaf:
  assumes "om_lookup M i = Some n" "\<not> is_Dir (i_body n)" "\<not> is_Dir (i_body n')"
  shows "mtree (om_insert i n' M) = t_set (mtree M) i (tnode_of n')"
  by (rule tree_eqI) (simp_all add: ent_leaf [OF assms] node_insert)

lemma slack_leaf:
  assumes "om_lookup M i = Some n" "\<not> is_Dir (i_body n)" "\<not> is_Dir (i_body n')"
  shows "slack (om_insert i n' M) j =
    slack M j + (if j = i then int (nlink_of n') - int (nlink_of n) else 0)"
  using assms
  by (simp add: slack_def names_def subdirs_def ent_leaf isdir_same split: option.splits)

text \<open>A fresh inode that is not yet named.\<close>

lemma ent_fresh:
  assumes "om_lookup M i = None" "node_entries n = Map.empty"
  shows "t_ent (mtree (om_insert i n M)) = t_ent (mtree M)"
proof (rule ext)
  fix x :: "ino \<times> bytes"
  obtain p nm where "x = (p, nm)" by (cases x)
  with assms show "t_ent (mtree (om_insert i n M)) x = t_ent (mtree M) x"
    by (auto simp: mtree_sel)
qed

lemma mtree_fresh:
  assumes "om_lookup M i = None" "node_entries n = Map.empty"
  shows "mtree (om_insert i n M) = t_set (mtree M) i (tnode_of n)"
  by (rule tree_eqI) (simp_all add: ent_fresh [OF assms] node_insert)

definition closed :: "(ino, inode) omap \<Rightarrow> bool" where
  "closed M \<longleftrightarrow> (\<forall>x c. t_ent (mtree M) x = Some c \<longrightarrow> om_lookup M c \<noteq> None)"

lemma tree_ok_closed: "tree_ok (mtree M) \<Longrightarrow> closed M"
  using tree_ent_target by (fastforce simp: closed_def mtree_sel)

lemma slack_fresh:
  assumes "om_lookup M i = None" "node_entries n = Map.empty" "closed M"
  shows "slack (om_insert i n M) j =
    (if j = i then int (nlink_of n) - (if is_Dir (i_body n) then 2 else 0) else slack M j)"
proof -
  have no: "t_ent (mtree M) x \<noteq> Some i" for x
    using assms(1,3) unfolding closed_def by fastforce
  have "names (om_insert i n M) k = names M k" for k
    by (simp add: names_def ent_fresh [OF assms(1,2)])
  moreover have "m_isdir (om_insert i n M) c = m_isdir M c" if "t_ent (mtree M) x = Some c" for x c
  proof -
    have "c \<noteq> i" using no [of x] that by auto
    then show ?thesis by (simp add: isdir_insert)
  qed
  then have "subdirs (om_insert i n M) k = subdirs M k" for k
    by (simp add: subdirs_def ent_fresh [OF assms(1,2)] cong: conj_cong)
  moreover have "names M i = {}" "subdirs M i = {}"
    using no assms(1) by (auto simp: names_def subdirs_def mtree_sel)
  ultimately show ?thesis by (simp add: slack_def split: option.split)
qed

text \<open>A directory gains or loses an entry.\<close>

lemma set_entries_sel [simp]:
  "i_body (set_entries e now p) = Dir e"
  "i_parent (set_entries e now p) = i_parent p"
  "nlink_of (set_entries e now p) = nlink_of p"
  by (simp_all add: set_entries_def nlink_of_def)

lemma ent_set_entries:
  assumes "om_lookup M p = Some n" "i_body n = Dir e"
    and "om_lookup e' = (om_lookup e)(nm := v)"
  shows "t_ent (mtree (om_insert p (set_entries e' now n) M)) = (t_ent (mtree M))((p, nm) := v)"
proof (rule ext)
  fix x :: "ino \<times> bytes"
  obtain q y where "x = (q, y)" by (cases x)
  with assms show "t_ent (mtree (om_insert p (set_entries e' now n) M)) x =
      ((t_ent (mtree M))((p, nm) := v)) x"
    by (auto simp: mtree_sel node_entries_def)
qed

lemma node_set_entries:
  assumes "om_lookup M p = Some n" "i_body n = Dir e"
  shows "t_node (mtree (om_insert p (set_entries e' now n) M)) = t_node (mtree M)"
  using assms by (auto simp: mtree_sel tnode_of_def parent_or_root_def)

lemma isdir_set_entries:
  assumes "om_lookup M p = Some n" "i_body n = Dir e"
  shows "m_isdir (om_insert p (set_entries e' now n) M) j \<longleftrightarrow> m_isdir M j"
  using assms by (auto simp: m_isdir_def)

lemma mtree_insert_entry:
  assumes "om_lookup M p = Some n" "i_body n = Dir e"
  shows "mtree (om_insert p (set_entries (om_insert nm c e) now n) M) = t_put (mtree M) p nm c"
  by (rule tree_eqI) (use assms in \<open>simp_all add: node_set_entries ent_set_entries\<close>)

lemma mtree_remove_entry:
  assumes "om_lookup M p = Some n" "i_body n = Dir e"
  shows "mtree (om_insert p (set_entries (om_remove nm e) now n) M) = t_cut (mtree M) p nm"
  by (rule tree_eqI) (use assms in \<open>simp_all add: node_set_entries ent_set_entries\<close>)

lemma ent_lookup:
  "om_lookup M p = Some n \<Longrightarrow> i_body n = Dir e \<Longrightarrow> t_ent (mtree M) (p, nm) = om_lookup e nm"
  by (simp add: mtree_sel node_entries_def)

definition moved :: "(ino, inode) omap \<Rightarrow> ino \<Rightarrow> ino \<Rightarrow> ino \<Rightarrow> int" where
  "moved M p c j = (if m_isdir M c then (if j = p then 1 else 0) else (if j = c then 1 else 0))"

lemma slack_insert_entry:
  assumes M: "om_lookup M p = Some n" "i_body n = Dir e" and free: "om_lookup e nm = None"
    and c: "om_lookup M c \<noteq> None"
  shows "slack (om_insert p (set_entries (om_insert nm c e) now n) M) j = slack M j - moved M p c j"
    (is "slack ?M j = _")
proof -
  have ent: "t_ent (mtree ?M) = (t_ent (mtree M))((p, nm) \<mapsto> c)"
    by (rule ent_set_entries [OF M]) simp
  have old: "t_ent (mtree M) (p, nm) = None" using free ent_lookup [OF M] by simp
  have dir: "m_isdir ?M k = m_isdir M k" for k by (rule isdir_set_entries [OF M])
  have names: "names ?M k = (if k = c then insert (p, nm) (names M k) else names M k)" for k
    using old by (auto simp: names_def ent)
  have sub: "subdirs ?M k = (if k = p \<and> m_isdir M c then insert nm (subdirs M k) else subdirs M k)" for k
    using old by (auto simp: subdirs_def ent dir)
  have new: "(p, nm) \<notin> names M k" "nm \<notin> subdirs M p" for k
    using old by (auto simp: names_def subdirs_def)
  have p: "m_isdir M p" using M by (auto simp: m_isdir_def)
  have "card (names ?M j) = card (names M j) + (if j = c then 1 else 0)"
    using new by (simp add: names [of j])
  moreover have "card (subdirs ?M j) = card (subdirs M j) + (if j = p \<and> m_isdir M c then 1 else 0)"
    using new by (simp add: sub [of j])
  ultimately show ?thesis
    using M c p by (auto simp: slack_def moved_def m_isdir_def split: option.splits)
qed

lemma slack_remove_entry:
  assumes M: "om_lookup M p = Some n" "i_body n = Dir e" and ent: "om_lookup e nm = Some c"
    and c: "om_lookup M c \<noteq> None"
  shows "slack (om_insert p (set_entries (om_remove nm e) now n) M) j = slack M j + moved M p c j"
    (is "slack ?M j = _")
proof -
  have e': "t_ent (mtree ?M) = (t_ent (mtree M))((p, nm) := None)"
    by (rule ent_set_entries [OF M]) simp
  have old: "t_ent (mtree M) (p, nm) = Some c" using ent ent_lookup [OF M] by simp
  have dir: "m_isdir ?M k = m_isdir M k" for k by (rule isdir_set_entries [OF M])
  have names: "names M k = (if k = c then insert (p, nm) (names ?M k) else names ?M k)" for k
    using old by (auto simp: names_def e')
  have sub: "subdirs M k = (if k = p \<and> m_isdir M c then insert nm (subdirs ?M k) else subdirs ?M k)" for k
    using old by (auto simp: subdirs_def e' dir)
  have new: "(p, nm) \<notin> names ?M k" "nm \<notin> subdirs ?M p" for k
    by (auto simp: names_def subdirs_def e')
  have p: "m_isdir M p" using M by (auto simp: m_isdir_def)
  have "card (names M j) = card (names ?M j) + (if j = c then 1 else 0)"
    using new by (simp add: names [of j])
  moreover have "card (subdirs M j) = card (subdirs ?M j) + (if j = p \<and> m_isdir M c then 1 else 0)"
    using new by (simp add: sub [of j])
  ultimately show ?thesis
    using M c p by (auto simp: slack_def moved_def m_isdir_def split: option.splits)
qed

text \<open>An inode without names or entries is dropped.\<close>

lemma ent_drop:
  assumes "om_lookup M i = Some n" "node_entries n = Map.empty"
  shows "t_ent (mtree (om_remove i M)) = t_ent (mtree M)"
proof (rule ext)
  fix x :: "ino \<times> bytes"
  obtain p nm where "x = (p, nm)" by (cases x)
  with assms show "t_ent (mtree (om_remove i M)) x = t_ent (mtree M) x"
    by (auto simp: mtree_sel)
qed

lemma mtree_drop:
  assumes "om_lookup M i = Some n" "node_entries n = Map.empty"
  shows "mtree (om_remove i M) = t_drop (mtree M) i"
  by (rule tree_eqI) (auto simp: ent_drop [OF assms] mtree_sel)

lemma slack_drop:
  assumes "om_lookup M i = Some n" "node_entries n = Map.empty"
    and unnamed: "names M i = {}"
  shows "slack (om_remove i M) j = (if j = i then 0 else slack M j)"
proof -
  have names: "names (om_remove i M) k = names M k" for k
    by (simp add: names_def ent_drop [OF assms(1,2)])
  have "m_isdir (om_remove i M) c = m_isdir M c" if "t_ent (mtree M) x = Some c" for x c
  proof -
    have "x \<notin> names M i" using unnamed by simp
    with that have "c \<noteq> i" by (auto simp: names_def)
    then show ?thesis by (simp add: m_isdir_def)
  qed
  then have "subdirs (om_remove i M) k = subdirs M k" for k
    by (simp add: subdirs_def ent_drop [OF assms(1,2)] cong: conj_cong)
  with names show ?thesis by (simp add: slack_def split: option.split)
qed

end
