(* ===== verification/MemFsOps.thy ===== *)
theory MemFsOps
  imports MemFsInv
begin

text \<open>
  Every inode-keyed operation of the filesystem against its abstract specification: what it
  does to the tree when it succeeds, that it keeps the invariant, and that it leaves the
  state alone when it fails.
\<close>

section \<open>Outcomes of the helpers\<close>

named_theorems op_simps \<open>outcomes of the helper programs\<close>

lemma get_Ok [op_simps]: "get s i = Ok n \<longleftrightarrow> om_lookup (inodes s) i = Some n"
  by (simp add: get_def)

lemma get_Err: "get s i = Err e \<longleftrightarrow> om_lookup (inodes s) i = None \<and> e = NoEnt"
  by (auto simp: get_def)

lemma get_not_Panic [simp]: "get s i \<noteq> Panic"
  by (simp add: get_def)

lemma get_mut_Ok [op_simps]:
  "get_mut i f s = (Ok u, s') \<longleftrightarrow> (\<exists>n n'. om_lookup (inodes s) i = Some n \<and> f n = Ok n' \<and>
     s' = s\<lparr>inodes := om_insert i n' (inodes s)\<rparr>)"
  by (auto simp: get_mut_def split: option.splits result.splits)

lemma get_mut_Err:
  "get_mut i f s = (Err e, s') \<longleftrightarrow> s' = s \<and>
     (om_lookup (inodes s) i = None \<and> e = NoEnt \<or> (\<exists>n. om_lookup (inodes s) i = Some n \<and> f n = Err e))"
  by (auto simp: get_mut_def split: option.splits result.splits)

lemma get_mut_Panic:
  "get_mut i f s = (Panic, s') \<longleftrightarrow> s' = s \<and> (\<exists>n. om_lookup (inodes s) i = Some n \<and> f n = Panic)"
  by (auto simp: get_mut_def split: option.splits result.splits)

lemma put_node_run [op_simps]: "put_node i n s = (Ok (), s\<lparr>inodes := om_insert i n (inodes s)\<rparr>)"
  by (simp add: put_node_def)

lemma drop_node_run [op_simps]: "drop_node i s = (Ok (), s\<lparr>inodes := om_remove i (inodes s)\<rparr>)"
  by (simp add: drop_node_def)

lemma alloc_ino_Ok [op_simps]:
  "alloc_ino s = (Ok i, s') \<longleftrightarrow> next_ino s \<noteq> - 1 \<and> i = Ino (next_ino s) \<and>
     s' = s\<lparr>next_ino := next_ino s + 1\<rparr>"
  by (auto simp: alloc_ino_def)

lemma alloc_ino_Err [op_simps]: "alloc_ino s \<noteq> (Err e, s')"
  by (simp add: alloc_ino_def)

lemma entries_of_Ok [op_simps]:
  "entries_of s p = Ok e \<longleftrightarrow> (\<exists>n. om_lookup (inodes s) p = Some n \<and> i_body n = Dir e)"
proof (cases "om_lookup (inodes s) p")
  case (Some n)
  then show ?thesis by (cases "i_body n") (auto simp: entries_of_def get_def)
qed (auto simp: entries_of_def get_def)

lemma entries_of_not_Panic [simp]: "entries_of s p \<noteq> Panic"
  by (auto simp: entries_of_def res_bind_eq_Panic split: body.splits)

lemma ensure_dir_no_entry_Ok [op_simps]:
  "ensure_dir_no_entry s p nm = Ok u \<longleftrightarrow>
     (\<exists>n e. om_lookup (inodes s) p = Some n \<and> i_body n = Dir e \<and> om_lookup e nm = None)"
  by (auto simp: ensure_dir_no_entry_def entries_of_Ok)

lemma ensure_dir_no_entry_not_Panic [simp]: "ensure_dir_no_entry s p nm \<noteq> Panic"
  by (auto simp: ensure_dir_no_entry_def res_bind_eq_Panic)

lemma child_ino_Ok [op_simps]:
  "child_ino s p nm = Ok c \<longleftrightarrow>
     (\<exists>n e. om_lookup (inodes s) p = Some n \<and> i_body n = Dir e \<and> om_lookup e nm = Some c)"
  by (auto simp: child_ino_def entries_of_Ok)

lemma child_ino_not_Panic [simp]: "child_ino s p nm \<noteq> Panic"
  by (auto simp: child_ino_def res_bind_eq_Panic)

lemma child_ino_ent: "child_ino s p nm = Ok c \<longleftrightarrow> t_ent (tree_of s) (p, nm) = Some c"
  by (auto simp: child_ino_Ok tree_of_def ent_mtree)

lemma validate_name_not_Panic [simp]: "validate_name nm \<noteq> Panic"
  by (simp add: validate_name_def)

lemma insert_entry_Ok [op_simps]:
  "insert_entry p nm c now s = (Ok u, s') \<longleftrightarrow>
     (\<exists>n e. om_lookup (inodes s) p = Some n \<and> i_body n = Dir e \<and>
        s' = s\<lparr>inodes := om_insert p (set_entries (om_insert nm c e) now n) (inodes s)\<rparr>)"
proof (cases "om_lookup (inodes s) p")
  case (Some n)
  then show ?thesis by (cases "i_body n") (auto simp: insert_entry_def get_mut_def)
qed (auto simp: insert_entry_def get_mut_def)

lemma remove_entry_Ok [op_simps]:
  "remove_entry p nm now s = (Ok u, s') \<longleftrightarrow>
     (\<exists>n e c. om_lookup (inodes s) p = Some n \<and> i_body n = Dir e \<and> om_lookup e nm = Some c \<and>
        s' = s\<lparr>inodes := om_insert p (set_entries (om_remove nm e) now n) (inodes s)\<rparr>)"
proof (cases "om_lookup (inodes s) p")
  case (Some n)
  then show ?thesis
    by (cases "i_body n") (auto simp: remove_entry_def get_mut_def split: option.splits)
qed (auto simp: remove_entry_def get_mut_def)

lemma insert_entry_Err [op_simps]:
  "insert_entry p nm c now s = (Err x, s') \<longleftrightarrow> s' = s \<and>
     (om_lookup (inodes s) p = None \<and> x = NoEnt
      \<or> (\<exists>n. om_lookup (inodes s) p = Some n \<and> \<not> is_Dir (i_body n) \<and> x = NotDir))"
proof (cases "om_lookup (inodes s) p")
  case (Some n)
  then show ?thesis by (cases "i_body n") (auto simp: insert_entry_def get_mut_def)
qed (auto simp: insert_entry_def get_mut_def)

lemma remove_entry_Err [op_simps]:
  "remove_entry p nm now s = (Err x, s') \<longleftrightarrow> s' = s \<and>
     (om_lookup (inodes s) p = None \<and> x = NoEnt
      \<or> (\<exists>n. om_lookup (inodes s) p = Some n \<and> \<not> is_Dir (i_body n) \<and> x = NotDir)
      \<or> (\<exists>n e. om_lookup (inodes s) p = Some n \<and> i_body n = Dir e \<and> om_lookup e nm = None \<and> x = NoEnt))"
proof (cases "om_lookup (inodes s) p")
  case (Some n)
  then show ?thesis
    by (cases "i_body n") (auto simp: remove_entry_def get_mut_def split: option.splits)
qed (auto simp: remove_entry_def get_mut_def)

lemma entry_changes_not_Panic [op_simps]:
  "insert_entry p nm c now s \<noteq> (Panic, s')" "remove_entry p nm now s \<noteq> (Panic, s')"
  by (auto simp: insert_entry_def remove_entry_def get_mut_Panic split: body.splits option.splits)

lemma unat_plus_one: "x \<noteq> - 1 \<Longrightarrow> unat (x + 1) = Suc (unat x)" for x :: "'a::len word"
  by (metis add.commute add_cancel_right_left eq_neg_iff_add_eq_0 unatSuc)

lemma uint_plus_one: "x \<noteq> - 1 \<Longrightarrow> uint (x + 1) = uint x + 1" for x :: "'a::len word"
  using unat_plus_one [of x] by (simp add: uint_nat del: uint_nat [symmetric] int_nat_eq of_nat_unat)

lemma uint_minus_one: "x \<noteq> 0 \<Longrightarrow> uint (x - 1) = uint x - 1" for x :: "'a::len word"
  using uint_plus_one [of "x - 1"] by force

lemma checked_add_one: "checked_add x 1 = (if x = - 1 then None else Some (x + 1))" for x :: "'a::len word"
proof (cases "x = - 1")
  case False
  then have "unat x + unat (1 :: 'a word) < 2 ^ LENGTH('a)"
    by (metis Suc_eq_plus1 unat_plus_one unsigned_1 unsigned_less)
  then have "uint x + uint (1 :: 'a word) < 2 ^ LENGTH('a)" by (simp only: uint_add_bound)
  with False show ?thesis by (simp only: checked_add_def if_False if_True)
next
  case True
  have "checked_add x 1 = None"
  proof (rule ccontr)
    assume "checked_add x 1 \<noteq> None"
    then obtain c where "checked_add x 1 = Some c" by auto
    then have "unat c = 2 ^ LENGTH('a)"
      using True by (simp add: checked_add_SomeD unat_max_word)
    moreover have "unat c < 2 ^ LENGTH('a)" by simp
    ultimately show False by linarith
  qed
  with True show ?thesis by simp
qed

lemma incr_nlink_eq [op_simps]:
  "incr_nlink n = (if a_nlink (i_attr n) = - 1 then Panic
     else Ok (map_attr (\<lambda>a. a\<lparr>a_nlink := a_nlink a + 1\<rparr>) n))"
  by (simp add: incr_nlink_def checked_add_one map_attr_def)

lemma decr_nlink_eq [op_simps]:
  "decr_nlink n = (if a_nlink (i_attr n) = 0 then Panic
     else Ok (map_attr (\<lambda>a. a\<lparr>a_nlink := a_nlink a - 1\<rparr>) n))"
  by (simp add: decr_nlink_def)

section \<open>Effects of the primitive steps\<close>

text \<open>
  Four views of the state decide the invariant: its tree, the slack of every inode, its link
  counts and the bytes of its contents. Each primitive step changes them in a known way, so
  that an operation is the composition of its steps' effects.
\<close>

definition links :: "(ino, inode) omap \<Rightarrow> ino \<Rightarrow> nat" where
  "links M i = (case om_lookup M i of None \<Rightarrow> 0 | Some n \<Rightarrow> nlink_of n)"

lemma nlinks_ok_views:
  "nlinks_ok M \<longleftrightarrow> (\<forall>i. t_node (mtree M) i \<noteq> None \<longrightarrow>
     0 < links M i \<and> 0 \<le> slack M i \<and> (t_isdir (mtree M) i \<longrightarrow> slack M i = 0))"
  by (fastforce simp: nlinks_ok_def links_def mtree_sel t_isdir_mtree m_isdir_def)

lemma fs_wfI:
  assumes "tree_ok (tree_of s)" "nodes_ok (next_ino s) (inodes s)"
    and "\<And>i. t_node (tree_of s) i \<noteq> None \<Longrightarrow> 0 < links (inodes s) i \<and> 0 \<le> slack (inodes s) i"
    and "\<And>i. t_isdir (tree_of s) i \<Longrightarrow> slack (inodes s) i = 0"
    and "unat (bytes_used s) = content_bytes (inodes s)" "bytes_used s \<le> bytes_limit s"
  shows "fs_wf s"
  using assms by (simp add: fs_wf_def nlinks_ok_views tree_of_def)

lemma links_pos_dir:
  assumes "t_isdir (tree_of s) j" "slack (inodes s) j = 0"
  shows "0 < links (inodes s) j"
proof -
  have "om_lookup (inodes s) j \<noteq> None \<and> m_isdir (inodes s) j"
    using assms(1) by (auto simp: tree_of_def t_isdir_mtree m_isdir_def)
  with assms(2) show ?thesis by (auto simp: slack_def links_def m_isdir_def)
qed

text \<open>The link count of a directory is positive as soon as its slack is zero.\<close>

lemma fs_wfI_leaf:
  assumes "tree_ok (tree_of s)" "nodes_ok (next_ino s) (inodes s)"
    and leaf: "\<And>i. t_node (tree_of s) i \<noteq> None \<Longrightarrow> \<not> t_isdir (tree_of s) i \<Longrightarrow>
       0 < links (inodes s) i \<and> 0 \<le> slack (inodes s) i"
    and dir: "\<And>i. t_isdir (tree_of s) i \<Longrightarrow> slack (inodes s) i = 0"
    and "unat (bytes_used s) = content_bytes (inodes s)" "bytes_used s \<le> bytes_limit s"
  shows "fs_wf s"
proof (rule fs_wfI)
  show "0 < links (inodes s) i \<and> 0 \<le> slack (inodes s) i" if "t_node (tree_of s) i \<noteq> None" for i
    using leaf [OF that] dir [of i] links_pos_dir [of s i] by (cases "t_isdir (tree_of s) i") auto
qed (use assms in auto)

lemma wf_slack:
  assumes "fs_wf s" "t_node (tree_of s) i \<noteq> None"
  shows "0 < links (inodes s) i" "0 \<le> slack (inodes s) i"
    and "t_isdir (tree_of s) i \<Longrightarrow> slack (inodes s) i = 0"
  using assms by (auto simp: fs_wf_def nlinks_ok_views tree_of_def)

lemma wf_slack_dir: "fs_wf s \<Longrightarrow> t_isdir (tree_of s) i \<Longrightarrow> slack (inodes s) i = 0"
  by (rule wf_slack(3)) (auto simp: t_isdir_def)

lemma content_update:
  assumes "om_lookup M i = Some n" "body_bytes (i_body n') = body_bytes (i_body n)"
  shows "content_bytes (om_insert i n' M) = content_bytes M"
  using om_sum_update [OF assms(1), of "\<lambda>n. body_bytes (i_body n)" n'] assms(2)
  by (simp add: content_bytes_def)

lemma links_insert: "links (om_insert i n M) = (links M)(i := nlink_of n)"
  by (rule ext) (simp add: links_def)

lemma links_same:
  "om_lookup M i = Some n \<Longrightarrow> nlink_of n' = nlink_of n \<Longrightarrow> links (om_insert i n' M) = links M"
  by (rule ext) (simp add: links_def)

lemma node_ok_set_entries:
  "node_ok nx i n \<Longrightarrow> i_body n = Dir e \<Longrightarrow> node_ok nx i (set_entries e' now n)"
  by (auto simp: node_ok_def set_entries_def)

lemma node_ok_same:
  assumes "node_ok nx i n" "i_body n' = i_body n" "i_parent n' = i_parent n"
    "a_ino (i_attr n') = a_ino (i_attr n)" "a_kind (i_attr n') = a_kind (i_attr n)"
    "a_size (i_attr n') = a_size (i_attr n)"
  shows "node_ok nx i n'"
  using assms by (simp add: node_ok_def split: body.splits)

lemma effect_insert_entry:
  assumes run: "insert_entry p nm c now s = (Ok u, s')"
    and free: "t_ent (tree_of s) (p, nm) = None" and c: "om_lookup (inodes s) c \<noteq> None"
  shows "tree_of s' = t_put (tree_of s) p nm c"
    and "slack (inodes s') j = slack (inodes s) j - moved (inodes s) p c j"
    and "links (inodes s') = links (inodes s)"
    and "content_bytes (inodes s') = content_bytes (inodes s)"
    and "nodes_ok nx (inodes s) \<Longrightarrow> nodes_ok nx (inodes s')"
    and "t_isdir (tree_of s) p"
    and "next_ino s' = next_ino s" "bytes_used s' = bytes_used s" "bytes_limit s' = bytes_limit s"
proof -
  from run obtain n e where p: "om_lookup (inodes s) p = Some n" "i_body n = Dir e"
    and s': "s' = s\<lparr>inodes := om_insert p (set_entries (om_insert nm c e) now n) (inodes s)\<rparr>"
    by (auto simp: op_simps)
  have e: "om_lookup e nm = None" using free p by (simp add: tree_of_def ent_lookup)
  show "tree_of s' = t_put (tree_of s) p nm c"
    by (simp add: s' tree_of_def mtree_insert_entry [OF p])
  show "slack (inodes s') j = slack (inodes s) j - moved (inodes s) p c j"
    by (simp add: s' slack_insert_entry [OF p e c])
  show "links (inodes s') = links (inodes s)"
    by (simp add: s' links_same [OF p(1)])
  show "content_bytes (inodes s') = content_bytes (inodes s)"
    by (simp add: s' content_update [OF p(1)] p(2))
  show "nodes_ok nx (inodes s')" if "nodes_ok nx (inodes s)"
    using that p nodes_okD [OF that p(1)]
    by (auto simp: s' intro!: nodes_ok_insert node_ok_set_entries)
  show "t_isdir (tree_of s) p"
    using p by (auto simp: tree_of_def t_isdir_mtree m_isdir_def)
qed (use run in \<open>auto simp: op_simps\<close>)

lemma effect_remove_entry:
  assumes run: "remove_entry p nm now s = (Ok u, s')"
    and ent: "t_ent (tree_of s) (p, nm) = Some c" and c: "om_lookup (inodes s) c \<noteq> None"
  shows "tree_of s' = t_cut (tree_of s) p nm"
    and "slack (inodes s') j = slack (inodes s) j + moved (inodes s) p c j"
    and "links (inodes s') = links (inodes s)"
    and "content_bytes (inodes s') = content_bytes (inodes s)"
    and "nodes_ok nx (inodes s) \<Longrightarrow> nodes_ok nx (inodes s')"
    and "next_ino s' = next_ino s" "bytes_used s' = bytes_used s" "bytes_limit s' = bytes_limit s"
proof -
  from run obtain n e where p: "om_lookup (inodes s) p = Some n" "i_body n = Dir e"
    and s': "s' = s\<lparr>inodes := om_insert p (set_entries (om_remove nm e) now n) (inodes s)\<rparr>"
    by (auto simp: op_simps)
  have e: "om_lookup e nm = Some c" using ent p by (simp add: tree_of_def ent_lookup)
  show "tree_of s' = t_cut (tree_of s) p nm"
    by (simp add: s' tree_of_def mtree_remove_entry [OF p])
  show "slack (inodes s') j = slack (inodes s) j + moved (inodes s) p c j"
    by (simp add: s' slack_remove_entry [OF p e c])
  show "links (inodes s') = links (inodes s)"
    by (simp add: s' links_same [OF p(1)])
  show "content_bytes (inodes s') = content_bytes (inodes s)"
    by (simp add: s' content_update [OF p(1)] p(2))
  show "nodes_ok nx (inodes s')" if "nodes_ok nx (inodes s)"
    using that p nodes_okD [OF that p(1)]
    by (auto simp: s' intro!: nodes_ok_insert node_ok_set_entries)
qed (use run in \<open>auto simp: op_simps\<close>)

text \<open>A step that changes the attributes of an inode, and possibly a directory's parent.\<close>

lemma effect_attr:
  assumes i: "om_lookup (inodes s) i = Some n"
    and s': "s' = s\<lparr>inodes := om_insert i n' (inodes s)\<rparr>"
    and n': "i_body n' = i_body n \<and> i_parent n' = i_parent n \<and>
       a_ino (i_attr n') = a_ino (i_attr n) \<and> a_kind (i_attr n') = a_kind (i_attr n) \<and>
       a_size (i_attr n') = a_size (i_attr n) \<and> int (nlink_of n') = int (nlink_of n) + d"
  shows "tree_of s' = tree_of s"
    and "slack (inodes s') j = slack (inodes s) j + (if j = i then d else 0)"
    and "int (links (inodes s') j) = int (links (inodes s) j) + (if j = i then d else 0)"
    and "content_bytes (inodes s') = content_bytes (inodes s)"
    and "nodes_ok nx (inodes s) \<Longrightarrow> nodes_ok nx (inodes s')"
    and "next_ino s' = next_ino s" "bytes_used s' = bytes_used s" "bytes_limit s' = bytes_limit s"
    and "m_isdir (inodes s') k \<longleftrightarrow> m_isdir (inodes s) k"
proof -
  show "tree_of s' = tree_of s"
    using n' by (simp add: s' tree_of_def mtree_same [OF i])
  show "slack (inodes s') j = slack (inodes s) j + (if j = i then d else 0)"
    using n' by (simp add: s' slack_same_body [OF i])
  show "int (links (inodes s') j) = int (links (inodes s) j) + (if j = i then d else 0)"
    using n' i by (simp add: s' links_insert) (simp add: links_def)
  show "content_bytes (inodes s') = content_bytes (inodes s)"
    using n' by (simp add: s' content_update [OF i])
  show "nodes_ok nx (inodes s')" if "nodes_ok nx (inodes s)"
    using n' by (auto simp: s' intro!: nodes_ok_insert [OF that] node_ok_same [OF nodes_okD [OF that i]])
  show "m_isdir (inodes s') k \<longleftrightarrow> m_isdir (inodes s) k"
    using n' by (simp add: s' isdir_same [OF i])
qed (simp_all add: s')

lemma effect_get_mut:
  assumes run: "get_mut i f s = (Ok u, s')"
    and f: "\<And>n n'. f n = Ok n' \<Longrightarrow> i_body n' = i_body n \<and> i_parent n' = i_parent n \<and>
       a_ino (i_attr n') = a_ino (i_attr n) \<and> a_kind (i_attr n') = a_kind (i_attr n) \<and>
       a_size (i_attr n') = a_size (i_attr n) \<and> int (nlink_of n') = int (nlink_of n) + d"
  shows "tree_of s' = tree_of s"
    and "slack (inodes s') j = slack (inodes s) j + (if j = i then d else 0)"
    and "int (links (inodes s') j) = int (links (inodes s) j) + (if j = i then d else 0)"
    and "content_bytes (inodes s') = content_bytes (inodes s)"
    and "nodes_ok nx (inodes s) \<Longrightarrow> nodes_ok nx (inodes s')"
    and "next_ino s' = next_ino s" "bytes_used s' = bytes_used s" "bytes_limit s' = bytes_limit s"
    and "m_isdir (inodes s') k \<longleftrightarrow> m_isdir (inodes s) k"
proof -
  from run obtain n n' where i: "om_lookup (inodes s) i = Some n" and fn: "f n = Ok n'"
    and s': "s' = s\<lparr>inodes := om_insert i n' (inodes s)\<rparr>"
    by (auto simp: op_simps)
  note * = effect_attr [OF i s' f [OF fn]]
  show "tree_of s' = tree_of s"
    and "slack (inodes s') j = slack (inodes s) j + (if j = i then d else 0)"
    and "int (links (inodes s') j) = int (links (inodes s) j) + (if j = i then d else 0)"
    and "content_bytes (inodes s') = content_bytes (inodes s)"
    and "nodes_ok nx (inodes s) \<Longrightarrow> nodes_ok nx (inodes s')"
    and "next_ino s' = next_ino s" "bytes_used s' = bytes_used s" "bytes_limit s' = bytes_limit s"
    and "m_isdir (inodes s') k \<longleftrightarrow> m_isdir (inodes s) k"
    by (fact *)+
qed

lemma incr_nlink_effect:
  "incr_nlink n = Ok n' \<Longrightarrow> i_body n' = i_body n \<and> i_parent n' = i_parent n \<and>
     a_ino (i_attr n') = a_ino (i_attr n) \<and> a_kind (i_attr n') = a_kind (i_attr n) \<and>
     a_size (i_attr n') = a_size (i_attr n) \<and> int (nlink_of n') = int (nlink_of n) + 1"
  by (auto simp: incr_nlink_eq map_attr_def nlink_of_def uint_plus_one split: if_splits)

lemma decr_nlink_effect:
  "decr_nlink n = Ok n' \<Longrightarrow> i_body n' = i_body n \<and> i_parent n' = i_parent n \<and>
     a_ino (i_attr n') = a_ino (i_attr n) \<and> a_kind (i_attr n') = a_kind (i_attr n) \<and>
     a_size (i_attr n') = a_size (i_attr n) \<and> int (nlink_of n') = int (nlink_of n) + - 1"
  by (auto simp: decr_nlink_eq map_attr_def nlink_of_def uint_minus_one split: if_splits)

text \<open>A fresh inode, and the drop of an inode that has no names and no entries.\<close>

lemma effect_put_fresh:
  assumes i: "om_lookup (inodes s) i = None" and ok: "tree_ok (tree_of s)"
    and n: "node_entries n = Map.empty"
    and s': "inodes s' = om_insert i n (inodes s)"
  shows "tree_of s' = t_set (tree_of s) i (tnode_of n)"
    and "slack (inodes s') j = (if j = i then int (nlink_of n) - (if is_Dir (i_body n) then 2 else 0)
       else slack (inodes s) j)"
    and "links (inodes s') = (links (inodes s))(i := nlink_of n)"
    and "content_bytes (inodes s') = content_bytes (inodes s) + body_bytes (i_body n)"
    and "m_isdir (inodes s') k \<longleftrightarrow> (if k = i then is_Dir (i_body n) else m_isdir (inodes s) k)"
    and "om_lookup (inodes s') i \<noteq> None"
    and "t_ent (tree_of s') = t_ent (tree_of s)"
proof -
  have c: "closed (inodes s)" using tree_ok_closed ok by (simp add: tree_of_def)
  show t: "tree_of s' = t_set (tree_of s) i (tnode_of n)"
    by (simp add: tree_of_def s' mtree_fresh [OF i n])
  show "slack (inodes s') j = (if j = i then int (nlink_of n) - (if is_Dir (i_body n) then 2 else 0)
       else slack (inodes s) j)"
    by (simp add: s' slack_fresh [OF i n c])
  show "content_bytes (inodes s') = content_bytes (inodes s) + body_bytes (i_body n)"
    by (simp add: s' content_bytes_def om_sum_insert_new [OF i])
  show "t_ent (tree_of s') = t_ent (tree_of s)" by (simp add: t)
qed (simp_all add: s' links_insert isdir_insert)

lemma effect_drop:
  assumes i: "om_lookup (inodes s) i = Some n" and n: "node_entries n = Map.empty"
    and unnamed: "names (inodes s) i = {}" and s': "inodes s' = om_remove i (inodes s)"
  shows "tree_of s' = t_drop (tree_of s) i"
    and "slack (inodes s') j = (if j = i then 0 else slack (inodes s) j)"
    and "links (inodes s') = (links (inodes s))(i := 0)"
    and "content_bytes (inodes s) = content_bytes (inodes s') + body_bytes (i_body n)"
    and "nodes_ok nx (inodes s) \<Longrightarrow> nodes_ok nx (inodes s')"
proof -
  show "tree_of s' = t_drop (tree_of s) i"
    by (simp add: tree_of_def s' mtree_drop [OF i n])
  show "slack (inodes s') j = (if j = i then 0 else slack (inodes s) j)"
    by (simp add: s' slack_drop [OF i n unnamed])
  show "links (inodes s') = (links (inodes s))(i := 0)"
    by (rule ext) (simp add: links_def s')
  show "content_bytes (inodes s) = content_bytes (inodes s') + body_bytes (i_body n)"
    by (simp add: s' content_bytes_def om_sum_remove [OF i])
  show "nodes_ok nx (inodes s')" if "nodes_ok nx (inodes s)"
    using that by (simp add: s' nodes_ok_remove)
qed

section \<open>Directory creation\<close>

lemma next_ino_less: "x \<noteq> - 1 \<Longrightarrow> x < x + 1" for x :: "'a::len word"
  by (simp add: word_less_nat_alt unat_plus_one)

lemma node_lookup: "t_node (tree_of s) i = None \<longleftrightarrow> om_lookup (inodes s) i = None"
  by (simp add: tree_of_def mtree_sel)

lemma fresh_node: "fs_wf s \<Longrightarrow> t_node (tree_of s) (Ino (next_ino s)) = None"
  by (simp add: node_lookup wf_fresh)

lemma wf_next: "fs_wf s \<Longrightarrow> next_ino s \<noteq> - 1 \<Longrightarrow> nodes_ok (next_ino s + 1) (inodes s)"
  by (rule nodes_ok_mono [OF wf_nodes]) (simp_all add: next_ino_less order_less_imp_le)

lemma mkdir_run:
  assumes wf: "fs_wf s" and run: "mkdir p nm mode now s = (Ok a, s')"
  defines "i \<equiv> Ino (next_ino s)"
  shows mkdir_wf: "fs_wf s'"
    and mkdir_refines: "tree_of s' = t_put (t_set (tree_of s) i (TDir p)) p nm i"
    and mkdir_slack: "slack (inodes s') = slack (inodes s)"
    and mkdir_free: "t_ent (tree_of s) (p, nm) = None" "t_isdir (tree_of s) p" "validate_name nm = Ok ()"
    and mkdir_counters: "next_ino s' = next_ino s + 1" "bytes_used s' = bytes_used s" "bytes_limit s' = bytes_limit s"
proof -
  let ?n = "\<lparr>i_attr = new_attr i KDirectory mode 2 0 now, i_body = Dir om_empty, i_parent = Some p\<rparr>"
  define s1 where "s1 = s\<lparr>next_ino := next_ino s + 1, inodes := om_insert i ?n (inodes s)\<rparr>"
  from run obtain s2 n e where nm: "validate_name nm = Ok ()" and nxt: "next_ino s \<noteq> - 1"
    and p: "om_lookup (inodes s) p = Some n" "i_body n = Dir e" "om_lookup e nm = None"
    and ie: "insert_entry p nm i now s1 = (Ok (), s2)"
    and gm: "get_mut p incr_nlink s2 = (Ok (), s')"
    by (auto simp: mkdir_def and_then_Ok alloc_ino_Ok put_node_run ensure_dir_no_entry_Ok s1_def i_def)
  have free: "t_ent (tree_of s) (p, nm) = None" "t_isdir (tree_of s) p"
    using p by (auto simp: tree_of_def ent_lookup t_isdir_mtree m_isdir_def)
  have ne: "node_entries ?n = Map.empty" by (rule ext) (simp add: node_entries_def)
  have nl: "nlink_of ?n = 2" and tn: "tnode_of ?n = TDir p"
    by (simp_all add: nlink_of_def new_attr_def tnode_of_def parent_or_root_def)
  have ino: "inodes s1 = om_insert i ?n (inodes s)" by (simp add: s1_def)
  have ok: "tree_ok (tree_of s)" using wf by (simp add: fs_wf_def)
  note e1 = effect_put_fresh [OF wf_fresh [OF wf, folded i_def] ok ne ino, unfolded nl tn, simplified]
  have free1: "t_ent (tree_of s1) (p, nm) = None" using e1(7) free by simp
  have there: "om_lookup (inodes s1) i \<noteq> None" using e1(6) by simp
  note e2 = effect_insert_entry [OF ie free1 there]
  note e3 = effect_get_mut [OF gm incr_nlink_effect]
  have dir: "m_isdir (inodes s1) i" using e1(5) by simp
  show tree: "tree_of s' = t_put (t_set (tree_of s) i (TDir p)) p nm i"
    by (simp add: e3(1) e2(1) e1(1))
  have absent: "slack (inodes s) i = 0"
    using wf_fresh [OF wf] by (simp add: slack_def i_def)
  show slack: "slack (inodes s') = slack (inodes s)"
    using absent by (intro ext) (simp add: e3(2) e2(2) e1(2) moved_def dir)
  show cnt: "next_ino s' = next_ino s + 1" "bytes_used s' = bytes_used s" "bytes_limit s' = bytes_limit s"
    by (simp_all add: e3 e2 s1_def)
  show "fs_wf s'"
  proof (rule fs_wfI)
    show "tree_ok (tree_of s')"
      unfolding tree by (rule tree_ok_add [OF ok free(2,1) nm fresh_node [OF wf, folded i_def]]) simp
    have "node_ok (next_ino s + 1) i ?n"
      using nxt by (simp add: node_ok_def i_def new_attr_def next_ino_less)
    then have "nodes_ok (next_ino s + 1) (inodes s1)"
      by (simp add: ino nodes_ok_insert wf_next [OF wf nxt])
    then show "nodes_ok (next_ino s') (inodes s')"
      unfolding cnt by (intro e3(5) e2(5))
    show "0 < links (inodes s') j \<and> 0 \<le> slack (inodes s') j" if "t_node (tree_of s') j \<noteq> None" for j
      using that wf_slack [OF wf, of j] e3(3) [of j] absent
      by (auto simp: tree slack e2(3) e1(3) split: if_splits)
    show "slack (inodes s') j = 0" if "t_isdir (tree_of s') j" for j
      using that wf_slack(3) [OF wf, of j] absent
      by (auto simp: tree slack t_isdir_def split: if_splits)
    show "unat (bytes_used s') = content_bytes (inodes s')"
      by (simp add: cnt e3(4) e2(4) e1(4) wf_bytes [OF wf])
    show "bytes_used s' \<le> bytes_limit s'"
      by (simp add: cnt wf_limit [OF wf])
  qed
  show "t_ent (tree_of s) (p, nm) = None" "t_isdir (tree_of s) p" "validate_name nm = Ok ()"
    by (fact free nm)+
qed

section \<open>Creation of files and links\<close>

lemma add_leaf_run:
  assumes wf: "fs_wf s" and nxt: "next_ino s \<noteq> - 1"
    and i: "i = Ino (next_ino s)"
    and n: "\<not> is_Dir (i_body n)" "nlink_of n = 1" "node_ok (next_ino s + 1) i n"
    and s1: "inodes s1 = om_insert i n (inodes s)" "next_ino s1 = next_ino s + 1"
      "bytes_used s1 = bytes_used s" "bytes_limit s1 = bytes_limit s"
    and p: "om_lookup (inodes s) p = Some pn" "i_body pn = Dir e" "om_lookup e nm = None"
    and nm: "validate_name nm = Ok ()"
    and ie: "insert_entry p nm i now s1 = (Ok (), s2)"
    and b: "unat b = unat (bytes_used s) + body_bytes (i_body n)" "b \<le> bytes_limit s"
  shows "fs_wf (s2\<lparr>bytes_used := b\<rparr>)"
    and "tree_of s2 = t_put (t_set (tree_of s) i (tnode_of n)) p nm i"
    and "slack (inodes s2) = slack (inodes s)"
    and "next_ino s2 = next_ino s + 1" "bytes_used s2 = bytes_used s" "bytes_limit s2 = bytes_limit s"
proof -
  have fresh: "om_lookup (inodes s) i = None" using wf_fresh [OF wf] by (simp add: i)
  have free: "t_ent (tree_of s) (p, nm) = None" "t_isdir (tree_of s) p"
    using p by (auto simp: tree_of_def ent_lookup t_isdir_mtree m_isdir_def)
  have ne: "node_entries n = Map.empty"
    using n(1) by (cases "i_body n") (simp_all add: node_entries_def)
  have ok: "tree_ok (tree_of s)" using wf by (simp add: fs_wf_def)
  note e1 = effect_put_fresh [OF fresh ok ne s1(1)]
  have free1: "t_ent (tree_of s1) (p, nm) = None" using e1(7) free by simp
  note e2 = effect_insert_entry [OF ie free1 e1(6)]
  have nodir: "\<not> m_isdir (inodes s1) i" using e1(5) n(1) by simp
  show tree: "tree_of s2 = t_put (t_set (tree_of s) i (tnode_of n)) p nm i"
    by (simp add: e2(1) e1(1))
  have absent: "slack (inodes s) i = 0"
    using fresh by (simp add: slack_def)
  show slack: "slack (inodes s2) = slack (inodes s)"
    using absent n by (intro ext) (simp add: e2(2) e1(2) moved_def nodir)
  show cnt: "next_ino s2 = next_ino s + 1" "bytes_used s2 = bytes_used s" "bytes_limit s2 = bytes_limit s"
    by (simp_all add: e2 s1)
  have tree': "tree_of (s2\<lparr>bytes_used := b\<rparr>) = tree_of s2" by (simp add: tree_of_def)
  have leaf: "is_leaf (tnode_of n)" using n(1) by (simp add: is_leaf_tnode)
  show "fs_wf (s2\<lparr>bytes_used := b\<rparr>)"
  proof (rule fs_wfI; (unfold tree')?)
    show "tree_ok (tree_of s2)"
      unfolding tree
      by (rule tree_ok_add [OF ok free(2,1) nm]) (use leaf fresh in \<open>simp_all add: node_lookup\<close>)
    have "nodes_ok (next_ino s + 1) (inodes s1)"
      by (simp add: s1 nodes_ok_insert wf_next [OF wf nxt] n(3))
    then show "nodes_ok (next_ino (s2\<lparr>bytes_used := b\<rparr>)) (inodes (s2\<lparr>bytes_used := b\<rparr>))"
      by (simp add: cnt e2(5))
    show "0 < links (inodes (s2\<lparr>bytes_used := b\<rparr>)) j \<and> 0 \<le> slack (inodes (s2\<lparr>bytes_used := b\<rparr>)) j"
      if "t_node (tree_of s2) j \<noteq> None" for j
      using that wf_slack [OF wf, of j] absent n
      by (auto simp: tree slack e2(3) e1(3) split: if_splits)
    show "slack (inodes (s2\<lparr>bytes_used := b\<rparr>)) j = 0" if "t_isdir (tree_of s2) j" for j
      using that wf_slack(3) [OF wf, of j] absent
      by (auto simp: tree slack t_isdir_def split: if_splits)
    show "unat (bytes_used (s2\<lparr>bytes_used := b\<rparr>)) = content_bytes (inodes (s2\<lparr>bytes_used := b\<rparr>))"
      by (simp add: e2(4) e1(4) wf_bytes [OF wf] b)
    show "bytes_used (s2\<lparr>bytes_used := b\<rparr>) \<le> bytes_limit (s2\<lparr>bytes_used := b\<rparr>)"
      by (simp add: cnt b)
  qed
qed

lemma create_run:
  assumes wf: "fs_wf s" and run: "create p nm mode now s = (Ok a, s')"
  defines "i \<equiv> Ino (next_ino s)"
  shows create_wf: "fs_wf s'"
    and create_refines: "tree_of s' = t_put (t_set (tree_of s) i (TFile [])) p nm i"
    and create_slack: "slack (inodes s') = slack (inodes s)"
    and create_free: "t_ent (tree_of s) (p, nm) = None" "t_isdir (tree_of s) p" "validate_name nm = Ok ()"
    and create_counters: "next_ino s' = next_ino s + 1" "bytes_used s' = bytes_used s" "bytes_limit s' = bytes_limit s"
proof -
  let ?n = "\<lparr>i_attr = new_attr i KFile mode 1 0 now, i_body = File [], i_parent = None\<rparr>"
  define s1 where "s1 = s\<lparr>next_ino := next_ino s + 1, inodes := om_insert i ?n (inodes s)\<rparr>"
  from run obtain n e where nm: "validate_name nm = Ok ()" and nxt: "next_ino s \<noteq> - 1"
    and p: "om_lookup (inodes s) p = Some n" "i_body n = Dir e" "om_lookup e nm = None"
    and ie: "insert_entry p nm i now s1 = (Ok (), s')"
    by (auto simp: create_def and_then_Ok alloc_ino_Ok put_node_run ensure_dir_no_entry_Ok s1_def i_def)
  have "node_ok (next_ino s + 1) i ?n"
    using nxt by (simp add: node_ok_def i_def new_attr_def next_ino_less)
  note * = add_leaf_run [OF wf nxt i_def [THEN meta_eq_to_obj_eq] _ _ this _ _ _ _ p nm ie, of "bytes_used s"]
  have tn: "tnode_of ?n = TFile []" and nl: "nlink_of ?n = 1"
    by (simp_all add: tnode_of_def nlink_of_def new_attr_def)
  show "tree_of s' = t_put (t_set (tree_of s) i (TFile [])) p nm i"
    using *(2) nl wf_limit [OF wf] by (simp add: s1_def tn)
  show "slack (inodes s') = slack (inodes s)"
    and cnt: "next_ino s' = next_ino s + 1" "bytes_used s' = bytes_used s" "bytes_limit s' = bytes_limit s"
    using *(3-6) nl wf_limit [OF wf] by (simp_all add: s1_def)
  have "fs_wf (s'\<lparr>bytes_used := bytes_used s\<rparr>)"
    using *(1) nl wf_limit [OF wf] by (simp add: s1_def)
  with cnt(2) show "fs_wf s'" by (metis fs.surjective fs.update_convs(3) old.unit.exhaust)
  show "t_ent (tree_of s) (p, nm) = None" "t_isdir (tree_of s) p" "validate_name nm = Ok ()"
    using p nm by (auto simp: tree_of_def ent_lookup t_isdir_mtree m_isdir_def)
qed

lemma over_limit_iff:
  "over_limit s n \<longleftrightarrow> unat (bytes_limit s) < unat (bytes_used s) + unat n"
proof (cases "checked_add (bytes_used s) n")
  case None
  then show ?thesis
    using checked_add_NoneD [OF None] unsigned_less [of "bytes_limit s", where ?'a = nat]
    by (simp add: over_limit_def)
next
  case (Some u)
  then show ?thesis by (simp add: over_limit_def word_less_nat_alt checked_add_SomeD)
qed

lemma add_bytes_Ok [op_simps]:
  "add_bytes n s = (Ok u, s') \<longleftrightarrow>
     (\<exists>b. checked_add (bytes_used s) n = Some b \<and> s' = s\<lparr>bytes_used := b\<rparr>)"
  by (auto simp: add_bytes_def split: option.splits)

lemma node_of_data:
  "int (length d) \<le> isize_max \<Longrightarrow> unat (of_nat (length d) :: u64) = length d"
  using isize_max_lt_u64 [of "length d"] by (simp add: unat_of_nat_small)

lemma symlink_run:
  assumes wf: "fs_wf s" and len: "int (length target) \<le> isize_max"
    and run: "symlink p nm target now s = (Ok a, s')"
  defines "i \<equiv> Ino (next_ino s)"
  shows symlink_wf: "fs_wf s'"
    and symlink_refines: "tree_of s' = t_put (t_set (tree_of s) i (TSymlink target)) p nm i"
    and symlink_slack: "slack (inodes s') = slack (inodes s)"
    and symlink_free: "t_ent (tree_of s) (p, nm) = None" "t_isdir (tree_of s) p" "validate_name nm = Ok ()"
    and symlink_counters: "next_ino s' = next_ino s + 1"
      "unat (bytes_used s') = unat (bytes_used s) + length target" "bytes_limit s' = bytes_limit s"
proof -
  let ?n = "\<lparr>i_attr = new_attr i KSymlink MODE_777 1 (of_nat (length target)) now,
     i_body = Symlink target, i_parent = None\<rparr>"
  define s1 where "s1 = s\<lparr>next_ino := next_ino s + 1, inodes := om_insert i ?n (inodes s)\<rparr>"
  from run obtain n e s2 b where nm: "validate_name nm = Ok ()" and nxt: "next_ino s \<noteq> - 1"
    and p: "om_lookup (inodes s) p = Some n" "i_body n = Dir e" "om_lookup e nm = None"
    and room: "\<not> over_limit s (of_nat (length target))"
    and ie: "insert_entry p nm i now s1 = (Ok (), s2)"
    and b: "checked_add (bytes_used s2) (of_nat (length target)) = Some b"
    and s': "s' = s2\<lparr>bytes_used := b\<rparr>"
    by (auto simp: symlink_def and_then_Ok alloc_ino_Ok put_node_run ensure_dir_no_entry_Ok s1_def
        i_def Let_def add_bytes_Ok split: if_splits)
  have "bytes_used s2 = bytes_used s" using ie by (auto simp: op_simps s1_def)
  with checked_add_SomeD [OF b] have ub: "unat b = unat (bytes_used s) + length target"
    by (simp add: node_of_data [OF len])
  have lim: "b \<le> bytes_limit s"
    using room ub by (simp add: over_limit_iff node_of_data [OF len] word_le_nat_alt)
  have "node_ok (next_ino s + 1) i ?n"
    using nxt by (simp add: node_ok_def i_def new_attr_def next_ino_less node_of_data [OF len])
  note * = add_leaf_run [OF wf nxt i_def [THEN meta_eq_to_obj_eq] _ _ this _ _ _ _ p nm ie, of b]
  have tn: "tnode_of ?n = TSymlink target" and nl: "nlink_of ?n = 1"
    by (simp_all add: tnode_of_def nlink_of_def new_attr_def)
  show "fs_wf s'" using *(1) nl ub lim by (simp add: s1_def s')
  show "tree_of s' = t_put (t_set (tree_of s) i (TSymlink target)) p nm i"
    using *(2) nl ub lim by (simp add: s1_def tn s' tree_of_def)
  show "slack (inodes s') = slack (inodes s)"
    "next_ino s' = next_ino s + 1" "unat (bytes_used s') = unat (bytes_used s) + length target"
    "bytes_limit s' = bytes_limit s"
    using *(3-6) nl ub lim by (simp_all add: s1_def s')
  show "t_ent (tree_of s) (p, nm) = None" "t_isdir (tree_of s) p" "validate_name nm = Ok ()"
    using p nm by (auto simp: tree_of_def ent_lookup t_isdir_mtree m_isdir_def)
qed

lemma link_run:
  assumes wf: "fs_wf s" and run: "link i p nm now s = (Ok a, s')"
  shows link_wf: "fs_wf s'"
    and link_refines: "tree_of s' = t_put (tree_of s) p nm i"
    and link_slack: "slack (inodes s') = slack (inodes s)"
    and link_free: "t_ent (tree_of s) (p, nm) = None" "t_isdir (tree_of s) p" "validate_name nm = Ok ()"
      "\<not> t_isdir (tree_of s) i" "t_node (tree_of s) i \<noteq> None"
    and link_counters: "next_ino s' = next_ino s" "bytes_used s' = bytes_used s" "bytes_limit s' = bytes_limit s"
proof -
  let ?f = "\<lambda>node. res_bind (incr_nlink node) (\<lambda>node. Ok (map_attr (a_ctime_update (\<lambda>_. now)) node))"
  from run obtain src n e s1 where nm: "validate_name nm = Ok ()"
    and src: "om_lookup (inodes s) i = Some src" "\<not> is_Dir (i_body src)"
    and p: "om_lookup (inodes s) p = Some n" "i_body n = Dir e" "om_lookup e nm = None"
    and ie: "insert_entry p nm i now s = (Ok (), s1)" and gm: "get_mut i ?f s1 = (Ok (), s')"
    by (auto simp: link_def and_then_Ok get_Ok ensure_dir_no_entry_Ok split: if_splits)
  have free: "t_ent (tree_of s) (p, nm) = None" "t_isdir (tree_of s) p"
    and leaf: "\<not> t_isdir (tree_of s) i" "t_node (tree_of s) i = Some (tnode_of src)"
    using p src by (auto simp: tree_of_def ent_lookup t_isdir_mtree m_isdir_def mtree_sel(1))
  have isleaf: "is_leaf (tnode_of src)" using src by (simp add: is_leaf_tnode)
  have there: "om_lookup (inodes s) i \<noteq> None" using src by simp
  have eff: "i_body n' = i_body n \<and> i_parent n' = i_parent n \<and>
     a_ino (i_attr n') = a_ino (i_attr n) \<and> a_kind (i_attr n') = a_kind (i_attr n) \<and>
     a_size (i_attr n') = a_size (i_attr n) \<and> int (nlink_of n') = int (nlink_of n) + 1"
    if "?f n = Ok n'" for n n'
    using that incr_nlink_effect [of n] by (auto simp: map_attr_def nlink_of_def)
  note e1 = effect_insert_entry [OF ie free(1) there]
  note e2 = effect_get_mut [OF gm eff]
  show tree: "tree_of s' = t_put (tree_of s) p nm i" by (simp add: e2(1) e1(1))
  have nodir: "\<not> m_isdir (inodes s) i" using leaf by (simp add: tree_of_def t_isdir_mtree)
  show slack: "slack (inodes s') = slack (inodes s)"
    by (rule ext) (simp add: e2(2) e1(2) moved_def nodir)
  show cnt: "next_ino s' = next_ino s" "bytes_used s' = bytes_used s" "bytes_limit s' = bytes_limit s"
    by (simp_all add: e1 e2)
  have ok: "tree_ok (tree_of s)" using wf by (simp add: fs_wf_def)
  show "fs_wf s'"
  proof (rule fs_wfI)
    show "tree_ok (tree_of s')"
      unfolding tree by (rule tree_ok_put_leaf [OF ok free(2) _ nm leaf(2) isleaf]) (simp add: free)
    show "nodes_ok (next_ino s') (inodes s')"
      unfolding cnt by (intro e2(5) e1(5) wf_nodes [OF wf])
    show "0 < links (inodes s') j \<and> 0 \<le> slack (inodes s') j" if "t_node (tree_of s') j \<noteq> None" for j
      using that wf_slack [OF wf, of j] e2(3) [of j] by (auto simp: tree slack e1(3) split: if_splits)
    show "slack (inodes s') j = 0" if "t_isdir (tree_of s') j" for j
      using that wf_slack(3) [OF wf, of j] by (auto simp: tree slack t_isdir_def)
    show "unat (bytes_used s') = content_bytes (inodes s')"
      by (simp add: cnt e2(4) e1(4) wf_bytes [OF wf])
    show "bytes_used s' \<le> bytes_limit s'" by (simp add: cnt wf_limit [OF wf])
  qed
  show "t_ent (tree_of s) (p, nm) = None" "t_isdir (tree_of s) p" "validate_name nm = Ok ()"
      "\<not> t_isdir (tree_of s) i" "t_node (tree_of s) i \<noteq> None"
    using free nm leaf by simp_all
qed

section \<open>Removal\<close>

lemma names_mtree: "names (inodes s) i = {x. t_ent (tree_of s) x = Some i}"
  by (simp add: names_def tree_of_def)

lemma empty_dir_Ok:
  "(case b of Dir e \<Rightarrow> if om_len e \<noteq> 0 then fail NotEmpty else ret () | _ \<Rightarrow> fail NotDir) s = (Ok u, s') \<longleftrightarrow>
     (\<exists>e. b = Dir e \<and> om_len e = 0) \<and> s' = s"
  by (cases b) auto

lemma rmdir_run:
  assumes wf: "fs_wf s" and run: "rmdir p nm now s = (Ok u, s')"
  shows rmdir_wf: "fs_wf s'"
    and rmdir_refines: "\<exists>c. t_ent (tree_of s) (p, nm) = Some c \<and> t_isdir (tree_of s) c \<and>
       (\<forall>x. t_ent (tree_of s) (c, x) = None) \<and> tree_of s' = t_drop (t_cut (tree_of s) p nm) c"
    and rmdir_slack: "slack (inodes s') = slack (inodes s)"
    and rmdir_counters: "next_ino s' = next_ino s" "bytes_used s' = bytes_used s" "bytes_limit s' = bytes_limit s"
proof -
  from run [unfolded rmdir_def and_then_Ok empty_dir_Ok]
  obtain c node es s1 s2 where nm: "validate_name nm = Ok ()"
    and ent: "t_ent (tree_of s) (p, nm) = Some c"
    and c: "om_lookup (inodes s) c = Some node" "i_body node = Dir es" "om_len es = 0"
    and re: "remove_entry p nm now s = (Ok (), s1)" and gm: "get_mut p decr_nlink s1 = (Ok (), s2)"
    and s': "s' = s2\<lparr>inodes := om_remove c (inodes s2)\<rparr>"
    by (auto simp: get_Ok child_ino_ent drop_node_run)
  have ok: "tree_ok (tree_of s)" using wf by (simp add: fs_wf_def)
  have there: "om_lookup (inodes s) c \<noteq> None" using c by simp
  have dir: "t_isdir (tree_of s) c" "m_isdir (inodes s) c"
    using c by (auto simp: tree_of_def t_isdir_mtree m_isdir_def)
  have empty: "t_ent (tree_of s) (c, x) = None" for x
    using c by (simp add: tree_of_def ent_lookup om_len_zero)
  note e1 = effect_remove_entry [OF re ent there]
  note e2 = effect_get_mut [OF gm decr_nlink_effect]
  have t2: "tree_of s2 = t_cut (tree_of s) p nm" by (simp add: e2(1) e1(1))
  obtain n2 where n2: "om_lookup (inodes s2) c = Some n2" "is_Dir (i_body n2)"
  proof -
    have "t_isdir (tree_of s2) c" using dir by (simp add: t2 t_isdir_def)
    then show thesis using that by (auto simp: tree_of_def t_isdir_mtree m_isdir_def)
  qed
  have noent: "node_entries n2 = Map.empty"
  proof
    fix x
    have "t_ent (tree_of s2) (c, x) = None" using empty by (simp add: t2)
    then show "node_entries n2 x = None" using n2 by (simp add: tree_of_def mtree_sel)
  qed
  have unnamed: "names (inodes s2) c = {}"
    using tree_dir_only [OF ok ent dir(1)] by (auto simp: names_mtree t2 split: if_splits)
  note e3 = effect_drop [OF n2(1) noent unnamed, of s']
  have ino: "inodes s' = om_remove c (inodes s2)" by (simp add: s')
  note e3 = e3 [OF ino]
  have tree: "tree_of s' = t_drop (t_cut (tree_of s) p nm) c" by (simp add: e3(1) t2)
  with ent dir empty show "\<exists>c. t_ent (tree_of s) (p, nm) = Some c \<and> t_isdir (tree_of s) c \<and>
       (\<forall>x. t_ent (tree_of s) (c, x) = None) \<and> tree_of s' = t_drop (t_cut (tree_of s) p nm) c"
    by blast
  have "slack (inodes s) c = 0" using wf_slack(3) [OF wf _ dir(1)] there by (simp add: node_lookup)
  then show slack: "slack (inodes s') = slack (inodes s)"
    by (intro ext) (simp add: e3(2) e2(2) e1(2) moved_def dir)
  show cnt: "next_ino s' = next_ino s" "bytes_used s' = bytes_used s" "bytes_limit s' = bytes_limit s"
    by (simp_all add: e1 e2 s')
  show "fs_wf s'"
  proof (rule fs_wfI_leaf)
    show "tree_ok (tree_of s')"
      unfolding tree by (rule tree_ok_rmdir [OF ok ent dir(1) empty])
    show "nodes_ok (next_ino s') (inodes s')"
      unfolding cnt by (intro e3(5) e2(5) e1(5) wf_nodes [OF wf])
    show "slack (inodes s') j = 0" if "t_isdir (tree_of s') j" for j
      using that wf_slack(3) [OF wf, of j] by (auto simp: tree slack t_isdir_def split: if_splits)
    show "0 < links (inodes s') j \<and> 0 \<le> slack (inodes s') j"
      if "t_node (tree_of s') j \<noteq> None" "\<not> t_isdir (tree_of s') j" for j
    proof -
      have j: "t_node (tree_of s) j \<noteq> None" "j \<noteq> c" using that by (auto simp: tree split: if_splits)
      then have "j \<noteq> p"
        using that tree_ent_dir [OF ok ent] by (auto simp: tree t_isdir_def split: if_splits)
      then show ?thesis
        using j wf_slack(1,2) [OF wf j(1)] e2(3) [of j] by (simp add: slack e3(3) e1(3))
    qed
    have "body_bytes (i_body n2) = 0" using n2(2) by (cases "i_body n2") simp_all
    then show "unat (bytes_used s') = content_bytes (inodes s')"
      using e3(4) by (simp add: cnt e2(4) e1(4) wf_bytes [OF wf])
    show "bytes_used s' \<le> bytes_limit s'" by (simp add: cnt wf_limit [OF wf])
  qed
qed

text \<open>The end of \<open>unlink\<close>: the inode is dropped when its link count reaches zero.\<close>

lemma drop_last_effect:
  assumes wf: "tree_ok (tree_of s)" "t_node (tree_of s) c \<noteq> None" "\<not> t_isdir (tree_of s) c"
    and slack: "0 \<le> slack (inodes s) c"
    and zero: "links (inodes s) c = 0"
    and c: "om_lookup (inodes s) c = Some n"
    and s': "s' = s\<lparr>bytes_used := b, inodes := om_remove c (inodes s)\<rparr>"
  shows "tree_of s' = t_drop (tree_of s) c" "tree_ok (tree_of s')"
    and "slack (inodes s') = slack (inodes s)"
    and "links (inodes s') = (links (inodes s))(c := 0)"
    and "content_bytes (inodes s) = content_bytes (inodes s') + body_bytes (i_body n)"
    and "nodes_ok nx (inodes s) \<Longrightarrow> nodes_ok nx (inodes s')"
proof -
  have leaf: "is_leaf (tnode_of n)" "\<not> is_Dir (i_body n)"
    using wf(3) c by (auto simp: is_leaf_tnode tree_of_def t_isdir_mtree m_isdir_def)
  then have ne: "node_entries n = Map.empty"
    by (cases "i_body n") (simp_all add: node_entries_def)
  have "slack (inodes s) c = - int (card (names (inodes s) c))"
    using c leaf zero by (simp add: slack_def links_def)
  with slack have sl: "slack (inodes s) c = 0" and "card (names (inodes s) c) = 0" by simp_all
  then have unnamed: "names (inodes s) c = {}" by simp
  have ino: "inodes s' = om_remove c (inodes s)" by (simp add: s')
  note e = effect_drop [OF c ne unnamed ino]
  show tree: "tree_of s' = t_drop (tree_of s) c" by (fact e)
  have node: "t_node (tree_of s) c = Some (tnode_of n)" using c by (simp add: tree_of_def mtree_sel)
  show "tree_ok (tree_of s')"
    unfolding tree by (rule tree_ok_drop_leaf [OF wf(1) node leaf(1)])
      (use unnamed in \<open>simp add: names_mtree\<close>)
  show "slack (inodes s') = slack (inodes s)"
    by (rule ext) (simp add: e(2) sl)
  show "links (inodes s') = (links (inodes s))(c := 0)"
    "content_bytes (inodes s) = content_bytes (inodes s') + body_bytes (i_body n)"
    by (fact e)+
  show "nodes_ok nx (inodes s')" if "nodes_ok nx (inodes s)" using e(5) that by simp
qed

lemma unlink_run:
  assumes wf: "fs_wf s" and run: "unlink p nm now s = (Ok u, s')"
  obtains c where "t_ent (tree_of s) (p, nm) = Some c" "\<not> t_isdir (tree_of s) c"
    "tree_of s' = (if links (inodes s) c = 1 then t_drop (t_cut (tree_of s) p nm) c else t_cut (tree_of s) p nm)"
    "slack (inodes s') = slack (inodes s)" "fs_wf s'" "next_ino s' = next_ino s" "bytes_limit s' = bytes_limit s"
    "bytes_used s' \<le> bytes_used s"
proof -
  let ?f = "\<lambda>node. Ok (map_attr (\<lambda>a. a\<lparr>a_nlink := saturating_sub (a_nlink a) 1\<rparr>) node)"
  let ?last = "\<lambda>c node. if a_nlink (i_attr node) = 0 then
       and_then (modify (\<lambda>s. s\<lparr>bytes_used :=
           saturating_sub (bytes_used s) (of_nat (body_bytes (i_body node)))\<rparr>)) (\<lambda>_.
       drop_node c)
     else ret ()"
  from run obtain c node s1 s2 n2 where nm: "validate_name nm = Ok ()"
    and ent: "t_ent (tree_of s) (p, nm) = Some c"
    and c: "om_lookup (inodes s) c = Some node" "\<not> is_Dir (i_body node)"
    and re: "remove_entry p nm now s = (Ok (), s1)" and gm: "get_mut c ?f s1 = (Ok (), s2)"
    and n2: "om_lookup (inodes s2) c = Some n2" and last: "?last c n2 s2 = (Ok u, s')"
    by (auto simp: unlink_def and_then_Ok get_Ok child_ino_ent split: if_splits)
  have ok: "tree_ok (tree_of s)" using wf by (simp add: fs_wf_def)
  have there: "om_lookup (inodes s) c \<noteq> None" using c by simp
  have nodir: "\<not> t_isdir (tree_of s) c" "\<not> m_isdir (inodes s) c"
    using c by (auto simp: tree_of_def t_isdir_mtree m_isdir_def)
  have pos: "0 < links (inodes s) c" using wf_slack(1) [OF wf] there by (simp add: node_lookup)
  note e1 = effect_remove_entry [OF re ent there]
  from gm obtain n1 where n1: "om_lookup (inodes s1) c = Some n1"
    and s2: "s2 = s1\<lparr>inodes := om_insert c (map_attr (\<lambda>a. a\<lparr>a_nlink := saturating_sub (a_nlink a) 1\<rparr>) n1) (inodes s1)\<rparr>"
    by (auto simp: op_simps)
  have "links (inodes s1) c = nlink_of n1" using n1 by (simp add: links_def)
  with pos have "0 < nlink_of n1" by (simp add: e1(3))
  then have eff: "i_body n' = i_body n1 \<and> i_parent n' = i_parent n1 \<and>
       a_ino (i_attr n') = a_ino (i_attr n1) \<and> a_kind (i_attr n') = a_kind (i_attr n1) \<and>
       a_size (i_attr n') = a_size (i_attr n1) \<and> int (nlink_of n') = int (nlink_of n1) + - 1"
    if "n' = map_attr (\<lambda>a. a\<lparr>a_nlink := saturating_sub (a_nlink a) 1\<rparr>) n1" for n'
    using that by (simp add: map_attr_def nlink_of_def unat_saturating_sub of_nat_diff del: of_nat_unat)
  note e2 = effect_attr [OF n1 s2 eff [OF HOL.refl]]
  have tree2: "tree_of s2 = t_cut (tree_of s) p nm" by (simp add: e2(1) e1(1))
  have ok2: "tree_ok (tree_of s2)"
    unfolding tree2 by (rule tree_ok_cut_leaf [OF ok]) (use ent nodir in auto)
  have slack2: "slack (inodes s2) = slack (inodes s)"
    by (rule ext) (simp add: e2(2) e1(2) moved_def nodir)
  have l2: "int (links (inodes s2) j) = int (links (inodes s) j) - (if j = c then 1 else 0)" for j
    using e2(3) [of j] by (simp add: e1(3))
  have n2l: "a_nlink (i_attr n2) = 0 \<longleftrightarrow> links (inodes s) c = 1"
  proof -
    have "links (inodes s2) c = nlink_of n2" using n2 by (simp add: links_def)
    moreover have "a_nlink (i_attr n2) = 0 \<longleftrightarrow> nlink_of n2 = 0"
      by (simp add: nlink_of_def unsigned_eq_0_iff)
    ultimately show ?thesis using l2 [of c] by auto
  qed
  have cnt2: "next_ino s2 = next_ino s" "bytes_used s2 = bytes_used s" "bytes_limit s2 = bytes_limit s"
    and con2: "content_bytes (inodes s2) = content_bytes (inodes s)"
    by (simp_all add: e1 e2)
  have ok_nodes: "nodes_ok (next_ino s) (inodes s2)"
    by (intro e2(5) e1(5) wf_nodes [OF wf])
  show thesis
  proof (cases "links (inodes s) c = 1")
    case True
    let ?b = "saturating_sub (bytes_used s2) (of_nat (body_bytes (i_body n2)))"
    have s': "s' = s2\<lparr>bytes_used := ?b, inodes := om_remove c (inodes s2)\<rparr>"
      using last True n2l by (auto simp: and_then_Ok drop_node_run)
    have z: "links (inodes s2) c = 0" using l2 [of c] True by simp
    have sl: "0 \<le> slack (inodes s2) c" using wf_slack(2) [OF wf] there by (simp add: slack2 node_lookup)
    have node2: "t_node (tree_of s2) c \<noteq> None" "\<not> t_isdir (tree_of s2) c"
      using there nodir by (simp_all add: tree2 node_lookup t_isdir_def)
    note e3 = drop_last_effect [OF ok2 node2 sl z n2 s']
    have tree: "tree_of s' = t_drop (t_cut (tree_of s) p nm) c" by (simp add: e3(1) tree2)
    have cont: "content_bytes (inodes s) = content_bytes (inodes s') + body_bytes (i_body n2)"
      using e3(5) con2 by simp
    have le: "body_bytes (i_body n2) \<le> unat (bytes_used s)" using cont by (simp add: wf_bytes [OF wf])
    then have "body_bytes (i_body n2) < 2 ^ LENGTH(64)"
      using unsigned_less [of "bytes_used s", where ?'a = nat] by (rule order.strict_trans1)
    then have "unat (of_nat (body_bytes (i_body n2)) :: u64) = body_bytes (i_body n2)"
      by (rule unat_of_nat_small)
    then have ub: "unat (bytes_used s') = unat (bytes_used s) - body_bytes (i_body n2)"
      by (simp add: s' cnt2 unat_saturating_sub)
    have dirs: "t_isdir (tree_of s') j \<Longrightarrow> t_isdir (tree_of s) j" for j
      by (auto simp: tree t_isdir_def split: if_splits)
    have "fs_wf s'"
    proof (rule fs_wfI)
      show "tree_ok (tree_of s')" by (fact e3)
      show "nodes_ok (next_ino s') (inodes s')" using e3(6) ok_nodes by (simp add: s' cnt2)
      show "0 < links (inodes s') j \<and> 0 \<le> slack (inodes s') j" if "t_node (tree_of s') j \<noteq> None" for j
        using that wf_slack [OF wf, of j] l2 [of j] by (auto simp: tree e3(3,4) slack2 split: if_splits)
      show "slack (inodes s') j = 0" if "t_isdir (tree_of s') j" for j
        using wf_slack_dir [OF wf dirs [OF that]] by (simp add: e3(3) slack2)
      show "unat (bytes_used s') = content_bytes (inodes s')"
        using ub cont by (simp add: wf_bytes [OF wf])
      show "bytes_used s' \<le> bytes_limit s'"
        using ub wf_limit [OF wf] by (simp add: s' cnt2 word_le_nat_alt)
    qed
    moreover have "bytes_used s' \<le> bytes_used s" using ub by (simp add: word_le_nat_alt)
    moreover have "next_ino s' = next_ino s" "bytes_limit s' = bytes_limit s" by (simp_all add: s' cnt2)
    ultimately show thesis
      using that [OF ent nodir(1)] True tree e3(3) slack2 by simp
  next
    case False
    then have s': "s' = s2" using last n2l by simp
    have "fs_wf s2"
    proof (rule fs_wfI)
      show "0 < links (inodes s2) j \<and> 0 \<le> slack (inodes s2) j" if "t_node (tree_of s2) j \<noteq> None" for j
        using that wf_slack [OF wf, of j] l2 [of j] False by (auto simp: tree2 slack2 split: if_splits)
      show "slack (inodes s2) j = 0" if "t_isdir (tree_of s2) j" for j
        using that wf_slack_dir [OF wf, of j] by (auto simp: tree2 slack2 t_isdir_def)
    qed (use ok2 ok_nodes wf_bytes [OF wf] wf_limit [OF wf] in \<open>simp_all add: cnt2 con2\<close>)
    then show thesis using that [OF ent nodir(1)] False by (simp add: tree2 slack2 s' cnt2)
  qed
qed

end
