(* ===== verification/MemFsData.thy ===== *)
theory MemFsData
  imports MemFsOps
begin

text \<open>
  The operations on contents and attributes: \<open>read\<close>, \<open>write\<close>, \<open>truncate\<close> and \<open>setattr\<close>
  keep the invariant, charge the quota for what they store and read back what was written.
\<close>

section \<open>A change of the content of a file\<close>

lemma set_file_sel [simp]:
  "i_body (set_file c z now n) = File c" "i_parent (set_file c z now n) = i_parent n"
  "nlink_of (set_file c z now n) = nlink_of n" "tnode_of (set_file c z now n) = TFile c"
  "a_size (i_attr (set_file c z now n)) = z"
  by (simp_all add: set_file_def nlink_of_def tnode_of_def)

lemma set_file_run:
  assumes wf: "fs_wf s" and i: "om_lookup (inodes s) i = Some n" "i_body n = File c"
    and z: "unat z = length c'" and b: "unat b + length c = unat (bytes_used s) + length c'"
    and lim: "b \<le> bytes_limit s"
    and s': "s' = s\<lparr>inodes := om_insert i (set_file c' z now n) (inodes s), bytes_used := b\<rparr>"
  shows "fs_wf s'" "tree_of s' = t_set (tree_of s) i (TFile c')" "slack (inodes s') = slack (inodes s)"
proof -
  let ?n = "set_file c' z now n"
  have ok: "tree_ok (tree_of s)" using wf by (simp add: fs_wf_def)
  have leaf: "\<not> is_Dir (i_body n)" "\<not> is_Dir (i_body ?n)" using i by simp_all
  have node: "t_node (tree_of s) i = Some (TFile c)"
    using i by (simp add: tree_of_def mtree_sel tnode_of_def)
  show tree: "tree_of s' = t_set (tree_of s) i (TFile c')"
    by (simp add: s' tree_of_def mtree_leaf [OF i(1) leaf])
  show slack: "slack (inodes s') = slack (inodes s)"
    by (rule ext) (simp add: s' slack_leaf [OF i(1) leaf])
  have links: "links (inodes s') = links (inodes s)" by (simp add: s' links_same [OF i(1)])
  show "fs_wf s'"
  proof (rule fs_wfI)
    show "tree_ok (tree_of s')"
      unfolding tree by (rule tree_ok_set_leaf [OF ok node]) simp_all
    have "node_ok (next_ino s) i ?n"
      using wf_node_ok [OF wf i(1)] i(2) z by (simp add: node_ok_def) (simp add: set_file_def)
    then show "nodes_ok (next_ino s') (inodes s')"
      using wf_nodes [OF wf] by (simp add: s' nodes_ok_insert)
    show "0 < links (inodes s') j \<and> 0 \<le> slack (inodes s') j" if "t_node (tree_of s') j \<noteq> None" for j
      using that wf_slack [OF wf, of j] node by (auto simp: tree slack links split: if_splits)
    show "slack (inodes s') j = 0" if "t_isdir (tree_of s') j" for j
      using that wf_slack_dir [OF wf, of j] by (auto simp: tree slack t_isdir_def split: if_splits)
    have "content_bytes (inodes s') + length c = content_bytes (inodes s) + length c'"
      using om_sum_update [OF i(1), of "\<lambda>n. body_bytes (i_body n)" ?n] i(2)
      by (simp add: s' content_bytes_def)
    then show "unat (bytes_used s') = content_bytes (inodes s')"
      using b by (simp add: s' wf_bytes [OF wf])
    show "bytes_used s' \<le> bytes_limit s'" using lim by (simp add: s')
  qed
qed

lemma set_attr_run:
  assumes wf: "fs_wf s" and i: "om_lookup (inodes s) i = Some n"
    and s': "s' = s\<lparr>inodes := om_insert i (map_attr f n) (inodes s)\<rparr>"
    and f: "a_ino (f (i_attr n)) = a_ino (i_attr n)" "a_kind (f (i_attr n)) = a_kind (i_attr n)"
      "a_size (f (i_attr n)) = a_size (i_attr n)" "a_nlink (f (i_attr n)) = a_nlink (i_attr n)"
  shows "fs_wf s'" "tree_of s' = tree_of s" "slack (inodes s') = slack (inodes s)"
proof -
  have eff: "i_body (map_attr f n) = i_body n \<and> i_parent (map_attr f n) = i_parent n \<and>
     a_ino (i_attr (map_attr f n)) = a_ino (i_attr n) \<and> a_kind (i_attr (map_attr f n)) = a_kind (i_attr n) \<and>
     a_size (i_attr (map_attr f n)) = a_size (i_attr n) \<and> int (nlink_of (map_attr f n)) = int (nlink_of n) + 0"
    using f by (simp add: map_attr_def nlink_of_def)
  note e = effect_attr [OF i s' eff]
  show tree: "tree_of s' = tree_of s" by (fact e)
  show slack: "slack (inodes s') = slack (inodes s)" by (rule ext) (simp add: e(2))
  have links: "links (inodes s') j = links (inodes s) j" for j using e(3) [of j] by (auto split: if_splits)
  show "fs_wf s'"
  proof (rule fs_wfI)
    show "nodes_ok (next_ino s') (inodes s')" by (simp only: e(6)) (intro e(5) wf_nodes [OF wf])
    show "0 < links (inodes s') j \<and> 0 \<le> slack (inodes s') j" if "t_node (tree_of s') j \<noteq> None" for j
      using that wf_slack [OF wf, of j] by (simp add: tree slack links)
  qed (use wf in \<open>simp_all add: tree slack e(4,7,8) wf_slack_dir wf_bytes wf_limit, simp add: fs_wf_def\<close>)
qed

section \<open>Write\<close>

text \<open>What a write of \<open>data\<close> at \<open>off\<close> makes of a file: a gap is filled with zero bytes.\<close>

definition overwrite :: "bytes \<Rightarrow> nat \<Rightarrow> bytes \<Rightarrow> bytes" where
  "overwrite c off data = take off (c @ replicate (off - length c) (CHR 0x00)) @ data @ drop (off + length data) c"

lemma length_overwrite: "length (overwrite c off data) = max (length c) (off + length data)"
  by (simp add: overwrite_def max_def min_def)

lemma copy_into_overwrite:
  assumes "n = max (length c) (off + length data)"
  shows "take off (c @ replicate (n - length c) (CHR 0x00)) @ data @
     drop (off + length data) (c @ replicate (n - length c) (CHR 0x00)) = overwrite c off data"
proof (cases "off + length data \<le> length c")
  case True
  with assms show ?thesis by (simp add: overwrite_def)
next
  case False
  with assms have "n = off + length data" by simp
  then show ?thesis by (simp add: overwrite_def min_def)
qed

lemma file_check_Ok:
  "(case b of File c \<Rightarrow> ret () | Dir e \<Rightarrow> fail IsDir | Symlink x \<Rightarrow> fail Inval) s = (Ok u, s') \<longleftrightarrow>
     is_File b \<and> s' = s"
  by (cases b) auto

lemma unat_add_of_nat_less:
  "unat (a :: u64) + n < 2 ^ 64 \<Longrightarrow> unat (saturating_add a (of_nat n)) = unat a + n"
  using unsigned_less [of a, where ?'a = nat] by (simp add: unat_saturating_add unat_of_nat_small)

text \<open>
  A successful write: the content is overwrited, the quota charged for the growth. The bound on
  the length of \<open>data\<close> is Rust's bound on slices.
\<close>

lemma write_run:
  assumes wf: "fs_wf s" and len: "int (length data) \<le> isize_max"
    and run: "write_bytes i off data now s = (Ok r, s')"
  obtains n c where "om_lookup (inodes s) i = Some n" "i_body n = File c"
    "r = of_nat (length data)"
    "s' = s\<lparr>inodes := om_insert i (set_file (overwrite c (unat off) data)
          (of_nat (max (length c) (unat off + length data))) now n) (inodes s),
       bytes_used := of_nat (unat (bytes_used s) + (max (length c) (unat off + length data) - length c))\<rparr>"
    "unat (bytes_used s) + (max (length c) (unat off + length data) - length c) \<le> unat (bytes_limit s)"
proof -
  let ?len = "of_nat (length data) :: u64"
  from run [unfolded write_bytes_def and_then_Ok file_check_Ok Let_def]
  obtain n b where n: "om_lookup (inodes s) i = Some n" and isf: "is_File (i_body n)"
    and rest: "let old = a_size (i_attr n); nl = max old (saturating_add off ?len);
        delta = saturating_sub nl old in \<not> over_limit s delta \<and>
        (\<exists>s1. get_mut i (\<lambda>node. case i_body node of
         File content \<Rightarrow>
           res_bind (if length content < unat nl then vec_resize (unat nl) content
                     else Ok content) (\<lambda>content.
           res_bind (copy_into content (unat off) data) (\<lambda>content.
           Ok (set_file content nl now node)))
       | _ \<Rightarrow> Panic) s = (Ok (), s1) \<and> checked_add (bytes_used s1) delta = Some b \<and>
         s' = s1\<lparr>bytes_used := b\<rparr>)"
    and r: "r = of_nat (length data)"
    by (auto simp: get_Ok add_bytes_Ok Let_def split: if_splits)
  from isf obtain c where c: "i_body n = File c" by (cases "i_body n") auto
  have old: "unat (a_size (i_attr n)) = length c"
    using wf_node_ok [OF wf n] c by (simp add: node_ok_def)
  define nl where "nl = max (a_size (i_attr n)) (saturating_add off ?len)"
  define c1 where "c1 = c @ replicate (unat nl - length c) (CHR 0x00)"
  have ulen: "unat ?len = length data" by (rule node_of_data [OF len])
  have unl: "unat nl = max (length c) (min (unat off + length data) (2 ^ 64 - 1))"
    by (simp add: nl_def unat_max old unat_saturating_add ulen)
  from rest obtain c2 where room: "\<not> over_limit s (saturating_sub nl (a_size (i_attr n)))"
    and c2: "copy_into c1 (unat off) data = Ok c2"
    and b: "checked_add (bytes_used s) (saturating_sub nl (a_size (i_attr n))) = Some b"
    and s': "s' = s\<lparr>inodes := om_insert i (set_file c2 nl now n) (inodes s), bytes_used := b\<rparr>"
    using n c
    by (auto simp: Let_def nl_def [symmetric] get_mut_Ok c1_def vec_resize_def split: if_splits)
  have l1: "length c1 = unat nl" by (simp add: c1_def unl)
  with c2 have "unat off + length data \<le> unat nl" by (simp add: copy_into_def split: if_splits)
  moreover have "unat nl < 2 ^ 64" using unsigned_less [of nl, where ?'a = nat] by simp
  ultimately have m: "unat nl = max (length c) (unat off + length data)" by (simp add: unl)
  have "c2 = overwrite c (unat off) data"
    using c2 copy_into_overwrite [OF m] by (simp add: copy_into_def c1_def split: if_splits)
  moreover have "nl = of_nat (max (length c) (unat off + length data))" by (simp add: m [symmetric])
  moreover have sub: "unat (saturating_sub nl (a_size (i_attr n))) = max (length c) (unat off + length data) - length c"
    by (simp add: unat_saturating_sub old m)
  then have ub: "unat b = unat (bytes_used s) + (max (length c) (unat off + length data) - length c)"
    using checked_add_SomeD [OF b] by simp
  then have "b = of_nat (unat (bytes_used s) + (max (length c) (unat off + length data) - length c))"
    by (simp add: ub [symmetric] del: of_nat_add)
  moreover have "unat (bytes_used s) + (max (length c) (unat off + length data) - length c) \<le> unat (bytes_limit s)"
    using room sub by (simp add: over_limit_iff)
  ultimately show thesis using n c r s' by (intro that) simp_all
qed

lemma write_wf:
  assumes wf: "fs_wf s" and len: "int (length data) \<le> isize_max"
    and run: "write_bytes i off data now s = (Ok r, s')"
  shows "fs_wf s'" "slack (inodes s') = slack (inodes s)" "next_ino s' = next_ino s" "bytes_limit s' = bytes_limit s"
    and "\<exists>c. t_node (tree_of s) i = Some (TFile c) \<and> tree_of s' = t_set (tree_of s) i (TFile (overwrite c (unat off) data))"
proof -
  from write_run [OF assms] obtain n c where i: "om_lookup (inodes s) i = Some n" "i_body n = File c"
    and s': "s' = s\<lparr>inodes := om_insert i (set_file (overwrite c (unat off) data)
          (of_nat (max (length c) (unat off + length data))) now n) (inodes s),
       bytes_used := of_nat (unat (bytes_used s) + (max (length c) (unat off + length data) - length c))\<rparr>"
    and lim: "unat (bytes_used s) + (max (length c) (unat off + length data) - length c) \<le> unat (bytes_limit s)"
    by metis
  let ?m = "max (length c) (unat off + length data)"
  have used: "length c \<le> unat (bytes_used s)"
    using om_sum_le [OF i(1), of "\<lambda>n. body_bytes (i_body n)"] i(2)
    by (simp add: wf_bytes [OF wf] content_bytes_def)
  have bound: "unat (bytes_limit s) < 2 ^ 64" using unsigned_less [of "bytes_limit s", where ?'a = nat] by simp
  have z: "unat (of_nat ?m :: u64) = length (overwrite c (unat off) data)"
    unfolding length_overwrite by (rule unat_of_nat_small) (use lim used bound in \<open>simp, linarith\<close>)
  have b: "unat (of_nat (unat (bytes_used s) + (?m - length c)) :: u64) = unat (bytes_used s) + (?m - length c)"
    using lim bound by (intro unat_of_nat_small) simp
  have b': "unat (of_nat (unat (bytes_used s) + (?m - length c)) :: u64) + length c =
     unat (bytes_used s) + length (overwrite c (unat off) data)"
    unfolding b length_overwrite by simp
  have bl: "of_nat (unat (bytes_used s) + (?m - length c)) \<le> bytes_limit s"
    using lim unfolding word_le_nat_alt b .
  note * = set_file_run [OF wf i z b' bl s']
  show "fs_wf s'" "slack (inodes s') = slack (inodes s)" by (fact *)+
  have "t_node (tree_of s) i = Some (TFile c)" using i by (simp add: tree_of_def mtree_sel tnode_of_def)
  with *(2) show "\<exists>c. t_node (tree_of s) i = Some (TFile c) \<and> tree_of s' = t_set (tree_of s) i (TFile (overwrite c (unat off) data))"
    by blast
  show "next_ino s' = next_ino s" "bytes_limit s' = bytes_limit s" by (simp_all add: s')
qed

text \<open>The content after \<open>Vec::resize\<close>.\<close>

definition resized :: "bytes \<Rightarrow> nat \<Rightarrow> bytes" where
  "resized c n = take n c @ replicate (n - length c) (CHR 0x00)"

lemma length_resized [simp]: "length (resized c n) = n"
  by (simp add: resized_def)

lemma vec_resize_eq: "vec_resize n c = (if n \<le> length c \<or> int n \<le> isize_max then Ok (resized c n) else Panic)"
  by (auto simp: vec_resize_def resized_def)

text \<open>
  A write to a file never panics and fails only for lack of space, when the limit is at most
  \<open>isize::MAX\<close>; it then leaves the state alone.
\<close>

definition fits :: "fs \<Rightarrow> nat \<Rightarrow> nat \<Rightarrow> bool" where
  "fits s old_len new_len \<longleftrightarrow> unat (bytes_used s) + (new_len - old_len) \<le> unat (bytes_limit s)"

lemma file_facts:
  assumes wf: "fs_wf s" and n: "om_lookup (inodes s) i = Some n" "i_body n = File c"
  shows "unat (a_size (i_attr n)) = length c" "length c \<le> unat (bytes_used s)"
    "length c \<le> unat (bytes_limit s)" "length c < 2 ^ 64"
proof -
  show "unat (a_size (i_attr n)) = length c"
    using wf_node_ok [OF wf n(1)] n(2) by (simp add: node_ok_def)
  show used: "length c \<le> unat (bytes_used s)"
    using om_sum_le [OF n(1), of "\<lambda>n. body_bytes (i_body n)"] n(2)
    by (simp add: wf_bytes [OF wf] content_bytes_def)
  then show "length c \<le> unat (bytes_limit s)"
    using wf_limit [OF wf] by (simp add: word_le_nat_alt)
  then show "length c < 2 ^ 64" using unsigned_less [of "bytes_limit s", where ?'a = nat] by simp
qed

lemma write_result:
  assumes wf: "fs_wf s" and len: "int (length data) \<le> isize_max"
    and lim: "int (unat (bytes_limit s)) \<le> isize_max"
    and n: "om_lookup (inodes s) i = Some n" "i_body n = File c"
  shows "if fits s (length c) (max (length c) (unat off + length data))
     then \<exists>s'. write_bytes i off data now s = (Ok (of_nat (length data)), s')
     else write_bytes i off data now s = (Err NoSpc, s)"
proof -
  let ?len = "of_nat (length data) :: u64"
  define nl where "nl = max (a_size (i_attr n)) (saturating_add off ?len)"
  define delta where "delta = saturating_sub nl (a_size (i_attr n))"
  note f = file_facts [OF wf n]
  have ulen: "unat ?len = length data" by (rule node_of_data [OF len])
  have unl: "unat nl = max (length c) (min (unat off + length data) (2 ^ 64 - 1))"
    by (simp add: nl_def unat_max f(1) unat_saturating_add ulen)
  have ud: "unat delta = unat nl - length c" by (simp add: delta_def unat_saturating_sub f(1))
  have lim64: "unat (bytes_limit s) < 2 ^ 64 - 1" by (rule isize_max_lt [OF lim])
  have over: "over_limit s delta \<longleftrightarrow> \<not> fits s (length c) (max (length c) (unat off + length data))"
    using f(2) lim64 unfolding over_limit_iff ud unl fits_def by (auto simp: max_def min_def)
  let ?f = "\<lambda>node. case i_body node of
         File content \<Rightarrow>
           res_bind (if length content < unat nl then vec_resize (unat nl) content
                     else Ok content) (\<lambda>content.
           res_bind (copy_into content (unat off) data) (\<lambda>content.
           Ok (set_file content nl now node)))
       | _ \<Rightarrow> Panic"
  have run: "write_bytes i off data now s =
    (if over_limit s delta then (Err NoSpc, s)
     else and_then (get_mut i ?f) (\<lambda>_. and_then (add_bytes delta) (\<lambda>_. ret (of_nat (length data)))) s)"
    using n unfolding write_bytes_def delta_def nl_def
    by (simp add: and_then_query get_def Let_def and_then_eval)
  show ?thesis
  proof (cases "over_limit s delta")
    case True
    then show ?thesis using run over by simp
  next
    case False
    then have room: "unat (bytes_used s) + unat delta \<le> unat (bytes_limit s)"
      by (simp add: over_limit_iff)
    have le: "unat nl \<le> unat (bytes_limit s)" using room f(2) ud unl by linarith
    have small: "int (unat nl) \<le> isize_max"
      by (rule order_trans [OF _ lim]) (simp only: of_nat_le_iff le)
    have "unat nl < 2 ^ 64 - 1" using le lim64 by simp
    then have m: "unat off + length data \<le> unat nl" using unl by linarith
    obtain c1 where c1: "(if length c < unat nl then vec_resize (unat nl) c else Ok c) = Ok c1"
      and l1: "unat nl \<le> length c1"
      using small by (cases "length c < unat nl") (simp_all add: vec_resize_eq)
    obtain n' where fn: "?f n = Ok n'"
      using m l1 n(2) c1 by (simp add: copy_into_def)
    have g: "get_mut i ?f s = (Ok (), s\<lparr>inodes := om_insert i n' (inodes s)\<rparr>)"
      unfolding get_mut_Ok using n(1) fn by blast
    have "checked_add (bytes_used s) delta \<noteq> None"
      using room lim64 checked_add_NoneD [of "bytes_used s" delta] by auto
    then obtain b where "checked_add (bytes_used s) delta = Some b" by blast
    then show ?thesis
      using run False over g by (simp add: and_then_def add_bytes_def)
  qed
qed

lemma read_spec:
  assumes wf: "fs_wf s" and n: "om_lookup (inodes s) i = Some n" "i_body n = File c"
  shows "read s i off sz = Ok (take (unat sz) (drop (unat off) c))"
proof -
  note f = file_facts [OF wf n]
  have l: "unat (of_nat (length c) :: u64) = length c" using f(4) by (simp add: unat_of_nat_small)
  have sz: "unat (ucast sz :: u64) = unat sz"
    using unsigned_less [of sz, where ?'a = nat]
    by (simp add: unsigned_ucast_eq take_bit_nat_eq_self)
  have e: "unat (min (saturating_add off (ucast sz)) (of_nat (length c))) = min (unat off + unat sz) (length c)"
    using f(4) by (simp add: unat_min unat_saturating_add l sz)
  show ?thesis
  proof (cases "length c < unat off")
    case True
    then show ?thesis using n by (simp add: read_def get_def word_less_nat_alt l Let_def)
  next
    case False
    then have "min (unat off + unat sz) (length c) - unat off = min (unat sz) (length c - unat off)"
      by linarith
    moreover have "take (min (unat sz) (length c - unat off)) (drop (unat off) c) =
       take (unat sz) (drop (unat off) c)"
      by (simp add: min_def)
    ultimately show ?thesis
      using False n by (simp add: read_def get_def word_less_nat_alt l Let_def e)
  qed
qed

lemma drop_overwrite: "take (length data) (drop off (overwrite c off data)) = data"
proof -
  have "drop off (overwrite c off data) = data @ drop (off + length data) c"
    by (simp add: overwrite_def)
  then show ?thesis by simp
qed

text \<open>A write changes nothing outside the range it covers, except that a gap reads as zeros.\<close>

lemma overwrite_nth:
  assumes "k < length (overwrite c off data)"
  shows "overwrite c off data ! k = (if off \<le> k \<and> k < off + length data then data ! (k - off)
     else if k < length c then c ! k else CHR 0x00)"
proof -
  have l: "length (take off (c @ replicate (off - length c) (CHR 0x00))) = off" by simp
  have m: "min (length c) off + (off - length c) = off" by simp
  consider "k < off" | "off \<le> k" "k < off + length data" | "off + length data \<le> k" by linarith
  then show ?thesis
  proof cases
    case 3
    then have "k < length c" using assms by (simp add: length_overwrite)
    moreover have "\<not> k - off < length data" using 3 by linarith
    ultimately show ?thesis using 3 by (simp add: overwrite_def nth_append l)
  qed (auto simp: overwrite_def nth_append l m)
qed

section \<open>Truncate\<close>

lemma sub_bytes_Ok [op_simps]:
  "sub_bytes n s = (Ok u, s') \<longleftrightarrow> n \<le> bytes_used s \<and> s' = s\<lparr>bytes_used := bytes_used s - n\<rparr>"
  by (auto simp: sub_bytes_def)

lemma truncate_run:
  assumes wf: "fs_wf s" and run: "truncate_file i sz now s = (Ok u, s')"
  obtains n c where "om_lookup (inodes s) i = Some n" "i_body n = File c"
    "unat (bytes_used s') + length c = unat (bytes_used s) + unat sz"
    "s' = s\<lparr>inodes := om_insert i (set_file (resized c (unat sz)) sz now n) (inodes s),
       bytes_used := bytes_used s'\<rparr>"
    "bytes_used s' \<le> bytes_limit s"
proof -
  from run [unfolded truncate_file_def and_then_Ok file_check_Ok Let_def]
  obtain n s1 where n: "om_lookup (inodes s) i = Some n" and isf: "is_File (i_body n)"
    and charge: "(if a_size (i_attr n) < sz then
         and_then (query (\<lambda>s. if over_limit s (sz - a_size (i_attr n)) then Err NoSpc else Ok ())) (\<lambda>_.
         add_bytes (sz - a_size (i_attr n)))
       else sub_bytes (a_size (i_attr n) - sz)) s = (Ok (), s1)"
    and gm: "get_mut i (\<lambda>node. case i_body node of
         File content \<Rightarrow> res_bind (vec_resize (unat sz) content) (\<lambda>content.
           Ok (set_file content sz now node))
       | _ \<Rightarrow> Panic) s1 = (Ok (), s')"
    by (auto simp: get_Ok)
  from isf obtain c where c: "i_body n = File c" by (cases "i_body n") auto
  note f = file_facts [OF wf n c]
  have s1: "s1 = s\<lparr>bytes_used := bytes_used s1\<rparr>"
    and b: "unat (bytes_used s1) + length c = unat (bytes_used s) + unat sz \<and> bytes_used s1 \<le> bytes_limit s"
  proof (atomize (full), cases "a_size (i_attr n) < sz")
    case True
    with charge obtain b where over: "\<not> over_limit s (sz - a_size (i_attr n))"
      and b: "checked_add (bytes_used s) (sz - a_size (i_attr n)) = Some b" and s1: "s1 = s\<lparr>bytes_used := b\<rparr>"
      by (auto simp: and_then_Ok add_bytes_Ok split: if_splits)
    have "unat (sz - a_size (i_attr n)) = unat sz - length c" "length c < unat sz"
      using True f(1) by (simp_all add: unat_sub_no_underflow word_less_nat_alt word_le_nat_alt)
    with over checked_add_SomeD [OF b]
    show "s1 = s\<lparr>bytes_used := bytes_used s1\<rparr> \<and>
      unat (bytes_used s1) + length c = unat (bytes_used s) + unat sz \<and> bytes_used s1 \<le> bytes_limit s"
      by (simp add: s1 over_limit_iff word_le_nat_alt)
  next
    case False
    with charge have le: "a_size (i_attr n) - sz \<le> bytes_used s"
      and s1: "s1 = s\<lparr>bytes_used := bytes_used s - (a_size (i_attr n) - sz)\<rparr>"
      by (auto simp: sub_bytes_Ok)
    have "unat (a_size (i_attr n) - sz) = length c - unat sz" "unat sz \<le> length c"
      using False f(1) by (simp_all add: unat_sub_no_underflow word_less_nat_alt word_le_nat_alt)
    moreover have "unat (bytes_used s - (a_size (i_attr n) - sz)) =
      unat (bytes_used s) - unat (a_size (i_attr n) - sz)"
      by (rule unat_sub_no_underflow [OF le])
    ultimately show "s1 = s\<lparr>bytes_used := bytes_used s1\<rparr> \<and>
      unat (bytes_used s1) + length c = unat (bytes_used s) + unat sz \<and> bytes_used s1 \<le> bytes_limit s"
      using f(2) wf_limit [OF wf] by (simp add: s1 word_le_nat_alt)
  qed
  have ino: "inodes s1 = inodes s" by (subst s1) simp
  have s': "s' = s1\<lparr>inodes := om_insert i (set_file (resized c (unat sz)) sz now n) (inodes s)\<rparr>"
    using gm n c by (auto simp: get_mut_Ok ino vec_resize_eq split: if_splits)
  show thesis
    by (rule that [OF n c]) (use b in \<open>simp_all add: s'\<close>, subst s1, simp)
qed

lemma truncate_wf:
  assumes wf: "fs_wf s" and run: "truncate_file i sz now s = (Ok u, s')"
  shows "fs_wf s'" "slack (inodes s') = slack (inodes s)" "next_ino s' = next_ino s" "bytes_limit s' = bytes_limit s"
    and "\<exists>c. t_node (tree_of s) i = Some (TFile c) \<and> tree_of s' = t_set (tree_of s) i (TFile (resized c (unat sz)))"
proof -
  from truncate_run [OF assms] obtain n c where n: "om_lookup (inodes s) i = Some n" "i_body n = File c"
    and b: "unat (bytes_used s') + length c = unat (bytes_used s) + unat sz"
    and s': "s' = s\<lparr>inodes := om_insert i (set_file (resized c (unat sz)) sz now n) (inodes s),
       bytes_used := bytes_used s'\<rparr>"
    and lim: "bytes_used s' \<le> bytes_limit s" by metis
  have z: "unat sz = length (resized c (unat sz))" by simp
  have b': "unat (bytes_used s') + length c = unat (bytes_used s) + length (resized c (unat sz))"
    using b by simp
  note * = set_file_run [OF wf n z b' lim s']
  show "fs_wf s'" "slack (inodes s') = slack (inodes s)" by (fact *)+
  have "t_node (tree_of s) i = Some (TFile c)" using n by (simp add: tree_of_def mtree_sel tnode_of_def)
  with *(2) show "\<exists>c. t_node (tree_of s) i = Some (TFile c) \<and> tree_of s' = t_set (tree_of s) i (TFile (resized c (unat sz)))"
    by blast
  show "next_ino s' = next_ino s" "bytes_limit s' = bytes_limit s" by (subst s', simp)+
qed

section \<open>Attributes\<close>

lemma apply_set_attr_sel [simp]:
  "a_ino (apply_set_attr sa now a) = a_ino a" "a_kind (apply_set_attr sa now a) = a_kind a"
  "a_size (apply_set_attr sa now a) = a_size a" "a_nlink (apply_set_attr sa now a) = a_nlink a"
  by (simp_all add: apply_set_attr_def Let_def split: option.split)

lemma setattr_run:
  assumes wf: "fs_wf s" and run: "setattr i sa now1 now2 s = (Ok a, s')"
  shows setattr_wf: "fs_wf s'" and setattr_slack: "slack (inodes s') = slack (inodes s)"
    and setattr_counters: "next_ino s' = next_ino s" "bytes_limit s' = bytes_limit s"
    and setattr_refines: "case sa_size sa of None \<Rightarrow> tree_of s' = tree_of s
       | Some z \<Rightarrow> \<exists>c. t_node (tree_of s) i = Some (TFile c) \<and>
           tree_of s' = t_set (tree_of s) i (TFile (resized c (unat z)))"
proof -
  from run obtain s1 where s1: "(case sa_size sa of Some z \<Rightarrow> truncate_file i z now1 | None \<Rightarrow> ret ()) s = (Ok (), s1)"
    and gm: "get_mut i (\<lambda>node. Ok (map_attr (apply_set_attr sa now2) node)) s1 = (Ok (), s')"
    by (auto simp: setattr_def and_then_Ok)
  have 1: "fs_wf s1 \<and> slack (inodes s1) = slack (inodes s) \<and> next_ino s1 = next_ino s \<and>
     bytes_limit s1 = bytes_limit s \<and> (case sa_size sa of None \<Rightarrow> tree_of s1 = tree_of s
       | Some z \<Rightarrow> \<exists>c. t_node (tree_of s) i = Some (TFile c) \<and>
           tree_of s1 = t_set (tree_of s) i (TFile (resized c (unat z))))"
    using s1 wf by (cases "sa_size sa") (auto dest: truncate_wf)
  from gm obtain n where n: "om_lookup (inodes s1) i = Some n"
    and s': "s' = s1\<lparr>inodes := om_insert i (map_attr (apply_set_attr sa now2) n) (inodes s1)\<rparr>"
    by (auto simp: get_mut_Ok)
  have "fs_wf s1" using 1 by simp
  note 2 = set_attr_run [OF this n s', simplified]
  show "fs_wf s'" "slack (inodes s') = slack (inodes s)" using 1 2 by simp_all
  show "next_ino s' = next_ino s" "bytes_limit s' = bytes_limit s" using 1 by (simp_all add: s')
  show "case sa_size sa of None \<Rightarrow> tree_of s' = tree_of s
       | Some z \<Rightarrow> \<exists>c. t_node (tree_of s) i = Some (TFile c) \<and>
           tree_of s' = t_set (tree_of s) i (TFile (resized c (unat z)))"
    using 1 2 by (simp split: option.splits)
qed

end
