(* ===== verification/MemFsRename.thy ===== *)
theory MemFsRename
  imports MemFsOps
begin

text \<open>
  \<open>rename\<close>: its ancestor test decides reachability in the tree within the rounds it allows
  itself, a successful rename keeps the invariant and moves exactly one name, and the one
  case that breaks the exact link count (a rename onto another name of the same inode).
\<close>

section \<open>The ancestor test\<close>

lemma isdir_node: "t_isdir (tree_of s) i \<longleftrightarrow> (\<exists>n e. om_lookup (inodes s) i = Some n \<and> i_body n = Dir e)"
  by (auto simp: tree_of_def t_isdir_mtree m_isdir_def is_Dir_def)

lemma dir_tnode:
  "om_lookup (inodes s) i = Some n \<Longrightarrow> i_body n = Dir e \<Longrightarrow>
   t_node (tree_of s) i = Some (TDir (parent_or_root n))"
  by (simp add: tree_of_def mtree_sel tnode_of_dir)

lemma anc_self_parent:
  assumes "tree_ok t" "t_node t c = Some (TDir p)"
  shows "p = c \<longleftrightarrow> c = ROOT_INO"
proof
  assume "p = c"
  then have "anc t c p" by (simp add: anc.refl)
  moreover have "t_isdir t c" using assms(2) by (auto simp: t_isdir_def)
  ultimately show "c = ROOT_INO"
    using not_anc_parent [OF assms(1) tree_rooted [OF assms(1)] assms(2)] by blast
next
  assume "c = ROOT_INO"
  then show "p = c" using tree_root [OF assms(1)] assms(2) by simp
qed

definition ancestors :: "tree \<Rightarrow> ino \<Rightarrow> ino set" where
  "ancestors t c = {a. anc t a c}"

lemma ancestors_isdir: "tree_ok t \<Longrightarrow> anc t a c \<Longrightarrow> t_isdir t c \<Longrightarrow> t_isdir t a"
  by (rotate_tac 1, induction rule: anc.induct) (auto dest: tree_parent_isdir)

lemma ancestors_finite:
  assumes "tree_ok (tree_of s)" "t_isdir (tree_of s) c"
  shows "ancestors (tree_of s) c \<subseteq> om_dom (inodes s)" "finite (ancestors (tree_of s) c)"
proof -
  show "ancestors (tree_of s) c \<subseteq> om_dom (inodes s)"
    using ancestors_isdir [OF assms(1) _ assms(2)] by (fastforce simp: ancestors_def isdir_node in_om_dom)
  then show "finite (ancestors (tree_of s) c)" by (rule finite_subset) simp
qed

lemma ancestors_parent:
  assumes "tree_ok t" "t_node t c = Some (TDir p)" "c \<noteq> ROOT_INO"
  shows "ancestors t c = insert c (ancestors t p)" "c \<notin> ancestors t p"
proof -
  show "ancestors t c = insert c (ancestors t p)"
    using anc_step_iff [OF assms(2)] by (auto simp: ancestors_def)
  have "t_isdir t c" using assms(2) by (auto simp: t_isdir_def)
  then show "c \<notin> ancestors t p"
    using not_anc_parent [OF assms(1) tree_rooted [OF assms(1)] assms(2,3)] by (simp add: ancestors_def)
qed

lemma ancestor_rounds_correct:
  assumes ok: "tree_ok (tree_of s)"
  shows "t_isdir (tree_of s) c \<Longrightarrow> card (ancestors (tree_of s) c) \<le> n \<Longrightarrow>
    ancestor_rounds n s a c = Ok (anc (tree_of s) a c)"
proof (induction n arbitrary: c)
  case 0
  then have "ancestors (tree_of s) c = {}" using ancestors_finite [OF ok] by simp
  then show ?case by (auto simp: ancestors_def intro: anc.refl)
next
  case (Suc n)
  from Suc.prems(1) obtain nd e where nd: "om_lookup (inodes s) c = Some nd" "i_body nd = Dir e"
    by (auto simp: isdir_node)
  note tn = dir_tnode [OF nd]
  show ?case
  proof (cases "c = a \<or> c = ROOT_INO")
    case True
    then show ?thesis
      using nd tn anc_self_parent [OF ok tn] anc_of_root [OF ok, of a c]
      by (auto simp: get_def Let_def intro: anc.refl)
  next
    case False
    note p = ancestors_parent [OF ok tn] and dir = tree_parent_isdir [OF ok tn]
    have "card (ancestors (tree_of s) (parent_or_root nd)) \<le> n"
      using Suc.prems(2) p False ancestors_finite [OF ok dir] by simp
    then have "ancestor_rounds n s a (parent_or_root nd) = Ok (anc (tree_of s) a (parent_or_root nd))"
      by (rule Suc.IH [OF dir])
    then show ?thesis
      using nd False anc_self_parent [OF ok tn] anc_step_iff [OF tn]
      by (auto simp: get_def Let_def)
  qed
qed

lemma is_ancestor_or_self_correct:
  assumes "fs_wf s" "t_isdir (tree_of s) d"
  shows "is_ancestor_or_self s a d = Ok (anc (tree_of s) a d)"
proof -
  have ok: "tree_ok (tree_of s)" using assms(1) by (simp add: fs_wf_def)
  have "card (ancestors (tree_of s) d) \<le> om_len (inodes s)"
    unfolding om_len_card by (rule card_mono [OF finite_om_dom ancestors_finite(1) [OF ok assms(2)]])
  then show ?thesis
    unfolding is_ancestor_or_self_def by (intro ancestor_rounds_correct [OF ok assms(2)]) simp
qed

section \<open>The move\<close>

lemma if_present_run:
  "om_lookup (inodes s) i \<noteq> None \<Longrightarrow> if_present i f s = get_mut i f s"
  by (auto simp: if_present_def)

text \<open>A directory gets a new parent.\<close>

lemma effect_parent:
  assumes i: "om_lookup (inodes s) i = Some n" "i_body n = Dir e"
    and s': "s' = s\<lparr>inodes := om_insert i n' (inodes s)\<rparr>"
    and n': "n' = map_attr (a_ctime_update f) (n\<lparr>i_parent := Some q\<rparr>)"
  shows "tree_of s' = t_set (tree_of s) i (TDir q)"
    and "slack (inodes s') = slack (inodes s)"
    and "links (inodes s') = links (inodes s)"
    and "content_bytes (inodes s') = content_bytes (inodes s)"
    and "nodes_ok nx (inodes s) \<Longrightarrow> nodes_ok nx (inodes s')"
    and "next_ino s' = next_ino s" "bytes_used s' = bytes_used s" "bytes_limit s' = bytes_limit s"
proof -
  have body: "i_body n' = i_body n" and nl: "nlink_of n' = nlink_of n" and tn: "tnode_of n' = TDir q"
    using i by (simp_all add: n' map_attr_def nlink_of_def tnode_of_def parent_or_root_def)
  show "tree_of s' = t_set (tree_of s) i (TDir q)"
    by (simp add: s' tree_of_def mtree_same_body [OF i(1) body] tn)
  show "slack (inodes s') = slack (inodes s)"
    by (rule ext) (simp add: s' slack_same_body [OF i(1) body] nl)
  show "links (inodes s') = links (inodes s)" by (simp add: s' links_same [OF i(1) nl])
  show "content_bytes (inodes s') = content_bytes (inodes s)"
    by (simp add: s' content_update [OF i(1)] body)
  show "nodes_ok nx (inodes s')" if "nodes_ok nx (inodes s)"
    using nodes_okD [OF that i(1)] i(2)
    by (auto simp: s' n' node_ok_def map_attr_def intro!: nodes_ok_insert [OF that])
qed (simp_all add: s')

text \<open>A new change time only.\<close>

lemma effect_ctime:
  assumes run: "get_mut i (\<lambda>node. Ok (map_attr (a_ctime_update f) node)) s = (Ok u, s')"
  shows "tree_of s' = tree_of s" and "slack (inodes s') = slack (inodes s)"
    and "links (inodes s') = links (inodes s)"
    and "content_bytes (inodes s') = content_bytes (inodes s)"
    and "nodes_ok nx (inodes s) \<Longrightarrow> nodes_ok nx (inodes s')"
    and "next_ino s' = next_ino s" "bytes_used s' = bytes_used s" "bytes_limit s' = bytes_limit s"
proof -
  from run obtain n where n: "om_lookup (inodes s) i = Some n"
    and s': "s' = s\<lparr>inodes := om_insert i (map_attr (a_ctime_update f) n) (inodes s)\<rparr>"
    by (auto simp: get_mut_Ok)
  have eff: "i_body n' = i_body n \<and> i_parent n' = i_parent n \<and>
     a_ino (i_attr n') = a_ino (i_attr n) \<and> a_kind (i_attr n') = a_kind (i_attr n) \<and>
     a_size (i_attr n') = a_size (i_attr n) \<and> int (nlink_of n') = int (nlink_of n) + 0"
    if "n' = map_attr (a_ctime_update f) n" for n'
    using that by (simp add: map_attr_def nlink_of_def)
  note e = effect_attr [OF n s' eff [OF HOL.refl]]
  show "tree_of s' = tree_of s" "content_bytes (inodes s') = content_bytes (inodes s)"
    "next_ino s' = next_ino s" "bytes_used s' = bytes_used s" "bytes_limit s' = bytes_limit s"
    by (simp_all add: e(1,4,6-8))
  show "nodes_ok nx (inodes s')" if "nodes_ok nx (inodes s)" by (rule e(5) [OF that])
  show "slack (inodes s') = slack (inodes s)" by (rule ext) (simp add: e(2))
  show "links (inodes s') = links (inodes s)"
    by (rule ext) (use e(3) in \<open>simp split: if_splits\<close>)
qed

definition t_move :: "tree \<Rightarrow> ino \<Rightarrow> bytes \<Rightarrow> ino \<Rightarrow> bytes \<Rightarrow> ino \<Rightarrow> tree" where
  "t_move t p nm q x c = (if t_isdir t c then t_set (t_put (t_cut t p nm) q x c) c (TDir q)
     else t_put (t_cut t p nm) q x c)"

lemma dec_effect:
  assumes "0 < nlink_of n" and "n' = map_attr (\<lambda>a. a\<lparr>a_nlink := saturating_sub (a_nlink a) 1\<rparr>) n"
  shows "i_body n' = i_body n \<and> i_parent n' = i_parent n \<and>
       a_ino (i_attr n') = a_ino (i_attr n) \<and> a_kind (i_attr n') = a_kind (i_attr n) \<and>
       a_size (i_attr n') = a_size (i_attr n) \<and> int (nlink_of n') = int (nlink_of n) + - 1"
  using assms by (simp add: map_attr_def nlink_of_def unat_saturating_sub of_nat_diff del: of_nat_unat)

lemma rename_move_leaf:
  assumes wf: "fs_wf s" and ent: "t_ent (tree_of s) (p, nm) = Some c"
    and free: "t_ent (tree_of s) (q, x) = None" and q: "t_isdir (tree_of s) q"
    and nm: "validate_name x = Ok ()" and leaf: "\<not> t_isdir (tree_of s) c"
    and run: "rename_move p nm q x c False now s = (Ok u, s')"
  shows "fs_wf s'" "tree_of s' = t_move (tree_of s) p nm q x c" "slack (inodes s') = slack (inodes s)"
    "next_ino s' = next_ino s" "bytes_used s' = bytes_used s" "bytes_limit s' = bytes_limit s"
proof -
  have ok: "tree_ok (tree_of s)" using wf by (simp add: fs_wf_def)
  have there: "om_lookup (inodes s) c \<noteq> None"
    using tree_ent_target [OF ok ent] by (simp add: node_lookup [symmetric])
  from run obtain s1 s2 where re: "remove_entry p nm now s = (Ok (), s1)"
    and ie: "insert_entry q x c now s1 = (Ok (), s2)"
    and at: "if_present c (\<lambda>node. Ok (map_attr (a_ctime_update (\<lambda>_. now)) node)) s2 = (Ok (), s')"
    by (auto simp: rename_move_def and_then_Ok)
  note e1 = effect_remove_entry [OF re ent there]
  have free1: "t_ent (tree_of s1) (q, x) = None" using free by (simp add: e1(1))
  have there1: "om_lookup (inodes s1) c \<noteq> None"
    using there unfolding node_lookup [symmetric] by (simp add: e1(1))
  note e2 = effect_insert_entry [OF ie free1 there1]
  have there2: "om_lookup (inodes s2) c \<noteq> None"
    using there unfolding node_lookup [symmetric] by (simp add: e1(1) e2(1))
  from at [unfolded if_present_run [OF there2]]
  have gm: "get_mut c (\<lambda>node. Ok (map_attr (a_ctime_update (\<lambda>_. now)) node)) s2 = (Ok (), s')" .
  note e3 = effect_ctime [OF gm]
  have nodir: "\<not> m_isdir (inodes s) c" "\<not> m_isdir (inodes s1) c"
    using leaf e1(1) by (simp_all add: tree_of_def t_isdir_mtree [symmetric] t_isdir_def)
  show tree: "tree_of s' = t_move (tree_of s) p nm q x c"
    using leaf by (simp add: e3(1) e2(1) e1(1) t_move_def)
  show slack: "slack (inodes s') = slack (inodes s)"
    by (rule ext) (simp add: e3(2) e2(2) e1(2) moved_def nodir)
  show cnt: "next_ino s' = next_ino s" "bytes_used s' = bytes_used s" "bytes_limit s' = bytes_limit s"
    by (simp_all add: e1 e2 e3)
  obtain nd where nd: "t_node (tree_of s) c = Some nd" using tree_ent_target [OF ok ent] by auto
  with leaf have isleaf: "is_leaf nd" by (cases nd) (auto simp: t_isdir_def)
  show "fs_wf s'"
  proof (rule fs_wfI)
    have ok1: "tree_ok (t_cut (tree_of s) p nm)"
      by (rule tree_ok_cut_leaf [OF ok]) (use ent leaf in simp)
    show "tree_ok (tree_of s')"
      unfolding tree t_move_def if_not_P [OF leaf]
      by (rule tree_ok_put_leaf [OF ok1]) (use q free nm nd isleaf in \<open>auto simp: t_isdir_def split: if_splits\<close>)
    show "nodes_ok (next_ino s') (inodes s')"
      unfolding cnt by (intro e3(5) e2(5) e1(5) wf_nodes [OF wf])
    show "0 < links (inodes s') j \<and> 0 \<le> slack (inodes s') j" if "t_node (tree_of s') j \<noteq> None" for j
      using that leaf wf_slack [OF wf, of j] by (auto simp: tree slack e3(3) e2(3) e1(3) t_move_def)
    show "slack (inodes s') j = 0" if "t_isdir (tree_of s') j" for j
      using that leaf wf_slack_dir [OF wf, of j] by (auto simp: tree slack t_isdir_def t_move_def)
    show "unat (bytes_used s') = content_bytes (inodes s')"
      by (simp add: cnt e3(4) e2(4) e1(4) wf_bytes [OF wf])
    show "bytes_used s' \<le> bytes_limit s'" by (simp add: cnt wf_limit [OF wf])
  qed
qed

lemma rename_move_dir:
  assumes wf: "fs_wf s" and ent: "t_ent (tree_of s) (p, nm) = Some c"
    and free: "t_ent (tree_of s) (q, x) = None" and q: "t_isdir (tree_of s) q"
    and nm: "validate_name x = Ok ()" and dir: "t_isdir (tree_of s) c"
    and noanc: "\<not> anc (tree_of s) c q"
    and run: "rename_move p nm q x c True now s = (Ok u, s')"
  shows "fs_wf s'" "tree_of s' = t_move (tree_of s) p nm q x c" "slack (inodes s') = slack (inodes s)"
    "next_ino s' = next_ino s" "bytes_used s' = bytes_used s" "bytes_limit s' = bytes_limit s"
proof -
  let ?dec = "\<lambda>n. Ok (map_attr (\<lambda>a. a\<lparr>a_nlink := saturating_sub (a_nlink a) 1\<rparr>) n)"
  have ok: "tree_ok (tree_of s)" using wf by (simp add: fs_wf_def)
  have there: "om_lookup (inodes s) c \<noteq> None"
    using tree_ent_target [OF ok ent] by (simp add: node_lookup [symmetric])
  from run obtain s1 s2 s3 where re: "remove_entry p nm now s = (Ok (), s1)"
    and ie: "insert_entry q x c now s1 = (Ok (), s2)"
    and at: "if_present c (\<lambda>node. Ok (map_attr (a_ctime_update (\<lambda>_. now)) (node\<lparr>i_parent := Some q\<rparr>))) s2 = (Ok (), s3)"
    and nl: "(if p \<noteq> q then and_then (if_present p ?dec) (\<lambda>_. if_present q incr_nlink) else ret ()) s3 = (Ok u, s')"
    by (auto simp: rename_move_def and_then_Ok)
  note e1 = effect_remove_entry [OF re ent there]
  have free1: "t_ent (tree_of s1) (q, x) = None" using free by (simp add: e1(1))
  have there1: "om_lookup (inodes s1) c \<noteq> None"
    using there unfolding node_lookup [symmetric] by (simp add: e1(1))
  note e2 = effect_insert_entry [OF ie free1 there1]
  have "t_isdir (tree_of s2) c" using dir by (simp add: e1(1) e2(1) t_isdir_def)
  then obtain n2 d2 where n2: "om_lookup (inodes s2) c = Some n2" "i_body n2 = Dir d2"
    by (auto simp: isdir_node)
  from at n2 have s3: "s3 = s2\<lparr>inodes := om_insert c
      (map_attr (a_ctime_update (\<lambda>_. now)) (n2\<lparr>i_parent := Some q\<rparr>)) (inodes s2)\<rparr>"
    by (simp add: if_present_def get_mut_def)
  note e3 = effect_parent [OF n2 s3 HOL.refl]
  have tree3: "tree_of s3 = t_move (tree_of s) p nm q x c"
    using dir by (simp add: e3(1) e2(1) e1(1) t_move_def)
  have isdir: "m_isdir (inodes s) c" "m_isdir (inodes s1) c"
    using dir e1(1) by (simp_all add: tree_of_def t_isdir_mtree [symmetric] t_isdir_def)
  have slack3: "slack (inodes s3) j = slack (inodes s) j + (if j = p then 1 else 0) - (if j = q then 1 else 0)" for j
    by (simp add: e3(2) e2(2) e1(2) moved_def isdir)
  have links3: "links (inodes s3) = links (inodes s)" by (simp add: e3(3) e2(3) e1(3))
  have there3: "om_lookup (inodes s3) p \<noteq> None"
    using tree_ent_dir [OF ok ent] dir unfolding node_lookup [symmetric]
    by (auto simp: tree3 t_move_def t_isdir_def)
  have end_: "tree_of s' = tree_of s3 \<and> slack (inodes s') = slack (inodes s) \<and>
     content_bytes (inodes s') = content_bytes (inodes s3) \<and>
     (nodes_ok (next_ino s) (inodes s3) \<longrightarrow> nodes_ok (next_ino s) (inodes s')) \<and>
     next_ino s' = next_ino s3 \<and> bytes_used s' = bytes_used s3 \<and> bytes_limit s' = bytes_limit s3 \<and>
     (\<forall>j. j \<noteq> p \<and> j \<noteq> q \<longrightarrow> links (inodes s') j = links (inodes s) j)"
  proof (cases "p = q")
    case True
    then have "s' = s3" using nl by simp
    then show ?thesis using True slack3 links3 by auto
  next
    case False
    with nl obtain s4 where d: "if_present p ?dec s3 = (Ok (), s4)" and i: "if_present q incr_nlink s4 = (Ok u, s')"
      by (auto simp: and_then_Ok)
    from d [unfolded if_present_run [OF there3]] obtain n3 where n3: "om_lookup (inodes s3) p = Some n3"
      and s4: "s4 = s3\<lparr>inodes := om_insert p (map_attr (\<lambda>a. a\<lparr>a_nlink := saturating_sub (a_nlink a) 1\<rparr>) n3) (inodes s3)\<rparr>"
      by (auto simp: get_mut_Ok)
    have "nlink_of n3 = links (inodes s) p" using n3 links3 [symmetric] by (simp add: links_def)
    moreover have "0 < links (inodes s) p"
      by (rule wf_slack(1) [OF wf]) (use tree_ent_dir [OF ok ent] in \<open>auto simp: t_isdir_def\<close>)
    ultimately have pos: "0 < nlink_of n3" by simp
    note e4 = effect_attr [OF n3 s4 dec_effect [OF pos HOL.refl]]
    have there4: "om_lookup (inodes s4) q \<noteq> None"
      using q dir unfolding node_lookup [symmetric] by (auto simp: e4(1) tree3 t_move_def t_isdir_def)
    from i [unfolded if_present_run [OF there4]] have i': "get_mut q incr_nlink s4 = (Ok u, s')" .
    note e5 = effect_get_mut [OF i' incr_nlink_effect]
    have "slack (inodes s') = slack (inodes s)"
      using False by (intro ext) (simp add: e5(2) e4(2) slack3)
    moreover have "nodes_ok (next_ino s) (inodes s')" if "nodes_ok (next_ino s) (inodes s3)"
      by (intro e5(5) e4(5) that)
    moreover have "links (inodes s') j = links (inodes s) j" if "j \<noteq> p" "j \<noteq> q" for j
      using e5(3) [of j] e4(3) [of j] that by (simp add: links3)
    ultimately show ?thesis by (simp add: e4 e5)
  qed
  then have tree: "tree_of s' = t_move (tree_of s) p nm q x c" by (simp add: tree3)
  then show "tree_of s' = t_move (tree_of s) p nm q x c" .
  show slack: "slack (inodes s') = slack (inodes s)" using end_ by simp
  show cnt: "next_ino s' = next_ino s" "bytes_used s' = bytes_used s" "bytes_limit s' = bytes_limit s"
    using end_ by (simp_all add: e1 e2 e3)
  have pdir: "t_isdir (tree_of s) p" by (rule tree_ent_dir [OF ok ent])
  have same: "t_isdir (tree_of s') j \<longleftrightarrow> t_isdir (tree_of s) j" for j
    using dir by (auto simp: tree t_move_def t_isdir_def)
  show "fs_wf s'"
  proof (rule fs_wfI_leaf)
    show "tree_ok (tree_of s')"
      unfolding tree t_move_def if_P [OF dir]
      by (rule tree_ok_move_dir [OF ok ent dir q disjI2 [OF free] nm noanc])
    have "nodes_ok (next_ino s) (inodes s3)" by (intro e3(5) e2(5) e1(5) wf_nodes [OF wf])
    then have "nodes_ok (next_ino s) (inodes s')" using end_ by blast
    then show "nodes_ok (next_ino s') (inodes s')" unfolding cnt .
    show "0 < links (inodes s') j \<and> 0 \<le> slack (inodes s') j"
      if "t_node (tree_of s') j \<noteq> None" "\<not> t_isdir (tree_of s') j" for j
    proof -
      have "j \<noteq> p" "j \<noteq> q" "t_node (tree_of s) j \<noteq> None"
        using that pdir q dir unfolding same by (auto simp: tree t_move_def split: if_splits)
      then show ?thesis using wf_slack [OF wf, of j] end_ by auto
    qed
    show "slack (inodes s') j = 0" if "t_isdir (tree_of s') j" for j
      using that wf_slack_dir [OF wf, of j] by (simp add: same slack)
    show "unat (bytes_used s') = content_bytes (inodes s')"
      using end_ wf_bytes [OF wf] by (simp add: cnt e3(4) e2(4) e1(4))
    show "bytes_used s' \<le> bytes_limit s'" by (simp add: cnt wf_limit [OF wf])
  qed
qed

section \<open>The whole operation\<close>

text \<open>The removal of a name, with or without its inode.\<close>

definition t_removed :: "tree \<Rightarrow> ino \<Rightarrow> bytes \<Rightarrow> tree \<Rightarrow> bool" where
  "t_removed t p nm t' \<longleftrightarrow> t_ent t' = (t_ent t)((p, nm) := None) \<and>
     (\<forall>i. t_node t' i = t_node t i \<or> t_node t' i = None \<and> t_ent t (p, nm) = Some i)"

lemma t_removed_cut: "t_removed t p nm (t_cut t p nm)"
  by (simp add: t_removed_def)

lemma t_removed_drop: "t_ent t (p, nm) = Some c \<Longrightarrow> t_removed t p nm (t_drop (t_cut t p nm) c)"
  by (simp add: t_removed_def)

lemma t_removed_none: "t_ent t (p, nm) = None \<Longrightarrow> t_removed t p nm t"
  by (auto simp: t_removed_def)

text \<open>After the removal of the target the move finds what it needs.\<close>

text \<open>The target of a rename, removed: a directory, or the last name of an inode, goes with its node.\<close>

definition t_clear :: "tree \<Rightarrow> (ino \<Rightarrow> nat) \<Rightarrow> ino \<Rightarrow> bytes \<Rightarrow> tree" where
  "t_clear t lk q x = (case t_ent t (q, x) of
     None \<Rightarrow> t
   | Some d \<Rightarrow> if t_isdir t d \<or> lk d = 1 then t_drop (t_cut t q x) d else t_cut t q x)"

lemma t_removed_clear: "t_removed t q x (t_clear t lk q x)"
  by (auto simp: t_clear_def t_removed_cut t_removed_drop t_removed_none split: option.splits)

lemma t_removed_ready:
  assumes ok: "tree_ok t" and rem: "t_removed t q x t'" and ent: "t_ent t (p, nm) = Some c"
    and diff: "(p, nm) \<noteq> (q, x)" and q: "t_isdir t q"
  shows "t_ent t' (p, nm) = Some c" "t_ent t' (q, x) = None" "t_isdir t' q"
proof -
  have "t_ent t (q, x) \<noteq> Some q"
  proof
    assume e: "t_ent t (q, x) = Some q"
    obtain r where r: "t_node t q = Some (TDir r)" using q by (auto simp: t_isdir_def)
    with tree_ent_parent [OF ok e r] anc_self_parent [OF ok r] tree_ent_not_root [OF ok] e
    show False by auto
  qed
  then have "t_node t' q = t_node t q" using rem by (auto simp: t_removed_def)
  with q show "t_isdir t' q" by (simp add: t_isdir_def)
qed (use rem ent diff in \<open>auto simp: t_removed_def\<close>)

lemma rename_overwrite_run:
  assumes wf: "fs_wf s" and run: "rename_overwrite p nm q x c d now s = (Ok fin, s')"
  shows "fin \<and> t_ent (tree_of s) (q, x) = Some c \<and> remove_entry p nm now s = (Ok (), s')
    \<or> \<not> fin \<and> t_ent (tree_of s) (q, x) \<noteq> Some c \<and> fs_wf s' \<and> slack (inodes s') = slack (inodes s) \<and>
        tree_of s' = t_clear (tree_of s) (links (inodes s)) q x \<and> next_ino s' = next_ino s \<and>
        bytes_used s' \<le> bytes_used s \<and> bytes_limit s' = bytes_limit s"
proof (cases "t_ent (tree_of s) (q, x)")
  case None
  then have "child_ino s q x \<noteq> Ok dst" for dst by (simp add: child_ino_ent)
  then have "fin = False" "s' = s" using run by (auto simp: rename_overwrite_def split: result.splits)
  with None wf show ?thesis by (simp add: t_clear_def)
next
  case (Some dst)
  then have ch: "child_ino s q x = Ok dst" by (simp add: child_ino_ent)
  show ?thesis
  proof (cases "dst = c")
    case True
    then show ?thesis using run Some ch by (auto simp: rename_overwrite_def and_then_Ok)
  next
    case False
    with run ch consider (dir) "rmdir q x now s = (Ok (), s')" "fin = False"
      | (leaf) "unlink q x now s = (Ok (), s')" "fin = False"
      by (auto simp: rename_overwrite_def and_then_Ok split: bool.splits)
    then show ?thesis
    proof cases
      case dir
      then show ?thesis
        using rmdir_run [OF wf dir(1)] Some False by (auto simp: t_clear_def)
    next
      case leaf
      then show ?thesis
        using Some False by (elim unlink_run [OF wf]) (auto simp: t_clear_def)
    qed
  qed
qed

text \<open>
  A successful rename that changes the tree either removes the old name because the new name
  is already a name of the same inode, or removes the target and moves the name.
\<close>

lemma rename_run:
  assumes wf: "fs_wf s" and run: "rename p nm q x now1 now2 s = (Ok u, s')"
  shows "fs_wf s' \<and> (\<exists>c. t_ent (tree_of s) (p, nm) = Some c \<and> next_ino s' = next_ino s \<and> bytes_limit s' = bytes_limit s \<and>
    (s' = s \<and> (p, nm) = (q, x)
     \<or> (p, nm) \<noteq> (q, x) \<and> t_ent (tree_of s) (q, x) = Some c \<and> \<not> t_isdir (tree_of s) c \<and>
         tree_of s' = t_cut (tree_of s) p nm \<and> slack (inodes s') = (slack (inodes s))(c := slack (inodes s) c + 1)
     \<or> (p, nm) \<noteq> (q, x) \<and> t_ent (tree_of s) (q, x) \<noteq> Some c \<and> slack (inodes s') = slack (inodes s) \<and>
         (t_isdir (tree_of s) c \<longrightarrow> \<not> anc (tree_of s) c q) \<and>
         tree_of s' = t_move (t_clear (tree_of s) (links (inodes s)) q x) p nm q x c))"
proof (cases "(p, nm) = (q, x)")
  case True
  then show ?thesis using run wf by (auto simp: rename_def and_then_Ok child_ino_ent)
next
  case False
  have ok: "tree_ok (tree_of s)" using wf by (simp add: fs_wf_def)
  from run False obtain c nq nc s1 fin where nm: "validate_name x = Ok ()"
    and ent: "t_ent (tree_of s) (p, nm) = Some c"
    and nq: "om_lookup (inodes s) q = Some nq" "is_Dir (i_body nq)"
    and nc: "om_lookup (inodes s) c = Some nc"
    and anc: "is_Dir (i_body nc) \<longrightarrow> is_ancestor_or_self s c q = Ok False"
    and ow: "rename_overwrite p nm q x c (is_Dir (i_body nc)) now1 s = (Ok fin, s1)"
    and mv: "(if fin then ret () else rename_move p nm q x c (is_Dir (i_body nc)) now2) s1 = (Ok u, s')"
    by (auto simp: rename_def and_then_Ok child_ino_ent get_Ok Let_def split: if_splits)
  have q: "t_isdir (tree_of s) q" using nq by (auto simp: tree_of_def t_isdir_mtree m_isdir_def)
  have d: "is_Dir (i_body nc) \<longleftrightarrow> t_isdir (tree_of s) c"
    using nc by (auto simp: tree_of_def t_isdir_mtree m_isdir_def)
  have noanc: "\<not> anc (tree_of s) c q" if "t_isdir (tree_of s) c"
    using anc that is_ancestor_or_self_correct [OF wf q] by (simp add: d)
  have there: "om_lookup (inodes s) c \<noteq> None" using nc by simp
  from rename_overwrite_run [OF wf ow] show ?thesis
  proof (elim disjE conjE)
    assume fin: fin and al: "t_ent (tree_of s) (q, x) = Some c"
      and re: "remove_entry p nm now1 s = (Ok (), s1)"
    have leaf: "\<not> t_isdir (tree_of s) c"
      using tree_dir_only [OF ok ent _ al] False by auto
    have "s' = s1" using mv fin by simp
    note e = effect_remove_entry [OF re ent there, folded this]
    have mvd: "moved (inodes s) p c j = (if j = c then 1 else 0)" for j
      using leaf by (simp add: moved_def tree_of_def t_isdir_mtree)
    have slack: "slack (inodes s') = (slack (inodes s))(c := slack (inodes s) c + 1)"
      by (rule ext) (simp add: e(2) mvd)
    have tree: "tree_of s' = t_cut (tree_of s) p nm" by (fact e)
    have "fs_wf s'"
    proof (rule fs_wfI)
      show "tree_ok (tree_of s')"
        unfolding tree by (rule tree_ok_cut_leaf [OF ok]) (use ent leaf in auto)
      show "nodes_ok (next_ino s') (inodes s')" unfolding e by (intro e(5) wf_nodes [OF wf])
      show "0 < links (inodes s') j \<and> 0 \<le> slack (inodes s') j" if "t_node (tree_of s') j \<noteq> None" for j
        using that wf_slack [OF wf, of j] by (auto simp: tree slack e(3))
      show "slack (inodes s') j = 0" if "t_isdir (tree_of s') j" for j
        using that leaf wf_slack_dir [OF wf, of j] by (auto simp: tree slack t_isdir_def)
    qed (simp_all add: e wf_bytes [OF wf] wf_limit [OF wf])
    with ent leaf al False slack tree e show ?thesis by auto
  next
    assume fin: "\<not> fin" and new: "t_ent (tree_of s) (q, x) \<noteq> Some c" and wf1: "fs_wf s1"
      and slack1: "slack (inodes s1) = slack (inodes s)" and clear: "tree_of s1 = t_clear (tree_of s) (links (inodes s)) q x"
      and cnt: "next_ino s1 = next_ino s" "bytes_limit s1 = bytes_limit s"
    have rem: "t_removed (tree_of s) q x (tree_of s1)" unfolding clear by (rule t_removed_clear)
    have ok1: "tree_ok (tree_of s1)" using wf1 by (simp add: fs_wf_def)
    note ent1 = t_removed_ready(1,2) [OF ok rem ent False q] and q1 = t_removed_ready(3) [OF ok rem ent False q]
    have node1: "t_node (tree_of s1) c = t_node (tree_of s) c"
      using rem new by (auto simp: t_removed_def)
    have dir1: "t_isdir (tree_of s1) c \<longleftrightarrow> t_isdir (tree_of s) c"
      using node1 by (simp add: t_isdir_def)
    have "anc (tree_of s) a b" if "anc (tree_of s1) a b" for a b
      using that
    proof induction
      case (step b r)
      then have "t_node (tree_of s) b = Some (TDir r)" using rem unfolding t_removed_def by (metis option.distinct(1))
      then show ?case using step by (auto intro: anc.step)
    qed (rule anc.refl)
    then have noanc1: "\<not> anc (tree_of s1) c q" if "t_isdir (tree_of s1) c"
      using noanc that by (auto simp: dir1)
    from mv fin have mv: "rename_move p nm q x c (t_isdir (tree_of s1) c) now2 s1 = (Ok u, s')"
      by (simp add: d dir1)
    have "fs_wf s' \<and> tree_of s' = t_move (tree_of s1) p nm q x c \<and> slack (inodes s') = slack (inodes s1) \<and>
       next_ino s' = next_ino s1 \<and> bytes_limit s' = bytes_limit s1"
    proof (cases "t_isdir (tree_of s1) c")
      case True
      then show ?thesis using rename_move_dir [OF wf1 ent1 q1 nm True noanc1] mv by simp
    next
      case False
      then show ?thesis using rename_move_leaf [OF wf1 ent1 q1 nm False] mv by simp
    qed
    with ent new False noanc slack1 cnt clear show ?thesis by auto
  qed
qed

end
