(* ===== verification/MemFsSafety.thy ===== *)
theory MemFsSafety
  imports MemFsData MemFsRename
begin

text \<open>
  What holds of every inode-keyed operation together: a call that returns an error has changed
  nothing, no call panics while the counters have room, and every state that a sequence of
  calls reaches from a fresh filesystem satisfies the invariant.
\<close>

section \<open>Errors leave the state alone\<close>

lemma getattr_Err: "getattr s i = Err e \<longleftrightarrow> om_lookup (inodes s) i = None \<and> e = NoEnt"
  by (cases "om_lookup (inodes s) i") (auto simp: getattr_def get_def)

lemma incr_not_Err: "incr_nlink n \<noteq> Err e" "decr_nlink n \<noteq> Err e"
  by (auto simp: op_simps)

lemmas err_simps = and_then_Ok and_then_Err op_simps get_mut_Err getattr_Err incr_not_Err

lemma mkdir_err: "mkdir p nm mode now s = (Err e, s') \<Longrightarrow> s' = s"
  unfolding mkdir_def by (auto simp: err_simps split: if_splits)

lemma create_err: "fs_wf s \<Longrightarrow> create p nm mode now s = (Err e, s') \<Longrightarrow> s' = s"
  using wf_fresh [of s] unfolding create_def by (auto simp: err_simps split: if_splits)

lemma add_bytes_not_Err: "add_bytes n s \<noteq> (Err e, s')"
  by (auto simp: add_bytes_def split: option.splits)

lemma sub_bytes_not_Err: "sub_bytes n s \<noteq> (Err e, s')"
  by (auto simp: sub_bytes_def)

lemma symlink_err: "fs_wf s \<Longrightarrow> symlink p nm t now s = (Err e, s') \<Longrightarrow> s' = s"
  using wf_fresh [of s] unfolding symlink_def Let_def by (auto simp: err_simps add_bytes_not_Err split: if_splits)

lemma link_err: "link i p nm now s = (Err e, s') \<Longrightarrow> s' = s"
  unfolding link_def Let_def by (auto simp: err_simps res_bind_eq_Err split: if_splits)

lemma empty_dir_Err:
  "(case b of Dir e \<Rightarrow> if om_len e \<noteq> 0 then fail NotEmpty else ret () | _ \<Rightarrow> fail NotDir) s = (Err x, s') \<longleftrightarrow>
     (if is_Dir b then om_len (dir_entries b) \<noteq> 0 \<and> x = NotEmpty else x = NotDir) \<and> s' = s"
  by (cases b) auto

lemma rmdir_err: "rmdir p nm now s = (Err e, s') \<Longrightarrow> s' = s"
  unfolding rmdir_def and_then_Ok and_then_Err empty_dir_Err empty_dir_Ok by (auto simp: err_simps split: if_splits)

lemma unlink_err: "unlink p nm now s = (Err e, s') \<Longrightarrow> s' = s"
  unfolding unlink_def by (auto simp: err_simps get_Err split: if_splits)

lemma file_check_Err:
  "(case b of File c \<Rightarrow> ret () | Dir e \<Rightarrow> fail IsDir | Symlink x \<Rightarrow> fail Inval) s = (Err e, s') \<longleftrightarrow>
     (is_Dir b \<and> e = IsDir \<or> is_Symlink b \<and> e = Inval) \<and> s' = s"
  by (cases b) auto

lemma copy_not_Err: "copy_into c n d \<noteq> Err e" by (simp add: copy_into_def)

lemma resize_not_Err: "vec_resize n c \<noteq> Err e" by (simp add: vec_resize_def)

lemma write_err: "write_bytes i off d now s = (Err e, s') \<Longrightarrow> s' = s"
  unfolding write_bytes_def and_then_Ok and_then_Err file_check_Err file_check_Ok Let_def
  by (auto simp: err_simps add_bytes_not_Err split: if_splits)

lemma case_File_Err:
  "(case b of File c \<Rightarrow> f c | _ \<Rightarrow> Panic) = Err e \<longleftrightarrow> (\<exists>c. b = File c \<and> f c = Err e)"
  by (cases b) auto

lemma truncate_err: "truncate_file i z now s = (Err e, s') \<Longrightarrow> s' = s"
  unfolding truncate_file_def and_then_Ok and_then_Err file_check_Err file_check_Ok Let_def
  by (auto simp: err_simps case_File_Err add_bytes_not_Err sub_bytes_not_Err resize_not_Err res_bind_eq_Err split: if_splits)

lemma setattr_err:
  assumes wf: "fs_wf s" and run: "setattr i sa now1 now2 s = (Err e, s')"
  shows "s' = s"
proof (cases "sa_size sa")
  case None
  then show ?thesis using run by (auto simp: setattr_def err_simps)
next
  case (Some z)
  from run consider "truncate_file i z now1 s = (Err e, s')"
    | s1 where "truncate_file i z now1 s = (Ok (), s1)"
       "and_then (get_mut i (\<lambda>node. Ok (map_attr (apply_set_attr sa now2) node))) (\<lambda>_. query (\<lambda>s. getattr s i)) s1 = (Err e, s')"
    by (auto simp: setattr_def Some and_then_Err)
  then show ?thesis
  proof cases
    case 2
    from truncate_run [OF wf 2(1)] have "om_lookup (inodes s1) i \<noteq> None"
      by (metis fs.select_convs(1) fs.surjective fs.update_convs(1,3) om_lookup_insert fun_upd_same option.distinct(1))
    with 2(2) show ?thesis by (auto simp: err_simps)
  qed (rule truncate_err)
qed

lemma rename_overwrite_err:
  "rename_overwrite p nm q x c d now s = (Err e, s') \<Longrightarrow> s' = s"
proof (cases "child_ino s q x")
  case (Ok dst)
  assume "rename_overwrite p nm q x c d now s = (Err e, s')"
  with Ok show ?thesis
    by (auto simp: rename_overwrite_def and_then_Err remove_entry_Err split: if_splits bool.splits dest: rmdir_err unlink_err)
qed (auto simp: rename_overwrite_def)

lemma if_present_Err: "if_present i f s = (Err e, s') \<Longrightarrow> \<exists>n. om_lookup (inodes s) i = Some n \<and> f n = Err e"
  by (auto simp: if_present_def get_mut_Err split: if_splits)

lemma rename_move_not_err:
  assumes "t_ent (tree_of s) (p, nm) = Some c" "t_isdir (tree_of s) q"
  shows "rename_move p nm q x c d now s \<noteq> (Err e, s')"
proof
  assume run: "rename_move p nm q x c d now s = (Err e, s')"
  obtain n e' where n: "om_lookup (inodes s) p = Some n" "i_body n = Dir e'" "om_lookup e' nm = Some c"
    using assms(1) by (auto simp: tree_of_def ent_mtree)
  obtain m e'' where m: "om_lookup (inodes s) q = Some m" "i_body m = Dir e''"
    using assms(2) by (auto simp: isdir_node)
  show False
    using run n m unfolding rename_move_def
    by (auto simp: and_then_Err and_then_Ok remove_entry_Err remove_entry_Ok insert_entry_Err insert_entry_Ok incr_not_Err
        dest!: if_present_Err split: if_splits)
qed

lemma rename_err:
  assumes wf: "fs_wf s" and run: "rename p nm q x now1 now2 s = (Err e, s')"
  shows "s' = s"
proof (cases "p = q \<and> nm = x")
  case True
  then show ?thesis using run by (auto simp: rename_def and_then_Err and_then_Ok)
next
  case False
  have ok: "tree_ok (tree_of s)" using wf by (simp add: fs_wf_def)
  show ?thesis
  proof (rule ccontr)
    assume "s' \<noteq> s"
    with run False obtain c nq d s1 where ent: "t_ent (tree_of s) (p, nm) = Some c"
      and nq: "om_lookup (inodes s) q = Some nq" "is_Dir (i_body nq)"
      and ow: "rename_overwrite p nm q x c d now1 s = (Ok False, s1)"
      and mv: "rename_move p nm q x c d now2 s1 = (Err e, s')"
      unfolding rename_def
      by (auto simp: and_then_Err and_then_Ok child_ino_ent get_Ok Let_def split: if_splits
          dest: rename_overwrite_err)
    have q: "t_isdir (tree_of s) q" using nq by (auto simp: tree_of_def t_isdir_mtree m_isdir_def)
    from rename_overwrite_run [OF wf ow] have rem: "t_removed (tree_of s) q x (tree_of s1)"
      by (simp add: t_removed_clear)
    have "(p, nm) \<noteq> (q, x)" using False by simp
    note r = t_removed_ready [OF ok rem ent this q]
    from mv rename_move_not_err [OF r(1,3)] show False by simp
  qed
qed

section \<open>Panics\<close>

lemma getattr_not_Panic: "getattr s i \<noteq> Panic"
  by (simp add: getattr_def get_def res_bind_eq_Panic)

lemma over_limit_add: "\<not> over_limit s n \<Longrightarrow> checked_add (bytes_used s) n \<noteq> None"
  by (auto simp: over_limit_def split: option.splits)

lemma alloc_ino_Panic: "alloc_ino s = (Panic, s') \<longleftrightarrow> next_ino s = - 1 \<and> s' = s"
  by (auto simp: alloc_ino_def)

lemma add_bytes_Panic: "add_bytes n s = (Panic, s') \<longleftrightarrow> checked_add (bytes_used s) n = None \<and> s' = s"
  by (auto simp: add_bytes_def split: option.splits)

lemma not_Panic_if: "(if b then Err e else Ok x) \<noteq> Panic" "(if b then Ok x else Err e) \<noteq> Panic"
  by auto

lemmas panic_simps = and_then_Ok and_then_Panic op_simps get_mut_Panic getattr_not_Panic
  alloc_ino_Panic add_bytes_Panic not_Panic_if

lemma create_panic: "create p nm mode now s = (Panic, s') \<Longrightarrow> next_ino s = - 1"
  unfolding create_def by (auto simp: panic_simps split: if_splits)

lemma mkdir_panic:
  "fs_wf s \<Longrightarrow> mkdir p nm mode now s = (Panic, s') \<Longrightarrow>
   next_ino s = - 1 \<or> (\<exists>n. om_lookup (inodes s) p = Some n \<and> a_nlink (i_attr n) = - 1)"
  using wf_fresh [of s] unfolding mkdir_def
  by (auto simp: panic_simps set_entries_def split: if_splits)

lemma symlink_panic: "symlink p nm t now s = (Panic, s') \<Longrightarrow> next_ino s = - 1"
  unfolding symlink_def Let_def
  by (auto simp: panic_simps dest!: over_limit_add split: if_splits)

lemma link_panic:
  "link i p nm now s = (Panic, s') \<Longrightarrow> \<exists>n. om_lookup (inodes s) i = Some n \<and> a_nlink (i_attr n) = - 1"
  unfolding link_def
  by (auto simp: panic_simps res_bind_eq_Panic set_entries_def split: if_splits)

lemma unlink_panic: "unlink p nm now s \<noteq> (Panic, s')"
  unfolding unlink_def by (auto simp: panic_simps get_Ok split: if_splits)

lemma empty_dir_Panic:
  "(case b of Dir e \<Rightarrow> if om_len e \<noteq> 0 then fail NotEmpty else ret () | _ \<Rightarrow> fail NotDir) s \<noteq> (Panic, s')"
  by (cases b) auto

lemma rmdir_panic:
  assumes wf: "fs_wf s"
  shows "rmdir p nm now s \<noteq> (Panic, s')"
proof
  assume "rmdir p nm now s = (Panic, s')"
  then obtain n where "om_lookup (inodes s) p = Some n" "a_nlink (i_attr n) = 0"
    unfolding rmdir_def and_then_Ok and_then_Panic empty_dir_Ok
    by (auto simp: panic_simps empty_dir_Panic set_entries_def split: if_splits)
  moreover from this have "0 < links (inodes s) p"
    by (intro wf_slack(1) [OF wf]) (simp add: node_lookup)
  ultimately show False by (simp add: links_def nlink_of_def)
qed

lemma file_check_Panic:
  "(case b of File c \<Rightarrow> ret () | Dir e \<Rightarrow> fail IsDir | Symlink x \<Rightarrow> fail Inval) s \<noteq> (Panic, s')"
  by (cases b) auto

lemma write_panic:
  assumes wf: "fs_wf s" and len: "int (length data) \<le> isize_max" and lim: "int (unat (bytes_limit s)) \<le> isize_max"
  shows "write_bytes i off data now s \<noteq> (Panic, s')"
proof
  assume run: "write_bytes i off data now s = (Panic, s')"
  then obtain n where n: "om_lookup (inodes s) i = Some n" and isf: "is_File (i_body n)"
    unfolding write_bytes_def and_then_Panic and_then_Ok file_check_Ok Let_def
    by (auto simp: get_Ok file_check_Panic)
  from isf obtain c where "i_body n = File c" by (cases "i_body n") auto
  from write_result [OF wf len lim n this, of off now] run show False by (auto split: if_splits)
qed

lemma case_File_Panic:
  "is_File b \<Longrightarrow> (case b of File c \<Rightarrow> f c | _ \<Rightarrow> Panic) = Panic \<longleftrightarrow> (\<exists>c. b = File c \<and> f c = Panic)"
  by (cases b) auto

lemma truncate_panic:
  assumes wf: "fs_wf s" and lim: "int (unat (bytes_limit s)) \<le> isize_max"
  shows "truncate_file i sz now s \<noteq> (Panic, s')"
proof
  assume run: "truncate_file i sz now s = (Panic, s')"
  then obtain n where n: "om_lookup (inodes s) i = Some n" and isf: "is_File (i_body n)"
    unfolding truncate_file_def and_then_Panic and_then_Ok file_check_Ok Let_def
    by (auto simp: get_Ok file_check_Panic)
  from isf obtain c where c: "i_body n = File c" by (cases "i_body n") auto
  note f = file_facts [OF wf n c]
  show False
  proof (cases "a_size (i_attr n) < sz")
    case True
    from run n c True have room: "\<not> over_limit s (sz - a_size (i_attr n))"
      and nofit: "checked_add (bytes_used s) (sz - a_size (i_attr n)) = None \<or> vec_resize (unat sz) c = Panic"
      unfolding truncate_file_def and_then_Panic and_then_Ok file_check_Ok Let_def
      by (auto simp: panic_simps get_Ok file_check_Panic res_bind_eq_Panic split: if_splits)
    have d: "unat (sz - a_size (i_attr n)) = unat sz - length c"
      using True f(1) by (simp add: unat_sub_no_underflow word_less_nat_alt word_le_nat_alt)
    have "unat sz \<le> unat (bytes_limit s)"
      using room f(2) True f(1) by (simp add: over_limit_iff d word_less_nat_alt)
    then have "int (unat sz) \<le> isize_max"
      by (intro order_trans [OF _ lim]) (simp only: of_nat_le_iff)
    with nofit over_limit_add [OF room] show False by (simp add: vec_resize_eq split: if_splits)
  next
    case False
    from run n c False have "bytes_used s < a_size (i_attr n) - sz \<or> vec_resize (unat sz) c = Panic"
      unfolding truncate_file_def and_then_Panic and_then_Ok file_check_Ok Let_def
      by (auto simp: panic_simps get_Ok file_check_Panic res_bind_eq_Panic sub_bytes_def split: if_splits)
    moreover have "unat (a_size (i_attr n) - sz) \<le> unat (bytes_used s)" "unat sz \<le> length c"
      using False f by (simp_all add: unat_sub_no_underflow word_less_nat_alt word_le_nat_alt)
    ultimately show False by (simp add: vec_resize_eq word_less_nat_alt)
  qed
qed

lemma setattr_panic:
  assumes wf: "fs_wf s" and lim: "int (unat (bytes_limit s)) \<le> isize_max"
  shows "setattr i sa now1 now2 s \<noteq> (Panic, s')"
  using truncate_panic [OF assms] unfolding setattr_def
  by (cases "sa_size sa") (auto simp: panic_simps)

lemma rename_overwrite_panic:
  assumes wf: "fs_wf s"
  shows "rename_overwrite p nm q x c d now s \<noteq> (Panic, s')"
proof (cases "child_ino s q x")
  case (Ok dst)
  then show ?thesis
    using rmdir_panic [OF wf] unlink_panic
    by (auto simp: rename_overwrite_def and_then_Panic entry_changes_not_Panic split: bool.splits)
qed (auto simp: rename_overwrite_def)

lemma if_present_Panic:
  "if_present i f s = (Panic, s') \<Longrightarrow> \<exists>n. om_lookup (inodes s) i = Some n \<and> f n = Panic"
  by (auto simp: if_present_def get_mut_Panic split: if_splits)

lemma rename_move_panic:
  assumes ent: "t_ent (tree_of s) (p, nm) = Some c" and q: "t_isdir (tree_of s) q"
    and run: "rename_move p nm q x c d now s = (Panic, s')"
  shows "links (inodes s) q = 2 ^ 32 - 1"
proof -
  obtain n e' where n: "om_lookup (inodes s) p = Some n" "i_body n = Dir e'" "om_lookup e' nm = Some c"
    using ent by (auto simp: tree_of_def ent_mtree)
  obtain m e'' where m: "om_lookup (inodes s) q = Some m" "i_body m = Dir e''"
    using q by (auto simp: isdir_node)
  have "a_nlink (i_attr m) = - 1"
    using run n m unfolding rename_move_def
    by (auto simp: and_then_Panic and_then_Ok entry_changes_not_Panic remove_entry_Ok insert_entry_Ok
        incr_nlink_eq if_present_def get_mut_def set_entries_def map_attr_def split: if_splits option.splits)
  then show ?thesis using m by (simp add: links_def nlink_of_def unat_max_word)
qed

lemma t_removed_links:
  assumes "fs_wf s" "fs_wf s1" "t_removed (tree_of s) q x (tree_of s1)" "t_isdir (tree_of s1) j"
  shows "links (inodes s1) j \<le> links (inodes s) j"
proof -
  have dir: "t_isdir (tree_of s) k" if "t_isdir (tree_of s1) k" for k
    using that assms(3) unfolding t_removed_def t_isdir_def by (metis option.distinct(1))
  have "subdirs (inodes s1) j \<subseteq> subdirs (inodes s) j"
    using assms(3) dir
    by (auto simp: subdirs_def tree_of_def [symmetric] t_isdir_mtree [symmetric] t_removed_def split: if_splits)
  then have "card (subdirs (inodes s1) j) \<le> card (subdirs (inodes s) j)"
    by (rule card_mono [OF finite_subdirs])
  moreover have "slack (inodes s1) j = 0" "slack (inodes s) j = 0"
    using wf_slack_dir assms dir by blast+
  ultimately show ?thesis
    using assms(4) dir [OF assms(4)]
    by (auto simp: slack_def links_def tree_of_def t_isdir_mtree m_isdir_def)
qed

lemma rename_panic:
  assumes wf: "fs_wf s" and run: "rename p nm q x now1 now2 s = (Panic, s')"
  shows "2 ^ 32 - 1 \<le> links (inodes s) q"
proof -
  have ok: "tree_ok (tree_of s)" using wf by (simp add: fs_wf_def)
  have anc: "is_ancestor_or_self s c q \<noteq> Panic" if "om_lookup (inodes s) q = Some nq" "is_Dir (i_body nq)" for c nq
  proof -
    have "t_isdir (tree_of s) q" using that by (auto simp: tree_of_def t_isdir_mtree m_isdir_def)
    then show ?thesis using is_ancestor_or_self_correct [OF wf] by simp
  qed
  have diff: "(p, nm) \<noteq> (q, x)"
    using run by (auto simp: rename_def and_then_Panic and_then_Ok)
  with run obtain c nq d s1 where ent: "t_ent (tree_of s) (p, nm) = Some c"
    and nq: "om_lookup (inodes s) q = Some nq" "is_Dir (i_body nq)"
    and ow: "rename_overwrite p nm q x c d now1 s = (Ok False, s1)"
    and mv: "rename_move p nm q x c d now2 s1 = (Panic, s')"
    unfolding rename_def
    by (auto simp: and_then_Panic and_then_Ok child_ino_ent get_Ok Let_def rename_overwrite_panic [OF wf] anc
        split: if_splits)
  have q: "t_isdir (tree_of s) q" using nq by (auto simp: tree_of_def t_isdir_mtree m_isdir_def)
  from rename_overwrite_run [OF wf ow]
  have rem: "t_removed (tree_of s) q x (tree_of s1)" and wf1: "fs_wf s1"
    by (simp_all add: t_removed_clear)
  note r = t_removed_ready [OF ok rem ent diff q]
  show ?thesis
    using rename_move_panic [OF r(1,3) mv] t_removed_links [OF wf wf1 rem r(3)] by simp
qed

section \<open>Sequences of operations\<close>

datatype fs_op =
    OpMkdir ino bytes u16 | OpRmdir ino bytes | OpCreate ino bytes u16 | OpUnlink ino bytes
  | OpSymlink ino bytes bytes | OpLink ino ino bytes | OpRename ino bytes ino bytes
  | OpWrite ino u64 bytes | OpTruncate ino u64 | OpSetattr ino set_attr

definition void :: "('a, 'e) result \<times> 's \<Rightarrow> (unit, 'e) result \<times> 's" where
  "void x = (case fst x of Ok _ \<Rightarrow> Ok () | Err e \<Rightarrow> Err e | Panic \<Rightarrow> Panic, snd x)"

lemma void_simps [simp]:
  "void (Ok a, s) = (Ok (), s)" "void (Err e, s) = (Err e, s)" "void (Panic, s) = (Panic, s)"
  by (simp_all add: void_def)

lemma void_iff:
  "void x = (Ok u, s) \<longleftrightarrow> (\<exists>a. x = (Ok a, s))"
  "void x = (Err e, s) \<longleftrightarrow> x = (Err e, s)"
  "void x = (Panic, s) \<longleftrightarrow> x = (Panic, s)"
  by (cases x; auto simp: void_def split: result.splits)+

text \<open>One call, with the clock samples it takes.\<close>

fun fs_exec :: "fs_op \<Rightarrow> timespec \<Rightarrow> timespec \<Rightarrow> unit fs_prog" where
  "fs_exec (OpMkdir p nm m) t1 t2 s = void (mkdir p nm m t1 s)"
| "fs_exec (OpRmdir p nm) t1 t2 s = void (rmdir p nm t1 s)"
| "fs_exec (OpCreate p nm m) t1 t2 s = void (create p nm m t1 s)"
| "fs_exec (OpUnlink p nm) t1 t2 s = void (unlink p nm t1 s)"
| "fs_exec (OpSymlink p nm tgt) t1 t2 s = void (symlink p nm tgt t1 s)"
| "fs_exec (OpLink i p nm) t1 t2 s = void (link i p nm t1 s)"
| "fs_exec (OpRename p nm q x) t1 t2 s = void (rename p nm q x t1 t2 s)"
| "fs_exec (OpWrite i off d) t1 t2 s = void (write_bytes i off d t1 s)"
| "fs_exec (OpTruncate i sz) t1 t2 s = void (truncate_file i sz t1 s)"
| "fs_exec (OpSetattr i sa) t1 t2 s = void (setattr i sa t1 t2 s)"

text \<open>The byte strings of a call are Rust slices, which are at most \<open>isize::MAX\<close> long.\<close>

fun op_sized :: "fs_op \<Rightarrow> bool" where
  "op_sized (OpSymlink p nm tgt) \<longleftrightarrow> int (length tgt) \<le> isize_max"
| "op_sized (OpWrite i off d) \<longleftrightarrow> int (length d) \<le> isize_max"
| "op_sized _ \<longleftrightarrow> True"

lemma fs_exec_wf:
  assumes wf: "fs_wf s" and sized: "op_sized op" and run: "fs_exec op t1 t2 s = (Ok u, s')"
  shows "fs_wf s' \<and> bytes_limit s' = bytes_limit s"
proof (cases op)
  case (OpMkdir p nm m)
  with run obtain a where "mkdir p nm m t1 s = (Ok a, s')" by (auto simp: void_iff)
  from mkdir_run [OF wf this] show ?thesis by blast
next
  case (OpRmdir p nm)
  with run have "rmdir p nm t1 s = (Ok (), s')" by (auto simp: void_iff)
  from rmdir_run [OF wf this] show ?thesis by blast
next
  case (OpCreate p nm m)
  with run obtain a where "create p nm m t1 s = (Ok a, s')" by (auto simp: void_iff)
  from create_run [OF wf this] show ?thesis by blast
next
  case (OpUnlink p nm)
  with run have "unlink p nm t1 s = (Ok (), s')" by (auto simp: void_iff)
  then show ?thesis by (elim unlink_run [OF wf]) blast
next
  case (OpSymlink p nm tgt)
  with run sized obtain a where "symlink p nm tgt t1 s = (Ok a, s')" "int (length tgt) \<le> isize_max"
    by (auto simp: void_iff)
  from symlink_run [OF wf this(2,1)] show ?thesis by blast
next
  case (OpLink i p nm)
  with run obtain a where "link i p nm t1 s = (Ok a, s')" by (auto simp: void_iff)
  from link_run [OF wf this] show ?thesis by blast
next
  case (OpRename p nm q x)
  with run have "rename p nm q x t1 t2 s = (Ok (), s')" by (auto simp: void_iff)
  from rename_run [OF wf this] show ?thesis by blast
next
  case (OpWrite i off d)
  with run sized obtain a where "write_bytes i off d t1 s = (Ok a, s')" "int (length d) \<le> isize_max"
    by (auto simp: void_iff)
  from write_wf [OF wf this(2,1)] show ?thesis by blast
next
  case (OpTruncate i sz)
  with run have "truncate_file i sz t1 s = (Ok (), s')" by (auto simp: void_iff)
  from truncate_wf [OF wf this] show ?thesis by blast
next
  case (OpSetattr i sa)
  with run obtain a where "setattr i sa t1 t2 s = (Ok a, s')" by (auto simp: void_iff)
  from setattr_run [OF wf this] show ?thesis by blast
qed

lemma fs_exec_err:
  assumes "fs_wf s" "fs_exec op t1 t2 s = (Err e, s')"
  shows "s' = s"
  using assms
  by (cases op)
     (auto simp: void_iff dest: mkdir_err rmdir_err create_err symlink_err link_err write_err truncate_err setattr_err
        rename_err unlink_err)

text \<open>Room for another inode and another link on every inode, and a limit a vector can reach.\<close>

definition roomy :: "fs \<Rightarrow> bool" where
  "roomy s \<longleftrightarrow> next_ino s \<noteq> - 1 \<and> (\<forall>i. links (inodes s) i < 2 ^ 32 - 1) \<and>
     int (unat (bytes_limit s)) \<le> isize_max"

lemma roomy_nlink: "roomy s \<Longrightarrow> om_lookup (inodes s) i = Some n \<Longrightarrow> a_nlink (i_attr n) \<noteq> - 1"
proof
  assume r: "roomy s" and n: "om_lookup (inodes s) i = Some n" and m: "a_nlink (i_attr n) = - 1"
  from n m have "links (inodes s) i = 2 ^ 32 - 1" by (simp add: links_def nlink_of_def unat_max_word)
  moreover have "links (inodes s) i < 2 ^ 32 - 1" using r unfolding roomy_def by blast
  ultimately show False by simp
qed

lemma fs_exec_panic:
  assumes "fs_wf s" "op_sized op" "roomy s"
  shows "fs_exec op t1 t2 s \<noteq> (Panic, s')"
proof (cases op)
  case (OpRename p nm q x)
  have "links (inodes s) q < 2 ^ 32 - 1" using assms(3) unfolding roomy_def by blast
  then show ?thesis using rename_panic [OF assms(1), of p nm q x] by (fastforce simp: OpRename void_iff)
qed (use assms roomy_nlink [OF assms(3)] in
  \<open>auto simp: void_iff roomy_def unlink_panic rmdir_panic write_panic truncate_panic setattr_panic
     dest: mkdir_panic create_panic symlink_panic link_panic\<close>)

inductive reachable :: "u64 \<Rightarrow> timespec \<Rightarrow> fs \<Rightarrow> bool" for limit t0 where
  start: "reachable limit t0 (with_limit limit t0)"
| call: "reachable limit t0 s \<Longrightarrow> op_sized op \<Longrightarrow> fs_exec op t1 t2 s = (r, s') \<Longrightarrow> r \<noteq> Panic \<Longrightarrow>
    reachable limit t0 s'"

text \<open>A fresh filesystem satisfies the invariant, and so does everything reached from it.\<close>

lemma with_limit_tree: "tree_of (with_limit limit t0) =
   \<lparr>t_node = [ROOT_INO \<mapsto> TDir ROOT_INO], t_ent = Map.empty\<rparr>"
  by (rule tree_eqI)
     (auto simp: tree_of_def with_limit_def mtree_sel tnode_of_def parent_or_root_def node_entries_def
        split: if_splits)

lemma with_limit_wf: "fs_wf (with_limit limit t0)"
proof (rule fs_wfI)
  show "tree_ok (tree_of (with_limit limit t0))"
    unfolding with_limit_tree
    by (rule tree_ok_intro) (auto simp: t_isdir_def intro: rooted.root split: if_splits)
  show "nodes_ok (next_ino (with_limit limit t0)) (inodes (with_limit limit t0))"
    by (auto simp: nodes_ok_def with_limit_def node_ok_def new_attr_def ROOT_INO_def)
  have slack: "slack (inodes (with_limit limit t0)) i = 0" for i
  proof -
    have "subdirs (inodes (with_limit limit t0)) i = {}"
      using with_limit_tree [of limit t0] by (auto simp: subdirs_def tree_of_def)
    then show ?thesis by (auto simp: slack_def with_limit_def nlink_of_def new_attr_def)
  qed
  show "0 < links (inodes (with_limit limit t0)) i \<and> 0 \<le> slack (inodes (with_limit limit t0)) i"
    if "t_node (tree_of (with_limit limit t0)) i \<noteq> None" for i
    using that by (auto simp: with_limit_tree slack)
      (auto simp: with_limit_def links_def nlink_of_def new_attr_def split: if_splits)
  show "slack (inodes (with_limit limit t0)) i = 0" for i by (rule slack)
qed (simp_all add: with_limit_def content_bytes_def om_sum_def)

lemma reachable_wf: "reachable limit t0 s \<Longrightarrow> fs_wf s \<and> bytes_limit s = limit"
proof (induction rule: reachable.induct)
  case start
  show ?case by (simp add: with_limit_wf) (simp add: with_limit_def)
next
  case (call s op t1 t2 r s')
  then show ?case
    using fs_exec_wf [of s op t1 t2] fs_exec_err [of s op t1 t2] by (cases r) auto
qed

section \<open>Exact link counts\<close>

text \<open>
  Every operation keeps the slack of every inode, except a rename onto another name of the
  same inode, which removes a name and leaves the link count as it was.
\<close>

definition alias_rename :: "fs \<Rightarrow> fs_op \<Rightarrow> bool" where
  "alias_rename s op = (case op of
     OpRename p nm q x \<Rightarrow> (p, nm) \<noteq> (q, x) \<and> t_ent (tree_of s) (q, x) = t_ent (tree_of s) (p, nm)
   | _ \<Rightarrow> False)"

lemma fs_exec_slack:
  assumes wf: "fs_wf s" and sized: "op_sized op" and run: "fs_exec op t1 t2 s = (Ok u, s')"
    and na: "\<not> alias_rename s op"
  shows "slack (inodes s') = slack (inodes s)"
proof (cases op)
  case (OpMkdir p nm m)
  with run obtain a where "mkdir p nm m t1 s = (Ok a, s')" by (auto simp: void_iff)
  from mkdir_run [OF wf this] show ?thesis by blast
next
  case (OpRmdir p nm)
  with run have "rmdir p nm t1 s = (Ok (), s')" by (auto simp: void_iff)
  from rmdir_run [OF wf this] show ?thesis by blast
next
  case (OpCreate p nm m)
  with run obtain a where "create p nm m t1 s = (Ok a, s')" by (auto simp: void_iff)
  from create_run [OF wf this] show ?thesis by blast
next
  case (OpUnlink p nm)
  with run have "unlink p nm t1 s = (Ok (), s')" by (auto simp: void_iff)
  then show ?thesis by (elim unlink_run [OF wf]) blast
next
  case (OpSymlink p nm tgt)
  with run sized obtain a where "symlink p nm tgt t1 s = (Ok a, s')" "int (length tgt) \<le> isize_max"
    by (auto simp: void_iff)
  from symlink_run [OF wf this(2,1)] show ?thesis by blast
next
  case (OpLink i p nm)
  with run obtain a where "link i p nm t1 s = (Ok a, s')" by (auto simp: void_iff)
  from link_run [OF wf this] show ?thesis by blast
next
  case (OpRename p nm q x)
  with run have "rename p nm q x t1 t2 s = (Ok (), s')" by (auto simp: void_iff)
  from rename_run [OF wf this] na show ?thesis by (auto simp: OpRename alias_rename_def)
next
  case (OpWrite i off d)
  with run sized obtain a where "write_bytes i off d t1 s = (Ok a, s')" "int (length d) \<le> isize_max"
    by (auto simp: void_iff)
  from write_wf [OF wf this(2,1)] show ?thesis by blast
next
  case (OpTruncate i sz)
  with run have "truncate_file i sz t1 s = (Ok (), s')" by (auto simp: void_iff)
  from truncate_wf [OF wf this] show ?thesis by blast
next
  case (OpSetattr i sa)
  with run obtain a where "setattr i sa t1 t2 s = (Ok a, s')" by (auto simp: void_iff)
  from setattr_run [OF wf this] show ?thesis by blast
qed

end
