(* ===== verification/MemFsSpec.thy ===== *)
theory MemFsSpec
  imports MemFsSafety
begin

text \<open>
  The abstract filesystem that the inode-keyed operations of \<open>mem.rs\<close> implement: when each
  operation is refused and with which error (\<open>t_deny\<close>), and the tree it leads to when it is
  not (\<open>t_exec\<close>), both over the abstract tree, without timestamps, attributes or counters.
  The theorems show that the code gives exactly these outcomes.
\<close>

section \<open>When an operation is refused\<close>

definition deny_name :: "bytes \<Rightarrow> errno option" where
  "deny_name nm = (case validate_name nm of Err e \<Rightarrow> Some e | _ \<Rightarrow> None)"

definition deny_dir :: "tree \<Rightarrow> ino \<Rightarrow> errno option" where
  "deny_dir t p = (case t_node t p of
     None \<Rightarrow> Some NoEnt | Some (TDir q) \<Rightarrow> None | Some _ \<Rightarrow> Some NotDir)"

definition deny_file :: "tree \<Rightarrow> ino \<Rightarrow> errno option" where
  "deny_file t i = (case t_node t i of
     None \<Rightarrow> Some NoEnt | Some (TDir q) \<Rightarrow> Some IsDir | Some (TSymlink x) \<Rightarrow> Some Inval
   | Some (TFile c) \<Rightarrow> None)"

definition deny_quota :: "tree \<Rightarrow> nat \<Rightarrow> ino \<Rightarrow> nat \<Rightarrow> errno option" where
  "deny_quota t room i sz = (case t_node t i of
     Some (TFile c) \<Rightarrow> if room < sz - length c then Some NoSpc else None | _ \<Rightarrow> None)"

text \<open>The first refusal of a list of checks.\<close>

fun first_deny :: "errno option list \<Rightarrow> errno option" where
  "first_deny [] = None"
| "first_deny (None # ds) = first_deny ds"
| "first_deny (Some e # ds) = Some e"

lemma first_deny_Cons: "first_deny (d # ds) = (case d of None \<Rightarrow> first_deny ds | Some e \<Rightarrow> Some e)"
  by (cases d) simp_all

definition refuse :: "bool \<Rightarrow> errno \<Rightarrow> errno option" where
  "refuse b e = (if b then Some e else None)"

definition deny_new :: "tree \<Rightarrow> ino \<Rightarrow> bytes \<Rightarrow> errno option" where
  "deny_new t p nm = first_deny [deny_dir t p, refuse (t_ent t (p, nm) \<noteq> None) Exist]"

definition deny_old :: "tree \<Rightarrow> ino \<Rightarrow> bytes \<Rightarrow> errno option" where
  "deny_old t p nm = first_deny [deny_dir t p, refuse (t_ent t (p, nm) = None) NoEnt]"

definition deny_target :: "tree \<Rightarrow> ino \<Rightarrow> ino option \<Rightarrow> errno option" where
  "deny_target t c dst = (case dst of
     None \<Rightarrow> None
   | Some d \<Rightarrow> if d = c then None else first_deny [
       refuse (\<not> t_isdir t c \<and> t_isdir t d) IsDir,
       refuse (t_isdir t c \<and> \<not> t_isdir t d) NotDir,
       refuse (t_isdir t d \<and> (\<exists>x. t_ent t (d, x) \<noteq> None)) NotEmpty])"

fun t_deny :: "tree \<Rightarrow> nat \<Rightarrow> fs_op \<Rightarrow> errno option" where
  "t_deny t room (OpMkdir p nm m) = first_deny [deny_name nm, deny_new t p nm]"
| "t_deny t room (OpCreate p nm m) = first_deny [deny_name nm, deny_new t p nm]"
| "t_deny t room (OpSymlink p nm tgt) =
     first_deny [deny_name nm, deny_new t p nm, refuse (room < length tgt) NoSpc]"
| "t_deny t room (OpLink i p nm) = first_deny [deny_name nm, refuse (t_node t i = None) NoEnt,
     refuse (t_isdir t i) IsDir, deny_new t p nm]"
| "t_deny t room (OpRmdir p nm) = first_deny [deny_name nm, deny_old t p nm,
     refuse (\<not> t_isdir t (the (t_ent t (p, nm)))) NotDir,
     refuse (\<exists>x. t_ent t (the (t_ent t (p, nm)), x) \<noteq> None) NotEmpty]"
| "t_deny t room (OpUnlink p nm) = first_deny [deny_name nm, deny_old t p nm,
     refuse (t_isdir t (the (t_ent t (p, nm)))) IsDir]"
| "t_deny t room (OpRename p nm q x) = first_deny [deny_name nm, deny_name x, deny_old t p nm,
     if (p, nm) = (q, x) then None else first_deny [deny_dir t q,
       refuse (t_isdir t (the (t_ent t (p, nm))) \<and> anc t (the (t_ent t (p, nm))) q) Inval,
       deny_target t (the (t_ent t (p, nm))) (t_ent t (q, x))]]"
| "t_deny t room (OpWrite i off d) = first_deny [deny_file t i,
     case t_node t i of Some (TFile c) \<Rightarrow> deny_quota t room i (max (length c) (unat off + length d)) | _ \<Rightarrow> None]"
| "t_deny t room (OpTruncate i sz) = first_deny [deny_file t i, deny_quota t room i (unat sz)]"
| "t_deny t room (OpSetattr i sa) = (case sa_size sa of
     None \<Rightarrow> refuse (t_node t i = None) NoEnt
   | Some sz \<Rightarrow> first_deny [deny_file t i, deny_quota t room i (unat sz)])"

section \<open>The tree an operation leads to\<close>

text \<open>
  \<open>nxt\<close> is the next free inode number and \<open>lk\<close> the link count of each inode: a removed name
  takes its inode along when it was counted once.
\<close>

definition t_file :: "tree \<Rightarrow> ino \<Rightarrow> bytes" where
  "t_file t i = (case t_node t i of Some (TFile c) \<Rightarrow> c | _ \<Rightarrow> [])"

fun t_exec :: "tree \<Rightarrow> ino \<Rightarrow> (ino \<Rightarrow> nat) \<Rightarrow> fs_op \<Rightarrow> tree" where
  "t_exec t nxt lk (OpMkdir p nm m) = t_put (t_set t nxt (TDir p)) p nm nxt"
| "t_exec t nxt lk (OpCreate p nm m) = t_put (t_set t nxt (TFile [])) p nm nxt"
| "t_exec t nxt lk (OpSymlink p nm tgt) = t_put (t_set t nxt (TSymlink tgt)) p nm nxt"
| "t_exec t nxt lk (OpLink i p nm) = t_put t p nm i"
| "t_exec t nxt lk (OpRmdir p nm) = t_clear t lk p nm"
| "t_exec t nxt lk (OpUnlink p nm) = t_clear t lk p nm"
| "t_exec t nxt lk (OpRename p nm q x) =
     (if (p, nm) = (q, x) then t
      else if t_ent t (q, x) = t_ent t (p, nm) then t_cut t p nm
      else t_move (t_clear t lk q x) p nm q x (the (t_ent t (p, nm))))"
| "t_exec t nxt lk (OpWrite i off d) = t_set t i (TFile (overwrite (t_file t i) (unat off) d))"
| "t_exec t nxt lk (OpTruncate i sz) = t_set t i (TFile (resized (t_file t i) (unat sz)))"
| "t_exec t nxt lk (OpSetattr i sa) = (case sa_size sa of None \<Rightarrow> t
     | Some sz \<Rightarrow> t_set t i (TFile (resized (t_file t i) (unat sz))))"

definition room_of :: "fs \<Rightarrow> nat" where
  "room_of s = unat (bytes_limit s) - unat (bytes_used s)"

lemma t_file_Some: "t_node t i = Some (TFile c) \<Longrightarrow> t_file t i = c"
  by (simp add: t_file_def)

lemma fs_exec_tree:
  assumes wf: "fs_wf s" and sized: "op_sized op" and run: "fs_exec op t1 t2 s = (Ok u, s')"
  shows "tree_of s' = t_exec (tree_of s) (Ino (next_ino s)) (links (inodes s)) op"
proof (cases op)
  case (OpMkdir p nm m)
  with run obtain a where "mkdir p nm m t1 s = (Ok a, s')" by (auto simp: void_iff)
  from mkdir_run [OF wf this] show ?thesis by (simp add: OpMkdir)
next
  case (OpRmdir p nm)
  with run have "rmdir p nm t1 s = (Ok (), s')" by (auto simp: void_iff)
  from rmdir_run [OF wf this] show ?thesis by (auto simp: OpRmdir t_clear_def)
next
  case (OpCreate p nm m)
  with run obtain a where "create p nm m t1 s = (Ok a, s')" by (auto simp: void_iff)
  from create_run [OF wf this] show ?thesis by (simp add: OpCreate)
next
  case (OpUnlink p nm)
  with run have "unlink p nm t1 s = (Ok (), s')" by (auto simp: void_iff)
  then show ?thesis by (elim unlink_run [OF wf]) (simp add: OpUnlink t_clear_def)
next
  case (OpSymlink p nm tgt)
  with run sized obtain a where "symlink p nm tgt t1 s = (Ok a, s')" "int (length tgt) \<le> isize_max"
    by (auto simp: void_iff)
  from symlink_run [OF wf this(2,1)] show ?thesis by (simp add: OpSymlink)
next
  case (OpLink i p nm)
  with run obtain a where "link i p nm t1 s = (Ok a, s')" by (auto simp: void_iff)
  from link_run [OF wf this] show ?thesis by (simp add: OpLink)
next
  case (OpRename p nm q x)
  with run have "rename p nm q x t1 t2 s = (Ok (), s')" by (auto simp: void_iff)
  from rename_run [OF wf this] show ?thesis by (auto simp: OpRename)
next
  case (OpWrite i off d)
  with run sized obtain a where "write_bytes i off d t1 s = (Ok a, s')" "int (length d) \<le> isize_max"
    by (auto simp: void_iff)
  from write_wf(5) [OF wf this(2,1)] show ?thesis by (auto simp: OpWrite t_file_Some)
next
  case (OpTruncate i sz)
  with run have "truncate_file i sz t1 s = (Ok (), s')" by (auto simp: void_iff)
  from truncate_wf(5) [OF wf this] show ?thesis by (auto simp: OpTruncate t_file_Some)
next
  case (OpSetattr i sa)
  with run obtain a where "setattr i sa t1 t2 s = (Ok a, s')" by (auto simp: void_iff)
  from setattr_run(5) [OF wf this] show ?thesis by (auto simp: OpSetattr t_file_Some split: option.splits)
qed

section \<open>The errors the operations return\<close>

lemma name_verdict [simp]:
  "validate_name nm = Err e \<longleftrightarrow> deny_name nm = Some e"
  "validate_name nm = Ok u \<longleftrightarrow> deny_name nm = None"
  by (auto simp: deny_name_def split: result.splits)

lemma tnode_cases:
  "t_node (tree_of s) i = None \<longleftrightarrow> om_lookup (inodes s) i = None"
  "om_lookup (inodes s) i = Some n \<Longrightarrow> t_node (tree_of s) i = Some (tnode_of n)"
  by (simp_all add: tree_of_def mtree_sel)

lemma entries_verdict:
  "entries_of s p = (case deny_dir (tree_of s) p of
     Some e \<Rightarrow> Err e | None \<Rightarrow> Ok (dir_entries (i_body (the (om_lookup (inodes s) p)))))"
proof (cases "om_lookup (inodes s) p")
  case (Some n)
  then show ?thesis
    by (cases "i_body n") (auto simp: entries_of_def get_def deny_dir_def tnode_cases tnode_of_def)
next
  case None
  then have "t_node (tree_of s) p = None" by (simp add: tnode_cases(1))
  with None show ?thesis by (simp add: entries_of_def get_def deny_dir_def)
qed

lemma entries_ent:
  "entries_of s p = Ok e \<Longrightarrow> om_lookup e nm = t_ent (tree_of s) (p, nm)"
  by (auto simp: entries_of_Ok tree_of_def mtree_sel node_entries_def)

lemma new_verdict:
  "ensure_dir_no_entry s p nm = (case deny_new (tree_of s) p nm of Some e \<Rightarrow> Err e | None \<Rightarrow> Ok ())"
  using entries_ent [of s p _ nm]
  by (cases "deny_dir (tree_of s) p")
     (auto simp: ensure_dir_no_entry_def entries_verdict deny_new_def refuse_def)

lemma old_verdict:
  "child_ino s p nm = (case deny_old (tree_of s) p nm of Some e \<Rightarrow> Err e
     | None \<Rightarrow> Ok (the (t_ent (tree_of s) (p, nm))))"
  using entries_ent [of s p _ nm]
  by (cases "deny_dir (tree_of s) p")
     (auto simp: child_ino_def entries_verdict deny_old_def refuse_def ok_or_def split: option.splits)

lemma verdict_iff:
  "(case d of Some e \<Rightarrow> Err e | None \<Rightarrow> Ok x) = Ok y \<longleftrightarrow> d = None \<and> y = x"
  "(case d of Some e \<Rightarrow> Err e | None \<Rightarrow> Ok x) = Err e' \<longleftrightarrow> d = Some e'"
  by (auto split: option.splits)

lemma isdir_lookup: "t_isdir (tree_of s) i \<longleftrightarrow> (\<exists>n. om_lookup (inodes s) i = Some n \<and> is_Dir (i_body n))"
  by (simp add: tree_of_def t_isdir_mtree m_isdir_def)

lemma isdir_node_iff:
  "om_lookup (inodes s) i = Some n \<Longrightarrow> t_isdir (tree_of s) i \<longleftrightarrow> is_Dir (i_body n)"
  by (simp add: isdir_lookup)

lemma mkdir_error:
  "mkdir p nm m now s = (Err e, s') \<Longrightarrow> t_deny (tree_of s) r (OpMkdir p nm m') = Some e"
proof -
  assume "mkdir p nm m now s = (Err e, s')"
  then have "validate_name nm = Err e \<or> validate_name nm = Ok () \<and> ensure_dir_no_entry s p nm = Err e"
    unfolding mkdir_def by (auto simp: err_simps split: if_splits)
  then show ?thesis by (auto simp: first_deny_Cons new_verdict verdict_iff)
qed

lemma create_error:
  assumes wf: "fs_wf s" and run: "create p nm m now s = (Err e, s')"
  shows "t_deny (tree_of s) r (OpCreate p nm m') = Some e"
proof -
  from run have "validate_name nm = Err e \<or> validate_name nm = Ok () \<and> ensure_dir_no_entry s p nm = Err e"
    using wf_fresh [OF wf] unfolding create_def by (auto simp: err_simps split: if_splits)
  then show ?thesis by (auto simp: first_deny_Cons new_verdict verdict_iff)
qed

lemma over_limit_room:
  assumes "fs_wf s" "int (length d) \<le> isize_max"
  shows "over_limit s (of_nat (length d)) \<longleftrightarrow> room_of s < length d"
  using wf_limit [OF assms(1)] isize_max_lt_u64 [OF assms(2)]
  by (auto simp: over_limit_iff room_of_def node_of_data [OF assms(2)] word_le_nat_alt)

lemma symlink_error:
  assumes wf: "fs_wf s" and sized: "int (length tgt) \<le> isize_max"
    and run: "symlink p nm tgt now s = (Err e, s')"
  shows "t_deny (tree_of s) (room_of s) (OpSymlink p nm tgt) = Some e"
proof -
  from run have "validate_name nm = Err e \<or> validate_name nm = Ok () \<and> ensure_dir_no_entry s p nm = Err e
     \<or> validate_name nm = Ok () \<and> ensure_dir_no_entry s p nm = Ok () \<and>
         over_limit s (of_nat (length tgt)) \<and> e = NoSpc"
    using wf_fresh [OF wf] unfolding symlink_def Let_def
    by (auto simp: err_simps add_bytes_not_Err split: if_splits)
  then show ?thesis
    by (auto simp: first_deny_Cons new_verdict verdict_iff over_limit_room [OF wf sized] refuse_def)
qed

lemma link_error:
  assumes run: "link i p nm now s = (Err e, s')"
  shows "t_deny (tree_of s) r (OpLink i p nm) = Some e"
proof -
  from run have "validate_name nm = Err e
     \<or> validate_name nm = Ok () \<and> om_lookup (inodes s) i = None \<and> e = NoEnt
     \<or> validate_name nm = Ok () \<and> t_isdir (tree_of s) i \<and> e = IsDir
     \<or> validate_name nm = Ok () \<and> om_lookup (inodes s) i \<noteq> None \<and> \<not> t_isdir (tree_of s) i \<and>
         ensure_dir_no_entry s p nm = Err e"
    unfolding link_def Let_def by (auto simp: err_simps get_Err isdir_lookup res_bind_eq_Err split: if_splits)
  then show ?thesis
    by (auto simp: first_deny_Cons new_verdict verdict_iff refuse_def tnode_cases(1))
       (auto simp: t_isdir_def tnode_cases(1) [symmetric])
qed

lemma unlink_error:
  assumes wf: "fs_wf s" and run: "unlink p nm now s = (Err e, s')"
  shows "t_deny (tree_of s) r (OpUnlink p nm) = Some e"
proof -
  have present: "om_lookup (inodes s) c \<noteq> None" if "child_ino s p nm = Ok c" for c
    using that tree_ent_target [of "tree_of s"] wf by (simp add: child_ino_ent fs_wf_def tnode_cases)
  from run have "validate_name nm = Err e \<or> validate_name nm = Ok () \<and> child_ino s p nm = Err e
     \<or> validate_name nm = Ok () \<and> (\<exists>c. child_ino s p nm = Ok c \<and> t_isdir (tree_of s) c \<and> e = IsDir)"
    using present unfolding unlink_def
    by (auto simp: err_simps get_Err isdir_lookup split: if_splits)
  then show ?thesis
    by (auto simp: first_deny_Cons old_verdict verdict_iff refuse_def)
qed

lemma rmdir_error:
  assumes wf: "fs_wf s" and run: "rmdir p nm now s = (Err e, s')"
  shows "t_deny (tree_of s) r (OpRmdir p nm) = Some e"
proof -
  have present: "om_lookup (inodes s) c \<noteq> None" if "child_ino s p nm = Ok c" for c
    using that tree_ent_target [of "tree_of s"] wf by (simp add: child_ino_ent fs_wf_def tnode_cases)
  have ent: "\<exists>x y. t_ent (tree_of s) (c, x) = Some y"
    if "om_lookup (inodes s) c = Some n" "i_body n = Dir es" "0 < om_len es" for c n es
    using that om_len_zero [of es] by (auto simp: tree_of_def mtree_sel node_entries_def fun_eq_iff)
  from run have "validate_name nm = Err e \<or> validate_name nm = Ok () \<and> child_ino s p nm = Err e
     \<or> validate_name nm = Ok () \<and> (\<exists>c n. child_ino s p nm = Ok c \<and> om_lookup (inodes s) c = Some n \<and>
         (if is_Dir (i_body n) then om_len (dir_entries (i_body n)) \<noteq> 0 \<and> e = NotEmpty else e = NotDir))"
    using present unfolding rmdir_def and_then_Ok and_then_Err empty_dir_Err empty_dir_Ok
    by (auto simp: err_simps get_Err split: if_splits)
  then show ?thesis
    by (elim disjE exE conjE)
       (auto simp: first_deny_Cons old_verdict verdict_iff refuse_def isdir_node_iff is_Dir_def
          split: if_splits dest: ent)
qed

lemma file_verdict:
  assumes "om_lookup (inodes s) i = Some n"
  shows "deny_file (tree_of s) i = (case i_body n of Dir _ \<Rightarrow> Some IsDir | Symlink _ \<Rightarrow> Some Inval | File _ \<Rightarrow> None)"
  by (auto simp: deny_file_def tnode_cases(2) [OF assms] tnode_of_def split: body.splits)

lemma file_verdict_absent: "om_lookup (inodes s) i = None \<Longrightarrow> deny_file (tree_of s) i = Some NoEnt"
  by (simp add: deny_file_def tnode_cases(1) [THEN iffD2])

lemma write_error:
  assumes wf: "fs_wf s" and sized: "int (length d) \<le> isize_max"
    and lim: "int (unat (bytes_limit s)) \<le> isize_max"
    and run: "write_bytes i off d now s = (Err e, s')"
  shows "t_deny (tree_of s) (room_of s) (OpWrite i off d) = Some e"
proof (cases "om_lookup (inodes s) i")
  case None
  then show ?thesis
    using run by (simp add: write_bytes_def and_then_query get_def first_deny_Cons file_verdict_absent)
next
  case (Some n)
  show ?thesis
  proof (cases "i_body n")
    case (File c)
    have "unat (bytes_used s) \<le> unat (bytes_limit s)" using wf_limit [OF wf] by (simp add: word_le_nat_alt)
    then have "deny_quota (tree_of s) (room_of s) i (max (length c) (unat off + length d)) =
        (if fits s (length c) (max (length c) (unat off + length d)) then None else Some NoSpc)"
      by (auto simp: deny_quota_def fits_def room_of_def tnode_cases(2) [OF Some] tnode_of_def File)
    with write_result [OF wf sized lim Some File, of off now] run show ?thesis
      by (auto simp: first_deny_Cons file_verdict [OF Some] File tnode_cases(2) [OF Some] tnode_of_def
          split: if_splits)
  qed (use run Some in \<open>auto simp: write_bytes_def and_then_query get_def and_then_def first_deny_Cons file_verdict\<close>)
qed

lemma truncate_error:
  assumes wf: "fs_wf s" and run: "truncate_file i sz now s = (Err e, s')"
  shows "first_deny [deny_file (tree_of s) i, deny_quota (tree_of s) (room_of s) i (unat sz)] = Some e"
proof (cases "om_lookup (inodes s) i")
  case None
  then show ?thesis
    using run by (simp add: truncate_file_def and_then_query get_def first_deny_Cons file_verdict_absent)
next
  case (Some n)
  show ?thesis
  proof (cases "i_body n")
    case (File c)
    note f = file_facts [OF wf Some File]
    from run Some File have grow: "a_size (i_attr n) < sz" "over_limit s (sz - a_size (i_attr n))" "e = NoSpc"
      unfolding truncate_file_def and_then_Ok and_then_Err file_check_Err file_check_Ok Let_def
      by (auto simp: err_simps get_Err case_File_Err add_bytes_not_Err sub_bytes_not_Err resize_not_Err
          res_bind_eq_Err split: if_splits)
    have "unat (sz - a_size (i_attr n)) = unat sz - length c"
      using grow(1) f(1) by (simp add: unat_sub_no_underflow word_less_nat_alt word_le_nat_alt)
    then have "room_of s < unat sz - length c"
      using grow(2) wf_limit [OF wf] by (auto simp: over_limit_iff room_of_def word_le_nat_alt)
    then show ?thesis
      by (simp add: first_deny_Cons file_verdict [OF Some] File deny_quota_def tnode_cases(2) [OF Some]
          tnode_of_def grow(3))
  qed (use run Some in \<open>auto simp: truncate_file_def and_then_query get_def and_then_def first_deny_Cons file_verdict\<close>)
qed

lemma setattr_error:
  assumes wf: "fs_wf s" and run: "setattr i sa now1 now2 s = (Err e, s')"
  shows "t_deny (tree_of s) (room_of s) (OpSetattr i sa) = Some e"
proof (cases "sa_size sa")
  case None
  then have "om_lookup (inodes s) i = None \<and> e = NoEnt" using run by (auto simp: setattr_def err_simps)
  with None show ?thesis by (simp add: refuse_def tnode_cases(1))
next
  case (Some z)
  have "truncate_file i z now1 s = (Err e, s')"
  proof (rule ccontr)
    assume "\<not> ?thesis"
    with run obtain s1 where t: "truncate_file i z now1 s = (Ok (), s1)"
       and "and_then (get_mut i (\<lambda>node. Ok (map_attr (apply_set_attr sa now2) node))) (\<lambda>_. query (\<lambda>s. getattr s i)) s1 = (Err e, s')"
      by (auto simp: setattr_def Some and_then_Err)
    moreover from truncate_run [OF wf t] have "om_lookup (inodes s1) i \<noteq> None"
      by (metis fs.select_convs(1) fs.surjective fs.update_convs(1,3) om_lookup_insert fun_upd_same option.distinct(1))
    ultimately show False by (auto simp: err_simps)
  qed
  from truncate_error [OF wf this] show ?thesis by (simp add: Some)
qed

lemma dir_verdict:
  "om_lookup (inodes s) i = None \<Longrightarrow> deny_dir (tree_of s) i = Some NoEnt"
  "om_lookup (inodes s) i = Some n \<Longrightarrow> deny_dir (tree_of s) i = (if is_Dir (i_body n) then None else Some NotDir)"
  by (auto simp: deny_dir_def tnode_cases(1) [THEN iffD2] tnode_cases(2) tnode_of_def split: body.splits)

lemma rename_target_error:
  assumes wf: "fs_wf s" and x: "deny_name x = None" and q: "t_isdir (tree_of s) q"
    and run: "rename_overwrite p nm q x c (t_isdir (tree_of s) c) now s = (Err e, s')"
  shows "deny_target (tree_of s) c (t_ent (tree_of s) (q, x)) = Some e \<or> remove_entry p nm now s = (Err e, s')"
proof (cases "t_ent (tree_of s) (q, x)")
  case None
  then have "child_ino s q x \<noteq> Ok d" for d by (simp add: child_ino_ent)
  with run show ?thesis by (auto simp: rename_overwrite_def split: result.splits)
next
  case (Some d)
  then have ch: "child_ino s q x = Ok d" by (simp add: child_ino_ent)
  then have old: "deny_old (tree_of s) q x = None" by (auto simp: old_verdict verdict_iff)
  have "t_node (tree_of s) d \<noteq> None"
    using tree_ent_target Some wf by (auto simp: fs_wf_def)
  then obtain dn where dn: "om_lookup (inodes s) d = Some dn" by (auto simp: tnode_cases(1))
  note isd = isdir_node_iff [OF dn]
  show ?thesis
  proof (cases "d = c")
    case True
    with run ch show ?thesis by (auto simp: rename_overwrite_def and_then_Err)
  next
    case False
    with run ch dn consider (file_dir) "\<not> t_isdir (tree_of s) c" "t_isdir (tree_of s) d" "e = IsDir"
      | (dir_file) "t_isdir (tree_of s) c" "\<not> t_isdir (tree_of s) d" "e = NotDir"
      | (dirs) "t_isdir (tree_of s) c" "t_isdir (tree_of s) d" "rmdir q x now s = (Err e, s')"
      | (leaves) "\<not> t_isdir (tree_of s) c" "\<not> t_isdir (tree_of s) d" "unlink q x now s = (Err e, s')"
      by (auto simp: rename_overwrite_def and_then_Err get_Ok get_Err isd split: bool.splits)
    then show ?thesis
    proof cases
      case dirs
      from rmdir_error [OF wf dirs(3), of 0] dirs(1,2) False show ?thesis
        by (auto simp: deny_target_def Some first_deny_Cons x old refuse_def split: if_splits)
    next
      case leaves
      from unlink_error [OF wf leaves(3), of 0] leaves(2) show ?thesis
        by (auto simp: Some first_deny_Cons x old refuse_def)
    qed (use False in \<open>auto simp: deny_target_def Some first_deny_Cons refuse_def\<close>)
  qed
qed

lemma rename_error:
  assumes wf: "fs_wf s" and run: "rename p nm q x now1 now2 s = (Err e, s')"
  shows "t_deny (tree_of s) r (OpRename p nm q x) = Some e"
proof (cases "(p, nm) = (q, x)")
  case True
  with run have "validate_name nm = Err e \<or> validate_name nm = Ok () \<and> child_ino s p nm = Err e"
    by (auto simp: rename_def and_then_Err and_then_Ok)
  with True show ?thesis by (auto simp: first_deny_Cons old_verdict verdict_iff)
next
  case False
  have ok: "tree_ok (tree_of s)" using wf by (simp add: fs_wf_def)
  let ?t = "tree_of s"
  consider (name) "deny_name nm = Some e" | (new_name) "deny_name nm = None" "deny_name x = Some e"
    | (old) "deny_name nm = None" "deny_name x = None" "deny_old ?t p nm = Some e"
    | (some) "deny_name nm = None" "deny_name x = None" "deny_old ?t p nm = None"
    using run False
    by (cases "deny_old ?t p nm") (auto simp: rename_def and_then_Err and_then_Ok old_verdict verdict_iff)
  then show ?thesis
  proof cases
    case some
    define c where "c = the (t_ent ?t (p, nm))"
    have ch: "child_ino s p nm = Ok c" using some by (simp add: old_verdict c_def)
    then have ent: "t_ent ?t (p, nm) = Some c" by (simp add: child_ino_ent)
    then obtain cn where cn: "om_lookup (inodes s) c = Some cn"
      using tree_ent_target [OF ok ent] by (auto simp: tnode_cases(1))
    note isc = isdir_node_iff [OF cn]
    have anc: "is_ancestor_or_self s c q = Ok (anc ?t c q)" if "t_isdir ?t q"
      by (rule is_ancestor_or_self_correct [OF wf that])
    have rem: "remove_entry p nm now s \<noteq> (Err e, s'')" for now s''
      using ch by (auto simp: remove_entry_Err child_ino_Ok)
    show ?thesis
    proof (cases "t_isdir ?t q")
      case dirq: True
      then obtain qn where qn: "om_lookup (inodes s) q = Some qn" "is_Dir (i_body qn)" by (auto simp: isdir_lookup)
      have dq: "deny_dir ?t q = None" using dirq by (auto simp: deny_dir_def t_isdir_def)
      show ?thesis
      proof (cases "t_isdir ?t c \<and> anc ?t c q")
        case True
        with run False some ch cn qn anc [OF dirq] isc have "e = Inval"
          by (auto simp: rename_def and_then_Err and_then_Ok get_Ok get_Err Let_def)
        with True False some dq show ?thesis by (auto simp: first_deny_Cons c_def refuse_def)
      next
        case noanc: False
        with run False some ch cn qn anc [OF dirq] isc consider
            (over) "rename_overwrite p nm q x c (t_isdir ?t c) now1 s = (Err e, s')"
          | (move) s1 where "rename_overwrite p nm q x c (t_isdir ?t c) now1 s = (Ok False, s1)"
             "rename_move p nm q x c (t_isdir ?t c) now2 s1 = (Err e, s')"
          by (auto simp: rename_def and_then_Err and_then_Ok get_Ok get_Err Let_def split: if_splits)
        then show ?thesis
        proof cases
          case over
          from rename_target_error [OF wf some(2) dirq over] rem
          have "deny_target ?t c (t_ent ?t (q, x)) = Some e" by auto
          with noanc False some dq show ?thesis by (auto simp: first_deny_Cons c_def refuse_def)
        next
          case move
          from rename_overwrite_run [OF wf move(1)]
          have "t_removed ?t q x (tree_of s1)" by (simp add: t_removed_clear)
          note r = t_removed_ready [OF ok this ent False dirq]
          from move(2) rename_move_not_err [OF r(1,3)] show ?thesis by simp
        qed
      qed
    next
      case noq: False
      with run False some ch have "deny_dir ?t q = Some e"
        by (auto simp: rename_def and_then_Err and_then_Ok get_Ok get_Err Let_def isdir_lookup dir_verdict
            split: if_splits)
      with False some show ?thesis by (auto simp: first_deny_Cons)
    qed
  qed (use False in \<open>auto simp: first_deny_Cons\<close>)
qed

section \<open>An operation that returns was not refused\<close>

lemma accepted_new:
  assumes "t_ent t (p, nm) = None" "t_isdir t p"
  shows "deny_new t p nm = None"
  using assms by (auto simp: deny_new_def deny_dir_def t_isdir_def refuse_def first_deny_Cons)

lemma accepted_old:
  assumes "child_ino s p nm = Ok c"
  shows "deny_old (tree_of s) p nm = None" "t_ent (tree_of s) (p, nm) = Some c"
  using assms by (auto simp: old_verdict verdict_iff) (use assms in \<open>simp add: child_ino_ent\<close>)

lemma unlink_accepted:
  assumes wf: "fs_wf s" and run: "unlink p nm now s = (Ok u, s')"
  shows "t_deny (tree_of s) r (OpUnlink p nm) = None"
proof -
  have nm: "deny_name nm = None" and ch: "\<exists>c. child_ino s p nm = Ok c"
    using run by (auto simp: unlink_def and_then_Ok)
  from ch obtain c where c: "child_ino s p nm = Ok c" ..
  note a = accepted_old [OF c]
  from run have "\<not> t_isdir (tree_of s) c"
    by (elim unlink_run [OF wf]) (auto simp: a)
  with nm a show ?thesis by (simp add: first_deny_Cons refuse_def)
qed

lemma rmdir_accepted:
  assumes wf: "fs_wf s" and run: "rmdir p nm now s = (Ok u, s')"
  shows "t_deny (tree_of s) r (OpRmdir p nm) = None"
proof -
  have nm: "deny_name nm = None" and ch: "\<exists>c. child_ino s p nm = Ok c"
    using run by (auto simp: rmdir_def and_then_Ok)
  from ch obtain c where c: "child_ino s p nm = Ok c" ..
  note a = accepted_old [OF c]
  from rmdir_refines [OF wf run] a nm show ?thesis by (auto simp: first_deny_Cons refuse_def)
qed

lemma rename_target_accepted:
  assumes wf: "fs_wf s" and run: "rename_overwrite p nm q x c (t_isdir (tree_of s) c) now s = (Ok u, s')"
  shows "deny_target (tree_of s) c (t_ent (tree_of s) (q, x)) = None"
proof (cases "t_ent (tree_of s) (q, x)")
  case (Some d)
  then have ch: "child_ino s q x = Ok d" by (simp add: child_ino_ent)
  have "t_node (tree_of s) d \<noteq> None" using tree_ent_target Some wf by (auto simp: fs_wf_def)
  then obtain dn where dn: "om_lookup (inodes s) d = Some dn" by (auto simp: tnode_cases(1))
  show ?thesis
  proof (cases "d = c")
    case False
    with run ch dn isdir_node_iff [OF dn] consider
        (dirs) "t_isdir (tree_of s) c" "t_isdir (tree_of s) d" "rmdir q x now s = (Ok (), s')"
      | (leaves) "\<not> t_isdir (tree_of s) c" "\<not> t_isdir (tree_of s) d"
      by (auto simp: rename_overwrite_def and_then_Ok get_Ok split: bool.splits)
    then show ?thesis
    proof cases
      case dirs
      with rmdir_refines [OF wf dirs(3)] Some show ?thesis
        by (auto simp: deny_target_def first_deny_Cons refuse_def)
    qed (auto simp: deny_target_def first_deny_Cons refuse_def Some)
  qed (simp add: deny_target_def Some)
qed (simp add: deny_target_def)

lemma rename_accepted:
  assumes wf: "fs_wf s" and run: "rename p nm q x now1 now2 s = (Ok u, s')"
  shows "t_deny (tree_of s) r (OpRename p nm q x) = None"
proof -
  have nm: "deny_name nm = None" "deny_name x = None" and ch: "\<exists>c. child_ino s p nm = Ok c"
    using run by (auto simp: rename_def and_then_Ok split: if_splits)
  from ch obtain c where c: "child_ino s p nm = Ok c" ..
  note a = accepted_old [OF c]
  show ?thesis
  proof (cases "(p, nm) = (q, x)")
    case False
    with run c obtain qn cn s1 fin where qn: "om_lookup (inodes s) q = Some qn" "is_Dir (i_body qn)"
      and cn: "om_lookup (inodes s) c = Some cn"
      and anc: "is_Dir (i_body cn) \<Longrightarrow> is_ancestor_or_self s c q = Ok False"
      and ow: "rename_overwrite p nm q x c (is_Dir (i_body cn)) now1 s = (Ok fin, s1)"
      by (auto simp: rename_def and_then_Ok get_Ok Let_def split: if_splits)
    have dirq: "t_isdir (tree_of s) q" using qn by (auto simp: isdir_lookup)
    note isc = isdir_node_iff [OF cn]
    have "\<not> (t_isdir (tree_of s) c \<and> anc (tree_of s) c q)"
      using anc is_ancestor_or_self_correct [OF wf dirq, of c] isc by auto
    with rename_target_accepted [OF wf ow [folded isc]] a nm False qn show ?thesis
      by (simp add: first_deny_Cons refuse_def dir_verdict(2) [OF qn(1)])
  next
    case True
    with a nm show ?thesis by (simp add: first_deny_Cons)
  qed
qed

lemma truncate_accepted:
  assumes wf: "fs_wf s" and run: "truncate_file i sz now s = (Ok u, s')"
  shows "first_deny [deny_file (tree_of s) i, deny_quota (tree_of s) (room_of s) i (unat sz)] = None"
proof -
  from truncate_run [OF wf run] obtain n c where n: "om_lookup (inodes s) i = Some n" "i_body n = File c"
    and b: "unat (bytes_used s') + length c = unat (bytes_used s) + unat sz" "bytes_used s' \<le> bytes_limit s"
    by metis
  then have "\<not> room_of s < unat sz - length c" by (auto simp: room_of_def word_le_nat_alt)
  then show ?thesis
    by (simp add: first_deny_Cons file_verdict [OF n(1)] n deny_quota_def tnode_cases(2) [OF n(1)] tnode_of_def)
qed

lemma write_accepted:
  assumes wf: "fs_wf s" and sized: "int (length d) \<le> isize_max"
    and lim: "int (unat (bytes_limit s)) \<le> isize_max"
    and run: "write_bytes i off d now s = (Ok u, s')"
  shows "t_deny (tree_of s) (room_of s) (OpWrite i off d) = None"
proof -
  from write_run [OF wf sized run] obtain n c where n: "om_lookup (inodes s) i = Some n" "i_body n = File c"
    by metis
  from write_result [OF wf sized lim n, of off now] run
  have "fits s (length c) (max (length c) (unat off + length d))" by (auto split: if_splits)
  then show ?thesis
    by (auto simp: first_deny_Cons file_verdict [OF n(1)] n deny_quota_def tnode_cases(2) [OF n(1)]
        tnode_of_def fits_def room_of_def)
qed

lemma fs_exec_accepted:
  assumes wf: "fs_wf s" and sized: "op_sized op" and lim: "int (unat (bytes_limit s)) \<le> isize_max"
    and run: "fs_exec op t1 t2 s = (Ok u, s')"
  shows "t_deny (tree_of s) (room_of s) op = None"
proof (cases op)
  case (OpMkdir p nm m)
  with run obtain a where "mkdir p nm m t1 s = (Ok a, s')" by (auto simp: void_iff)
  from mkdir_free [OF wf this] show ?thesis by (simp add: OpMkdir first_deny_Cons accepted_new)
next
  case (OpCreate p nm m)
  with run obtain a where "create p nm m t1 s = (Ok a, s')" by (auto simp: void_iff)
  from create_free [OF wf this] show ?thesis by (simp add: OpCreate first_deny_Cons accepted_new)
next
  case (OpSymlink p nm tgt)
  with run sized obtain a where r: "symlink p nm tgt t1 s = (Ok a, s')" and l: "int (length tgt) \<le> isize_max"
    by (auto simp: void_iff)
  have "fs_wf s'" by (rule symlink_wf [OF wf l r])
  then have "\<not> room_of s < length tgt"
    using symlink_counters [OF wf l r] wf_limit [of s'] by (auto simp: room_of_def word_le_nat_alt)
  with symlink_free [OF wf l r] show ?thesis
    by (simp add: OpSymlink first_deny_Cons accepted_new refuse_def)
next
  case (OpLink i p nm)
  with run obtain a where "link i p nm t1 s = (Ok a, s')" by (auto simp: void_iff)
  from link_free [OF wf this] show ?thesis by (simp add: OpLink first_deny_Cons accepted_new refuse_def)
next
  case (OpRmdir p nm)
  with run show ?thesis by (auto simp: void_iff simp del: t_deny.simps intro: rmdir_accepted [OF wf])
next
  case (OpUnlink p nm)
  with run show ?thesis by (auto simp: void_iff simp del: t_deny.simps intro: unlink_accepted [OF wf])
next
  case (OpRename p nm q x)
  with run show ?thesis by (auto simp: void_iff simp del: t_deny.simps intro: rename_accepted [OF wf])
next
  case (OpWrite i off d)
  with run sized show ?thesis
    by (auto simp: void_iff simp del: t_deny.simps intro: write_accepted [OF wf _ lim])
next
  case (OpTruncate i sz)
  with run have "truncate_file i sz t1 s = (Ok (), s')" by (auto simp: void_iff)
  from truncate_accepted [OF wf this] show ?thesis by (simp add: OpTruncate)
next
  case (OpSetattr i sa)
  with run obtain a where r: "setattr i sa t1 t2 s = (Ok a, s')" by (auto simp: void_iff)
  show ?thesis
  proof (cases "sa_size sa")
    case None
    with r have "t_node (tree_of s) i \<noteq> None"
      by (auto simp: setattr_def and_then_Ok get_mut_Ok tnode_cases)
    with None show ?thesis by (simp add: OpSetattr refuse_def)
  next
    case (Some z)
    with r obtain s1 where "truncate_file i z t1 s = (Ok (), s1)" by (auto simp: setattr_def and_then_Ok)
    from truncate_accepted [OF wf this] Some show ?thesis by (simp add: OpSetattr)
  qed
qed

lemma fs_exec_refused:
  assumes wf: "fs_wf s" and sized: "op_sized op" and lim: "int (unat (bytes_limit s)) \<le> isize_max"
    and run: "fs_exec op t1 t2 s = (Err e, s')"
  shows "t_deny (tree_of s) (room_of s) op = Some e"
  using run sized
  by (cases op)
     (auto simp: void_iff simp del: t_deny.simps intro: mkdir_error create_error [OF wf] symlink_error [OF wf]
        link_error unlink_error [OF wf] rmdir_error [OF wf] rename_error [OF wf] write_error [OF wf _ lim]
        setattr_error [OF wf],
      simp add: truncate_error [OF wf])

text \<open>The whole outcome of a call, result and tree.\<close>

lemma fs_exec_outcome:
  assumes wf: "fs_wf s" and sized: "op_sized op" and room: "roomy s"
  shows "case t_deny (tree_of s) (room_of s) op of
     Some e \<Rightarrow> fs_exec op t1 t2 s = (Err e, s)
   | None \<Rightarrow> \<exists>s'. fs_exec op t1 t2 s = (Ok (), s') \<and>
       tree_of s' = t_exec (tree_of s) (Ino (next_ino s)) (links (inodes s)) op"
proof -
  have lim: "int (unat (bytes_limit s)) \<le> isize_max" using room by (simp add: roomy_def)
  obtain r s' where run: "fs_exec op t1 t2 s = (r, s')" by force
  show ?thesis
  proof (cases r)
    case (Ok u)
    with run fs_exec_accepted [OF wf sized lim] fs_exec_tree [OF wf sized] show ?thesis by simp
  next
    case (Err e)
    with run fs_exec_refused [OF wf sized lim] fs_exec_err [OF wf] show ?thesis by fastforce
  next
    case Panic
    with run fs_exec_panic [OF wf sized room] show ?thesis by blast
  qed
qed

end
