(* ===== verification/RustStr.thy ===== *)
theory RustStr
  imports Prelude
begin

text \<open>
  The string functions of Rust's standard library that the components use, on UTF-8 byte
  lists: prefixes, splitting, trimming of Unicode white space, decimal numbers, lines, and the
  UTF-8 encoding itself.
\<close>

section \<open>Prefixes and pieces\<close>

definition starts_with :: "bytes \<Rightarrow> bytes \<Rightarrow> bool" where
  "starts_with s p \<longleftrightarrow> take (length p) s = p"

definition strip_prefix :: "bytes \<Rightarrow> bytes \<Rightarrow> bytes option" where
  "strip_prefix s p = (if starts_with s p then Some (drop (length p) s) else None)"

definition ends_with :: "bytes \<Rightarrow> bytes \<Rightarrow> bool" where
  "ends_with s p \<longleftrightarrow> length p \<le> length s \<and> drop (length s - length p) s = p"

definition strip_suffix :: "bytes \<Rightarrow> bytes \<Rightarrow> bytes option" where
  "strip_suffix s p = (if ends_with s p then Some (take (length s - length p) s) else None)"

text \<open>\<open>str::split(d)\<close>: the pieces between separators, the empty ones included.\<close>

fun split_on :: "char \<Rightarrow> bytes \<Rightarrow> bytes list" where
  "split_on d [] = [[]]"
| "split_on d (c # cs) = (if c = d then [] # split_on d cs
     else (case split_on d cs of [] \<Rightarrow> [[c]] | w # ws \<Rightarrow> (c # w) # ws))"

text \<open>\<open>split_once\<close> at the first, \<open>rsplit_once\<close> at the last occurrence of a character.\<close>

fun split_once :: "bytes \<Rightarrow> char \<Rightarrow> (bytes \<times> bytes) option" where
  "split_once [] d = None"
| "split_once (c # cs) d = (if c = d then Some ([], cs)
     else map_option (\<lambda>(a, b). (c # a, b)) (split_once cs d))"

fun rsplit_once :: "bytes \<Rightarrow> char \<Rightarrow> (bytes \<times> bytes) option" where
  "rsplit_once [] d = None"
| "rsplit_once (c # cs) d = (case rsplit_once cs d of
     Some (a, b) \<Rightarrow> Some (c # a, b)
   | None \<Rightarrow> if c = d then Some ([], cs) else None)"

text \<open>\<open>str::find\<close> with a string pattern: the byte offset of its first occurrence.\<close>

fun find_str :: "bytes \<Rightarrow> bytes \<Rightarrow> nat option" where
  "find_str [] p = (if p = [] then Some 0 else None)"
| "find_str (c # cs) p = (if starts_with (c # cs) p then Some 0 else map_option Suc (find_str cs p))"

lemma starts_with_append [simp]: "starts_with (p @ s) p"
  by (simp add: starts_with_def)

lemma starts_with_iff: "starts_with s p \<longleftrightarrow> (\<exists>r. s = p @ r)"
  by (metis append_eq_conv_conj append_take_drop_id starts_with_def)

lemma strip_prefix_append [simp]: "strip_prefix (p @ s) p = Some s"
  by (simp add: strip_prefix_def)

lemma strip_prefix_Some: "strip_prefix s p = Some r \<longleftrightarrow> s = p @ r"
  by (auto simp: strip_prefix_def starts_with_iff)

lemma split_on_not_Nil [simp]: "split_on d cs \<noteq> []"
  by (induction d cs rule: split_on.induct) (auto split: list.splits)

lemma split_on_no_sep: "w \<in> set (split_on d cs) \<Longrightarrow> d \<notin> set w"
proof (induction d cs arbitrary: w rule: split_on.induct)
  case (2 d c cs)
  then show ?case by (cases "split_on d cs") (auto split: if_splits)
qed simp

lemma split_on_plain: "d \<notin> set w \<Longrightarrow> split_on d w = [w]"
  by (induction w) auto

lemma split_on_append: "d \<notin> set w \<Longrightarrow> split_on d (w @ d # cs) = w # split_on d cs"
  by (induction w) auto

lemma split_once_Some: "split_once s d = Some (a, b) \<longleftrightarrow> s = a @ d # b \<and> d \<notin> set a"
proof (induction s arbitrary: a)
  case (Cons c s)
  show ?case
  proof (cases "c = d")
    case True
    then show ?thesis by (cases a) auto
  next
    case False
    then show ?thesis using Cons.IH by (cases a) auto
  qed
qed simp

lemma split_once_None: "split_once s d = None \<longleftrightarrow> d \<notin> set s"
  by (induction s) auto

lemma rsplit_once_None: "rsplit_once s d = None \<longleftrightarrow> d \<notin> set s"
  by (induction s) (auto split: option.splits)

lemma rsplit_once_Some: "rsplit_once s d = Some (a, b) \<longleftrightarrow> s = a @ d # b \<and> d \<notin> set b"
proof (induction s arbitrary: a)
  case (Cons c s)
  show ?case
  proof (cases "rsplit_once s d")
    case None
    then have d: "d \<notin> set s" by (simp add: rsplit_once_None)
    then show ?thesis using None by (cases a) auto
  next
    case (Some p)
    then have d: "d \<in> set s" using rsplit_once_None [of s d] by auto
    obtain a' b' where p: "p = (a', b')" by (cases p)
    show ?thesis
    proof (cases a)
      case Nil
      then show ?thesis using Some d by (auto simp: p)
    next
      case (Cons x xs)
      then show ?thesis using Some Cons.IH [of xs] by (auto simp: p)
    qed
  qed
qed simp

section \<open>White space\<close>

text \<open>
  The length of the white space character at the start, or 0: the code points U+0009 to U+000D,
  U+0020, U+0085, U+00A0, U+1680, U+2000 to U+200A, U+2028, U+2029, U+202F, U+205F, U+3000.
\<close>

definition ws_len :: "bytes \<Rightarrow> nat" where
  "ws_len s = (case map of_char (take 3 s) of
     [] \<Rightarrow> (0 :: nat)
   | a # t \<Rightarrow>
      (if 9 \<le> a \<and> a \<le> 13 \<or> a = 32 then 1
       else case t of
         [] \<Rightarrow> 0
       | b # u \<Rightarrow>
          (if a = 194 \<and> (b = 133 \<or> b = 160) then 2
           else case u of
             [] \<Rightarrow> 0
           | c # _ \<Rightarrow>
              (if a = 225 \<and> b = 154 \<and> c = (128 :: nat)
                  \<or> a = 226 \<and> b = 128 \<and> (128 \<le> c \<and> c \<le> 138 \<or> c = 168 \<or> c = 169 \<or> c = 175)
                  \<or> a = 226 \<and> b = 129 \<and> c = 159
                  \<or> a = 227 \<and> b = 128 \<and> c = 128 then 3 else 0))))"

function trim_start :: "bytes \<Rightarrow> bytes" where
  "trim_start s = (if ws_len s = 0 \<or> s = [] then s else trim_start (drop (ws_len s) s))"
  by pat_completeness auto

termination
  by (relation "measure length") auto

declare trim_start.simps [simp del]

definition blank :: "bytes \<Rightarrow> bool" where
  "blank s \<longleftrightarrow> trim_start s = []"

fun trim_end :: "bytes \<Rightarrow> bytes" where
  "trim_end [] = []"
| "trim_end (c # cs) = (if blank (c # cs) then [] else c # trim_end cs)"

definition trim :: "bytes \<Rightarrow> bytes" where
  "trim s = trim_end (trim_start s)"

lemma ws_len_ascii:
  assumes "32 < (of_char c :: nat)" "(of_char c :: nat) < 128"
  shows "ws_len (c # cs) = 0"
  using assms by (simp add: ws_len_def split: list.split)

text \<open>A visible ASCII character is never white space, nor part of a white space character.\<close>

definition visible :: "char \<Rightarrow> bool" where
  "visible c \<longleftrightarrow> 32 < (of_char c :: nat) \<and> (of_char c :: nat) < 128"

lemma ws_len_not_visible: "i < ws_len s \<Longrightarrow> \<not> visible (s ! i)"
  by (cases s; cases "tl s"; cases "tl (tl s)")
     (auto simp: ws_len_def visible_def less_Suc_eq numeral_2_eq_2 numeral_3_eq_3 split: if_splits)

lemma ws_len_last: "ws_len s = length s \<Longrightarrow> s \<noteq> [] \<Longrightarrow> \<not> visible (last s)"
  using ws_len_not_visible [of "length s - 1" s] by (simp add: last_conv_nth)

lemma ws_len_le: "ws_len s \<le> length s"
  by (cases s; cases "tl s"; cases "tl (tl s)") (auto simp: ws_len_def)

lemma trim_start_last:
  "s \<noteq> [] \<Longrightarrow> visible (last s) \<Longrightarrow> trim_start s \<noteq> [] \<and> last (trim_start s) = last s"
proof (induction s rule: trim_start.induct)
  case (1 s)
  show ?case
  proof (cases "ws_len s = 0")
    case True
    then show ?thesis using 1 by (simp add: trim_start.simps [of s])
  next
    case False
    have "ws_len s < length s" using ws_len_last [of s] ws_len_le [of s] 1(2,3) by (auto simp: le_less)
    then have "drop (ws_len s) s \<noteq> []" "last (drop (ws_len s) s) = last s" by (simp_all add: last_drop)
    with 1 False show ?thesis by (simp add: trim_start.simps [of s])
  qed
qed

lemma not_blank: "s \<noteq> [] \<Longrightarrow> visible (last s) \<Longrightarrow> \<not> blank s"
  using trim_start_last [of s] by (simp add: blank_def)

lemma trim_end_visible: "s \<noteq> [] \<Longrightarrow> visible (last s) \<Longrightarrow> trim_end s = s"
proof (induction s)
  case (Cons c s)
  then show ?case using not_blank [of "c # s"] by (cases "s = []") auto
qed simp

lemma trim_start_visible: "visible c \<Longrightarrow> trim_start (c # s) = c # s"
  by (simp add: trim_start.simps [of "c # s"] ws_len_ascii visible_def)

lemma trim_visible: "visible c \<Longrightarrow> visible (last (c # s)) \<Longrightarrow> trim (c # s) = c # s"
  using trim_end_visible [of "c # s"] by (simp add: trim_def trim_start_visible del: trim_end.simps)

text \<open>A line feed after a visible character is all that trimming takes off.\<close>

lemma trim_start_append:
  "s \<noteq> [] \<Longrightarrow> visible (last s) \<Longrightarrow> \<exists>u. u \<noteq> [] \<and> last u = last s \<and> trim_start (s @ t) = u @ t"
proof (induction "length s" arbitrary: s rule: less_induct)
  case less
  show ?case
  proof (cases "ws_len (s @ t) = 0")
    case True
    then show ?thesis using less.prems by (intro exI [of _ s]) (simp add: trim_start.simps [of "s @ t"])
  next
    case False
    have "ws_len (s @ t) < length s"
    proof (rule ccontr)
      assume "\<not> ws_len (s @ t) < length s"
      moreover have "0 < length s" using less.prems(1) by simp
      ultimately have "length s - 1 < ws_len (s @ t)" by linarith
      from ws_len_not_visible [OF this] less.prems show False by (simp add: nth_append last_conv_nth)
    qed
    then have d: "drop (ws_len (s @ t)) s \<noteq> []" "last (drop (ws_len (s @ t)) s) = last s"
      "drop (ws_len (s @ t)) (s @ t) = drop (ws_len (s @ t)) s @ t" "length (drop (ws_len (s @ t)) s) < length s"
      using False less.prems(1) by (simp_all add: last_drop)
    from less.hyps [OF d(4,1)] d less.prems False show ?thesis by (simp add: trim_start.simps [of "s @ t"])
  qed
qed

lemma not_blank_append: "s \<noteq> [] \<Longrightarrow> visible (last s) \<Longrightarrow> \<not> blank (s @ t)"
  using trim_start_append [of s t] by (auto simp: blank_def)

lemma trim_end_line: "visible (last s) \<Longrightarrow> s \<noteq> [] \<Longrightarrow> trim_end (s @ [CHR 0x0A]) = s"
proof (induction s)
  case (Cons c s)
  have nb: "\<not> blank ((c # s) @ [CHR 0x0A])" using Cons.prems not_blank_append by blast
  show ?case
  proof (cases "s = []")
    case True
    have "blank [CHR 0x0A]" by code_simp
    then show ?thesis using nb True by simp
  next
    case False
    then show ?thesis using Cons nb by simp
  qed
qed simp

lemma trim_line: "visible c \<Longrightarrow> visible (last (c # s)) \<Longrightarrow> trim ((c # s) @ [CHR 0x0A]) = c # s"
  using trim_end_line [of "c # s"] by (simp add: trim_def trim_start_visible del: trim_end.simps)

lemma trim_end_last: "trim_end s \<noteq> [] \<Longrightarrow> \<not> blank [last (trim_end s)]"
proof (induction s)
  case (Cons c s)
  have "blank (c # s)" if "blank [c]" "trim_end s = []"
  proof -
    have b: "blank s" using that(2) by (cases s) (auto simp: blank_def trim_start.simps [of "[]"] split: if_splits)
    have "ws_len [c] \<noteq> 0" using that(1) by (auto simp: blank_def trim_start.simps [of "[c]"] split: if_splits)
    then have "9 \<le> (of_char c :: nat) \<and> (of_char c :: nat) \<le> 13 \<or> (of_char c :: nat) = 32"
      by (auto simp: ws_len_def split: if_splits)
    then have "ws_len (c # s) = 1" by (simp add: ws_len_def)
    then show ?thesis using b by (simp add: blank_def trim_start.simps [of "c # s"])
  qed
  with Cons show ?case by (auto split: if_splits)
qed simp

section \<open>Decimal numbers\<close>

definition is_digit :: "char \<Rightarrow> bool" where
  "is_digit c \<longleftrightarrow> CHR ''0'' \<le> c \<and> c \<le> CHR ''9''"

definition digit_val :: "char \<Rightarrow> nat" where
  "digit_val c = of_char c - 48"

fun digits_val :: "nat \<Rightarrow> bytes \<Rightarrow> nat option" where
  "digits_val acc [] = Some acc"
| "digits_val acc (c # cs) = (if is_digit c then digits_val (10 * acc + digit_val c) cs else None)"

text \<open>\<open>str::parse::<u64>()\<close>: an optional plus sign, digits, and a value below \<open>2 ^ 64\<close>.\<close>

definition parse_nat_below :: "nat \<Rightarrow> bytes \<Rightarrow> nat option" where
  "parse_nat_below bound s =
     (let ds = (case s of c # cs \<Rightarrow> if c = CHR ''+'' then cs else s | [] \<Rightarrow> []) in
      if ds = [] then None
      else (case digits_val 0 ds of Some n \<Rightarrow> if n < bound then Some n else None | None \<Rightarrow> None))"

definition parse_u64 :: "bytes \<Rightarrow> u64 option" where
  "parse_u64 s = map_option of_nat (parse_nat_below (2 ^ 64) s)"

text \<open>\<open>u64::to_string\<close>\<close>

fun show_nat :: "nat \<Rightarrow> bytes" where
  "show_nat n = (if n < 10 then [char_of (48 + n)] else show_nat (n div 10) @ [char_of (48 + n mod 10)])"

declare show_nat.simps [simp del]

definition show_u64 :: "u64 \<Rightarrow> bytes" where
  "show_u64 w = show_nat (unat w)"

lemma digits_val_append:
  "digits_val acc (xs @ ys) = (case digits_val acc xs of Some v \<Rightarrow> digits_val v ys | None \<Rightarrow> None)"
  by (induction acc xs rule: digits_val.induct) auto

lemma digit_char: "n < 10 \<Longrightarrow> is_digit (char_of (48 + n)) \<and> digit_val (char_of (48 + n)) = n"
  by (simp add: is_digit_def digit_val_def less_eq_char_def take_bit_nat_eq_self)

lemma digits_val_show: "digits_val 0 (show_nat n) = Some n"
proof (induction n rule: show_nat.induct)
  case (1 n)
  show ?case
  proof (cases "n < 10")
    case True
    then show ?thesis using digit_char [OF True] by (subst show_nat.simps) simp
  next
    case False
    have d: "is_digit (char_of (48 + n mod 10)) \<and> digit_val (char_of (48 + n mod 10)) = n mod 10"
      by (rule digit_char) simp
    have "10 * (n div 10) + n mod 10 = n" by simp
    then show ?thesis using 1 [OF False] d False by (subst show_nat.simps) (simp add: digits_val_append)
  qed
qed

lemma show_nat_digits: "c \<in> set (show_nat n) \<Longrightarrow> is_digit c"
proof (induction n rule: show_nat.induct)
  case (1 n)
  have "is_digit (char_of (48 + n mod 10))" using digit_char [of "n mod 10"] by simp
  moreover have "n < 10 \<Longrightarrow> is_digit (char_of (48 + n))" using digit_char [of n] by simp
  ultimately show ?case using 1 by (subst (asm) (2) show_nat.simps) (auto split: if_splits)
qed

lemma show_nat_not_Nil [simp]: "show_nat n \<noteq> []"
  by (subst show_nat.simps) simp

lemma digit_visible: "is_digit c \<Longrightarrow> visible c"
  by (auto simp: is_digit_def visible_def less_eq_char_def)

lemma show_nat_visible: "show_nat n \<noteq> [] \<and> visible (last (show_nat n))"
  using show_nat_digits [of "last (show_nat n)" n] by (simp add: digit_visible)

lemma parse_show_u64: "parse_u64 (show_u64 w) = Some w"
proof -
  obtain c cs where s: "show_nat (unat w) = c # cs" by (cases "show_nat (unat w)") auto
  then have "is_digit c" using show_nat_digits [of c "unat w"] by simp
  then have "c \<noteq> CHR ''+''" by (auto simp: is_digit_def less_eq_char_def)
  moreover have "digits_val 0 (c # cs) = Some (unat w)" using digits_val_show [of "unat w"] by (simp add: s)
  moreover have "unat w < 2 ^ 64" using unsigned_less [of w, where ?'a = nat] by simp
  ultimately show ?thesis
    by (simp add: parse_u64_def parse_nat_below_def show_u64_def s Let_def del: digits_val.simps)
qed

section \<open>UTF-8 and UTF-16\<close>

definition is_scalar :: "nat \<Rightarrow> bool" where
  "is_scalar cp \<longleftrightarrow> cp < 55296 \<or> 57344 \<le> cp \<and> cp < 1114112"

definition utf8_char :: "nat \<Rightarrow> bytes" where
  "utf8_char cp = map char_of
     (if cp < 128 then [cp]
      else if cp < 2048 then [192 + cp div 64, 128 + cp mod 64]
      else if cp < 65536 then [224 + cp div 4096, 128 + cp div 64 mod 64, 128 + cp mod 64]
      else [240 + cp div 262144, 128 + cp div 4096 mod 64, 128 + cp div 64 mod 64, 128 + cp mod 64])"

definition utf8_encode :: "nat list \<Rightarrow> bytes" where
  "utf8_encode cps = concat (map utf8_char cps)"

definition is_cont :: "nat \<Rightarrow> bool" where
  "is_cont b \<longleftrightarrow> 128 \<le> b \<and> b < 192"

text \<open>\<open>str::from_utf8\<close>: overlong forms, surrogates and values above U+10FFFF are rejected.\<close>

fun utf8_decode_nat :: "nat list \<Rightarrow> nat list option" where
  "utf8_decode_nat [] = Some []"
| "utf8_decode_nat (a # s) =
     (if a < 128 then map_option ((#) a) (utf8_decode_nat s)
      else if a < 194 then None
      else if a < 224 then (case s of
          b # s' \<Rightarrow> if is_cont b then map_option ((#) ((a - 192) * 64 + (b - 128))) (utf8_decode_nat s') else None
        | _ \<Rightarrow> None)
      else if a < 240 then (case s of
          b # c # s' \<Rightarrow> (let cp = (a - 224) * 4096 + (b - 128) * 64 + (c - 128) in
            if is_cont b \<and> is_cont c \<and> 2048 \<le> cp \<and> is_scalar cp
            then map_option ((#) cp) (utf8_decode_nat s') else None)
        | _ \<Rightarrow> None)
      else if a < 245 then (case s of
          b # c # d # s' \<Rightarrow> (let cp = (a - 240) * 262144 + (b - 128) * 4096 + (c - 128) * 64 + (d - 128) in
            if is_cont b \<and> is_cont c \<and> is_cont d \<and> 65536 \<le> cp \<and> is_scalar cp
            then map_option ((#) cp) (utf8_decode_nat s') else None)
        | _ \<Rightarrow> None)
      else None)"

definition utf8_decode :: "bytes \<Rightarrow> nat list option" where
  "utf8_decode s = utf8_decode_nat (map of_char s)"

definition utf8_valid :: "bytes \<Rightarrow> bool" where
  "utf8_valid s \<longleftrightarrow> utf8_decode s \<noteq> None"

text \<open>\<open>String::from_utf16\<close> fails on an unpaired surrogate.\<close>

fun utf16_decode :: "nat list \<Rightarrow> nat list option" where
  "utf16_decode [] = Some []"
| "utf16_decode (u # us) =
     (if u < 55296 \<or> 57344 \<le> u then map_option ((#) u) (utf16_decode us)
      else if u < 56320 then (case us of
          v # us' \<Rightarrow> if 56320 \<le> v \<and> v < 57344
            then map_option ((#) (65536 + (u - 55296) * 1024 + (v - 56320))) (utf16_decode us') else None
        | [] \<Rightarrow> None)
      else None)"

definition utf16_char :: "nat \<Rightarrow> nat list" where
  "utf16_char cp = (if cp < 65536 then [cp] else [55296 + (cp - 65536) div 1024, 56320 + (cp - 65536) mod 1024])"

definition utf16_encode :: "nat list \<Rightarrow> nat list" where
  "utf16_encode cps = concat (map utf16_char cps)"

lemma of_char_small: "n < 256 \<Longrightarrow> (of_char (char_of n) :: nat) = n"
  by (simp add: take_bit_nat_eq_self)

lemma utf8_decode_char:
  assumes "is_scalar cp"
  shows "utf8_decode_nat (map of_char (utf8_char cp) @ s) = map_option ((#) cp) (utf8_decode_nat s)"
proof -
  consider "cp < 128" | "128 \<le> cp" "cp < 2048" | "2048 \<le> cp" "cp < 65536" | "65536 \<le> cp" "cp < 1114112"
    using assms unfolding is_scalar_def by linarith
  then show ?thesis
  proof cases
    case 1
    then show ?thesis by (simp add: utf8_char_def of_char_small)
  next
    case 2
    then have t: "(cp div 64 < 32) = True" "2 \<le> cp div 64" by auto
    moreover have "cp div 64 * 64 + cp mod 64 = cp" by simp
    moreover have "128 + cp mod 64 < 256" "is_cont (128 + cp mod 64)" by (auto simp: is_cont_def)
    ultimately show ?thesis using 2 by (simp add: utf8_char_def of_char_small t(1))
  next
    case 3
    let ?b = "128 + cp div 64 mod 64" and ?c = "128 + cp mod 64"
    have "224 + cp div 4096 < 256" "224 + cp div 4096 < 240" using 3 by auto
    moreover have "?b < 256" "?c < 256" "is_cont ?b" "is_cont ?c" by (auto simp: is_cont_def)
    moreover have "cp div 4096 * 4096 + cp div 64 mod 64 * 64 + cp mod 64 = cp"
    proof -
      have e: "cp div 4096 = cp div 64 div 64" by (simp add: div_mult2_eq [symmetric])
      show ?thesis
        unfolding e using div_mult_mod_eq [of "cp div 64" 64] div_mult_mod_eq [of cp 64] by linarith
    qed
    ultimately show ?thesis using 3 assms by (simp add: utf8_char_def of_char_small Let_def)
  next
    case 4
    let ?b = "128 + cp div 4096 mod 64" and ?c = "128 + cp div 64 mod 64" and ?d = "128 + cp mod 64"
    have "240 + cp div 262144 < 256" "240 + cp div 262144 < 245" using 4 by auto
    moreover have "?b < 256" "?c < 256" "?d < 256" "is_cont ?b" "is_cont ?c" "is_cont ?d" by (auto simp: is_cont_def)
    moreover have "cp div 262144 * 262144 + cp div 4096 mod 64 * 4096 + cp div 64 mod 64 * 64 + cp mod 64 = cp"
    proof -
      have e: "cp div 4096 = cp div 64 div 64" "cp div 262144 = cp div 64 div 64 div 64"
        by (simp_all add: div_mult2_eq [symmetric])
      show ?thesis
        unfolding e using div_mult_mod_eq [of "cp div 64 div 64" 64] div_mult_mod_eq [of "cp div 64" 64]
          div_mult_mod_eq [of cp 64] by linarith
    qed
    ultimately show ?thesis using 4 assms by (simp add: utf8_char_def of_char_small Let_def)
  qed
qed

lemma utf8_roundtrip: "\<forall>cp \<in> set cps. is_scalar cp \<Longrightarrow> utf8_decode (utf8_encode cps) = Some cps"
  unfolding utf8_decode_def
proof (induction cps)
  case (Cons cp cps)
  then show ?case using utf8_decode_char [of cp "map of_char (utf8_encode cps)"]
    by (simp add: utf8_encode_def)
qed (simp add: utf8_encode_def)

lemma utf16_decode_char:
  assumes "is_scalar cp"
  shows "utf16_decode (utf16_char cp @ us) = map_option ((#) cp) (utf16_decode us)"
proof (cases "cp < 65536")
  case True
  then show ?thesis using assms by (auto simp: utf16_char_def is_scalar_def)
next
  case False
  have d: "(cp - 65536) div 1024 < 1024" "(cp - 65536) mod 1024 < 1024"
    using assms False unfolding is_scalar_def by (linarith, simp)
  have "65536 + ((cp - 65536) div 1024 * 1024 + (cp - 65536) mod 1024) = cp"
    using False by simp
  then show ?thesis using False d by (simp add: utf16_char_def add.assoc)
qed

lemma utf16_roundtrip: "\<forall>cp \<in> set cps. is_scalar cp \<Longrightarrow> utf16_decode (utf16_encode cps) = Some cps"
proof (induction cps)
  case (Cons cp cps)
  then show ?case using utf16_decode_char [of cp "utf16_encode cps"] by (simp add: utf16_encode_def)
qed (simp add: utf16_encode_def)

text \<open>The other way round: what decodes is the encoding of what it decodes to.\<close>

lemma digits64:
  fixes a b c :: nat
  assumes "b < 64"
  shows "(a * 64 + b) div 64 = a" "(a * 64 + b) mod 64 = b"
  using assms by simp_all

lemma utf8_char2: "2 \<le> a \<Longrightarrow> a < 32 \<Longrightarrow> b < 64 \<Longrightarrow> utf8_char (a * 64 + b) = map char_of [192 + a, 128 + b]"
  using digits64 [of b a] by (simp add: utf8_char_def)

lemma utf8_char3:
  assumes "a < 16" "b < 64" "c < 64" "2048 \<le> a * 4096 + b * 64 + c"
  shows "utf8_char (a * 4096 + b * 64 + c) = map char_of [224 + a, 128 + b, 128 + c]"
proof -
  let ?cp = "(a * 64 + b) * 64 + c"
  have cp: "a * 4096 + b * 64 + c = ?cp" by simp
  have d: "?cp div 64 = a * 64 + b" "?cp mod 64 = c" by (rule digits64 [OF assms(3)])+
  have "?cp div 4096 = ?cp div 64 div 64" by (simp add: div_mult2_eq [symmetric])
  then have "?cp div 4096 = a" "?cp div 64 mod 64 = b" using digits64 [OF assms(2)] d by simp_all
  moreover have "?cp < 65536" using assms(1-3) by simp
  moreover have "\<not> ?cp < 2048" using assms(4) cp by simp
  ultimately show ?thesis unfolding cp using d(2) by (simp add: utf8_char_def del: distrib_right_numeral)
qed

lemma utf8_char4:
  assumes "a < 5" "b < 64" "c < 64" "d < 64" "65536 \<le> a * 262144 + b * 4096 + c * 64 + d"
  shows "utf8_char (a * 262144 + b * 4096 + c * 64 + d) = map char_of [240 + a, 128 + b, 128 + c, 128 + d]"
proof -
  let ?cp = "((a * 64 + b) * 64 + c) * 64 + d"
  have cp: "a * 262144 + b * 4096 + c * 64 + d = ?cp" by simp
  have e: "?cp div 64 = (a * 64 + b) * 64 + c" "?cp mod 64 = d" by (rule digits64 [OF assms(4)])+
  have "?cp div 4096 = ?cp div 64 div 64" "?cp div 262144 = ?cp div 64 div 64 div 64" by (simp_all add: div_mult2_eq [symmetric])
  then have "?cp div 262144 = a" "?cp div 4096 mod 64 = b" "?cp div 64 mod 64 = c"
    using digits64 [OF assms(2), of a] digits64 [OF assms(3), of "a * 64 + b"] e by simp_all
  moreover have "\<not> ?cp < 65536" using assms(5) cp by simp
  ultimately show ?thesis unfolding cp using e(2) by (simp add: utf8_char_def del: distrib_right_numeral)
qed

lemma utf8_nat_back:
  "utf8_decode_nat xs = Some cps \<Longrightarrow> utf8_encode cps = map char_of xs \<and> (\<forall>cp \<in> set cps. is_scalar cp) \<and> (0 \<in> set cps \<longrightarrow> 0 \<in> set xs)"
proof (induction xs arbitrary: cps rule: utf8_decode_nat.induct)
  case 1
  then show ?case by (simp add: utf8_encode_def)
next
  case (2 a s)
  have enc: "utf8_encode (cp # cs) = utf8_char cp @ utf8_encode cs" for cp cs by (simp add: utf8_encode_def)
  consider "a < 128" | "194 \<le> a" "a < 224" | "224 \<le> a" "a < 240" | "240 \<le> a" "a < 245"
    using "2.prems" by (auto split: if_splits)
  then show ?case
  proof cases
    case 1
    with "2.prems" obtain cs where c: "utf8_decode_nat s = Some cs" "cps = a # cs" by auto
    have "utf8_char a = [char_of a]" using 1 by (simp add: utf8_char_def)
    then show ?thesis using "2.IH"(1) [OF 1 c(1)] c(2) 1 by (auto simp: enc is_scalar_def)
  next
    case 2
    with "2.prems" obtain b s' cs where c: "s = b # s'" "is_cont b" "utf8_decode_nat s' = Some cs" "cps = ((a - 192) * 64 + (b - 128)) # cs"
      by (auto split: list.splits if_splits)
    have e: "utf8_char ((a - 192) * 64 + (b - 128)) = map char_of [a, b]"
    proof -
      have "2 \<le> a - 192" "a - 192 < 32" "b - 128 < 64" "192 + (a - 192) = a" "128 + (b - 128) = b"
        using 2 c(2) by (auto simp: is_cont_def)
      with utf8_char2 [OF this(1-3)] show ?thesis by simp
    qed
    have "is_scalar ((a - 192) * 64 + (b - 128)) \<and> (a - 192) * 64 + (b - 128) \<noteq> 0" using 2 c(2) by (auto simp: is_cont_def is_scalar_def)
    then show ?thesis using "2.IH"(2) [OF _ _ _ c(1,2,3)] 2 e c by (simp add: enc)
  next
    case 3
    with "2.prems" obtain b c' s' cs where c: "s = b # c' # s'" "is_cont b" "is_cont c'" "utf8_decode_nat s' = Some cs"
        "cps = ((a - 224) * 4096 + (b - 128) * 64 + (c' - 128)) # cs" "2048 \<le> (a - 224) * 4096 + (b - 128) * 64 + (c' - 128)"
        "is_scalar ((a - 224) * 4096 + (b - 128) * 64 + (c' - 128))"
      by (auto simp: Let_def split: list.splits if_splits)
    have e: "utf8_char ((a - 224) * 4096 + (b - 128) * 64 + (c' - 128)) = map char_of [a, b, c']"
    proof -
      have "a - 224 < 16" "b - 128 < 64" "c' - 128 < 64" "224 + (a - 224) = a" "128 + (b - 128) = b" "128 + (c' - 128) = c'"
        using 3 c(2,3) by (auto simp: is_cont_def)
      with utf8_char3 [OF this(1-3) c(6)] show ?thesis by simp
    qed
    then show ?thesis using "2.IH"(3) [OF _ _ _ _ c(1) refl refl _ c(4)] 3 c by (auto simp: enc)
  next
    case 4
    with "2.prems" obtain b c' d' s' cs where c: "s = b # c' # d' # s'" "is_cont b" "is_cont c'" "is_cont d'" "utf8_decode_nat s' = Some cs"
        "cps = ((a - 240) * 262144 + (b - 128) * 4096 + (c' - 128) * 64 + (d' - 128)) # cs"
        "65536 \<le> (a - 240) * 262144 + (b - 128) * 4096 + (c' - 128) * 64 + (d' - 128)"
        "is_scalar ((a - 240) * 262144 + (b - 128) * 4096 + (c' - 128) * 64 + (d' - 128))"
      by (auto simp: Let_def split: list.splits if_splits)
    have e: "utf8_char ((a - 240) * 262144 + (b - 128) * 4096 + (c' - 128) * 64 + (d' - 128)) = map char_of [a, b, c', d']"
    proof -
      have "a - 240 < 5" "b - 128 < 64" "c' - 128 < 64" "d' - 128 < 64" "240 + (a - 240) = a" "128 + (b - 128) = b"
        "128 + (c' - 128) = c'" "128 + (d' - 128) = d'"
        using 4 c(2,3,4) by (auto simp: is_cont_def)
      with utf8_char4 [OF this(1-4) c(7)] show ?thesis by simp
    qed
    then show ?thesis using "2.IH"(4) [OF _ _ _ _ _ c(1) refl refl refl _ c(5)] 4 c by (auto simp: enc)
  qed
qed

lemma utf8_back:
  assumes "utf8_decode s = Some cps"
  shows "utf8_encode cps = s" "\<forall>cp \<in> set cps. is_scalar cp" "CHR 0x00 \<notin> set s \<Longrightarrow> 0 \<notin> set cps"
proof -
  note b = utf8_nat_back [OF assms [unfolded utf8_decode_def]]
  show "utf8_encode cps = s" using b by (simp add: comp_def)
  show "\<forall>cp \<in> set cps. is_scalar cp" using b by blast
  have "c = CHR 0x00" if "of_char c = (0 :: nat)" for c
  proof -
    have "c = char_of (of_char c :: nat)" by simp
    also have "\<dots> = CHR 0x00" unfolding that by (simp add: char_of_def)
    finally show ?thesis .
  qed
  then show "CHR 0x00 \<notin> set s \<Longrightarrow> 0 \<notin> set cps" using b by fastforce
qed

text \<open>\<open>str::is_char_boundary\<close>\<close>

definition is_char_boundary :: "bytes \<Rightarrow> nat \<Rightarrow> bool" where
  "is_char_boundary s k \<longleftrightarrow> k = 0 \<or> k = length s \<or>
     k < length s \<and> \<not> is_cont (of_char (s ! k))"

definition ascii_lower :: "char \<Rightarrow> char" where
  "ascii_lower c = (if CHR ''A'' \<le> c \<and> c \<le> CHR ''Z'' then char_of (of_char c + (32 :: nat)) else c)"

definition to_ascii_lowercase :: "bytes \<Rightarrow> bytes" where
  "to_ascii_lowercase s = map ascii_lower s"

lemma ascii_lower_idem: "ascii_lower (ascii_lower c) = ascii_lower c"
proof (cases "CHR ''A'' \<le> c \<and> c \<le> CHR ''Z''")
  case True
  then have "65 \<le> (of_char c :: nat)" "(of_char c :: nat) \<le> 90" by (auto simp: less_eq_char_def)
  then have "\<not> char_of (of_char c + (32 :: nat)) \<le> CHR ''Z''"
    by (simp add: less_eq_char_def take_bit_nat_eq_self)
  with True show ?thesis by (simp add: ascii_lower_def)
qed (simp only: ascii_lower_def if_False)

lemma to_ascii_lowercase_idem: "to_ascii_lowercase (to_ascii_lowercase s) = to_ascii_lowercase s"
  by (simp add: to_ascii_lowercase_def ascii_lower_idem)

text \<open>\<open>lines()\<close>: without the line ends \<open>\n\<close> or \<open>\r\n\<close>; no empty line after the last line end.\<close>

definition strip_cr :: "bytes \<Rightarrow> bytes" where
  "strip_cr l = (if l \<noteq> [] \<and> last l = CHR 0x0D then butlast l else l)"

definition lines :: "bytes \<Rightarrow> bytes list" where
  "lines s = (let ps = split_on (CHR 0x0A) s in
     map strip_cr (butlast ps) @ (if last ps = [] then [] else [last ps]))"

lemma lines_append_line:
  assumes "CHR 0x0A \<notin> set l" "l = [] \<or> last l \<noteq> CHR 0x0D"
  shows "lines (l @ CHR 0x0A # s) = l # lines s"
proof -
  have "strip_cr l = l" using assms(2) by (auto simp: strip_cr_def)
  then show ?thesis by (simp add: lines_def split_on_append [OF assms(1)] Let_def)
qed

lemma lines_Nil [simp]: "lines [] = []"
  by (simp add: lines_def)

lemma lines_concat:
  "\<forall>l \<in> set ls. CHR 0x0A \<notin> set l \<and> (l = [] \<or> last l \<noteq> CHR 0x0D) \<Longrightarrow>
   lines (concat (map (\<lambda>l. l @ [CHR 0x0A]) ls)) = ls"
  by (induction ls) (simp_all add: lines_append_line)

text \<open>\<open>[&str]::join\<close>\<close>

fun join :: "bytes \<Rightarrow> bytes list \<Rightarrow> bytes" where
  "join sep [] = []"
| "join sep [l] = l"
| "join sep (l # ls) = l @ sep @ join sep ls"

end
