(* ===== verification/MemFsPath.thy ===== *)
theory MemFsPath
  imports MemFsSafety RustStr
begin

text \<open>
  The path helpers of \<open>mem.rs\<close>: resolution of absolute paths with symbolic links, and the
  path-keyed operations \<open>read_path\<close>, \<open>write_path\<close> and \<open>mkdir_p\<close>.
\<close>

section \<open>Definitions\<close>

definition MAX_SYMLINK_HOPS :: nat where "MAX_SYMLINK_HOPS = 40"

definition split_path :: "bytes \<Rightarrow> bytes list" where
  "split_path path = filter (\<lambda>c. c \<noteq> []) (split_on (CHR ''/'') path)"

definition join_comps :: "bytes list \<Rightarrow> bytes" where
  "join_comps cs = concat (map (\<lambda>c. CHR ''/'' # c) cs)"

definition prefix_path :: "bytes \<Rightarrow> nat \<Rightarrow> bytes" where
  "prefix_path path i = (if i = 0 then [] else join_comps (take i (split_path path)))"

definition is_absolute :: "bytes \<Rightarrow> bool" where
  "is_absolute path \<longleftrightarrow> (case path of [] \<Rightarrow> False | c # _ \<Rightarrow> c = CHR ''/'')"

definition split_parent :: "bytes \<Rightarrow> (bytes \<times> bytes, errno) result" where
  "split_parent path =
     (if \<not> is_absolute path then Err Inval
      else let comps = split_path path in
        if comps = [] then Err Inval
        else Ok (join_comps (take (length comps - 1) comps), last comps))"

definition step :: "fs \<Rightarrow> ino \<Rightarrow> bytes \<Rightarrow> (ino, errno) result" where
  "step s cur part =
     (if part = ''.'' then Ok cur
      else if part = ''..'' then res_bind (get s cur) (\<lambda>node. Ok (parent_or_root node))
      else res_bind (get s cur) (\<lambda>node. case i_body node of
          Dir entries \<Rightarrow> ok_or (om_lookup entries part) NoEnt
        | Symlink _ \<Rightarrow> Err NotDir
        | File _ \<Rightarrow> Err NotDir))"

text \<open>The termination measure: symlink depth left, then the position in the loops.\<close>

definition resolve_rank ::
    "fs \<times> bytes \<times> bool \<times> nat + fs \<times> bytes \<times> bool \<times> nat \<times> nat \<times> bytes list \<times> ino
     + fs \<times> bytes \<times> nat \<times> nat \<times> nat \<times> ino \<Rightarrow> nat \<times> nat \<times> nat" where
  "resolve_rank x = (case x of
     Inl (s, path, fo, depth) \<Rightarrow> (MAX_SYMLINK_HOPS + 1 - depth, 2, 0)
   | Inr (Inl (s, path, fo, depth, i, comps, cur)) \<Rightarrow> (MAX_SYMLINK_HOPS + 1 - depth, 1, length comps)
   | Inr (Inr (s, path, depth, i, hops, cur)) \<Rightarrow> (MAX_SYMLINK_HOPS + 1 - depth, 0, MAX_SYMLINK_HOPS + 1 - hops))"

text \<open>
  \<open>resolve_inner\<close>, its loop over the components (\<open>i\<close> is the index of the next one) and the
  inner loop that follows symbolic links, which calls \<open>resolve_inner\<close> again.
\<close>

function resolve_inner :: "fs \<Rightarrow> bytes \<Rightarrow> bool \<Rightarrow> nat \<Rightarrow> (ino, errno) result"
  and resolve_comps :: "fs \<Rightarrow> bytes \<Rightarrow> bool \<Rightarrow> nat \<Rightarrow> nat \<Rightarrow> bytes list \<Rightarrow> ino \<Rightarrow> (ino, errno) result"
  and chase :: "fs \<Rightarrow> bytes \<Rightarrow> nat \<Rightarrow> nat \<Rightarrow> nat \<Rightarrow> ino \<Rightarrow> (ino, errno) result" where
  "resolve_inner s path follow_final depth =
     (if MAX_SYMLINK_HOPS < depth then Err Io
      else if \<not> is_absolute path then Err Inval
      else resolve_comps s path follow_final depth 0 (split_path path) ROOT_INO)"
| "resolve_comps s path follow_final depth i [] cur = Ok cur"
| "resolve_comps s path follow_final depth i (part # comps) cur =
     res_bind (step s cur part) (\<lambda>cur.
     res_bind (if comps \<noteq> [] \<or> follow_final then chase s path depth i 0 cur else Ok cur) (\<lambda>cur.
     resolve_comps s path follow_final depth (Suc i) comps cur))"
| "chase s path depth i hops cur =
     res_bind (get s cur) (\<lambda>node. case i_body node of
       Symlink target \<Rightarrow>
         (if MAX_SYMLINK_HOPS < Suc hops \<or> MAX_SYMLINK_HOPS < depth + Suc hops then Err Io
          else res_bind (resolve_inner s
             (if is_absolute target then target
              else prefix_path path i @ CHR ''/'' # target)
             True (depth + Suc hops)) (\<lambda>cur.
           chase s path depth i (Suc hops) cur))
     | Dir _ \<Rightarrow> Ok cur
     | File _ \<Rightarrow> Ok cur)"
  by pat_completeness auto

termination
  by (relation "inv_image (less_than <*lex*> less_than <*lex*> less_than) resolve_rank")
     (auto simp: resolve_rank_def)

definition resolve :: "fs \<Rightarrow> bytes \<Rightarrow> (ino, errno) result" where
  "resolve s path = resolve_inner s path False 0"

definition resolve_follow :: "fs \<Rightarrow> bytes \<Rightarrow> (ino, errno) result" where
  "resolve_follow s path = resolve_inner s path True 0"

definition read_path :: "fs \<Rightarrow> bytes \<Rightarrow> (bytes, errno) result" where
  "read_path s path =
     res_bind (resolve_follow s path) (\<lambda>i.
     res_bind (getattr s i) (\<lambda>a.
     read s i 0 (ucast (a_size a))))"

text \<open>
  \<open>write_path\<close> samples the clock in \<open>truncate\<close> or \<open>create\<close> (\<open>now1\<close>) and in \<open>write\<close> (\<open>now2\<close>).
\<close>

definition write_path :: "bytes \<Rightarrow> bytes \<Rightarrow> timespec \<Rightarrow> timespec \<Rightarrow> unit fs_prog" where
  "write_path path data now1 now2 =
     and_then (query (\<lambda>_. split_parent path)) (\<lambda>(parent_path, name).
     and_then (query (\<lambda>s. if parent_path = [] then Ok ROOT_INO else resolve_follow s parent_path)) (\<lambda>parent.
     and_then (\<lambda>s. case lookup s parent name of
         Ok a \<Rightarrow> (if a_kind a = KDirectory then (Err IsDir, s)
           else and_then (truncate_file (a_ino a) 0 now1) (\<lambda>_. ret (a_ino a)) s)
       | Err e \<Rightarrow> (if e = NoEnt then and_then (create parent name MODE_644 now1) (\<lambda>a. ret (a_ino a)) s
           else (Err e, s))
       | Panic \<Rightarrow> (Panic, s)) (\<lambda>i.
     if data \<noteq> [] then and_then (write_bytes i 0 data now2) (\<lambda>_. ret ()) else ret ())))"

text \<open>The loop of \<open>mkdir_p\<close>; each call of \<open>mkdir\<close> takes the next sample of the clock.\<close>

fun mkdir_p_loop :: "bytes list \<Rightarrow> u16 \<Rightarrow> (nat \<Rightarrow> timespec) \<Rightarrow> nat \<Rightarrow> ino \<Rightarrow> unit fs_prog" where
  "mkdir_p_loop [] mode clock k cur s = (Ok (), s)"
| "mkdir_p_loop (part # comps) mode clock k cur s =
     (if part = ''.'' then mkdir_p_loop comps mode clock k cur s
      else if part = ''..'' then
        (case get s cur of
           Ok n \<Rightarrow> mkdir_p_loop comps mode clock k (parent_or_root n) s
         | Err e \<Rightarrow> (Err e, s)
         | Panic \<Rightarrow> (Panic, s))
      else (case lookup s cur part of
          Ok a \<Rightarrow> (if a_kind a \<noteq> KDirectory then (Err NotDir, s)
            else mkdir_p_loop comps mode clock k (a_ino a) s)
        | Err e \<Rightarrow> (if e = NoEnt then
              (case mkdir cur part mode (clock k) s of
                 (Ok a, s') \<Rightarrow> mkdir_p_loop comps mode clock (Suc k) (a_ino a) s'
               | (Err e, s') \<Rightarrow> (Err e, s')
               | (Panic, s') \<Rightarrow> (Panic, s'))
            else (Err e, s))
        | Panic \<Rightarrow> (Panic, s)))"

definition mkdir_p :: "bytes \<Rightarrow> u16 \<Rightarrow> (nat \<Rightarrow> timespec) \<Rightarrow> unit fs_prog" where
  "mkdir_p path mode clock s =
     (if \<not> is_absolute path then (Err Inval, s)
      else mkdir_p_loop (split_path path) mode clock 0 ROOT_INO s)"

section \<open>Paths and components\<close>

definition good_comp :: "bytes \<Rightarrow> bool" where
  "good_comp c \<longleftrightarrow> c \<noteq> [] \<and> CHR ''/'' \<notin> set c"

lemma split_path_good: "\<forall>c \<in> set (split_path path). good_comp c"
  by (auto simp: split_path_def good_comp_def dest: split_on_no_sep)

lemma split_on_join:
  "\<forall>c \<in> set cs. good_comp c \<Longrightarrow> c0 = CHR ''/'' \<Longrightarrow>
   split_on c0 (join_comps cs) = (if cs = [] then [[]] else [] # cs)"
proof (induction cs)
  case (Cons c cs)
  have c: "CHR ''/'' \<notin> set c" using Cons.prems by (simp add: good_comp_def)
  show ?case
  proof (cases cs)
    case Nil
    then show ?thesis using c Cons.prems by (simp add: join_comps_def split_on_plain)
  next
    case (Cons c' cs')
    have "split_on (CHR ''/'') (c @ join_comps cs) = c # cs"
    proof -
      have "join_comps cs = CHR ''/'' # (c' @ join_comps cs')" by (simp add: Cons join_comps_def)
      moreover have "split_on (CHR ''/'') (join_comps cs) = [] # cs"
        using Cons.IH Cons.prems Cons by simp
      ultimately show ?thesis using split_on_append [OF c] by simp
    qed
    then show ?thesis using Cons.prems by (simp add: join_comps_def)
  qed
qed (simp add: join_comps_def)

lemma split_path_join: "\<forall>c \<in> set cs. good_comp c \<Longrightarrow> split_path (join_comps cs) = cs"
  using split_on_join [of cs "CHR ''/''"]
  by (auto simp: split_path_def good_comp_def filter_id_conv)

lemma join_comps_Nil_iff [simp]: "join_comps cs = [] \<longleftrightarrow> cs = []"
  by (cases cs) (simp_all add: join_comps_def)

lemma join_comps_absolute: "cs \<noteq> [] \<Longrightarrow> is_absolute (join_comps cs)"
  by (cases cs) (simp_all add: join_comps_def is_absolute_def)

section \<open>What a resolved path names\<close>

definition is_symlink :: "fs \<Rightarrow> ino \<Rightarrow> bool" where
  "is_symlink s i \<longleftrightarrow> (\<exists>n. om_lookup (inodes s) i = Some n \<and> is_Symlink (i_body n))"

lemma root_node: "fs_wf s \<Longrightarrow> \<exists>n e. om_lookup (inodes s) ROOT_INO = Some n \<and> i_body n = Dir e"
  using tree_root [of "tree_of s"] isdir_node [of s ROOT_INO] by (auto simp: fs_wf_def t_isdir_def)

lemma step_exists:
  assumes wf: "fs_wf s" and cur: "om_lookup (inodes s) cur \<noteq> None" and run: "step s cur c = Ok j"
  shows "om_lookup (inodes s) j \<noteq> None"
proof -
  have ok: "tree_ok (tree_of s)" using wf by (simp add: fs_wf_def)
  obtain n where n: "om_lookup (inodes s) cur = Some n" using cur by auto
  consider "j = cur" | "j = parent_or_root n" | e where "i_body n = Dir e" "om_lookup e c = Some j"
    using run n by (auto simp: step_def get_def split: if_splits body.splits)
  then show ?thesis
  proof cases
    case 1
    with cur show ?thesis by simp
  next
    case 2
    show ?thesis
    proof (cases "i_body n")
      case (Dir e)
      from tree_parent_isdir [OF ok dir_tnode [OF n this]] show ?thesis
        by (auto simp: isdir_node 2)
    qed (use wf_node_ok [OF wf n] root_node [OF wf] 2 in \<open>auto simp: node_ok_def parent_or_root_def\<close>)
  next
    case 3
    then have "t_ent (tree_of s) (cur, c) = Some j" using n by (auto simp: tree_of_def ent_mtree)
    from tree_ent_target [OF ok this] show ?thesis by (simp add: node_lookup)
  qed
qed

lemma resolve_sound:
  assumes wf: "fs_wf s0"
  shows "resolve_inner s path fo depth = Ok j \<Longrightarrow> s = s0 \<Longrightarrow>
      om_lookup (inodes s) j \<noteq> None \<and> (fo \<longrightarrow> \<not> is_symlink s j)"
    and "resolve_comps s path fo depth i cs cur = Ok j \<Longrightarrow> s = s0 \<Longrightarrow> om_lookup (inodes s) cur \<noteq> None \<Longrightarrow>
      om_lookup (inodes s) j \<noteq> None \<and> (fo \<and> (cs \<noteq> [] \<or> \<not> is_symlink s cur) \<longrightarrow> \<not> is_symlink s j)"
    and "chase s path depth i hops cur = Ok j \<Longrightarrow> s = s0 \<Longrightarrow>
      om_lookup (inodes s) j \<noteq> None \<and> \<not> is_symlink s j"
proof (induction s path fo depth and s path fo depth i cs cur and s path depth i hops cur
    arbitrary: j and j and j rule: resolve_inner_resolve_comps_chase.induct)
  case (1 s path fo depth)
  have r: "om_lookup (inodes s) ROOT_INO \<noteq> None" "\<not> is_symlink s ROOT_INO"
    using root_node [OF wf] 1(3) by (auto simp: is_symlink_def)
  from 1(2) have "\<not> MAX_SYMLINK_HOPS < depth" "is_absolute path"
    and "resolve_comps s path fo depth 0 (split_path path) ROOT_INO = Ok j"
    by (auto split: if_splits)
  from 1(1) [OF this(1) _ this(3) 1(3) r(1)] this(2) r(2) show ?case by simp
next
  case (2 s path fo depth i cur)
  then show ?case by simp
next
  case (3 s path fo depth i c cs cur)
  from 3(3) obtain k l where k: "step s cur c = Ok k"
    and l: "(if cs \<noteq> [] \<or> fo then chase s path depth i 0 k else Ok k) = Ok l"
    and j: "resolve_comps s path fo depth (Suc i) cs l = Ok j" by auto
  have ek: "om_lookup (inodes s) k \<noteq> None" using step_exists [OF wf _ ] k 3(4,5) by auto
  have el: "om_lookup (inodes s) l \<noteq> None \<and> (fo \<longrightarrow> \<not> is_symlink s l)"
  proof (cases "cs \<noteq> [] \<or> fo")
    case True
    then show ?thesis using 3(1) [OF True] l 3(4) by simp
  next
    case False
    then show ?thesis using l ek by simp
  qed
  from 3(2) [OF j 3(4)] el show ?case by auto
next
  case (4 s path depth i hops cur)
  from 4(3) obtain n where n: "om_lookup (inodes s) cur = Some n" by (auto simp: get_Ok)
  show ?case
  proof (cases "i_body n")
    case (Symlink tgt)
    with 4(3) n obtain k where bound: "\<not> (MAX_SYMLINK_HOPS < Suc hops \<or> MAX_SYMLINK_HOPS < depth + Suc hops)"
      and j: "chase s path depth i (Suc hops) k = Ok j"
      by (auto simp: get_def split: if_splits)
    from 4(2) [OF Symlink bound j 4(4)] show ?thesis .
  qed (use 4(3) n in \<open>auto simp: get_def is_symlink_def\<close>)
qed

text \<open>A resolution fails only with one of four errors, and it never panics.\<close>

lemma step_err:
  "step s cur c \<noteq> Panic" "step s cur c = Err e \<Longrightarrow> e = NoEnt \<or> e = NotDir"
  by (cases "om_lookup (inodes s) cur"; cases "i_body (the (om_lookup (inodes s) cur))";
      auto simp: step_def get_def split: if_splits)+

lemma resolve_err:
  shows "resolve_inner s path fo depth \<noteq> Panic \<and>
      (\<forall>e. resolve_inner s path fo depth = Err e \<longrightarrow> e \<in> {Io, Inval, NoEnt, NotDir})"
    and "resolve_comps s path fo depth i cs cur \<noteq> Panic \<and>
      (\<forall>e. resolve_comps s path fo depth i cs cur = Err e \<longrightarrow> e \<in> {Io, Inval, NoEnt, NotDir})"
    and "chase s path depth i hops cur \<noteq> Panic \<and>
      (\<forall>e. chase s path depth i hops cur = Err e \<longrightarrow> e \<in> {Io, Inval, NoEnt, NotDir})"
proof (induction s path fo depth and s path fo depth i cs cur and s path depth i hops cur
    rule: resolve_inner_resolve_comps_chase.induct)
  case (1 s path fo depth)
  then show ?case by auto
next
  case (2 s path fo depth i cur)
  then show ?case by simp
next
  case (3 s path fo depth i c cs cur)
  then show ?case
    using step_err [of s cur c]
    by (cases "cs \<noteq> [] \<or> fo") (auto simp: res_bind_eq_Panic res_bind_eq_Err simp del: chase.simps)
next
  case (4 s path depth i hops cur)
  show ?case
  proof (cases "om_lookup (inodes s) cur")
    case (Some n)
    then show ?thesis
    proof (cases "i_body n")
      case (Symlink tgt)
      show ?thesis
      proof (cases "MAX_SYMLINK_HOPS < Suc hops \<or> MAX_SYMLINK_HOPS < depth + Suc hops")
        case True
        then show ?thesis using Some Symlink by (auto simp: get_def)
      next
        case False
        from 4(1) [OF Symlink False] 4(2) [OF Symlink False] show ?thesis
          using Some Symlink False by (auto simp: get_def res_bind_eq_Panic res_bind_eq_Err)
      qed
    qed (auto simp: get_def)
  qed (simp add: get_def)
qed

section \<open>Resolution without symbolic links is the walk down the tree\<close>

definition t_step :: "tree \<Rightarrow> ino \<Rightarrow> bytes \<Rightarrow> ino option" where
  "t_step t cur c = (if c = ''.'' then Some cur
     else if c = ''..'' then (case t_node t cur of
         Some (TDir p) \<Rightarrow> Some p | Some _ \<Rightarrow> Some ROOT_INO | None \<Rightarrow> None)
     else t_ent t (cur, c))"

definition t_symlink :: "tree \<Rightarrow> ino \<Rightarrow> bool" where
  "t_symlink t i \<longleftrightarrow> (\<exists>x. t_node t i = Some (TSymlink x))"

text \<open>The walk stops at a symbolic link that is not the last component.\<close>

fun t_walk :: "tree \<Rightarrow> ino \<Rightarrow> bytes list \<Rightarrow> ino option" where
  "t_walk t cur [] = Some cur"
| "t_walk t cur (c # cs) = (case t_step t cur c of
     None \<Rightarrow> None
   | Some d \<Rightarrow> if cs \<noteq> [] \<and> t_symlink t d then None else t_walk t d cs)"

lemma step_tree:
  assumes "fs_wf s"
  shows "step s cur c = Ok j \<longleftrightarrow> t_step (tree_of s) cur c = Some j"
proof (cases "om_lookup (inodes s) cur")
  case (Some n)
  then have node: "t_node (tree_of s) cur = Some (tnode_of n)" by (simp add: tree_of_def mtree_sel)
  have ent: "t_ent (tree_of s) (cur, c) = node_entries n c" using Some by (simp add: tree_of_def mtree_sel)
  show ?thesis
    using Some node ent wf_node_ok [OF assms Some]
    by (cases "i_body n")
       (auto simp: step_def t_step_def get_def tnode_of_def node_entries_def parent_or_root_def node_ok_def)
qed (auto simp: step_def t_step_def get_def tree_of_def mtree_sel)

lemma chase_plain: "om_lookup (inodes s) cur \<noteq> None \<Longrightarrow> \<not> is_symlink s cur \<Longrightarrow> chase s path depth i hops cur = Ok cur"
  by (cases "i_body (the (om_lookup (inodes s) cur))") (auto simp: is_symlink_def get_def)

lemma t_symlink_iff: "t_symlink (tree_of s) i \<longleftrightarrow> is_symlink s i"
proof (cases "om_lookup (inodes s) i")
  case (Some n)
  then show ?thesis
    by (cases "i_body n") (simp_all add: t_symlink_def is_symlink_def tree_of_def mtree_sel tnode_of_def)
qed (simp add: t_symlink_def is_symlink_def tree_of_def mtree_sel)

lemma resolve_comps_walk:
  assumes wf: "fs_wf s"
  shows "om_lookup (inodes s) cur \<noteq> None \<Longrightarrow> t_walk (tree_of s) cur cs = Some j \<Longrightarrow>
    resolve_comps s path False depth i cs cur = Ok j"
proof (induction cs arbitrary: cur i)
  case (Cons c cs)
  from Cons.prems(2) obtain d where d: "step s cur c = Ok d" and nosym: "cs \<noteq> [] \<Longrightarrow> \<not> is_symlink s d"
    and w: "t_walk (tree_of s) d cs = Some j"
    by (auto simp: step_tree [OF wf] t_symlink_iff split: option.splits if_splits)
  have e: "om_lookup (inodes s) d \<noteq> None" by (rule step_exists [OF wf Cons.prems(1) d])
  have "(if cs \<noteq> [] \<or> False then chase s path depth i 0 d else Ok d) = Ok d"
    using chase_plain [OF e nosym] by auto
  then show ?case using Cons.IH [OF e w] d by simp
qed simp

lemma resolve_walk:
  assumes wf: "fs_wf s" and abs: "is_absolute path"
    and walk: "t_walk (tree_of s) ROOT_INO (split_path path) = Some j"
  shows "resolve s path = Ok j"
proof -
  have "om_lookup (inodes s) ROOT_INO \<noteq> None" using root_node [OF wf] by auto
  from resolve_comps_walk [OF wf this walk] show ?thesis
    by (simp add: resolve_def abs)
qed

text \<open>
  The walk with its errors, as \<open>resolve\<close> has them when no link has to be followed: a name that
  is missing in a directory, and a name looked up in what is not a directory. \<open>t_plain\<close> says that
  no link has to be followed: none stands before the last component, nor, when the last one is
  followed too, at the end.
\<close>

fun t_path :: "tree \<Rightarrow> ino \<Rightarrow> bytes list \<Rightarrow> (ino, errno) result" where
  "t_path t cur [] = Ok cur"
| "t_path t cur (c # cs) = (case t_step t cur c of
     Some d \<Rightarrow> t_path t d cs
   | None \<Rightarrow> Err (if t_isdir t cur then NoEnt else NotDir))"

fun t_plain :: "bool \<Rightarrow> tree \<Rightarrow> ino \<Rightarrow> bytes list \<Rightarrow> bool" where
  "t_plain follow_final t cur [] = True"
| "t_plain follow_final t cur (c # cs) = (case t_step t cur c of
     Some d \<Rightarrow> (cs = [] \<and> \<not> follow_final \<or> \<not> t_symlink t d) \<and> t_plain follow_final t d cs
   | None \<Rightarrow> True)"

lemma step_refused:
  assumes "fs_wf s" "om_lookup (inodes s) cur \<noteq> None" "t_step (tree_of s) cur c = None"
  shows "step s cur c = Err (if t_isdir (tree_of s) cur then NoEnt else NotDir)"
proof -
  obtain n where n: "om_lookup (inodes s) cur = Some n" using assms(2) by auto
  then have node: "t_node (tree_of s) cur = Some (tnode_of n)" "t_ent (tree_of s) (cur, c) = node_entries n c"
    by (simp_all add: tree_of_def mtree_sel)
  show ?thesis using n node assms(3)
    by (cases "i_body n")
       (auto simp: step_def t_step_def get_def tnode_of_def node_entries_def isdir_node split: if_splits)
qed

lemma resolve_comps_path:
  assumes wf: "fs_wf s"
  shows "om_lookup (inodes s) cur \<noteq> None \<Longrightarrow> t_plain fo (tree_of s) cur cs \<Longrightarrow>
    resolve_comps s path fo depth i cs cur = t_path (tree_of s) cur cs"
proof (induction cs arbitrary: cur i)
  case (Cons c cs)
  show ?case
  proof (cases "t_step (tree_of s) cur c")
    case None
    then show ?thesis using step_refused [OF wf Cons.prems(1) None] by simp
  next
    case (Some d)
    then have d: "step s cur c = Ok d" by (simp add: step_tree [OF wf])
    have e: "om_lookup (inodes s) d \<noteq> None" by (rule step_exists [OF wf Cons.prems(1) d])
    have "chase s path depth i 0 d = Ok d" if "cs \<noteq> [] \<or> fo"
      using chase_plain [OF e] Cons.prems(2) Some that by (auto simp: t_symlink_iff simp del: chase.simps)
    then have "(if cs \<noteq> [] \<or> fo then chase s path depth i 0 d else Ok d) = Ok d" by simp
    then show ?thesis using Cons.IH [OF e] Cons.prems(2) Some d by (simp del: chase.simps)
  qed
qed simp

lemma resolve_inner_path:
  assumes wf: "fs_wf s" and plain: "t_plain fo (tree_of s) ROOT_INO (split_path path)"
  shows "resolve_inner s path fo 0 = (if is_absolute path then t_path (tree_of s) ROOT_INO (split_path path) else Err Inval)"
proof -
  have "om_lookup (inodes s) ROOT_INO \<noteq> None" using root_node [OF wf] by auto
  from resolve_comps_path [OF wf this plain] show ?thesis by simp
qed

section \<open>Growing the filesystem keeps resolutions\<close>

definition extends :: "fs \<Rightarrow> fs \<Rightarrow> bool" where
  "extends s s' \<longleftrightarrow>
     (\<forall>cur c j. step s cur c = Ok j \<longrightarrow> step s' cur c = Ok j) \<and>
     (\<forall>i n. om_lookup (inodes s) i = Some n \<longrightarrow> (\<exists>n'. om_lookup (inodes s') i = Some n' \<and>
        (if is_Symlink (i_body n) then i_body n' = i_body n else \<not> is_Symlink (i_body n'))))"

lemma extends_step: "extends s s' \<Longrightarrow> step s cur c = Ok j \<Longrightarrow> step s' cur c = Ok j"
  by (simp add: extends_def)

lemma resolve_mono:
  assumes ext: "extends s0 s'"
  shows "resolve_inner s path fo depth = Ok j \<Longrightarrow> s = s0 \<Longrightarrow> resolve_inner s' path fo depth = Ok j"
    and "resolve_comps s path fo depth i cs cur = Ok j \<Longrightarrow> s = s0 \<Longrightarrow> resolve_comps s' path fo depth i cs cur = Ok j"
    and "chase s path depth i hops cur = Ok j \<Longrightarrow> s = s0 \<Longrightarrow> chase s' path depth i hops cur = Ok j"
proof (induction s path fo depth and s path fo depth i cs cur and s path depth i hops cur
    arbitrary: j and j and j rule: resolve_inner_resolve_comps_chase.induct)
  case (1 s path fo depth)
  then show ?case by (auto split: if_splits)
next
  case (2 s path fo depth i cur)
  then show ?case by simp
next
  case (3 s path fo depth i c cs cur)
  from 3(3) obtain k l where k: "step s cur c = Ok k"
    and l: "(if cs \<noteq> [] \<or> fo then chase s path depth i 0 k else Ok k) = Ok l"
    and j: "resolve_comps s path fo depth (Suc i) cs l = Ok j" by auto
  have k': "step s' cur c = Ok k" using extends_step [OF ext] k 3(4) by simp
  have l': "(if cs \<noteq> [] \<or> fo then chase s' path depth i 0 k else Ok k) = Ok l"
    using 3(1) [OF _ _ 3(4)] l by (auto split: if_splits)
  from k' l' 3(2) [OF j 3(4)] show ?case by simp
next
  case (4 s path depth i hops cur)
  from 4(3) obtain n where n: "om_lookup (inodes s) cur = Some n" by (auto simp: get_Ok)
  from ext n 4(4) obtain n' where n': "om_lookup (inodes s') cur = Some n'"
    and b: "if is_Symlink (i_body n) then i_body n' = i_body n else \<not> is_Symlink (i_body n')"
    unfolding extends_def by blast
  show ?case
  proof (cases "i_body n")
    case (Symlink tgt)
    with 4(3) n obtain k where bound: "\<not> (MAX_SYMLINK_HOPS < Suc hops \<or> MAX_SYMLINK_HOPS < depth + Suc hops)"
      and k: "resolve_inner s (if is_absolute tgt then tgt
              else prefix_path path i @ CHR ''/'' # tgt) True (depth + Suc hops) = Ok k"
      and j: "chase s path depth i (Suc hops) k = Ok j"
      by (auto simp: get_def split: if_splits)
    from 4(1) [OF Symlink bound k 4(4)] 4(2) [OF Symlink bound j 4(4)] show ?thesis
      using n' b Symlink bound by (simp add: get_def)
  next
    case (File c)
    then show ?thesis using 4(3) n n' b by (cases "i_body n'") (simp_all add: get_def)
  next
    case (Dir e)
    then show ?thesis using 4(3) n n' b by (cases "i_body n'") (simp_all add: get_def)
  qed
qed

definition t_grows :: "tree \<Rightarrow> tree \<Rightarrow> bool" where
  "t_grows t t' \<longleftrightarrow> (\<forall>x j. t_ent t x = Some j \<longrightarrow> t_ent t' x = Some j) \<and>
     (\<forall>i nd. t_node t i = Some nd \<longrightarrow> (\<exists>nd'. t_node t' i = Some nd' \<and>
        (nd' = nd \<or> (\<exists>c c'. nd = TFile c \<and> nd' = TFile c'))))"

lemma t_step_grows: "t_grows t t' \<Longrightarrow> t_step t cur c = Some j \<Longrightarrow> t_step t' cur c = Some j"
proof -
  assume g: "t_grows t t'" and s: "t_step t cur c = Some j"
  consider "c = ''.''" | "c = ''..''" | "c \<noteq> ''.''" "c \<noteq> ''..''" by blast
  then show ?thesis
  proof cases
    case 2
    with s obtain nd where nd: "t_node t cur = Some nd" by (auto simp: t_step_def split: option.splits)
    with g obtain nd' where "t_node t' cur = Some nd'" "nd' = nd \<or> (\<exists>c c'. nd = TFile c \<and> nd' = TFile c')"
      unfolding t_grows_def by blast
    with s nd 2 show ?thesis by (auto simp: t_step_def)
  qed (use g s in \<open>auto simp: t_step_def t_grows_def\<close>)
qed

lemma tnode_symlink: "tnode_of n = TSymlink x \<longleftrightarrow> i_body n = Symlink x"
  by (simp add: tnode_of_def split: body.split)

lemma extends_tree:
  assumes wf: "fs_wf s" "fs_wf s'" and grows: "t_grows (tree_of s) (tree_of s')"
  shows "extends s s'"
  unfolding extends_def
proof (intro conjI allI impI)
  fix cur c j
  assume "step s cur c = Ok j"
  then show "step s' cur c = Ok j"
    unfolding step_tree [OF wf(1)] step_tree [OF wf(2)] by (rule t_step_grows [OF grows])
next
  fix i n
  assume n: "om_lookup (inodes s) i = Some n"
  then have "t_node (tree_of s) i = Some (tnode_of n)" by (simp add: tree_of_def mtree_sel)
  with grows obtain nd' where nd: "t_node (tree_of s') i = Some nd'"
    "nd' = tnode_of n \<or> (\<exists>c c'. tnode_of n = TFile c \<and> nd' = TFile c')"
    unfolding t_grows_def by blast
  then obtain n' where n': "om_lookup (inodes s') i = Some n'" "nd' = tnode_of n'"
    by (auto simp: tree_of_def mtree_sel)
  have "if is_Symlink (i_body n) then i_body n' = i_body n else \<not> is_Symlink (i_body n')"
    using nd(2) unfolding n'(2)
    by (cases "i_body n"; cases "i_body n'") (auto simp: tnode_of_def)
  with n' show "\<exists>n'. om_lookup (inodes s') i = Some n' \<and>
      (if is_Symlink (i_body n) then i_body n' = i_body n else \<not> is_Symlink (i_body n'))" by blast
qed

lemma t_grows_set_file: "t_node t i = Some (TFile c) \<Longrightarrow> t_grows t (t_set t i (TFile c'))"
  by (simp add: t_grows_def)

lemma t_grows_add: "t_node t i = None \<Longrightarrow> t_ent t (p, nm) = None \<Longrightarrow> t_grows t (t_put (t_set t i nd) p nm i)"
  by (auto simp: t_grows_def)

lemma t_grows_trans: "t_grows t t' \<Longrightarrow> t_grows t' t'' \<Longrightarrow> t_grows t t''"
proof -
  assume g: "t_grows t t'" and h: "t_grows t' t''"
  have "\<exists>nd'. t_node t'' i = Some nd' \<and> (nd' = nd \<or> (\<exists>c c'. nd = TFile c \<and> nd' = TFile c'))"
    if "t_node t i = Some nd" for i nd
  proof -
    from g that obtain n1 where n1: "t_node t' i = Some n1" "n1 = nd \<or> (\<exists>c c'. nd = TFile c \<and> n1 = TFile c')"
      unfolding t_grows_def by blast
    with h obtain n2 where "t_node t'' i = Some n2" "n2 = n1 \<or> (\<exists>c c'. n1 = TFile c \<and> n2 = TFile c')"
      unfolding t_grows_def by blast
    with n1 show ?thesis by auto
  qed
  with g h show "t_grows t t''" unfolding t_grows_def by simp
qed

section \<open>Resolution component by component\<close>

lemma chase_path_cong:
  "prefix_path path i = prefix_path path' i \<Longrightarrow> chase s path depth i hops cur = chase s path' depth i hops cur"
proof (induction "MAX_SYMLINK_HOPS + 1 - hops" arbitrary: hops cur rule: less_induct)
  case less
  show ?case
  proof (cases "om_lookup (inodes s) cur")
    case (Some n)
    show ?thesis
    proof (cases "i_body n")
      case (Symlink tgt)
      have "chase s path depth i (Suc hops) = chase s path' depth i (Suc hops)"
        if "\<not> MAX_SYMLINK_HOPS < Suc hops"
        by (rule ext, rule less.hyps) (use less.prems that in simp_all)
      then show ?thesis using Some Symlink less.prems
        unfolding chase.simps [of s path depth i hops cur] chase.simps [of s path' depth i hops cur]
        by (auto simp: get_def simp del: chase.simps)
    qed (use Some in \<open>simp_all add: get_def\<close>)
  qed (simp add: get_def)
qed

lemma resolve_comps_path_cong:
  "(\<And>k. i \<le> k \<Longrightarrow> k < i + length cs \<Longrightarrow> prefix_path path k = prefix_path path' k) \<Longrightarrow>
   resolve_comps s path fo depth i cs cur = resolve_comps s path' fo depth i cs cur"
proof (induction cs arbitrary: i cur)
  case (Cons c cs)
  have "prefix_path path i = prefix_path path' i" using Cons.prems [of i] by simp
  then have "chase s path depth i 0 = chase s path' depth i 0" by (intro ext chase_path_cong)
  moreover have "resolve_comps s path fo depth (Suc i) cs = resolve_comps s path' fo depth (Suc i) cs"
    by (rule ext, rule Cons.IH) (use Cons.prems in simp)
  ultimately show ?case by (cases "cs = [] \<longrightarrow> fo") (simp_all del: chase.simps)
qed simp

lemma res_bind_assoc: "res_bind (res_bind r f) g = res_bind r (\<lambda>x. res_bind (f x) g)"
  by (cases r) simp_all

lemma resolve_comps_snoc:
  "resolve_comps s path fo depth i (cs @ [c]) cur =
     res_bind (resolve_comps s path True depth i cs cur) (\<lambda>cur.
     resolve_comps s path fo depth (i + length cs) [c] cur)"
proof (induction cs arbitrary: i cur)
  case (Cons a cs)
  have "resolve_comps s path fo depth (Suc i) (cs @ [c]) = (\<lambda>cur.
     res_bind (resolve_comps s path True depth (Suc i) cs cur) (\<lambda>cur.
     resolve_comps s path fo depth (Suc i + length cs) [c] cur))"
    by (rule ext) (rule Cons.IH)
  then show ?case by (simp add: res_bind_assoc del: chase.simps)
qed simp

lemma resolve_split:
  assumes abs: "is_absolute path" and comps: "split_path path = cs @ [nm]"
  shows "resolve_follow s path =
    res_bind (if cs = [] then Ok ROOT_INO else resolve_follow s (join_comps cs)) (\<lambda>parent.
    res_bind (step s parent nm) (\<lambda>cur. chase s path 0 (length cs) 0 cur))"
proof -
  have good: "\<forall>c \<in> set cs. good_comp c" using split_path_good [of path] comps by simp
  have same: "resolve_comps s path True 0 0 cs ROOT_INO = resolve_comps s (join_comps cs) True 0 0 cs ROOT_INO"
    by (rule resolve_comps_path_cong) (use comps split_path_join [OF good] in \<open>simp add: prefix_path_def\<close>)
  have "(if cs = [] then Ok ROOT_INO else resolve_follow s (join_comps cs)) =
      resolve_comps s path True 0 0 cs ROOT_INO"
    using join_comps_absolute [of cs] split_path_join [OF good]
    by (auto simp: resolve_follow_def same simp del: chase.simps)
  moreover have "resolve_comps s path True 0 (0 + length cs) [nm] cur =
      res_bind (step s cur nm) (\<lambda>cur. chase s path 0 (length cs) 0 cur)" for cur
  proof -
    have "res_bind r Ok = r" for r :: "(ino, errno) result" by (cases r) simp_all
    moreover have "resolve_comps s path True 0 (Suc (length cs)) [] = Ok" by (rule ext) simp
    ultimately show ?thesis by (simp del: chase.simps)
  qed
  ultimately show ?thesis
    using abs resolve_comps_snoc [of s path True 0 0 cs nm ROOT_INO]
    by (simp add: resolve_follow_def comps del: chase.simps)
qed

lemma split_parent_Ok:
  "split_parent path = Ok (pp, nm) \<longleftrightarrow> is_absolute path \<and>
     (\<exists>cs. split_path path = cs @ [nm] \<and> pp = join_comps cs)"
proof (cases "split_path path" rule: rev_cases)
  case (snoc cs c)
  then show ?thesis by (auto simp: split_parent_def Let_def)
qed (simp add: split_parent_def)

section \<open>Path-keyed operations\<close>

lemma valid_not_dots: "validate_name nm = Ok () \<Longrightarrow> nm \<noteq> ''.'' \<and> nm \<noteq> ''..'' \<and> nm \<noteq> []"
  by (auto simp: validate_name_def split: if_splits)

lemma lookup_Ok:
  assumes "fs_wf s"
  shows "lookup s p nm = Ok a \<longleftrightarrow> validate_name nm = Ok () \<and>
    (\<exists>i n. t_ent (tree_of s) (p, nm) = Some i \<and> om_lookup (inodes s) i = Some n \<and> a = i_attr n \<and> a_ino a = i)"
proof -
  have ino: "a_ino (i_attr n) = i" if "om_lookup (inodes s) i = Some n" for i n
    using wf_node_ok [OF assms that] by (simp add: node_ok_def)
  have "lookup s p nm = Ok a \<longleftrightarrow> validate_name nm = Ok () \<and>
    (\<exists>i n. t_ent (tree_of s) (p, nm) = Some i \<and> om_lookup (inodes s) i = Some n \<and> a = i_attr n)"
    by (auto simp: lookup_def getattr_def get_Ok entries_of_Ok tree_of_def ent_mtree)
  then show ?thesis using ino by auto
qed

lemma lookup_NoEnt: "lookup s p nm = Err NoEnt \<Longrightarrow> validate_name nm = Ok ()"
  by (auto simp: lookup_def res_bind_eq_Err validate_name_def split: if_splits)

text \<open>
  The file a successful \<open>write_path\<close> writes to: it exists afterwards under the resolved parent,
  empty, in a state that only grew.
\<close>

lemma write_path_target:
  assumes wf: "fs_wf s"
    and run: "(case lookup s parent nm of
         Ok a \<Rightarrow> (if a_kind a = KDirectory then (Err IsDir, s)
           else and_then (truncate_file (a_ino a) 0 now1) (\<lambda>_. ret (a_ino a)) s)
       | Err e \<Rightarrow> (if e = NoEnt then and_then (create parent nm MODE_644 now1) (\<lambda>a. ret (a_ino a)) s
           else (Err e, s))
       | Panic \<Rightarrow> (Panic, s)) = (Ok i, s1)"
  shows "fs_wf s1 \<and> t_grows (tree_of s) (tree_of s1) \<and> t_node (tree_of s1) i = Some (TFile []) \<and>
    t_ent (tree_of s1) (parent, nm) = Some i \<and> validate_name nm = Ok () \<and> bytes_limit s1 = bytes_limit s"
proof (cases "lookup s parent nm")
  case (Ok a)
  then obtain n where v: "validate_name nm = Ok ()" and ent: "t_ent (tree_of s) (parent, nm) = Some (a_ino a)"
    using lookup_Ok [OF wf] by auto
  from run Ok have tr: "truncate_file (a_ino a) 0 now1 s = (Ok (), s1)" and i: "i = a_ino a"
    by (auto simp: and_then_Ok split: if_splits)
  note w = truncate_wf [OF wf tr]
  from w(5) obtain c where c: "t_node (tree_of s) (a_ino a) = Some (TFile c)"
    and t1: "tree_of s1 = t_set (tree_of s) (a_ino a) (TFile [])" by (auto simp: resized_def)
  show ?thesis using w(1,4) v ent by (simp add: t1 i t_grows_set_file [OF c])
next
  case (Err e)
  with run have cr: "\<exists>a. create parent nm MODE_644 now1 s = (Ok a, s1) \<and> i = a_ino a"
    by (auto simp: and_then_Ok split: if_splits)
  then obtain a where cr: "create parent nm MODE_644 now1 s = (Ok a, s1)" and i: "i = a_ino a" by blast
  note w = create_run [OF wf cr]
  have fresh: "t_node (tree_of s) (Ino (next_ino s)) = None" by (rule fresh_node [OF wf])
  have "a_ino a = Ino (next_ino s)"
  proof -
    from cr have g: "getattr s1 (Ino (next_ino s)) = Ok a"
      by (auto simp: create_def and_then_Ok alloc_ino_Ok put_node_run)
    then obtain n1 where "om_lookup (inodes s1) (Ino (next_ino s)) = Some n1" "i_attr n1 = a"
      by (auto simp: getattr_def get_Ok)
    then show ?thesis using wf_node_ok [OF w(1)] by (auto simp: node_ok_def)
  qed
  with w fresh show ?thesis by (simp add: i t_grows_add)
next
  case Panic
  with run show ?thesis by simp
qed

lemma node_file:
  "t_node (tree_of s) i = Some (TFile c) \<longleftrightarrow> (\<exists>n. om_lookup (inodes s) i = Some n \<and> i_body n = File c)"
proof -
  have "tnode_of n = TFile c \<longleftrightarrow> i_body n = File c" for n by (simp add: tnode_of_def split: body.split)
  then show ?thesis by (auto simp: tree_of_def mtree_sel)
qed

lemma write_path_run:
  assumes wf: "fs_wf s" and len: "int (length data) \<le> isize_max"
    and run: "write_path path data now1 now2 s = (Ok (), s')"
  shows "fs_wf s' \<and> (\<exists>i cs nm. split_path path = cs @ [nm] \<and> is_absolute path \<and>
    t_node (tree_of s') i = Some (TFile data) \<and> t_grows (tree_of s) (tree_of s') \<and> resolve_follow s' path = Ok i)"
proof -
  from run obtain pp nm parent i s1 where sp: "split_parent path = Ok (pp, nm)"
    and parent: "(if pp = [] then Ok ROOT_INO else resolve_follow s pp) = Ok parent"
    and tgt: "(case lookup s parent nm of
         Ok a \<Rightarrow> (if a_kind a = KDirectory then (Err IsDir, s)
           else and_then (truncate_file (a_ino a) 0 now1) (\<lambda>_. ret (a_ino a)) s)
       | Err e \<Rightarrow> (if e = NoEnt then and_then (create parent nm MODE_644 now1) (\<lambda>a. ret (a_ino a)) s
           else (Err e, s))
       | Panic \<Rightarrow> (Panic, s)) = (Ok i, s1)"
    and wr: "(if data \<noteq> [] then and_then (write_bytes i 0 data now2) (\<lambda>_. ret ()) else ret ()) s1 = (Ok (), s')"
    unfolding write_path_def by (auto simp: and_then_Ok simp del: if_split)
  from sp obtain cs where abs: "is_absolute path" and cs: "split_path path = cs @ [nm]" and pp: "pp = join_comps cs"
    by (auto simp: split_parent_Ok)
  from write_path_target [OF wf tgt] have wf1: "fs_wf s1" and g1: "t_grows (tree_of s) (tree_of s1)"
    and f1: "t_node (tree_of s1) i = Some (TFile [])" and e1: "t_ent (tree_of s1) (parent, nm) = Some i"
    and v: "validate_name nm = Ok ()" by blast+
  have s': "fs_wf s' \<and> t_node (tree_of s') i = Some (TFile data) \<and> t_grows (tree_of s1) (tree_of s') \<and>
      t_ent (tree_of s') (parent, nm) = Some i"
  proof (cases "data = []")
    case True
    then show ?thesis using wr wf1 f1 e1 by (simp add: t_grows_def)
  next
    case False
    with wr obtain r where "write_bytes i 0 data now2 s1 = (Ok r, s')" by (auto simp: and_then_Ok)
    note w = write_wf [OF wf1 len this]
    from w(5) f1 have "tree_of s' = t_set (tree_of s1) i (TFile (overwrite [] 0 data))" by auto
    then have t: "tree_of s' = t_set (tree_of s1) i (TFile data)" by (simp add: overwrite_def)
    then show ?thesis using w(1) e1 t_grows_set_file [OF f1] by simp
  qed
  then have grows: "t_grows (tree_of s) (tree_of s')" and wf': "fs_wf s'" using t_grows_trans [OF g1] by blast+
  have ext: "extends s s'" by (rule extends_tree [OF wf wf' grows])
  have parent': "(if cs = [] then Ok ROOT_INO else resolve_follow s' (join_comps cs)) = Ok parent"
    using parent resolve_mono(1) [OF ext] by (auto simp: pp resolve_follow_def simp del: resolve_inner.simps split: if_splits)
  have "step s' parent nm = Ok i"
    unfolding step_tree [OF wf'] using s' valid_not_dots [OF v] by (simp add: t_step_def)
  moreover have "chase s' path 0 (length cs) 0 i = Ok i"
    by (rule chase_plain) (use s' in \<open>auto simp: node_file is_symlink_def\<close>)
  ultimately have "resolve_follow s' path = Ok i"
    by (simp add: resolve_split [OF abs cs] parent' del: chase.simps)
  with s' grows abs cs show ?thesis by blast
qed

lemma read_path_file:
  assumes wf: "fs_wf s" and r: "resolve_follow s path = Ok i" and f: "t_node (tree_of s) i = Some (TFile c)"
  shows "read_path s path = Ok (take (length c mod 2 ^ 32) c)"
proof -
  from f obtain n where n: "om_lookup (inodes s) i = Some n" "i_body n = File c" by (auto simp: node_file)
  have "unat (ucast (a_size (i_attr n)) :: u32) = length c mod 2 ^ 32"
    using file_facts(1) [OF wf n] by (simp add: unsigned_ucast_eq take_bit_eq_mod)
  then show ?thesis
    using n by (simp add: read_path_def r getattr_def get_def read_spec [OF wf n])
qed

lemma t_grows_refl: "t_grows t t"
  by (simp add: t_grows_def)

lemma t_grows_dir: "t_grows t t' \<Longrightarrow> t_isdir t i \<Longrightarrow> t_isdir t' i"
  by (fastforce simp: t_grows_def t_isdir_def)

lemma t_walk_step: "t_step t cur c = Some d \<Longrightarrow> t_isdir t d \<Longrightarrow> t_walk t cur (c # cs) = t_walk t d cs"
  by (auto simp: t_isdir_def t_symlink_def)

lemma kind_dir:
  assumes "fs_wf s" "om_lookup (inodes s) i = Some n"
  shows "a_kind (i_attr n) = KDirectory \<longleftrightarrow> t_isdir (tree_of s) i"
  using wf_node_ok [OF assms] assms(2)
  by (cases "i_body n") (auto simp: node_ok_def isdir_node)

lemma mkdir_new_dir:
  assumes wf: "fs_wf s" and run: "mkdir p nm mode now s = (Ok a, s')"
  shows "a_ino a = Ino (next_ino s)"
proof -
  from run have "getattr s' (Ino (next_ino s)) = Ok a"
    by (auto simp: mkdir_def and_then_Ok alloc_ino_Ok put_node_run)
  then obtain n1 where "om_lookup (inodes s') (Ino (next_ino s)) = Some n1" "i_attr n1 = a"
    by (auto simp: getattr_def get_Ok)
  then show ?thesis using wf_node_ok [OF mkdir_wf [OF wf run]] by (auto simp: node_ok_def)
qed

lemma mkdir_p_loop_run:
  "fs_wf s \<Longrightarrow> t_isdir (tree_of s) cur \<Longrightarrow> mkdir_p_loop comps mode clock k cur s = (Ok (), s') \<Longrightarrow>
   fs_wf s' \<and> t_grows (tree_of s) (tree_of s') \<and>
   (\<exists>d. t_walk (tree_of s') cur comps = Some d \<and> t_isdir (tree_of s') d)"
proof (induction comps arbitrary: k cur s)
  case Nil
  then show ?case by (simp add: t_grows_refl)
next
  case (Cons c cs)
  have ok: "tree_ok (tree_of s)" using Cons.prems(1) by (simp add: fs_wf_def)
  text \<open>The next directory, in a state that has grown; the rest of the loop continues there.\<close>
  obtain s1 d k1 where wf1: "fs_wf s1" and g1: "t_grows (tree_of s) (tree_of s1)"
    and st: "t_step (tree_of s1) cur c = Some d" and dir: "t_isdir (tree_of s1) d"
    and rest: "mkdir_p_loop cs mode clock k1 d s1 = (Ok (), s')"
  proof (cases "c = ''.''")
    case True
    with Cons.prems that [OF Cons.prems(1) t_grows_refl] show thesis by (simp add: t_step_def)
  next
    case no1: False
    show thesis
    proof (cases "c = ''..''")
      case True
      from Cons.prems(2) obtain n e where n: "om_lookup (inodes s) cur = Some n" "i_body n = Dir e"
        by (auto simp: isdir_node)
      have "t_step (tree_of s) cur c = Some (parent_or_root n)"
        using True dir_tnode [OF n] by (simp add: t_step_def)
      moreover have "t_isdir (tree_of s) (parent_or_root n)" by (rule tree_parent_isdir [OF ok dir_tnode [OF n]])
      moreover have "mkdir_p_loop cs mode clock k (parent_or_root n) s = (Ok (), s')"
        using Cons.prems(3) True n by (simp add: get_def)
      ultimately show thesis by (rule that [OF Cons.prems(1) t_grows_refl])
    next
      case no2: False
      show thesis
      proof (cases "lookup s cur c")
        case (Ok a)
        then obtain n where ent: "t_ent (tree_of s) (cur, c) = Some (a_ino a)"
          and n: "om_lookup (inodes s) (a_ino a) = Some n" "a = i_attr n"
          using lookup_Ok [OF Cons.prems(1)] by auto
        from Ok Cons.prems(3) no1 no2 have "a_kind a = KDirectory"
          and r: "mkdir_p_loop cs mode clock k (a_ino a) s = (Ok (), s')" by (auto split: if_splits)
        then have "t_isdir (tree_of s) (a_ino a)" using kind_dir [OF Cons.prems(1) n(1)] n(2) by simp
        moreover have "t_step (tree_of s) cur c = Some (a_ino a)" using no1 no2 ent by (simp add: t_step_def)
        ultimately show thesis using r by (intro that [OF Cons.prems(1) t_grows_refl])
      next
        case (Err e)
        with Cons.prems(3) no1 no2 obtain a s1 where mk: "mkdir cur c mode (clock k) s = (Ok a, s1)"
          and r: "mkdir_p_loop cs mode clock (Suc k) (a_ino a) s1 = (Ok (), s')"
          by (auto split: if_splits prod.splits result.splits)
        note w = mkdir_run [OF Cons.prems(1) mk]
        have g: "t_grows (tree_of s) (tree_of s1)"
          unfolding w(2) by (rule t_grows_add [OF fresh_node [OF Cons.prems(1)] w(4)])
        show thesis
          by (rule that [OF w(1) g _ _ r])
             (use no1 no2 in \<open>simp_all add: w(2) t_step_def t_isdir_def mkdir_new_dir [OF Cons.prems(1) mk]\<close>)
      next
        case Panic
        with Cons.prems(3) no1 no2 show thesis by simp
      qed
    qed
  qed
  from Cons.IH [OF wf1 dir rest] obtain e where wf': "fs_wf s'" and g: "t_grows (tree_of s1) (tree_of s')"
    and w: "t_walk (tree_of s') d cs = Some e" "t_isdir (tree_of s') e" by blast
  have "t_walk (tree_of s') cur (c # cs) = Some e"
    using t_walk_step [OF t_step_grows [OF g st] t_grows_dir [OF g dir]] w(1) by simp
  with wf' t_grows_trans [OF g1 g] w(2) show ?case by blast
qed

lemma mkdir_p_run:
  assumes wf: "fs_wf s" and run: "mkdir_p path mode clock s = (Ok (), s')"
  shows "fs_wf s'" "t_grows (tree_of s) (tree_of s')"
    "\<exists>d. resolve s' path = Ok d \<and> t_isdir (tree_of s') d"
proof -
  from run have abs: "is_absolute path"
    and loop: "mkdir_p_loop (split_path path) mode clock 0 ROOT_INO s = (Ok (), s')"
    by (auto simp: mkdir_p_def split: if_splits)
  have "t_isdir (tree_of s) ROOT_INO" using root_node [OF wf] by (simp add: isdir_node)
  from mkdir_p_loop_run [OF wf this loop] obtain d where *: "fs_wf s'" "t_grows (tree_of s) (tree_of s')"
    and w: "t_walk (tree_of s') ROOT_INO (split_path path) = Some d" "t_isdir (tree_of s') d" by blast
  show "fs_wf s'" "t_grows (tree_of s) (tree_of s')" by (fact *)+
  show "\<exists>d. resolve s' path = Ok d \<and> t_isdir (tree_of s') d"
    using resolve_walk [OF *(1) abs w(1)] w(2) by blast
qed

end
