(* ===== verification/MemFsSnapshot.thy ===== *)
theory MemFsSnapshot
  imports MemFsSafety
begin

text \<open>
  Snapshots of the filesystem (\<open>to_snapshot\<close>, \<open>from_snapshot\<close>, \<open>serialize\<close>, \<open>deserialize\<close> in
  \<open>mem.rs\<close>). A snapshot does not store parent pointers: \<open>from_snapshot\<close> reconstructs them from
  the directory entries, and the round-trip theorem shows that for a well-formed filesystem the
  reconstruction is exact. The bincode encoding is a parameter.
\<close>

section \<open>Definitions\<close>

type_synonym u8 = "8 word"

datatype snapshot_body = SFile bytes | SDirectory "(bytes \<times> u64) list" | SSymlink bytes

record snapshot_inode =
  sn_attr :: inode_attr
  sn_body :: snapshot_body

record snapshot =
  sn_version :: u8
  sn_next_ino :: u64
  sn_bytes_used :: u64
  sn_bytes_limit :: u64
  sn_inodes :: "(u64, snapshot_inode) omap"

definition SNAPSHOT_MAGIC :: bytes where "SNAPSHOT_MAGIC = ''DDWS'' @ [CHR 0x00, CHR 0x01]"
definition SNAPSHOT_VERSION :: u8 where "SNAPSHOT_VERSION = 1"

definition snapshot_body_of :: "body \<Rightarrow> snapshot_body" where
  "snapshot_body_of b = (case b of
     File c \<Rightarrow> SFile c
   | Dir e \<Rightarrow> SDirectory (map (\<lambda>(n, i). (n, raw i)) (om_entries e))
   | Symlink t \<Rightarrow> SSymlink t)"

definition to_snapshot :: "fs \<Rightarrow> snapshot" where
  "to_snapshot s = \<lparr>
     sn_version = SNAPSHOT_VERSION,
     sn_next_ino = next_ino s,
     sn_bytes_used = bytes_used s,
     sn_bytes_limit = bytes_limit s,
     sn_inodes = om_of_list (map (\<lambda>(i, node). (raw i,
        \<lparr>sn_attr = i_attr node, sn_body = snapshot_body_of (i_body node)\<rparr>)) (om_entries (inodes s)))\<rparr>"

definition body_of_snapshot :: "snapshot_body \<Rightarrow> body" where
  "body_of_snapshot b = (case b of
     SFile c \<Rightarrow> File c
   | SDirectory es \<Rightarrow> Dir (om_of_list (map (\<lambda>(n, i). (n, Ino i)) es))
   | SSymlink t \<Rightarrow> Symlink t)"

definition snapshot_nodes :: "snapshot \<Rightarrow> (ino, inode) omap" where
  "snapshot_nodes snap = om_of_list (map (\<lambda>(r, sn). (Ino r,
     \<lparr>i_attr = sn_attr sn, i_body = body_of_snapshot (sn_body sn), i_parent = None\<rparr>))
     (om_entries (sn_inodes snap)))"

text \<open>The children of a directory that are directories, each with the directory.\<close>

definition dir_fixups :: "(ino, inode) omap \<Rightarrow> ino \<times> inode \<Rightarrow> (ino \<times> ino) list" where
  "dir_fixups M dn = (case dn of (d, node) \<Rightarrow> (case i_body node of
     Dir entries \<Rightarrow> map (\<lambda>(n, child). (child, d))
       (filter (\<lambda>(n, child). case om_lookup M child of
          Some c \<Rightarrow> is_Dir (i_body c) | None \<Rightarrow> False) (om_entries entries))
   | _ \<Rightarrow> []))"

definition parent_fixups :: "(ino, inode) omap \<Rightarrow> (ino \<times> ino) list" where
  "parent_fixups M = concat (map (dir_fixups M) (om_entries M))"

definition fixup :: "ino \<times> ino \<Rightarrow> (ino, inode) omap \<Rightarrow> (ino, inode) omap" where
  "fixup cp M = (case om_lookup M (fst cp) of
     None \<Rightarrow> M
   | Some n \<Rightarrow> om_insert (fst cp) (n\<lparr>i_parent := Some (snd cp)\<rparr>) M)"

definition from_snapshot :: "snapshot \<Rightarrow> (fs, errno) result" where
  "from_snapshot snap =
     (if sn_version snap \<noteq> SNAPSHOT_VERSION then Err Inval
      else let M = snapshot_nodes snap in
        (case om_lookup M ROOT_INO of
           None \<Rightarrow> Err Inval
         | Some r \<Rightarrow>
           (let M = om_insert ROOT_INO (r\<lparr>i_parent := Some ROOT_INO\<rparr>) M in
            Ok \<lparr>inodes = fold fixup (parent_fixups M) M, next_ino = sn_next_ino snap,
                bytes_used = sn_bytes_used snap, bytes_limit = sn_bytes_limit snap\<rparr>)))"

definition serialize :: "(snapshot \<Rightarrow> bytes) \<Rightarrow> fs \<Rightarrow> bytes" where
  "serialize enc s = SNAPSHOT_MAGIC @ enc (to_snapshot s)"

definition deserialize :: "(bytes \<Rightarrow> snapshot option) \<Rightarrow> bytes \<Rightarrow> (fs, errno) result" where
  "deserialize dec data =
     (if length data < length SNAPSHOT_MAGIC then Err Inval
      else if take (length SNAPSHOT_MAGIC) data \<noteq> SNAPSHOT_MAGIC then Err Inval
      else res_bind (ok_or (dec (drop (length SNAPSHOT_MAGIC) data)) Io) from_snapshot)"

section \<open>Maps through a change of keys\<close>

lemma om_lookup_map_keys:
  assumes "inj f"
  shows "om_lookup (om_of_list (map (\<lambda>(k, v). (f k, g v)) (om_entries m))) (f k) = map_option g (om_lookup m k)"
proof -
  let ?xs = "map (\<lambda>(k, v). (f k, g v)) (om_entries m)"
  have "map fst ?xs = map f (map fst (om_entries m))" by (simp add: case_prod_beta)
  then have "distinct (map fst ?xs)"
    using assms by (metis distinct_map inj_on_subset om_entries_distinct subset_UNIV)
  then have "om_lookup (om_of_list ?xs) (f k) = map_of ?xs (f k)"
    by (simp add: om_lookup_of_list map_of_rev_distinct)
  also have "map_of (map (\<lambda>(k, v). (f k, g v)) xs) (f k) = map_option g (map_of xs k)" for xs
    by (induction xs) (auto dest: injD [OF assms])
  finally show ?thesis by (simp add: om_lookup_entries)
qed

section \<open>The round trip\<close>

lemma raw_Ino_pair: "(\<lambda>(n, i). (n, Ino i)) \<circ> (\<lambda>(n, i). (n, raw i)) = id"
  by (rule ext) auto

lemma body_roundtrip [simp]: "body_of_snapshot (snapshot_body_of b) = b"
  by (simp add: body_of_snapshot_def snapshot_body_of_def raw_Ino_pair split: body.split)

definition orphan :: "inode \<Rightarrow> inode" where
  "orphan n = n\<lparr>i_parent := None\<rparr>"

lemma orphan_restore: "i_parent n = Some p \<Longrightarrow> (orphan n)\<lparr>i_parent := Some p\<rparr> = n"
  by (cases n) (simp add: orphan_def)

lemma orphan_leaf: "i_parent n = None \<Longrightarrow> orphan n = n"
  by (cases n) (simp add: orphan_def)

lemma snapshot_nodes_lookup: "om_lookup (snapshot_nodes (to_snapshot s)) i = map_option orphan (om_lookup (inodes s) i)"
proof -
  have inj: "inj Ino" "inj raw" by (auto simp: inj_def intro: ino.expand)
  let ?g = "\<lambda>node. \<lparr>sn_attr = i_attr node, sn_body = snapshot_body_of (i_body node)\<rparr>"
  let ?h = "\<lambda>sn. \<lparr>i_attr = sn_attr sn, i_body = body_of_snapshot (sn_body sn), i_parent = None\<rparr>"
  have "om_lookup (snapshot_nodes (to_snapshot s)) (Ino (raw i)) =
      map_option ?h (om_lookup (sn_inodes (to_snapshot s)) (raw i))"
    unfolding snapshot_nodes_def by (rule om_lookup_map_keys [OF inj(1)])
  also have "om_lookup (sn_inodes (to_snapshot s)) (raw i) = map_option ?g (om_lookup (inodes s) i)"
    using om_lookup_map_keys [OF inj(2), of ?g "inodes s" i] by (simp add: to_snapshot_def)
  finally have "om_lookup (snapshot_nodes (to_snapshot s)) i = map_option ?h (map_option ?g (om_lookup (inodes s) i))"
    by simp
  moreover have "?h (?g n) = orphan n" for n :: inode
    by (cases n) (simp add: orphan_def)
  ultimately show ?thesis by (cases "om_lookup (inodes s) i") simp_all
qed

lemma fold_fixup:
  "om_lookup (fold fixup fx M) i = (case om_lookup M i of
     None \<Rightarrow> None
   | Some n \<Rightarrow> Some (case map_of (rev fx) i of None \<Rightarrow> n | Some p \<Rightarrow> n\<lparr>i_parent := Some p\<rparr>))"
proof (induction fx arbitrary: M)
  case (Cons cp fx)
  obtain c p where cp: "cp = (c, p)" by (cases cp)
  have "om_lookup (fixup cp M) j = (case om_lookup M j of None \<Rightarrow> None
     | Some n \<Rightarrow> Some (if j = c then n\<lparr>i_parent := Some p\<rparr> else n))" for j
    by (auto simp: fixup_def cp split: option.splits)
  then show ?case using Cons.IH [of "fixup cp M"] cp
    by (auto simp: map_add_def split: option.splits)
qed (auto split: option.splits)

lemma parent_fixups_mem:
  "(c, d) \<in> set (parent_fixups M) \<longleftrightarrow> (\<exists>nm. t_ent (mtree M) (d, nm) = Some c) \<and> m_isdir M c"
proof -
  have mem: "(c, d) \<in> set (dir_fixups M (d', n)) \<longleftrightarrow>
      d' = d \<and> (\<exists>e nm. i_body n = Dir e \<and> om_lookup e nm = Some c) \<and> m_isdir M c" for d' n
  proof (cases "i_body n")
    case (Dir e)
    have "(c, d) \<in> set (dir_fixups M (d', n)) \<longleftrightarrow>
      (\<exists>nm. (nm, c) \<in> set (om_entries e) \<and> d' = d \<and>
         (case om_lookup M c of Some c \<Rightarrow> is_Dir (i_body c) | None \<Rightarrow> False))"
      by (force simp: dir_fixups_def Dir)
    then show ?thesis
      by (auto simp: om_entries_mem Dir m_isdir_def split: option.splits)
  qed (simp_all add: dir_fixups_def)
  have all: "(c, d) \<in> set (parent_fixups M) \<longleftrightarrow>
      (\<exists>d' n. om_lookup M d' = Some n \<and> (c, d) \<in> set (dir_fixups M (d', n)))"
    by (auto simp: parent_fixups_def om_entries_mem [symmetric])
  show ?thesis unfolding all mem ent_mtree by blast
qed

lemma map_of_functional:
  assumes "\<And>v. (k, v) \<in> set xs \<Longrightarrow> v = w"
  shows "map_of xs k = (if (\<exists>v. (k, v) \<in> set xs) then Some w else None)"
  using assms
proof (cases "map_of xs k")
  case None
  then show ?thesis by (auto simp: map_of_eq_None_iff image_iff)
next
  case (Some v)
  then have "(k, v) \<in> set xs" by (rule map_of_SomeD)
  with assms Some show ?thesis by auto
qed

lemma snapshot_roundtrip_wf:
  assumes wf: "fs_wf s"
  shows "from_snapshot (to_snapshot s) = Ok s"
proof -
  have ok: "tree_ok (mtree (inodes s))" using wf_tree [OF wf] .
  let ?N = "snapshot_nodes (to_snapshot s)"
  obtain r where r: "om_lookup (inodes s) ROOT_INO = Some r" and rp: "tnode_of r = TDir ROOT_INO"
    using tree_root [OF ok] by (auto simp: mtree_sel)
  then have rdir: "is_Dir (i_body r)" and rpar: "i_parent r = Some ROOT_INO"
    using wf_node_ok [OF wf r] by (auto simp: tnode_of_def node_ok_def parent_or_root_def split: body.splits)
  let ?M = "om_insert ROOT_INO ((orphan r)\<lparr>i_parent := Some ROOT_INO\<rparr>) ?N"
  have rr: "(orphan r)\<lparr>i_parent := Some ROOT_INO\<rparr> = r"
    using rpar by (cases r) (simp add: orphan_def)
  have look: "om_lookup ?M i = (if i = ROOT_INO then Some r else map_option orphan (om_lookup (inodes s) i))" for i
    by (simp add: snapshot_nodes_lookup rr)
  let ?fx = "parent_fixups ?M"
  have body: "om_lookup ?M i = map_option (\<lambda>n. if i = ROOT_INO then n else orphan n) (om_lookup (inodes s) i)" for i
    unfolding look by (simp add: r)
  have ent: "t_ent (mtree ?M) = t_ent (mtree (inodes s))" and isdir: "m_isdir ?M i = m_isdir (inodes s) i" for i
  proof -
    show "t_ent (mtree ?M) = t_ent (mtree (inodes s))"
    proof (rule ext)
      fix x :: "ino \<times> bytes"
      obtain p nm where x: "x = (p, nm)" by (cases x)
      show "t_ent (mtree ?M) x = t_ent (mtree (inodes s)) x"
        unfolding x mtree_sel body
        by (cases "om_lookup (inodes s) p") (simp_all add: node_entries_def orphan_def)
    qed
    show "m_isdir ?M i = m_isdir (inodes s) i"
      unfolding m_isdir_def body
      by (cases "om_lookup (inodes s) i") (simp_all add: orphan_def)
  qed
  have fx: "(c, d) \<in> set ?fx \<longleftrightarrow> (\<exists>nm. t_ent (mtree (inodes s)) (d, nm) = Some c) \<and> m_isdir (inodes s) c" for c d
    unfolding parent_fixups_mem ent isdir ..
  have final: "om_lookup (fold fixup ?fx ?M) i = om_lookup (inodes s) i" for i
  proof (cases "om_lookup (inodes s) i")
    case None
    then show ?thesis unfolding fold_fixup body by simp
  next
    case (Some n)
    note nok = wf_node_ok [OF wf Some]
    have one: "d = parent_or_root n" if "(i, d) \<in> set (rev ?fx)" for d
    proof -
      from that obtain nm where e: "t_ent (mtree (inodes s)) (d, nm) = Some i" and "is_Dir (i_body n)"
        using Some by (auto simp: fx m_isdir_def)
      then have "t_node (mtree (inodes s)) i = Some (TDir (parent_or_root n))"
        using Some by (auto simp: mtree_sel is_Dir_tnode tnode_of_def split: body.splits)
      from tree_ent_parent [OF ok e this] show ?thesis by simp
    qed
    have has: "(\<exists>d. (i, d) \<in> set (rev ?fx)) \<longleftrightarrow> is_Dir (i_body n) \<and> i \<noteq> ROOT_INO"
    proof
      assume "\<exists>d. (i, d) \<in> set (rev ?fx)"
      then show "is_Dir (i_body n) \<and> i \<noteq> ROOT_INO"
        using Some tree_ent_not_root [OF ok] by (auto simp: fx m_isdir_def)
    next
      assume d: "is_Dir (i_body n) \<and> i \<noteq> ROOT_INO"
      then have "t_node (mtree (inodes s)) i = Some (TDir (parent_or_root n))"
        using Some by (auto simp: mtree_sel tnode_of_def is_Dir_def)
      from tree_dir_ent [OF ok this] d show "\<exists>d. (i, d) \<in> set (rev ?fx)"
        using Some by (auto simp: fx m_isdir_def)
    qed
    have leaf: "\<not> is_Dir (i_body n) \<Longrightarrow> i_parent n = None" "is_Dir (i_body n) \<Longrightarrow> i_parent n = Some (parent_or_root n)"
      using nok by (cases "i_body n"; auto simp: node_ok_def parent_or_root_def)+
    have mo: "map_of (rev ?fx) i = (if is_Dir (i_body n) \<and> i \<noteq> ROOT_INO then Some (parent_or_root n) else None)"
      by (rule trans [OF map_of_functional [of i "rev ?fx", OF one]]) (assumption, simp only: has)
    have lk: "om_lookup ?M i = Some (if i = ROOT_INO then n else orphan n)"
      unfolding body by (simp add: Some)
    show ?thesis
      unfolding fold_fixup lk option.case mo
      using Some leaf r rdir by (auto simp: orphan_restore orphan_leaf simp del: option.case_eq_if)
  qed
  have fold: "fold fixup ?fx ?M = inodes s" by (rule om_eqI) (rule ext, rule final)
  have root: "om_lookup ?N ROOT_INO = Some (orphan r)"
    unfolding snapshot_nodes_lookup r by (rule option.map(2))
  have version: "(sn_version (to_snapshot s) \<noteq> SNAPSHOT_VERSION) = False" by (simp add: to_snapshot_def)
  show ?thesis
    unfolding from_snapshot_def Let_def version if_False root option.case fold
    by (simp add: to_snapshot_def)
qed

lemma serialize_roundtrip_wf:
  assumes "fs_wf s" "dec (enc (to_snapshot s)) = Some (to_snapshot s)"
  shows "deserialize dec (serialize enc s) = Ok s"
  using snapshot_roundtrip_wf [OF assms(1)] assms(2)
  by (simp add: deserialize_def serialize_def)

end
