(* ===== verification/MemFsProps.thy ===== *)
theory MemFsProps
  imports MemFsSpec MemFsPath MemFsSnapshot
begin

text \<open>
  The properties of the in-memory filesystem (\<open>mem.rs\<close>), each over the definitions that
  model its code and each applied to a concrete state. \<open>demo\<close> is a filesystem with the file
  \<open>/f\<close> (inode 2) and the directory \<open>/d\<close> (inode 3), made with the operations themselves.
\<close>

section \<open>Concrete states\<close>

definition epoch :: timespec where "epoch = \<lparr>secs = 0, nanos = 0\<rparr>"

definition demo :: fs where
  "demo = snd (mkdir ROOT_INO ''d'' MODE_755 epoch
     (snd (create ROOT_INO ''f'' MODE_644 epoch (with_limit 100 epoch))))"

lemma names_valid [simp]:
  "validate_name ''f'' = Ok ()" "validate_name ''d'' = Ok ()" "validate_name ''g'' = Ok ()"
  by (simp_all add: validate_name_def NAME_MAX_def)

lemmas run_simps = and_then_def op_simps alloc_ino_def put_node_def drop_node_def get_mut_def getattr_def get_def
  ensure_dir_no_entry_def entries_of_def insert_entry_def remove_entry_def set_entries_def new_attr_def
  with_limit_def ROOT_INO_def create_def mkdir_def incr_nlink_def checked_add_def

lemmas eval_simps = run_simps om_len_insert om_eval write_bytes_def Let_def saturating_add_def saturating_sub_def
  over_limit_def add_bytes_def vec_resize_def isize_max_def copy_into_def set_file_def link_def rename_def
  rename_overwrite_def child_ino_def unlink_def map_attr_def

lemma demo_lookup:
  "om_lookup (inodes demo) (Ino 2) =
     Some \<lparr>i_attr = new_attr (Ino 2) KFile MODE_644 1 0 epoch, i_body = File [], i_parent = None\<rparr>"
  "bytes_used demo = 0" "bytes_limit demo = 100" "next_ino demo = 4"
  by (simp_all add: demo_def run_simps map_attr_def om_len_insert)

lemma demo_links: "links (inodes demo) i < 4"
  by (simp add: demo_def run_simps map_attr_def links_def nlink_of_def)

lemma demo_roomy: "roomy demo"
  by (auto simp: roomy_def demo_lookup isize_max_def intro: less_trans [OF demo_links])

lemma demo_reachable: "reachable 100 epoch demo"
proof -
  let ?s = "snd (create ROOT_INO ''f'' MODE_644 epoch (with_limit 100 epoch))"
  have 1: "fs_exec (OpCreate ROOT_INO ''f'' MODE_644) epoch epoch (with_limit 100 epoch) = (Ok (), ?s)"
    by (simp add: void_def run_simps)
  have 2: "fs_exec (OpMkdir ROOT_INO ''d'' MODE_755) epoch epoch ?s = (Ok (), demo)"
    by (simp add: demo_def void_def run_simps)
  have "reachable 100 epoch ?s" by (rule reachable.call [OF reachable.start _ 1]) simp_all
  from reachable.call [OF this _ 2] show ?thesis by simp
qed

lemma demo_wf: "fs_wf demo"
  using reachable_wf [OF demo_reachable] ..

lemma demo_entries: "t_ent (tree_of demo) = [(ROOT_INO, ''f'') \<mapsto> Ino 2, (ROOT_INO, ''d'') \<mapsto> Ino 3]"
  by (rule ext) (auto simp: tree_of_def mtree_sel node_entries_def demo_def run_simps map_attr_def split: if_splits)

section \<open>Names and links\<close>

text \<open>
  C1: refinement. In every reachable state with room left in its counters, a call to any of the
  ten mutating operations of \<open>mem.rs\<close> returns exactly the error the abstract tree gives for it,
  and then has changed nothing, or succeeds and leads to exactly the abstract tree. It never
  panics.
\<close>

theorem fs_refines_tree:
  assumes "reachable limit t0 s" "op_sized op" "roomy s"
  shows "case t_deny (tree_of s) (room_of s) op of
     Some e \<Rightarrow> fs_exec op t1 t2 s = (Err e, s)
   | None \<Rightarrow> \<exists>s'. fs_exec op t1 t2 s = (Ok (), s') \<and>
       tree_of s' = t_exec (tree_of s) (Ino (next_ino s)) (links (inodes s)) op"
  using fs_exec_outcome [OF _ assms(2,3)] reachable_wf [OF assms(1)] by simp

theorem fs_refines_tree_witness:
  "\<exists>s'. fs_exec (OpRename ROOT_INO ''f'' (Ino 3) ''g'') epoch epoch demo = (Ok (), s') \<and>
     t_ent (tree_of s') = [(ROOT_INO, ''d'') \<mapsto> Ino 3, (Ino 3, ''g'') \<mapsto> Ino 2]"
proof -
  let ?op = "OpRename ROOT_INO ''f'' (Ino 3) ''g''"
  have t: "t_node (tree_of demo) (Ino 1) = Some (TDir (Ino 1))" "t_node (tree_of demo) (Ino 3) = Some (TDir (Ino 1))"
    "t_node (tree_of demo) (Ino 2) = Some (TFile [])"
    by (simp_all add: tree_of_def mtree_sel tnode_of_def parent_or_root_def demo_def run_simps map_attr_def)
  have e: "t_ent (tree_of demo) (ROOT_INO, ''f'') = Some (Ino 2)" "t_ent (tree_of demo) (Ino 3, ''g'') = None"
    by (simp_all add: demo_entries ROOT_INO_def)
  have "t_deny (tree_of demo) (room_of demo) ?op = None"
    by (simp add: first_deny_Cons deny_name_def deny_old_def deny_dir_def deny_target_def refuse_def t e
        t_isdir_def ROOT_INO_def [symmetric] t [folded ROOT_INO_def])
  then obtain s' where "fs_exec ?op epoch epoch demo = (Ok (), s')"
    "tree_of s' = t_exec (tree_of demo) (Ino (next_ino demo)) (links (inodes demo)) ?op"
    using fs_refines_tree [OF demo_reachable _ demo_roomy, of ?op epoch epoch] by auto
  moreover have "t_ent (t_exec (tree_of demo) (Ino (next_ino demo)) (links (inodes demo)) ?op) =
     [(ROOT_INO, ''d'') \<mapsto> Ino 3, (Ino 3, ''g'') \<mapsto> Ino 2]"
    by (rule ext) (simp add: e t_clear_def t_move_def t_isdir_def t, simp add: demo_entries ROOT_INO_def)
  ultimately show ?thesis by auto
qed

text \<open>
  C2: invariant. Every state reached from a fresh filesystem by any calls, failed ones
  included, is consistent: the directories form a tree rooted at inode 1 in which every
  directory has one name and a parent that agrees with it, the attributes agree with the
  bodies, no link count is below the number of names, and \<open>bytes_used\<close> is the sum of the
  contents and within the limit.
\<close>

theorem reachable_consistent:
  assumes "reachable limit t0 s"
  shows "tree_ok (tree_of s) \<and> nodes_ok (next_ino s) (inodes s) \<and> nlinks_ok (inodes s) \<and>
    unat (bytes_used s) = content_bytes (inodes s) \<and> bytes_used s \<le> limit \<and> bytes_limit s = limit"
  using reachable_wf [OF assms] by (auto simp: fs_wf_def)

theorem reachable_consistent_witness:
  "reachable 100 epoch demo \<and> tree_ok (tree_of demo) \<and> nlinks_ok (inodes demo)"
  using reachable_consistent [OF demo_reachable] demo_reachable by simp

text \<open>
  C3: invariant. Link counts are exact (a file has as many links as names, a directory two more
  than it has subdirectories) and every operation keeps them so, with one exception: a rename
  onto another name of the same inode.
\<close>

theorem link_counts_exact:
  assumes "fs_wf s" "no_leak s" "op_sized op" "fs_exec op t1 t2 s = (Ok (), s')" "\<not> alias_rename s op"
    and "om_lookup (inodes s') i = Some n"
  shows "nlink_of n = (if is_Dir (i_body n) then 2 + card (subdirs (inodes s') i) else card (names (inodes s') i))"
proof -
  have "slack (inodes s') i = 0"
    using fs_exec_slack [OF assms(1,3,4,5)] assms(2) by (simp add: no_leak_def)
  with assms(6) show ?thesis by (auto simp: slack_def split: if_splits)
qed

lemma reach_no_leak_step:
  "fs_wf s \<Longrightarrow> no_leak s \<Longrightarrow> op_sized op \<Longrightarrow> fs_exec op t1 t2 s = (Ok (), s') \<Longrightarrow> \<not> alias_rename s op \<Longrightarrow> no_leak s'"
  by (simp add: no_leak_def fs_exec_slack)

lemma with_limit_no_leak: "no_leak (with_limit limit t0)"
proof -
  have "subdirs (inodes (with_limit limit t0)) i = {}" for i
    using with_limit_tree [of limit t0] by (auto simp: subdirs_def tree_of_def)
  then show ?thesis by (auto simp: no_leak_def slack_def with_limit_def nlink_of_def new_attr_def)
qed

theorem link_counts_exact_witness:
  "\<exists>s'. fs_exec (OpCreate ROOT_INO ''f'' MODE_644) epoch epoch (with_limit 100 epoch) = (Ok (), s') \<and>
     card (names (inodes s') (Ino 2)) = 1"
proof -
  let ?s = "snd (create ROOT_INO ''f'' MODE_644 epoch (with_limit 100 epoch))"
  have run: "fs_exec (OpCreate ROOT_INO ''f'' MODE_644) epoch epoch (with_limit 100 epoch) = (Ok (), ?s)"
    by (simp add: void_def run_simps)
  have n: "om_lookup (inodes ?s) (Ino 2) = Some \<lparr>i_attr = new_attr (Ino 2) KFile MODE_644 1 0 epoch, i_body = File [], i_parent = None\<rparr>"
    by (simp add: run_simps)
  from link_counts_exact [OF with_limit_wf with_limit_no_leak _ run _ n] run show ?thesis
    by (auto simp: alias_rename_def nlink_of_def new_attr_def)
qed

text \<open>
  The states after a state, by any calls that return, failed ones included.
\<close>

inductive later :: "fs \<Rightarrow> fs \<Rightarrow> bool" for s where
  now: "later s s"
| call: "later s s1 \<Longrightarrow> op_sized op \<Longrightarrow> fs_exec op t1 t2 s1 = (r, s2) \<Longrightarrow> r \<noteq> Panic \<Longrightarrow> later s s2"

lemma fs_exec_slack_grows:
  assumes wf: "fs_wf s" and "op_sized op" "fs_exec op t1 t2 s = (r, s')" "r \<noteq> Panic"
  shows "fs_wf s' \<and> slack (inodes s) i \<le> slack (inodes s') i"
proof (cases r)
  case (Ok u)
  have "slack (inodes s) i \<le> slack (inodes s') i" if "alias_rename s op"
  proof -
    from that obtain p nm q x where op: "op = OpRename p nm q x" by (auto simp: alias_rename_def split: fs_op.splits)
    with assms(3) Ok have "rename p nm q x t1 t2 s = (Ok (), s')" by (auto simp: void_iff)
    from rename_run [OF wf this] show ?thesis by (auto simp: fun_upd_def)
  qed
  then show ?thesis using fs_exec_wf [OF wf assms(2)] fs_exec_slack [OF wf assms(2)] assms(3) Ok by fastforce
next
  case (Err e)
  then show ?thesis using fs_exec_err [OF wf] assms(3) wf by blast
qed (use assms(4) in simp)

lemma later_slack: "later s s' \<Longrightarrow> fs_wf s \<Longrightarrow> fs_wf s' \<and> slack (inodes s) i \<le> slack (inodes s') i"
proof (induction rule: later.induct)
  case (call s1 op t1 t2 r s2)
  then show ?case using fs_exec_slack_grows [of s1 op t1 t2 r s2 i] by fastforce
qed simp

text \<open>
  C4: the exception of the previous property is real, on every consistent filesystem. A rename
  of one name of a file onto another name of the same file succeeds, takes the old name away and
  changes nothing else of the tree or of the bytes in use; but the link count stays, so that
  whatever calls follow, the file is still there with more links than names: when its last name is
  gone it still is, and its bytes stay charged to the quota.
\<close>

theorem rename_alias_leaks:
  assumes "fs_wf s" and "(p, nm) \<noteq> (q, x)" and "validate_name nm = Ok ()" "validate_name x = Ok ()"
    and "t_ent (tree_of s) (p, nm) = Some i" "t_ent (tree_of s) (q, x) = Some i"
  shows "\<exists>s1. fs_exec (OpRename p nm q x) t1 t2 s = (Ok (), s1) \<and> tree_of s1 = t_cut (tree_of s) p nm \<and>
    bytes_used s1 = bytes_used s \<and>
    (\<forall>s2. later s1 s2 \<longrightarrow> (\<exists>n. om_lookup (inodes s2) i = Some n \<and> card (names (inodes s2) i) < nlink_of n \<and>
       body_bytes (i_body n) \<le> unat (bytes_used s2)))"
proof -
  have ok: "tree_ok (tree_of s)" using assms(1) by (simp add: fs_wf_def)
  have leaf: "\<not> t_isdir (tree_of s) i" using tree_dir_only [OF ok assms(5) _ assms(6)] assms(2) by auto
  have there: "om_lookup (inodes s) i \<noteq> None" using tree_ent_target [OF ok assms(5)] by (simp add: node_lookup)
  then obtain n where n: "om_lookup (inodes s) i = Some n" by auto
  with leaf have nd: "\<not> is_Dir (i_body n)" by (auto simp: isdir_node is_Dir_def)
  obtain nq e where nq: "om_lookup (inodes s) q = Some nq" "i_body nq = Dir e"
    using assms(6) by (auto simp: tree_of_def ent_mtree)
  obtain s1 where re: "remove_entry p nm t1 s = (Ok (), s1)"
    using assms(5) by (auto simp: tree_of_def ent_mtree remove_entry_Ok)
  have c: "child_ino s p nm = Ok i" "child_ino s q x = Ok i" using assms(5,6) by (simp_all add: child_ino_ent)
  have "rename p nm q x t1 t2 s = (Ok (), s1)"
    using assms(2) n nd nq c re by (auto simp: assms(3,4) rename_def rename_overwrite_def and_then_def get_def)
  then have run: "fs_exec (OpRename p nm q x) t1 t2 s = (Ok (), s1)" by (simp add: void_def)
  note eff = effect_remove_entry [OF re assms(5) there]
  have wf1: "fs_wf s1" using fs_exec_wf [OF assms(1) _ run] by simp
  have "1 \<le> slack (inodes s1) i"
    using eff(2) [of i] wf_slack(2) [OF assms(1), of i] there leaf by (simp add: moved_def tree_of_def t_isdir_mtree mtree_sel)
  then have more: "1 \<le> slack (inodes s2) i \<and> fs_wf s2" if "later s1 s2" for s2
    using later_slack [OF that wf1, of i] by simp
  have "\<exists>n. om_lookup (inodes s2) i = Some n \<and> card (names (inodes s2) i) < nlink_of n \<and> body_bytes (i_body n) \<le> unat (bytes_used s2)"
    if l: "later s1 s2" for s2
  proof -
    obtain m where m: "om_lookup (inodes s2) i = Some m" using more [OF l] by (auto simp: slack_def split: option.splits)
    have "\<not> is_Dir (i_body m)" using more [OF l] wf_slack_dir [of s2 i] m by (auto simp: isdir_node is_Dir_def)
    then have "card (names (inodes s2) i) < nlink_of m" using more [OF l] m by (simp add: slack_def)
    moreover have "body_bytes (i_body m) \<le> unat (bytes_used s2)"
      using more [OF l] om_sum_le [OF m, of "\<lambda>n. body_bytes (i_body n)"] by (simp add: wf_bytes content_bytes_def)
    ultimately show ?thesis using m by blast
  qed
  then show ?thesis using run eff(1,7) by blast
qed

text \<open>The file \<open>/f\<close> with the second name \<open>/g\<close>.\<close>

definition demo_linked :: fs where
  "demo_linked = snd (link (Ino 2) ROOT_INO ''g'' epoch demo)"

theorem rename_alias_leaks_witness:
  "\<exists>s1. fs_exec (OpRename ROOT_INO ''f'' ROOT_INO ''g'') epoch epoch demo_linked = (Ok (), s1) \<and>
     (\<exists>n. om_lookup (inodes s1) (Ino 2) = Some n \<and> card (names (inodes s1) (Ino 2)) < nlink_of n)"
proof -
  have run: "fs_exec (OpLink (Ino 2) ROOT_INO ''g'') epoch epoch demo = (Ok (), demo_linked)"
    by (simp add: demo_linked_def void_def demo_def eval_simps)
  have wf: "fs_wf demo_linked" using fs_exec_wf [OF demo_wf _ run] by simp
  have e: "t_ent (tree_of demo_linked) (ROOT_INO, ''f'') = Some (Ino 2)" "t_ent (tree_of demo_linked) (ROOT_INO, ''g'') = Some (Ino 2)"
    by (simp_all add: tree_of_def mtree_sel node_entries_def demo_linked_def demo_def eval_simps)
  have n: "validate_name ''f'' = Ok ()" "validate_name ''g'' = Ok ()" by (simp_all add: validate_name_def NAME_MAX_def)
  obtain s1 where s1: "fs_exec (OpRename ROOT_INO ''f'' ROOT_INO ''g'') epoch epoch demo_linked = (Ok (), s1)"
    "\<forall>s2. later s1 s2 \<longrightarrow> (\<exists>n. om_lookup (inodes s2) (Ino 2) = Some n \<and> card (names (inodes s2) (Ino 2)) < nlink_of n \<and>
       body_bytes (i_body n) \<le> unat (bytes_used s2))"
    using rename_alias_leaks [OF wf _ n e, of epoch epoch] by (simp del: fs_exec.simps) blast
  then show ?thesis using later.now [of s1] by blast
qed

section \<open>File contents\<close>

text \<open>
  C5: functional. A write to a file succeeds exactly when the file's growth fits the limit.
  Then every read of the file, at any offset and size, returns the slice of the old contents
  overwritten at the offset (a gap between the old end and the offset reads as zeros), clipped
  at the end; a refused write leaves the state alone.
\<close>

theorem write_then_read:
  assumes "fs_wf s" "int (length data) \<le> isize_max" "int (unat (bytes_limit s)) \<le> isize_max"
    and "om_lookup (inodes s) i = Some n" "i_body n = File c"
  shows "if fits s (length c) (max (length c) (unat off + length data))
     then \<exists>s'. write_bytes i off data now s = (Ok (of_nat (length data)), s') \<and>
       (\<forall>o' sz. read s' i o' sz = Ok (take (unat sz) (drop (unat o') (overwrite c (unat off) data))))
     else write_bytes i off data now s = (Err NoSpc, s)"
proof (cases "fits s (length c) (max (length c) (unat off + length data))")
  case True
  with write_result [OF assms, of off now]
  obtain s' where run: "write_bytes i off data now s = (Ok (of_nat (length data)), s')" by auto
  have "\<exists>m. om_lookup (inodes s') i = Some m \<and> i_body m = File (overwrite c (unat off) data)"
    by (rule write_run [OF assms(1,2) run]) (use assms(4,5) in \<open>auto simp: fun_upd_same\<close>)
  with read_spec [OF write_wf(1) [OF assms(1,2) run]] run True show ?thesis by auto
next
  case False
  with write_result [OF assms, of off now] show ?thesis by simp
qed

theorem write_then_read_witness:
  "\<exists>s'. write_bytes (Ino 2) 1 ''xy'' epoch demo = (Ok 2, s') \<and>
     read s' (Ino 2) 0 10 = Ok [CHR 0x00, CHR ''x'', CHR ''y''] \<and> read s' (Ino 2) 2 10 = Ok ''y''"
  using write_then_read [OF demo_wf _ _ demo_lookup(1), of "''xy''" "[]" 1 epoch]
  by (auto simp: demo_lookup isize_max_def fits_def overwrite_def)

text \<open>
  Each byte of an overwritten file is the new byte inside the written range, the
  old byte outside it, and zero in a gap, and the file is as long as the further of its old end
  and the end of the write: what \<open>write_bytes\<close> stores.
\<close>

lemma write_contents:
  assumes "fs_wf s" "int (length data) \<le> isize_max" "write_bytes i off data now s = (Ok r, s')"
  shows "\<exists>c c'. t_node (tree_of s) i = Some (TFile c) \<and> tree_of s' = t_set (tree_of s) i (TFile c') \<and>
     length c' = max (length c) (unat off + length data) \<and>
     (\<forall>k < length c'. c' ! k = (if unat off \<le> k \<and> k < unat off + length data then data ! (k - unat off)
        else if k < length c then c ! k else CHR 0x00))"
proof -
  from write_wf(5) [OF assms] obtain c where c: "t_node (tree_of s) i = Some (TFile c)"
    "tree_of s' = t_set (tree_of s) i (TFile (overwrite c (unat off) data))" by blast
  show ?thesis
    by (rule exI [of _ c], rule exI [of _ "overwrite c (unat off) data"]) (simp add: c overwrite_nth length_overwrite)
qed

lemma write_contents_witness:
  "\<exists>c'. t_node (tree_of (snd (write_bytes (Ino 2) 1 ''xy'' epoch demo))) (Ino 2) = Some (TFile c') \<and>
     length c' = 3 \<and> c' ! 2 = CHR ''y''"
proof -
  have "fst (write_bytes (Ino 2) 1 ''xy'' epoch demo) = Ok 2"
    by (simp add: demo_def eval_simps)
  then have run: "write_bytes (Ino 2) 1 ''xy'' epoch demo = (Ok 2, snd (write_bytes (Ino 2) 1 ''xy'' epoch demo))"
    by (metis prod.collapse)
  have "t_node (tree_of demo) (Ino 2) = Some (TFile [])"
    by (simp add: tree_of_def mtree_sel tnode_of_def demo_lookup)
  with write_contents [OF demo_wf _ run] show ?thesis by (auto simp: isize_max_def)
qed

text \<open>
  C6: termination and correctness of the ancestor check of \<open>rename\<close>: for every directory the
  bounded walk up the parents ends before its bound with the right answer; it never reports
  the loop error.
\<close>

theorem ancestor_check_correct:
  assumes "fs_wf s" "t_isdir (tree_of s) d"
  shows "is_ancestor_or_self s a d = Ok (anc (tree_of s) a d)"
  using assms by (rule is_ancestor_or_self_correct)

theorem ancestor_check_correct_witness: "is_ancestor_or_self demo (Ino 3) (Ino 3) = Ok True"
proof -
  have "t_isdir (tree_of demo) (Ino 3)"
    by (simp add: t_isdir_def tree_of_def mtree_sel tnode_of_def demo_def run_simps map_attr_def)
  from ancestor_check_correct [OF demo_wf this, of "Ino 3"] show ?thesis by (simp add: anc.refl)
qed

section \<open>Paths\<close>

text \<open>
  C7: termination and safety of path resolution. On a consistent filesystem \<open>resolve_follow\<close>
  answers every path: with an existing inode that is not a symbolic link (dangling and cyclic
  links end in an error), or with one of four errors. It never panics, whatever the links.
\<close>

theorem resolve_follow_safe:
  assumes "fs_wf s"
  shows "case resolve_follow s path of
     Ok i \<Rightarrow> om_lookup (inodes s) i \<noteq> None \<and> \<not> is_symlink s i
   | Err e \<Rightarrow> e \<in> {Io, Inval, NoEnt, NotDir}
   | Panic \<Rightarrow> False"
  using resolve_sound(1) [OF assms, of s path True 0] resolve_err(1) [of s path True 0]
  by (auto simp: resolve_follow_def split: result.splits simp del: resolve_inner.simps)

lemma split_path_f: "split_path ''/f'' = [''f'']"
  by (simp add: split_path_def)

lemma walk_f: "t_walk (tree_of demo) ROOT_INO (split_path ''/f'') = Some (Ino 2)"
  by (simp add: split_path_f t_step_def demo_entries)

theorem resolve_follow_safe_witness:
  "case resolve_follow demo ''/f'' of Ok i \<Rightarrow> om_lookup (inodes demo) i \<noteq> None | Err e \<Rightarrow> e \<noteq> Exist | Panic \<Rightarrow> False"
  using resolve_follow_safe [OF demo_wf, of "''/f''"] by (auto split: result.splits)

text \<open>
  C8: equivalence. As long as no link has to be followed, both resolutions of a path are the plain
  walk over the abstract tree from the root, component by component, \<open>.\<close> and \<open>..\<close> included: the
  inode it ends at, or \<open>NoEnt\<close> at the first name that its directory does not have, or \<open>NotDir\<close> at the
  first name looked up in what is no directory; a path that is not absolute is \<open>Inval\<close>. \<open>resolve\<close>
  follows links before the last component only, \<open>resolve_follow\<close> a last one too.
\<close>

theorem resolve_is_walk:
  assumes "fs_wf s"
  shows "(t_plain False (tree_of s) ROOT_INO (split_path path) \<longrightarrow> resolve s path =
      (if is_absolute path then t_path (tree_of s) ROOT_INO (split_path path) else Err Inval)) \<and>
    (t_plain True (tree_of s) ROOT_INO (split_path path) \<longrightarrow> resolve_follow s path =
      (if is_absolute path then t_path (tree_of s) ROOT_INO (split_path path) else Err Inval))"
  using resolve_inner_path [OF assms] by (simp only: resolve_def resolve_follow_def) blast

text \<open>A name that is there, one that is missing, and one below a file.\<close>

theorem resolve_is_walk_witness:
  "resolve demo ''/f'' = Ok (Ino 2) \<and> resolve demo ''/x'' = Err NoEnt \<and> resolve_follow demo ''/f/x'' = Err NotDir"
proof -
  have s: "split_path ''/f'' = [''f'']" "split_path ''/x'' = [''x'']" "split_path ''/f/x'' = [''f'', ''x'']" by (simp_all add: split_path_def)
  have n: "t_node (tree_of demo) ROOT_INO = Some (TDir ROOT_INO)" "t_node (tree_of demo) (Ino 2) = Some (TFile [])"
    by (simp_all add: tree_of_def mtree_sel tnode_of_def parent_or_root_def demo_def run_simps map_attr_def)
  have d: "t_isdir (tree_of demo) ROOT_INO" "\<not> t_isdir (tree_of demo) (Ino 2)" "\<not> t_symlink (tree_of demo) (Ino 2)"
    using n by (simp_all add: t_isdir_def t_symlink_def)
  have "(Ino 2, ''x'') \<noteq> (ROOT_INO, ''f'')" "(Ino 2, ''x'') \<noteq> (ROOT_INO, ''d'')" by simp_all
  then show ?thesis
    using resolve_is_walk [OF demo_wf, of "''/f''"] resolve_is_walk [OF demo_wf, of "''/x''"] resolve_is_walk [OF demo_wf, of "''/f/x''"]
    by (simp add: s d t_step_def demo_entries is_absolute_def)
qed

text \<open>
  After \<open>write_path path data\<close> has returned, reading the same path through
  \<open>read_path\<close> gives the data back, links in the path included, for contents below 4 GiB; no
  name and no directory of the tree is lost.
\<close>

lemma write_path_read_path:
  assumes "fs_wf s" "write_path path data now1 now2 s = (Ok (), s')" "length data < 2 ^ 32"
  shows "read_path s' path = Ok data \<and> fs_wf s' \<and> t_grows (tree_of s) (tree_of s')"
proof -
  have len: "int (length data) \<le> isize_max" using assms(3) by (simp add: isize_max_def)
  from write_path_run [OF assms(1) len assms(2)] obtain i where
    w: "fs_wf s'" "t_node (tree_of s') i = Some (TFile data)" "t_grows (tree_of s) (tree_of s')"
       "resolve_follow s' path = Ok i"
    by blast
  from read_path_file [OF w(1,4,2)] assms(3) w show ?thesis by simp
qed

lemma write_path_read_path_witness:
  "read_path (snd (write_path ''/g'' ''abc'' epoch epoch demo)) ''/g'' = Ok ''abc''"
proof -
  have "split_parent ''/g'' = Ok ([], ''g'')"
    by (simp add: split_parent_Ok is_absolute_def split_path_def join_comps_def)
  then have "fst (write_path ''/g'' ''abc'' epoch epoch demo) = Ok ()"
    by (simp add: write_path_def lookup_def demo_def eval_simps ok_or_def)
  then have run: "write_path ''/g'' ''abc'' epoch epoch demo = (Ok (), snd (write_path ''/g'' ''abc'' epoch epoch demo))"
    by (metis prod.collapse)
  from write_path_read_path [OF demo_wf run] show ?thesis by simp
qed

text \<open>
  After \<open>mkdir_p path\<close> has returned, the path resolves to a directory, and
  everything that was in the tree still is.
\<close>

lemma mkdir_p_makes_directory:
  assumes "fs_wf s" "mkdir_p path mode clock s = (Ok (), s')"
  shows "(\<exists>d. resolve s' path = Ok d \<and> t_isdir (tree_of s') d) \<and> fs_wf s' \<and> t_grows (tree_of s) (tree_of s')"
  using mkdir_p_run [OF assms] by blast

lemma mkdir_p_makes_directory_witness:
  "\<exists>d. resolve (snd (mkdir_p ''/d/g'' MODE_755 (\<lambda>_. epoch) demo)) ''/d/g'' = Ok d"
proof -
  have "split_path ''/d/g'' = [''d'', ''g'']" by (simp add: split_path_def)
  then have "fst (mkdir_p ''/d/g'' MODE_755 (\<lambda>_. epoch) demo) = Ok ()"
    by (simp add: mkdir_p_def is_absolute_def lookup_def demo_def eval_simps ok_or_def)
  then have run: "mkdir_p ''/d/g'' MODE_755 (\<lambda>_. epoch) demo = (Ok (), snd (mkdir_p ''/d/g'' MODE_755 (\<lambda>_. epoch) demo))"
    by (metis prod.collapse)
  from mkdir_p_makes_directory [OF demo_wf run] show ?thesis by blast
qed

section \<open>Snapshots\<close>

text \<open>
  C9: round trip. \<open>deserialize\<close> of what \<open>serialize\<close> wrote gives back the same filesystem: the
  parents of the directories, which the snapshot does not hold, are recomputed exactly. \<open>enc\<close>
  and \<open>dec\<close> are the bincode codec, which returns the snapshot it encoded.
\<close>

theorem snapshot_roundtrip:
  assumes "fs_wf s" "dec (enc (to_snapshot s)) = Some (to_snapshot s)"
  shows "deserialize dec (serialize enc s) = Ok s"
  using assms by (rule serialize_roundtrip_wf)

theorem snapshot_roundtrip_witness:
  "deserialize (\<lambda>_. Some (to_snapshot demo)) (serialize (\<lambda>_. []) demo) = Ok demo"
  by (rule snapshot_roundtrip [OF demo_wf]) simp

end
