(* ===== verification/FuseDriver.thy ===== *)
theory FuseDriver
  imports MemFsSafety
begin

text \<open>
  The FUSE driver, \<open>crates/devdev-workspace/src/driver/fuse.rs\<close>: one handler per kernel
  request, which calls the filesystem and answers with the translated result or an error
  number. The numbers of the \<open>libc\<close> crate, the owner of the mount (\<open>geteuid\<close>, \<open>getegid\<close>) and
  the capacity of the kernel's directory buffer are parameters.
\<close>

unbundle bit_operations_syntax

section \<open>Types of the FUSE protocol\<close>

datatype libc_errno = ENOENT | EEXIST | ENOTDIR | EISDIR | ENOTEMPTY | EINVAL | ENOSPC
  | ENAMETOOLONG | EIO | EMLINK | EACCES | EBADF | ENOSYS

datatype file_type = RegularFile | Directory | SymlinkFile

datatype time_or_now = Now | SpecificTime system_time

record file_attr =
  fa_ino :: u64
  fa_size :: u64
  fa_blocks :: u64
  fa_atime :: system_time
  fa_mtime :: system_time
  fa_ctime :: system_time
  fa_crtime :: system_time
  fa_kind :: file_type
  fa_perm :: u16
  fa_nlink :: u32
  fa_uid :: u32
  fa_gid :: u32
  fa_rdev :: u32
  fa_blksize :: u32
  fa_flags :: u32

record fuse_dirent =
  fd_ino :: u64
  fd_next :: i64
  fd_kind :: file_type
  fd_name :: bytes

datatype fuse_reply =
    REntry nat file_attr u64
  | RAttr nat file_attr
  | RData bytes
  | RWritten u32
  | RCreated nat file_attr u64 u64 u32
  | ROpened u64 u32
  | RDirectory "fuse_dirent list"
  | RStatfs u64 u64 u64 u64 u64 u32 u32 u32
  | ROk
  | RError i32

definition TTL :: nat where "TTL = 1"
definition GENERATION :: u64 where "GENERATION = 0"
definition BLOCK_SIZE :: u32 where "BLOCK_SIZE = 4096"

text \<open>The mask \<open>0o7777\<close>.\<close>

definition PERM_MASK :: "'a::len word" where "PERM_MASK = 4095"

section \<open>Translations\<close>

fun errno_to_libc :: "(libc_errno \<Rightarrow> i32) \<Rightarrow> errno \<Rightarrow> i32" where
  "errno_to_libc libc NoEnt = libc ENOENT"
| "errno_to_libc libc Exist = libc EEXIST"
| "errno_to_libc libc NotDir = libc ENOTDIR"
| "errno_to_libc libc IsDir = libc EISDIR"
| "errno_to_libc libc NotEmpty = libc ENOTEMPTY"
| "errno_to_libc libc Inval = libc EINVAL"
| "errno_to_libc libc NoSpc = libc ENOSPC"
| "errno_to_libc libc NameTooLong = libc ENAMETOOLONG"
| "errno_to_libc libc Io = libc EIO"
| "errno_to_libc libc Mlink = libc EMLINK"
| "errno_to_libc libc Acces = libc EACCES"
| "errno_to_libc libc BadF = libc EBADF"
| "errno_to_libc libc NoSys = libc ENOSYS"

definition timespec_default :: timespec where
  "timespec_default = \<lparr>secs = 0, nanos = 0\<rparr>"

text \<open>
  \<open>UNIX_EPOCH + Duration::new(secs, nanos)\<close>: the duration carries whole seconds out of the
  nanoseconds, and the sum panics when its seconds leave the range of an \<open>i64\<close>.
\<close>

definition ts_to_system :: "timespec \<Rightarrow> (system_time, errno) result" where
  "ts_to_system t =
     (let s = (if sint (secs t) < 0 then 0 else sint (secs t));
          s' = s + uint (nanos t) div 1000000000
      in if s' \<le> 2 ^ 63 - 1 then Ok (SystemTime s' (uint (nanos t) mod 1000000000)) else Panic)"

definition system_to_ts :: "system_time \<Rightarrow> timespec" where
  "system_to_ts t = (if st_secs t < 0 then timespec_default
     else \<lparr>secs = of_int (st_secs t), nanos = of_int (st_nanos t)\<rparr>)"

text \<open>The argument \<open>now\<close> is the sample of \<open>SystemTime::now()\<close>.\<close>

definition time_or_now_to_ts :: "system_time \<Rightarrow> time_or_now \<Rightarrow> timespec" where
  "time_or_now_to_ts now t = (case t of Now \<Rightarrow> system_to_ts now | SpecificTime st \<Rightarrow> system_to_ts st)"

fun kind_to_ft :: "kind \<Rightarrow> file_type" where
  "kind_to_ft KFile = RegularFile"
| "kind_to_ft KDirectory = Directory"
| "kind_to_ft KSymlink = SymlinkFile"

definition div_ceil :: "'a::len word \<Rightarrow> nat \<Rightarrow> 'a word" where
  "div_ceil x n = of_nat ((unat x + (n - 1)) div n)"

definition to_file_attr :: "u32 \<times> u32 \<Rightarrow> inode_attr \<Rightarrow> (file_attr, errno) result" where
  "to_file_attr owner attr =
     res_bind (ts_to_system (a_atime attr)) (\<lambda>at.
     res_bind (ts_to_system (a_mtime attr)) (\<lambda>mt.
     res_bind (ts_to_system (a_ctime attr)) (\<lambda>ct.
     res_bind (ts_to_system (a_crtime attr)) (\<lambda>crt.
     Ok \<lparr>fa_ino = raw (a_ino attr), fa_size = a_size attr, fa_blocks = div_ceil (a_size attr) 512,
        fa_atime = at, fa_mtime = mt, fa_ctime = ct, fa_crtime = crt,
        fa_kind = kind_to_ft (a_kind attr), fa_perm = a_mode attr AND PERM_MASK,
        fa_nlink = a_nlink attr, fa_uid = fst owner, fa_gid = snd owner, fa_rdev = 0,
        fa_blksize = BLOCK_SIZE, fa_flags = 0\<rparr>))))"

section \<open>Handlers\<close>

text \<open>What the handlers get from outside the repository.\<close>

record fuse_env =
  libc :: "libc_errno \<Rightarrow> i32"
  mount_owner :: "u32 \<times> u32"
  dir_full :: "fuse_dirent list \<Rightarrow> fuse_dirent \<Rightarrow> bool"

text \<open>\<open>match fs.op(...) { Ok(a) => reply(a), Err(e) => reply.error(errno_to_libc(e)) }\<close>\<close>

definition reply_with :: "fuse_env \<Rightarrow> ('a \<Rightarrow> (fuse_reply, errno) result) \<Rightarrow> 'a fs_prog \<Rightarrow> fuse_reply fs_prog" where
  "reply_with env f m s = (case m s of
     (Ok a, s') \<Rightarrow> (f a, s')
   | (Err e, s') \<Rightarrow> (Ok (RError (errno_to_libc (libc env) e)), s')
   | (Panic, s') \<Rightarrow> (Panic, s'))"

definition reply_entry :: "fuse_env \<Rightarrow> inode_attr \<Rightarrow> (fuse_reply, errno) result" where
  "reply_entry env a = res_bind (to_file_attr (mount_owner env) a) (\<lambda>fa. Ok (REntry TTL fa GENERATION))"

definition reply_attr :: "fuse_env \<Rightarrow> inode_attr \<Rightarrow> (fuse_reply, errno) result" where
  "reply_attr env a = res_bind (to_file_attr (mount_owner env) a) (\<lambda>fa. Ok (RAttr TTL fa))"

definition fuse_lookup :: "fuse_env \<Rightarrow> u64 \<Rightarrow> bytes \<Rightarrow> fuse_reply fs_prog" where
  "fuse_lookup env parent name = reply_with env (reply_entry env) (query (\<lambda>s. lookup s (Ino parent) name))"

definition fuse_getattr :: "fuse_env \<Rightarrow> u64 \<Rightarrow> fuse_reply fs_prog" where
  "fuse_getattr env i = reply_with env (reply_attr env) (query (\<lambda>s. getattr s (Ino i)))"

text \<open>\<open>now\<close> is the clock when the access time is \<open>Now\<close> and when the modification time is; each is sampled for itself.\<close>

definition fuse_setattr :: "fuse_env \<Rightarrow> u64 \<Rightarrow> u32 option \<Rightarrow> u32 option \<Rightarrow> u32 option \<Rightarrow> u64 option \<Rightarrow>
    time_or_now option \<Rightarrow> time_or_now option \<Rightarrow> system_time option \<Rightarrow>
    system_time \<times> system_time \<Rightarrow> timespec \<Rightarrow> timespec \<Rightarrow> fuse_reply fs_prog" where
  "fuse_setattr env i mode uid gid sz atime mtime ctime now t1 t2 =
     (let sa = \<lparr>sa_mode = map_option (\<lambda>m. ucast (m AND PERM_MASK)) mode, sa_uid = uid, sa_gid = gid,
        sa_size = sz, sa_atime = map_option (time_or_now_to_ts (fst now)) atime,
        sa_mtime = map_option (time_or_now_to_ts (snd now)) mtime,
        sa_ctime = map_option system_to_ts ctime\<rparr>
      in reply_with env (reply_attr env) (setattr (Ino i) sa t1 t2))"

definition fuse_read :: "fuse_env \<Rightarrow> u64 \<Rightarrow> i64 \<Rightarrow> u32 \<Rightarrow> fuse_reply fs_prog" where
  "fuse_read env i offset sz =
     (if sint offset < 0 then ret (RError (libc env EINVAL))
      else reply_with env (\<lambda>d. Ok (RData d)) (query (\<lambda>s. read s (Ino i) offset sz)))"

definition fuse_write :: "fuse_env \<Rightarrow> u64 \<Rightarrow> i64 \<Rightarrow> bytes \<Rightarrow> timespec \<Rightarrow> fuse_reply fs_prog" where
  "fuse_write env i offset data now =
     (if sint offset < 0 then ret (RError (libc env EINVAL))
      else reply_with env (\<lambda>n. Ok (RWritten n)) (write_bytes (Ino i) offset data now))"

definition fuse_mkdir :: "fuse_env \<Rightarrow> u64 \<Rightarrow> bytes \<Rightarrow> u32 \<Rightarrow> timespec \<Rightarrow> fuse_reply fs_prog" where
  "fuse_mkdir env parent name mode now =
     reply_with env (reply_entry env) (mkdir (Ino parent) name (ucast (mode AND PERM_MASK)) now)"

definition fuse_rmdir :: "fuse_env \<Rightarrow> u64 \<Rightarrow> bytes \<Rightarrow> timespec \<Rightarrow> fuse_reply fs_prog" where
  "fuse_rmdir env parent name now = reply_with env (\<lambda>_. Ok ROk) (rmdir (Ino parent) name now)"

text \<open>
  The loop of \<open>readdir\<close>: the entry with index \<open>i\<close> of the page gets the offset of its successor,
  and the loop ends when the kernel's buffer has no room for the next entry.
\<close>

fun add_dirents :: "fuse_env \<Rightarrow> i64 \<Rightarrow> fuse_dirent list \<Rightarrow> dir_entry list \<Rightarrow> fuse_dirent list" where
  "add_dirents env nxt acc [] = acc"
| "add_dirents env nxt acc (e # es) =
     (let d = \<lparr>fd_ino = raw (de_ino e), fd_next = nxt, fd_kind = kind_to_ft (de_kind e), fd_name = de_name e\<rparr>
      in if dir_full env acc d then acc else add_dirents env (nxt + 1) (acc @ [d]) es)"

definition fuse_readdir :: "fuse_env \<Rightarrow> u64 \<Rightarrow> i64 \<Rightarrow> fuse_reply fs_prog" where
  "fuse_readdir env i offset =
     (if sint offset < 0 then ret (RError (libc env EINVAL))
      else reply_with env (\<lambda>entries. Ok (RDirectory (add_dirents env (offset + 1) [] entries)))
        (query (\<lambda>s. readdir s (Ino i) offset)))"

definition fuse_create :: "fuse_env \<Rightarrow> u64 \<Rightarrow> bytes \<Rightarrow> u32 \<Rightarrow> timespec \<Rightarrow> fuse_reply fs_prog" where
  "fuse_create env parent name mode now =
     reply_with env (\<lambda>a. res_bind (to_file_attr (mount_owner env) a) (\<lambda>fa. Ok (RCreated TTL fa GENERATION 0 0)))
       (create (Ino parent) name (ucast (mode AND PERM_MASK)) now)"

definition fuse_unlink :: "fuse_env \<Rightarrow> u64 \<Rightarrow> bytes \<Rightarrow> timespec \<Rightarrow> fuse_reply fs_prog" where
  "fuse_unlink env parent name now = reply_with env (\<lambda>_. Ok ROk) (unlink (Ino parent) name now)"

definition fuse_symlink :: "fuse_env \<Rightarrow> u64 \<Rightarrow> bytes \<Rightarrow> bytes \<Rightarrow> timespec \<Rightarrow> fuse_reply fs_prog" where
  "fuse_symlink env parent name target now =
     reply_with env (reply_entry env) (symlink (Ino parent) name target now)"

definition fuse_readlink :: "fuse_env \<Rightarrow> u64 \<Rightarrow> fuse_reply fs_prog" where
  "fuse_readlink env i = reply_with env (\<lambda>t. Ok (RData t)) (query (\<lambda>s. readlink s (Ino i)))"

definition fuse_link :: "fuse_env \<Rightarrow> u64 \<Rightarrow> u64 \<Rightarrow> bytes \<Rightarrow> timespec \<Rightarrow> fuse_reply fs_prog" where
  "fuse_link env i newparent newname now =
     reply_with env (reply_entry env) (link (Ino i) (Ino newparent) newname now)"

definition fuse_rename :: "fuse_env \<Rightarrow> u64 \<Rightarrow> bytes \<Rightarrow> u64 \<Rightarrow> bytes \<Rightarrow> timespec \<Rightarrow> timespec \<Rightarrow> fuse_reply fs_prog" where
  "fuse_rename env parent name newparent newname t1 t2 =
     reply_with env (\<lambda>_. Ok ROk) (rename (Ino parent) name (Ino newparent) newname t1 t2)"

text \<open>\<open>open\<close> and \<open>opendir\<close>; \<open>release\<close>, \<open>releasedir\<close>, \<open>flush\<close>, \<open>fsync\<close> and \<open>fsyncdir\<close>.\<close>

definition fuse_open :: "fuse_reply fs_prog" where
  "fuse_open = ret (ROpened 0 0)"

definition fuse_noop :: "fuse_reply fs_prog" where
  "fuse_noop = ret ROk"

definition fuse_statfs :: "fuse_reply fs_prog" where
  "fuse_statfs = query (\<lambda>s.
     (let free = saturating_sub (bytes_limit s) (bytes_used s);
          blocks = bytes_limit s div ucast BLOCK_SIZE;
          bfree = free div ucast BLOCK_SIZE
      in Ok (RStatfs blocks bfree bfree 0 0 BLOCK_SIZE 255 BLOCK_SIZE)))"

section \<open>The session\<close>

datatype fuse_req =
    FLookup u64 bytes | FGetattr u64
  | FSetattr u64 "u32 option" "u32 option" "u32 option" "u64 option" "time_or_now option" "time_or_now option" "system_time option"
  | FRead u64 i64 u32 | FWrite u64 i64 bytes | FMkdir u64 bytes u32 | FRmdir u64 bytes | FReaddir u64 i64
  | FCreate u64 bytes u32 | FUnlink u64 bytes | FSymlink u64 bytes bytes | FReadlink u64
  | FLink u64 u64 bytes | FRename u64 bytes u64 bytes | FOpen | FNoop | FStatfs

text \<open>\<open>impl Filesystem for FuseAdapter\<close>: each request locks the filesystem and is served alone.\<close>

fun fuse_handle :: "fuse_env \<Rightarrow> system_time \<times> system_time \<Rightarrow> timespec \<Rightarrow> timespec \<Rightarrow> fuse_req \<Rightarrow> fuse_reply fs_prog" where
  "fuse_handle env now t1 t2 (FLookup p nm) = fuse_lookup env p nm"
| "fuse_handle env now t1 t2 (FGetattr i) = fuse_getattr env i"
| "fuse_handle env now t1 t2 (FSetattr i m u g z at mt ct) = fuse_setattr env i m u g z at mt ct now t1 t2"
| "fuse_handle env now t1 t2 (FRead i off sz) = fuse_read env i off sz"
| "fuse_handle env now t1 t2 (FWrite i off d) = fuse_write env i off d t1"
| "fuse_handle env now t1 t2 (FMkdir p nm m) = fuse_mkdir env p nm m t1"
| "fuse_handle env now t1 t2 (FRmdir p nm) = fuse_rmdir env p nm t1"
| "fuse_handle env now t1 t2 (FReaddir i off) = fuse_readdir env i off"
| "fuse_handle env now t1 t2 (FCreate p nm m) = fuse_create env p nm m t1"
| "fuse_handle env now t1 t2 (FUnlink p nm) = fuse_unlink env p nm t1"
| "fuse_handle env now t1 t2 (FSymlink p nm tgt) = fuse_symlink env p nm tgt t1"
| "fuse_handle env now t1 t2 (FReadlink i) = fuse_readlink env i"
| "fuse_handle env now t1 t2 (FLink i p nm) = fuse_link env i p nm t1"
| "fuse_handle env now t1 t2 (FRename p nm q x) = fuse_rename env p nm q x t1 t2"
| "fuse_handle env now t1 t2 FOpen = fuse_open"
| "fuse_handle env now t1 t2 FNoop = fuse_noop"
| "fuse_handle env now t1 t2 FStatfs = fuse_statfs"

section \<open>Invariant and error behaviour\<close>

fun req_sized :: "fuse_req \<Rightarrow> bool" where
  "req_sized (FWrite i off d) \<longleftrightarrow> int (length d) \<le> isize_max"
| "req_sized (FSymlink p nm tgt) \<longleftrightarrow> int (length tgt) \<le> isize_max"
| "req_sized _ \<longleftrightarrow> True"

text \<open>What a request does to the filesystem is a read or one of its operations.\<close>

definition served_by :: "fuse_reply fs_prog \<Rightarrow> fs_op option \<Rightarrow> timespec \<Rightarrow> timespec \<Rightarrow> bool" where
  "served_by h op t1 t2 \<longleftrightarrow> (\<forall>s r s'. h s = (r, s') \<longrightarrow>
     (case op of None \<Rightarrow> s' = s
      | Some op \<Rightarrow> (\<exists>x. fs_exec op t1 t2 s = (x, s') \<and> (x = Panic \<longrightarrow> r = Panic) \<and>
          (\<forall>e. x = Err e \<longrightarrow> (\<exists>c. r = Ok (RError c))))))"

lemma reply_with_query: "reply_with env f (query g) s = (r, s') \<Longrightarrow> s' = s"
  by (auto simp: reply_with_def split: result.splits)

lemma reply_with_exec:
  assumes "\<And>s. fs_exec op t1 t2 s = void (m s)"
  shows "served_by (reply_with env f m) (Some op) t1 t2"
  unfolding served_by_def option.case
proof (intro allI impI)
  fix s r s'
  assume run: "reply_with env f m s = (r, s')"
  obtain x s1 where m: "m s = (x, s1)" by (cases "m s")
  then have "fs_exec op t1 t2 s = void (x, s1)" by (simp add: assms)
  with run m show "\<exists>x. fs_exec op t1 t2 s = (x, s') \<and> (x = Panic \<longrightarrow> r = Panic) \<and>
      (\<forall>e. x = Err e \<longrightarrow> (\<exists>c. r = Ok (RError c)))"
    by (cases x) (auto simp: reply_with_def)
qed

definition fuse_op :: "system_time \<times> system_time \<Rightarrow> fuse_req \<Rightarrow> fs_op option" where
  "fuse_op now req = (case req of
     FSetattr i m u g z at mt ct \<Rightarrow> Some (OpSetattr (Ino i) \<lparr>sa_mode = map_option (\<lambda>m. ucast (m AND PERM_MASK)) m,
        sa_uid = u, sa_gid = g, sa_size = z, sa_atime = map_option (time_or_now_to_ts (fst now)) at,
        sa_mtime = map_option (time_or_now_to_ts (snd now)) mt, sa_ctime = map_option system_to_ts ct\<rparr>)
   | FWrite i off d \<Rightarrow> (if sint off < 0 then None else Some (OpWrite (Ino i) off d))
   | FMkdir p nm m \<Rightarrow> Some (OpMkdir (Ino p) nm (ucast (m AND PERM_MASK)))
   | FRmdir p nm \<Rightarrow> Some (OpRmdir (Ino p) nm)
   | FCreate p nm m \<Rightarrow> Some (OpCreate (Ino p) nm (ucast (m AND PERM_MASK)))
   | FUnlink p nm \<Rightarrow> Some (OpUnlink (Ino p) nm)
   | FSymlink p nm tgt \<Rightarrow> Some (OpSymlink (Ino p) nm tgt)
   | FLink i p nm \<Rightarrow> Some (OpLink (Ino i) (Ino p) nm)
   | FRename p nm q x \<Rightarrow> Some (OpRename (Ino p) nm (Ino q) x)
   | _ \<Rightarrow> None)"

lemma served_query: "served_by (reply_with env f (query g)) None t1 t2"
  by (simp add: served_by_def reply_with_query)

lemma served_ret: "served_by (ret x) None t1 t2" "served_by (query g) None t1 t2"
  by (simp_all add: served_by_def)

lemma fuse_served: "served_by (fuse_handle env now t1 t2 req) (fuse_op now req) t1 t2"
proof (cases req)
  case (FWrite i off d)
  then show ?thesis
    by (cases "sint off < 0") (simp_all add: fuse_op_def fuse_write_def served_ret reply_with_exec)
qed (simp_all add: fuse_op_def fuse_lookup_def fuse_getattr_def fuse_setattr_def fuse_read_def fuse_mkdir_def
      fuse_rmdir_def fuse_readdir_def fuse_create_def fuse_unlink_def fuse_symlink_def fuse_readlink_def
      fuse_link_def fuse_rename_def fuse_open_def fuse_noop_def fuse_statfs_def Let_def
      served_query served_ret reply_with_exec)

lemma fuse_op_sized: "req_sized req \<Longrightarrow> fuse_op now req = Some op \<Longrightarrow> op_sized op"
  by (cases req) (auto simp: fuse_op_def split: if_splits)

lemma fuse_handle_wf:
  assumes wf: "fs_wf s" and sized: "req_sized req"
    and run: "fuse_handle env now t1 t2 req s = (Ok r, s')"
  shows "fs_wf s'" "bytes_limit s' = bytes_limit s"
proof -
  have "fs_wf s' \<and> bytes_limit s' = bytes_limit s"
  proof (cases "fuse_op now req")
    case None
    then show ?thesis using fuse_served [of env now t1 t2 req] run wf by (auto simp: served_by_def)
  next
    case (Some op)
    obtain x where x: "fs_exec op t1 t2 s = (x, s')" and p: "x = Panic \<longrightarrow> Ok r = Panic"
      using fuse_served [of env now t1 t2 req] run unfolding served_by_def Some option.case by blast
    then have "x \<noteq> Panic" by auto
    with x have x: "fs_exec op t1 t2 s = (x, s')" "x \<noteq> Panic" by auto
    show ?thesis
    proof (cases x)
      case (Ok u)
      then show ?thesis using fs_exec_wf [OF wf fuse_op_sized [OF sized Some]] x by simp
    next
      case (Err e)
      then have "s' = s" using fs_exec_err [OF wf] x by metis
      then show ?thesis using wf by simp
    qed (use x in simp)
  qed
  then show "fs_wf s'" "bytes_limit s' = bytes_limit s" by simp_all
qed

section \<open>Directory listing in pages\<close>

lemma add_dirents_prefix:
  "\<exists>k \<le> length es. add_dirents env nxt acc es =
     acc @ map (\<lambda>(j, e). \<lparr>fd_ino = raw (de_ino e), fd_next = nxt + of_nat j, fd_kind = kind_to_ft (de_kind e),
        fd_name = de_name e\<rparr>) (enumerate 0 (take k es))"
proof (induction es arbitrary: nxt acc)
  case Nil
  then show ?case by simp
next
  case (Cons e es)
  let ?d = "\<lparr>fd_ino = raw (de_ino e), fd_next = nxt, fd_kind = kind_to_ft (de_kind e), fd_name = de_name e\<rparr>"
  show ?case
  proof (cases "dir_full env acc ?d")
    case True
    then show ?thesis by (intro exI [of _ 0]) simp
  next
    case False
    from Cons.IH [of "nxt + 1" "acc @ [?d]"] obtain k where k: "k \<le> length es"
      and eq: "add_dirents env (nxt + 1) (acc @ [?d]) es = acc @ [?d] @ map (\<lambda>(j, e). \<lparr>fd_ino = raw (de_ino e),
        fd_next = nxt + 1 + of_nat j, fd_kind = kind_to_ft (de_kind e), fd_name = de_name e\<rparr>) (enumerate 0 (take k es))"
      by auto
    have shift: "enumerate (Suc 0) xs = map (\<lambda>(j, e). (Suc j, e)) (enumerate 0 xs)" for xs :: "dir_entry list"
      by (simp add: enumerate_Suc_eq case_prod_unfold map_prod_def apfst_def)
    show ?thesis
      by (rule exI [of _ "Suc k"])
         (use k False eq shift in \<open>simp add: comp_def case_prod_unfold ac_simps\<close>)
  qed
qed

lemma add_dirents_nonempty:
  "(\<And>d. \<not> dir_full env [] d) \<Longrightarrow> es \<noteq> [] \<Longrightarrow> add_dirents env nxt [] es \<noteq> []"
proof (cases es)
  case (Cons e es')
  assume room: "\<And>d. \<not> dir_full env [] d"
  have "add_dirents env m [d] es' \<noteq> []" for m d
    using add_dirents_prefix [of es' env m "[d]"] by auto
  then show ?thesis using room by (simp add: Cons Let_def)
qed simp

text \<open>
  The kernel lists a directory by asking for pages, each from the offset of the last entry it
  got, until a page is empty.
\<close>

fun list_pages :: "nat \<Rightarrow> fuse_env \<Rightarrow> fs \<Rightarrow> u64 \<Rightarrow> i64 \<Rightarrow> fuse_dirent list option" where
  "list_pages 0 env s i off = None"
| "list_pages (Suc n) env s i off = (case fst (fuse_readdir env i off s) of
     Ok (RDirectory ds) \<Rightarrow>
       (if ds = [] then Some [] else map_option ((@) ds) (list_pages n env s i (fd_next (last ds))))
   | _ \<Rightarrow> None)"

lemma sint_of_nat_small: "n < 2 ^ 63 \<Longrightarrow> sint (of_nat n :: i64) = int n"
  by (simp add: signed_of_nat signed_take_bit_int_eq_self_iff)

lemma readdir_offset:
  assumes "readdir s i 0 = Ok all"
  shows "readdir s i off = Ok (drop (unat off) all)"
  using assms by (auto simp: readdir_def Let_def split: if_splits)

definition dirent_of :: "nat \<Rightarrow> dir_entry \<Rightarrow> fuse_dirent" where
  "dirent_of j e = \<lparr>fd_ino = raw (de_ino e), fd_next = of_nat (Suc j), fd_kind = kind_to_ft (de_kind e),
     fd_name = de_name e\<rparr>"

lemma readdir_page:
  assumes rd: "readdir s (Ino i) 0 = Ok all" and small: "length all < 2 ^ 63" and o: "off \<le> length all"
    and room: "\<And>d. \<not> dir_full env [] d"
  shows "\<exists>k. fst (fuse_readdir env i (of_nat off) s) =
      Ok (RDirectory (map (\<lambda>(j, e). dirent_of j e) (enumerate off (take k (drop off all))))) \<and>
    k \<le> length all - off \<and> (off < length all \<longrightarrow> 0 < k)"
proof -
  have "sint (of_nat off :: i64) = int off" using o small by (intro sint_of_nat_small) simp
  moreover have u: "unat (of_nat off :: i64) = off" using o small by (intro unat_of_nat_small) simp
  ultimately have run: "fst (fuse_readdir env i (of_nat off) s) =
      Ok (RDirectory (add_dirents env (of_nat off + 1) [] (drop off all)))"
    by (simp add: fuse_readdir_def reply_with_def readdir_offset [OF rd])
  obtain k where k: "k \<le> length (drop off all)"
    and eq: "add_dirents env (of_nat off + 1) [] (drop off all) =
      map (\<lambda>(j, e). \<lparr>fd_ino = raw (de_ino e), fd_next = of_nat off + 1 + of_nat j, fd_kind = kind_to_ft (de_kind e),
        fd_name = de_name e\<rparr>) (enumerate 0 (take k (drop off all)))"
    using add_dirents_prefix [of "drop off all" env "of_nat off + 1" "[]"] by auto
  have "enumerate off xs = map (\<lambda>(j, e). (off + j, e)) (enumerate 0 xs)" for xs :: "dir_entry list"
    by (rule nth_equalityI) (simp_all add: nth_enumerate_eq)
  then have page: "add_dirents env (of_nat off + 1) [] (drop off all) =
      map (\<lambda>(j, e). dirent_of j e) (enumerate off (take k (drop off all)))"
    unfolding eq by (simp add: dirent_of_def case_prod_unfold comp_def ac_simps)
  have "0 < k" if "off < length all"
  proof (rule ccontr)
    assume "\<not> 0 < k"
    then have "add_dirents env (of_nat off + 1) [] (drop off all) = []" using page by simp
    then show False using add_dirents_nonempty [OF room, of "drop off all"] that by simp
  qed
  with k run page show ?thesis by auto
qed

lemma list_pages_run:
  assumes rd: "readdir s (Ino i) 0 = Ok all" and small: "length all < 2 ^ 63"
    and room: "\<And>d. \<not> dir_full env [] d"
  shows "off \<le> length all \<Longrightarrow> length all - off < n \<Longrightarrow>
    list_pages n env s i (of_nat off) = Some (map (\<lambda>(j, e). dirent_of j e) (enumerate off (drop off all)))"
proof (induction n arbitrary: off)
  case (Suc n)
  obtain k where page: "fst (fuse_readdir env i (of_nat off) s) =
      Ok (RDirectory (map (\<lambda>(j, e). dirent_of j e) (enumerate off (take k (drop off all)))))"
    and k: "k \<le> length all - off" "off < length all \<longrightarrow> 0 < k"
    using readdir_page [OF rd small Suc.prems(1) room] by blast
  show ?case
  proof (cases "k = 0")
    case True
    then show ?thesis using page k Suc.prems(1) by simp
  next
    case False
    let ?ds = "map (\<lambda>(j, e). dirent_of j e) (enumerate off (take k (drop off all)))"
    have len: "length (take k (drop off all)) = k" using k by simp
    then have ne: "enumerate off (take k (drop off all)) \<noteq> []"
      using False by (metis length_0_conv length_enumerate)
    then have "?ds \<noteq> []" by simp
    have "last (enumerate off (take k (drop off all))) = enumerate off (take k (drop off all)) ! (k - 1)"
      using len by (subst last_conv_nth [OF ne]) simp
    then have "fd_next (last ?ds) = of_nat (off + k)"
      using False len ne by (simp add: last_map nth_enumerate_eq dirent_of_def)
    moreover have "list_pages n env s i (of_nat (off + k)) =
        Some (map (\<lambda>(j, e). dirent_of j e) (enumerate (off + k) (drop (off + k) all)))"
      using Suc.prems k False by (intro Suc.IH) auto
    moreover have "enumerate off (drop off all) =
        enumerate off (take k (drop off all)) @ enumerate (off + k) (drop (off + k) all)"
    proof -
      have "drop off all = take k (drop off all) @ drop (off + k) all"
        by (metis append_take_drop_id drop_drop add.commute)
      then show ?thesis
        using enumerate_append_eq [of off "take k (drop off all)" "drop (off + k) all"] len by metis
    qed
    ultimately show ?thesis using page \<open>?ds \<noteq> []\<close> by simp
  qed
qed simp

text \<open>What a listing holds: the two dot entries, then every name of the directory once.\<close>

definition child_entry :: "fs \<Rightarrow> bytes \<times> ino \<Rightarrow> dir_entry" where
  "child_entry s nc = \<lparr>de_ino = snd nc, de_kind = a_kind (i_attr (the (om_lookup (inodes s) (snd nc)))), de_name = fst nc\<rparr>"

lemma child_dir_entries_run:
  "(\<And>nm c. (nm, c) \<in> set es \<Longrightarrow> om_lookup (inodes s) c \<noteq> None) \<Longrightarrow>
   child_dir_entries s es = Ok (map (child_entry s) es)"
proof (induction es)
  case (Cons x es)
  obtain nm c where x: "x = (nm, c)" by (cases x)
  from Cons.prems [of nm c] obtain n where "om_lookup (inodes s) c = Some n" by (auto simp: x)
  moreover have "child_dir_entries s es = Ok (map (child_entry s) es)"
    by (rule Cons.IH) (use Cons.prems in auto)
  ultimately show ?case by (simp add: x getattr_def get_def child_entry_def)
qed simp

lemma readdir_run:
  assumes wf: "fs_wf s" and n: "om_lookup (inodes s) i = Some n" "i_body n = Dir e"
  shows "readdir s i 0 = Ok (\<lparr>de_ino = i, de_kind = KDirectory, de_name = ''.''\<rparr> #
     \<lparr>de_ino = parent_or_root n, de_kind = KDirectory, de_name = ''..''\<rparr> # map (child_entry s) (om_entries e))"
proof -
  have ok: "tree_ok (tree_of s)" using wf by (simp add: fs_wf_def)
  have "om_lookup (inodes s) c \<noteq> None" if "(nm, c) \<in> set (om_entries e)" for nm c
  proof -
    from that n have "t_ent (tree_of s) (i, nm) = Some c"
      by (auto simp: tree_of_def ent_mtree om_entries_mem)
    from tree_ent_target [OF ok this] show ?thesis by (simp add: node_lookup)
  qed
  then have "child_dir_entries s (om_entries e) = Ok (map (child_entry s) (om_entries e))"
    by (rule child_dir_entries_run)
  then show ?thesis using n by (simp add: readdir_def get_def Let_def)
qed

lemma served_exec:
  assumes "fs_wf s" "fuse_handle env now t1 t2 req s = (Ok r, s')"
  shows "case fuse_op now req of None \<Rightarrow> s' = s
     | Some op \<Rightarrow> \<exists>x. fs_exec op t1 t2 s = (x, s') \<and>
         (\<forall>e. x = Err e \<longrightarrow> s' = s \<and> (\<exists>c. r = RError c))"
proof -
  note sv = fuse_served [of env now t1 t2 req, unfolded served_by_def, rule_format, OF assms(2)]
  show ?thesis
  proof (cases "fuse_op now req")
    case None
    with sv show ?thesis by simp
  next
    case (Some op)
    from sv obtain x where run: "fs_exec op t1 t2 s = (x, s')" and err: "\<forall>e. x = Err e \<longrightarrow> (\<exists>c. Ok r = (Ok (RError c) :: (fuse_reply, errno) result))"
      unfolding Some option.case by blast
    have "s' = s \<and> (\<exists>c. r = RError c)" if x: "x = Err e" for e
      using fs_exec_err [OF assms(1) run [unfolded x]] err [rule_format, OF x] by simp
    then have "\<forall>e. x = Err e \<longrightarrow> s' = s \<and> (\<exists>c. r = RError c)" by (intro allI impI)
    with run show ?thesis unfolding Some option.case by (intro exI [of _ x] conjI)
  qed
qed

end
