(* ===== verification/FuseProps.thy ===== *)
theory FuseProps
  imports MemFsProps FuseDriver
begin

text \<open>
  The properties of the FUSE driver (\<open>driver/fuse.rs\<close>), applied to the filesystem \<open>demo\<close>.
\<close>

definition demo_env :: fuse_env where
  "demo_env = \<lparr>libc = (\<lambda>_. 5), mount_owner = (0, 0), dir_full = (\<lambda>acc d. 1 \<le> length acc)\<rparr>"

text \<open>
  C10: invariant. Every FUSE request leaves the filesystem consistent, whatever it replies,
  and changes it only through the operation that serves it: a request that replies with an
  error number because its operation failed has changed nothing.
\<close>

theorem fuse_requests_safe:
  assumes "fs_wf s" "req_sized req" "fuse_handle env now t1 t2 req s = (Ok r, s')"
  shows "fs_wf s' \<and> bytes_limit s' = bytes_limit s \<and>
    (case fuse_op now req of None \<Rightarrow> s' = s
     | Some op \<Rightarrow> \<exists>x. fs_exec op t1 t2 s = (x, s') \<and>
         (\<forall>e. x = Err e \<longrightarrow> s' = s \<and> (\<exists>c. r = RError c)))"
  using fuse_handle_wf [OF assms] served_exec [OF assms(1,3)] by (intro conjI)

theorem fuse_requests_safe_witness:
  "fs_wf (snd (fuse_handle demo_env (SystemTime 0 0, SystemTime 0 0) epoch epoch (FUnlink 1 ''f'') demo))"
proof -
  let ?h = "fuse_handle demo_env (SystemTime 0 0, SystemTime 0 0) epoch epoch (FUnlink 1 ''f'')"
  have "fst (?h demo) = Ok ROk"
    by (simp add: fuse_unlink_def reply_with_def demo_def eval_simps)
  then have "?h demo = (Ok ROk, snd (?h demo))" by (metis prod.collapse)
  from fuse_requests_safe [OF demo_wf _ this] show ?thesis by simp
qed

text \<open>
  C11: liveness. Listing a directory page by page, with the offset of the last entry of each
  page, ends and gives every entry of \<open>readdir\<close> exactly once and in order, whatever the size of
  the reply buffer, as long as it takes one entry.
\<close>

theorem readdir_pages_complete:
  assumes "readdir s (Ino i) 0 = Ok all" "length all < 2 ^ 63" "\<forall>d. \<not> dir_full env [] d"
  shows "list_pages (Suc (length all)) env s i 0 = Some (map (\<lambda>(j, e). dirent_of j e) (enumerate 0 all))"
  using list_pages_run [OF assms(1,2), of env 0 "Suc (length all)"] assms(3) by simp

theorem readdir_pages_complete_witness:
  "\<exists>ds. list_pages (Suc (Suc (Suc (Suc (Suc 0))))) demo_env demo 1 0 = Some ds \<and> map fd_name ds = [''.'', ''..'', ''d'', ''f'']"
proof -
  have rd: "readdir demo (Ino 1) 0 = Ok [\<lparr>de_ino = Ino 1, de_kind = KDirectory, de_name = ''.''\<rparr>,
      \<lparr>de_ino = Ino 1, de_kind = KDirectory, de_name = ''..''\<rparr>, \<lparr>de_ino = Ino 3, de_kind = KDirectory, de_name = ''d''\<rparr>,
      \<lparr>de_ino = Ino 2, de_kind = KFile, de_name = ''f''\<rparr>]"
    by (simp add: readdir_def demo_def eval_simps parent_or_root_def)
  have "list_pages (Suc (Suc (Suc (Suc (Suc 0))))) demo_env demo 1 0 = Some (map (\<lambda>(j, e). dirent_of j e) (enumerate 0
      [\<lparr>de_ino = Ino 1, de_kind = KDirectory, de_name = ''.''\<rparr>, \<lparr>de_ino = Ino 1, de_kind = KDirectory, de_name = ''..''\<rparr>,
       \<lparr>de_ino = Ino 3, de_kind = KDirectory, de_name = ''d''\<rparr>, \<lparr>de_ino = Ino 2, de_kind = KFile, de_name = ''f''\<rparr>]))"
    using readdir_pages_complete [OF rd, of demo_env] by (simp add: demo_env_def del: list_pages.simps map_eq_conv)
  then show ?thesis by (simp add: dirent_of_def enumerate_simps del: list_pages.simps)
qed

end
