(* ===== verification/WinFsp.thy ===== *)
theory WinFsp
  imports MemFsPath FuseDriver RustStr
begin

text \<open>
  The WinFSP driver, \<open>crates/devdev-workspace/src/driver/winfsp.rs\<close>, with the constants and structs of
  \<open>winfsp_sys.rs\<close>: one callback per request of the kernel, which resolves a UTF-16 path or takes the
  inode number of the handle, calls the filesystem and answers with an \<open>NTSTATUS\<close> and its outputs.
  The security descriptor and the room in a directory buffer are parameters.
\<close>

section \<open>Constants and structs\<close>

definition STATUS_SUCCESS :: i32 where "STATUS_SUCCESS = 0"
definition STATUS_INVALID_PARAMETER :: i32 where "STATUS_INVALID_PARAMETER = 0xC000000D"
definition STATUS_NOT_IMPLEMENTED :: i32 where "STATUS_NOT_IMPLEMENTED = 0xC0000002"
definition STATUS_OBJECT_NAME_NOT_FOUND :: i32 where "STATUS_OBJECT_NAME_NOT_FOUND = 0xC0000034"
definition STATUS_OBJECT_NAME_COLLISION :: i32 where "STATUS_OBJECT_NAME_COLLISION = 0xC0000035"
definition STATUS_NOT_A_DIRECTORY :: i32 where "STATUS_NOT_A_DIRECTORY = 0xC0000103"
definition STATUS_FILE_IS_A_DIRECTORY :: i32 where "STATUS_FILE_IS_A_DIRECTORY = 0xC00000BA"
definition STATUS_DIRECTORY_NOT_EMPTY :: i32 where "STATUS_DIRECTORY_NOT_EMPTY = 0xC0000101"
definition STATUS_NAME_TOO_LONG :: i32 where "STATUS_NAME_TOO_LONG = 0xC0000106"
definition STATUS_IO_DEVICE_ERROR :: i32 where "STATUS_IO_DEVICE_ERROR = 0xC0000185"
definition STATUS_ACCESS_DENIED :: i32 where "STATUS_ACCESS_DENIED = 0xC0000022"
definition STATUS_DISK_FULL :: i32 where "STATUS_DISK_FULL = 0xC000007F"
definition STATUS_INVALID_HANDLE :: i32 where "STATUS_INVALID_HANDLE = 0xC0000008"
definition STATUS_BUFFER_OVERFLOW :: i32 where "STATUS_BUFFER_OVERFLOW = 0x80000005"
definition STATUS_END_OF_FILE :: i32 where "STATUS_END_OF_FILE = 0xC0000011"

definition FILE_ATTRIBUTE_DIRECTORY :: u32 where "FILE_ATTRIBUTE_DIRECTORY = 0x10"
definition FILE_ATTRIBUTE_NORMAL :: u32 where "FILE_ATTRIBUTE_NORMAL = 0x80"
definition FILE_ATTRIBUTE_REPARSE_POINT :: u32 where "FILE_ATTRIBUTE_REPARSE_POINT = 0x400"

definition FspCleanupDelete :: u32 where "FspCleanupDelete = 1"
definition FILE_DIRECTORY_FILE :: u32 where "FILE_DIRECTORY_FILE = 1"
definition FILETIME_UNIX_EPOCH_DELTA :: u64 where "FILETIME_UNIX_EPOCH_DELTA = 116444736000000000"

text \<open>The size of \<open>FSP_FSCTL_DIR_INFO\<close>, in its C layout, before the name.\<close>

definition DIR_INFO_SIZE :: nat where "DIR_INFO_SIZE = 104"

record file_info =
  fi_attributes :: u32
  fi_reparse_tag :: u32
  fi_allocation_size :: u64
  fi_size :: u64
  fi_creation :: u64
  fi_last_access :: u64
  fi_last_write :: u64
  fi_change :: u64
  fi_index :: u64
  fi_hard_links :: u32
  fi_ea_size :: u32

record win_dirent =
  wd_size :: u16
  wd_info :: file_info
  wd_name :: "nat list"  \<comment> \<open>UTF-16\<close>

record win_env =
  sd_len :: u64
  dir_room :: "win_dirent list \<Rightarrow> win_dirent \<Rightarrow> bool"

text \<open>A status alone, or success with the outputs that were written.\<close>

datatype win_reply =
    WinStatus i32
  | WinVolume u64 u64
  | WinSecurity i32 "u32 option" "u64 option"
  | WinOpened u64 file_info
  | WinInfo file_info
  | WinData bytes
  | WinWritten u32 file_info
  | WinDir "win_dirent list" bool  \<comment> \<open>and whether the end was marked\<close>

section \<open>Translations\<close>

text \<open>A \<open>PWSTR\<close>: null, or units of which the first zero ends the string.\<close>

type_synonym pwstr = "nat list option"

definition wide_to_slice :: "nat list \<Rightarrow> nat list" where
  "wide_to_slice ws = takeWhile (\<lambda>u. u \<noteq> 0) ws"

definition slashes :: "bytes \<Rightarrow> bytes" where
  "slashes s = map (\<lambda>b. if b = CHR 0x5C then CHR ''/'' else b) s"

definition pwstr_to_fs_path :: "pwstr \<Rightarrow> bytes option" where
  "pwstr_to_fs_path p = Option.bind p (\<lambda>ws.
     Option.bind (utf16_decode (wide_to_slice ws)) (\<lambda>cps.
     let s = utf8_encode cps in
     Some ((if \<not> starts_with s [CHR 0x5C] \<and> \<not> starts_with s ''/'' then ''/'' else []) @ slashes s)))"

text \<open>A string written into a buffer of units, ended by a zero when it does not fill it.\<close>

definition write_wchar_buf :: "nat list \<Rightarrow> nat list \<Rightarrow> nat list" where
  "write_wchar_buf buf cps = (let wide = utf16_encode cps; n = min (length wide) (length buf);
     buf = take n wide @ drop n buf in if n < length buf then buf[n := 0] else buf)"

fun errno_to_ntstatus :: "errno \<Rightarrow> i32" where
  "errno_to_ntstatus NoEnt = STATUS_OBJECT_NAME_NOT_FOUND"
| "errno_to_ntstatus Exist = STATUS_OBJECT_NAME_COLLISION"
| "errno_to_ntstatus NotDir = STATUS_NOT_A_DIRECTORY"
| "errno_to_ntstatus IsDir = STATUS_FILE_IS_A_DIRECTORY"
| "errno_to_ntstatus NotEmpty = STATUS_DIRECTORY_NOT_EMPTY"
| "errno_to_ntstatus NameTooLong = STATUS_NAME_TOO_LONG"
| "errno_to_ntstatus Io = STATUS_IO_DEVICE_ERROR"
| "errno_to_ntstatus NoSpc = STATUS_DISK_FULL"
| "errno_to_ntstatus Acces = STATUS_ACCESS_DENIED"
| "errno_to_ntstatus BadF = STATUS_INVALID_HANDLE"
| "errno_to_ntstatus NoSys = STATUS_NOT_IMPLEMENTED"
| "errno_to_ntstatus Inval = STATUS_INVALID_PARAMETER"
| "errno_to_ntstatus Mlink = STATUS_INVALID_PARAMETER"

definition saturating_mul :: "'a::len word \<Rightarrow> 'a word \<Rightarrow> 'a word" where
  "saturating_mul a b = (if unat a * unat b < 2 ^ LENGTH('a) then a * b else - 1)"

text \<open>Ticks of 100 nanoseconds since 1601.\<close>

definition ts_to_filetime :: "timespec \<Rightarrow> u64" where
  "ts_to_filetime t = (let s = (if sint (secs t) < 0 then 0 else secs t) in
     saturating_add (saturating_add (saturating_mul s 10000000) (ucast (nanos t) div 100)) FILETIME_UNIX_EPOCH_DELTA)"

definition filetime_to_ts :: "u64 \<Rightarrow> timespec" where
  "filetime_to_ts ft = (if ft < FILETIME_UNIX_EPOCH_DELTA then timespec_default
     else let rel = ft - FILETIME_UNIX_EPOCH_DELTA in
       \<lparr>secs = rel div 10000000, nanos = ucast (rel mod 10000000 * 100)\<rparr>)"

text \<open>The argument is the sample of the clock since 1970, zero when it is before.\<close>

definition now_filetime :: "u64 \<Rightarrow> u32 \<Rightarrow> u64" where
  "now_filetime s ns = saturating_add (saturating_add (saturating_mul s 10000000) (ucast ns div 100)) FILETIME_UNIX_EPOCH_DELTA"

fun kind_attributes :: "kind \<Rightarrow> u32" where
  "kind_attributes KDirectory = FILE_ATTRIBUTE_DIRECTORY"
| "kind_attributes KFile = FILE_ATTRIBUTE_NORMAL"
| "kind_attributes KSymlink = FILE_ATTRIBUTE_REPARSE_POINT"

text \<open>The size rounded up to clusters of 4096 bytes, which may overflow.\<close>

definition fill_file_info :: "inode_attr \<Rightarrow> (file_info, errno) result" where
  "fill_file_info attr =
     (if 2 ^ 64 \<le> unat (div_ceil (a_size attr) 4096) * 4096 then Panic
      else Ok \<lparr>fi_attributes = kind_attributes (a_kind attr), fi_reparse_tag = 0,
        fi_allocation_size = div_ceil (a_size attr) 4096 * 4096, fi_size = a_size attr,
        fi_creation = ts_to_filetime (a_crtime attr), fi_last_access = ts_to_filetime (a_atime attr),
        fi_last_write = ts_to_filetime (a_mtime attr), fi_change = ts_to_filetime (a_ctime attr),
        fi_index = raw (a_ino attr), fi_hard_links = 0, fi_ea_size = 0\<rparr>)"

definition split_parent :: "bytes \<Rightarrow> bytes \<times> bytes" where
  "split_parent path = (case rsplit_once path (CHR ''/'') of
     Some (p, name) \<Rightarrow> (if p = [] then (''/'', name) else (p, name))
   | None \<Rightarrow> (''/'', path))"

section \<open>Callbacks\<close>

text \<open>A result of the filesystem becomes a reply, an error its status.\<close>

definition win_with :: "('a \<Rightarrow> (win_reply, errno) result) \<Rightarrow> 'a fs_prog \<Rightarrow> win_reply fs_prog" where
  "win_with f m s = (case m s of
     (Ok x, s') \<Rightarrow> (case f x of Ok r \<Rightarrow> (Ok r, s') | Err e \<Rightarrow> (Ok (WinStatus (errno_to_ntstatus e)), s') | Panic \<Rightarrow> (Panic, s'))
   | (Err e, s') \<Rightarrow> (Ok (WinStatus (errno_to_ntstatus e)), s')
   | (Panic, s') \<Rightarrow> (Panic, s'))"

definition win_info :: "inode_attr \<Rightarrow> (win_reply, errno) result" where
  "win_info a = res_bind (fill_file_info a) (\<lambda>fi. Ok (WinInfo fi))"

definition win_opened :: "inode_attr \<Rightarrow> (win_reply, errno) result" where
  "win_opened a = res_bind (fill_file_info a) (\<lambda>fi. Ok (WinOpened (raw (a_ino a)) fi))"

definition cb_get_volume_info :: "win_reply fs_prog" where
  "cb_get_volume_info s = (Ok (WinVolume (bytes_limit s) (saturating_sub (bytes_limit s) (bytes_used s))), s)"

text \<open>Whether the attributes and the descriptor are asked for, and the room for the descriptor.\<close>

definition cb_get_security_by_name :: "win_env \<Rightarrow> pwstr \<Rightarrow> bool \<Rightarrow> bool \<Rightarrow> u64 option \<Rightarrow> win_reply fs_prog" where
  "cb_get_security_by_name env name want_attrs sd_null sd_size =
     (case pwstr_to_fs_path name of
        None \<Rightarrow> ret (WinStatus STATUS_INVALID_PARAMETER)
      | Some path \<Rightarrow> win_with (\<lambda>attr.
          let attrs = (if want_attrs then Some (kind_attributes (a_kind attr)) else None) in
          case sd_size of
            None \<Rightarrow> Ok (WinSecurity STATUS_SUCCESS attrs None)
          | Some have \<Rightarrow> Ok (WinSecurity (if sd_null \<or> have < sd_len env then STATUS_BUFFER_OVERFLOW else STATUS_SUCCESS) attrs (Some (sd_len env))))
          (query (\<lambda>s. res_bind (resolve s path) (getattr s))))"

definition cb_open :: "pwstr \<Rightarrow> win_reply fs_prog" where
  "cb_open name = (case pwstr_to_fs_path name of
     None \<Rightarrow> ret (WinStatus STATUS_INVALID_PARAMETER)
   | Some path \<Rightarrow> win_with (\<lambda>(i, attr). res_bind (fill_file_info attr) (\<lambda>fi. Ok (WinOpened (raw i) fi)))
       (query (\<lambda>s. res_bind (resolve s path) (\<lambda>i. res_bind (getattr s i) (\<lambda>a. Ok (i, a))))))"

definition cb_create :: "pwstr \<Rightarrow> u32 \<Rightarrow> timespec \<Rightarrow> win_reply fs_prog" where
  "cb_create name create_options now = (case pwstr_to_fs_path name of
     None \<Rightarrow> ret (WinStatus STATUS_INVALID_PARAMETER)
   | Some path \<Rightarrow> (case split_parent path of (parent_path, name) \<Rightarrow>
       if name = [] then ret (WinStatus STATUS_OBJECT_NAME_COLLISION)
       else win_with win_opened
         (and_then (query (\<lambda>s. resolve s parent_path)) (\<lambda>parent.
          if create_options AND FILE_DIRECTORY_FILE \<noteq> 0 then mkdir parent name MODE_755 now
          else create parent name MODE_644 now))))"

definition cb_overwrite :: "u64 \<Rightarrow> timespec \<Rightarrow> timespec \<Rightarrow> win_reply fs_prog" where
  "cb_overwrite ctx t1 t2 = win_with win_info (setattr (Ino ctx) (set_attr_default\<lparr>sa_size := Some 0\<rparr>) t1 t2)"

text \<open>The outcome of the removal is dropped.\<close>

definition cb_cleanup :: "u64 \<Rightarrow> pwstr \<Rightarrow> u32 \<Rightarrow> timespec \<Rightarrow> win_reply fs_prog" where
  "cb_cleanup ctx name flags now =
     (if flags AND FspCleanupDelete \<noteq> 0 then
        (case pwstr_to_fs_path name of
           None \<Rightarrow> ret (WinStatus STATUS_SUCCESS)
         | Some path \<Rightarrow> (case split_parent path of (parent_path, name) \<Rightarrow>
             (\<lambda>s. case and_then (query (\<lambda>s. resolve s parent_path)) (\<lambda>parent.
                 and_then (query (\<lambda>s. getattr s (Ino ctx))) (\<lambda>attr.
                 if a_kind attr = KDirectory then rmdir parent name now else unlink parent name now)) s of
               (Panic, s') \<Rightarrow> (Panic, s')
             | (_, s') \<Rightarrow> (Ok (WinStatus STATUS_SUCCESS), s'))))
      else ret (WinStatus STATUS_SUCCESS))"

definition cb_close :: "win_reply fs_prog" where
  "cb_close = ret (WinStatus STATUS_SUCCESS)"

definition cb_read :: "u64 \<Rightarrow> u64 \<Rightarrow> u32 \<Rightarrow> win_reply fs_prog" where
  "cb_read ctx offset len = win_with Ok (query (\<lambda>s.
     res_bind (getattr s (Ino ctx)) (\<lambda>attr.
     if a_size attr \<le> offset then Ok (WinStatus STATUS_END_OF_FILE)
     else res_bind (read s (Ino ctx) offset len) (\<lambda>data. Ok (WinData data)))))"

text \<open>The flags for the end of the file and for writes that may not extend it are not looked at.\<close>

definition cb_write :: "u64 \<Rightarrow> bytes \<Rightarrow> u64 \<Rightarrow> timespec \<Rightarrow> win_reply fs_prog" where
  "cb_write ctx data offset now = win_with (\<lambda>(n, a). res_bind (fill_file_info a) (\<lambda>fi. Ok (WinWritten n fi)))
     (and_then (write_bytes (Ino ctx) offset data now) (\<lambda>n.
      and_then (query (\<lambda>s. getattr s (Ino ctx))) (\<lambda>a. ret (n, a))))"

definition cb_get_file_info :: "u64 \<Rightarrow> win_reply fs_prog" where
  "cb_get_file_info ctx = win_with win_info (query (\<lambda>s. getattr s (Ino ctx)))"

definition cb_flush :: "u64 \<Rightarrow> bool \<Rightarrow> win_reply fs_prog" where
  "cb_flush ctx info_null = (if info_null \<or> ctx = 0 then ret (WinStatus STATUS_SUCCESS) else cb_get_file_info ctx)"

definition nonzero_time :: "u64 \<Rightarrow> timespec option" where
  "nonzero_time ft = (if ft \<noteq> 0 then Some (filetime_to_ts ft) else None)"

definition cb_set_basic_info :: "u64 \<Rightarrow> u64 \<Rightarrow> u64 \<Rightarrow> u64 \<Rightarrow> timespec \<Rightarrow> timespec \<Rightarrow> win_reply fs_prog" where
  "cb_set_basic_info ctx last_access last_write change t1 t2 = win_with win_info
     (setattr (Ino ctx) (set_attr_default\<lparr>sa_atime := nonzero_time last_access, sa_mtime := nonzero_time last_write,
        sa_ctime := nonzero_time change\<rparr>) t1 t2)"

definition cb_set_file_size :: "u64 \<Rightarrow> u64 \<Rightarrow> bool \<Rightarrow> timespec \<Rightarrow> timespec \<Rightarrow> win_reply fs_prog" where
  "cb_set_file_size ctx new_size allocation t1 t2 =
     (if allocation then cb_get_file_info ctx
      else win_with win_info (setattr (Ino ctx) (set_attr_default\<lparr>sa_size := Some new_size\<rparr>) t1 t2))"

definition cb_can_delete :: "u64 \<Rightarrow> win_reply fs_prog" where
  "cb_can_delete ctx = win_with Ok (query (\<lambda>s.
     res_bind (getattr s (Ino ctx)) (\<lambda>attr.
     if a_kind attr = KDirectory then
       res_bind (readdir s (Ino ctx) 0) (\<lambda>entries.
       Ok (WinStatus (if filter (\<lambda>e. de_name e \<noteq> ''.'' \<and> de_name e \<noteq> ''..'') entries = [] then STATUS_SUCCESS
         else STATUS_DIRECTORY_NOT_EMPTY)))
     else Ok (WinStatus STATUS_SUCCESS))))"

definition cb_rename :: "pwstr \<Rightarrow> pwstr \<Rightarrow> timespec \<Rightarrow> timespec \<Rightarrow> win_reply fs_prog" where
  "cb_rename name new_name t1 t2 = (case (pwstr_to_fs_path name, pwstr_to_fs_path new_name) of
     (Some src, Some dst) \<Rightarrow> (case (split_parent src, split_parent dst) of ((sp, sn), (dp, dn)) \<Rightarrow>
       win_with (\<lambda>_. Ok (WinStatus STATUS_SUCCESS))
         (and_then (query (\<lambda>s. resolve s sp)) (\<lambda>p.
          and_then (query (\<lambda>s. resolve s dp)) (\<lambda>q.
          rename p sn q dn t1 t2))))
   | _ \<Rightarrow> ret (WinStatus STATUS_INVALID_PARAMETER))"

text \<open>
  The loop over the entries: those up to the marker are skipped, and those without attributes or
  whose name is not text; it ends when the buffer has no room.
\<close>

fun win_entries :: "win_env \<Rightarrow> bytes option \<Rightarrow> bool \<Rightarrow> win_dirent list \<Rightarrow> (dir_entry \<times> inode_attr option) list \<Rightarrow>
    (win_reply, errno) result" where
  "win_entries env marker past acc [] = Ok (WinDir acc True)"
| "win_entries env marker past acc ((e, a) # es) =
     (if \<not> past then win_entries env marker (de_name e = (case marker of Some m \<Rightarrow> m | None \<Rightarrow> [])) acc es
      else case (a, utf8_decode (de_name e)) of
        (Some attr, Some cps) \<Rightarrow> res_bind (fill_file_info attr) (\<lambda>fi.
          let name = utf16_encode cps;
              d = \<lparr>wd_size = of_nat (DIR_INFO_SIZE + 2 * length name), wd_info = fi, wd_name = name\<rparr> in
          if dir_room env acc d then win_entries env marker True (acc @ [d]) es else Ok (WinDir acc False))
      | _ \<Rightarrow> win_entries env marker True acc es)"

fun get_ok :: "('a, 'e) result \<Rightarrow> 'a option" where
  "get_ok (Ok x) = Some x"
| "get_ok _ = None"

text \<open>A marker that is not UTF-16 counts as none.\<close>

definition marker_bytes :: "pwstr \<Rightarrow> bytes option" where
  "marker_bytes m = Option.bind m (\<lambda>ws. map_option utf8_encode (utf16_decode (wide_to_slice ws)))"

definition cb_read_directory :: "win_env \<Rightarrow> u64 \<Rightarrow> pwstr \<Rightarrow> win_reply fs_prog" where
  "cb_read_directory env ctx marker = win_with Ok (query (\<lambda>s.
     res_bind (readdir s (Ino ctx) 0) (\<lambda>entries.
     win_entries env (marker_bytes marker) (marker_bytes marker = None) [] (map (\<lambda>e. (e, get_ok (getattr s (de_ino e)))) entries))))"

section \<open>Drive letters\<close>

text \<open>The bits of \<open>GetLogicalDrives\<close> are the letters in use.\<close>

definition pick_free_drive_letter :: "u32 \<Rightarrow> char option" where
  "pick_free_drive_letter drives = map_option char_of
     (find (\<lambda>b. drives AND push_bit (b - 65) 1 = 0) (rev [68..<91]))"

definition mount_auto_point :: "u32 \<Rightarrow> bytes option" where
  "mount_auto_point drives = map_option (\<lambda>c. [c] @ '':'') (pick_free_drive_letter drives)"

end
