(* ===== verification/WinFspProps.thy ===== *)
theory WinFspProps
  imports WinFsp MemFsProps
begin

text \<open>
  The properties of the WinFSP driver: its listings, its times and its deletions, applied to the
  filesystem \<open>demo\<close>.
\<close>

section \<open>Listings\<close>

text \<open>An entry is shown when it has attributes and its name is text.\<close>

definition shown :: "fs \<Rightarrow> dir_entry \<Rightarrow> bool" where
  "shown s e \<longleftrightarrow> utf8_decode (de_name e) \<noteq> None \<and> get_ok (getattr s (de_ino e)) \<noteq> None"

definition shown_info :: "inode_attr \<Rightarrow> file_info" where
  "shown_info a = (case fill_file_info a of Ok fi \<Rightarrow> fi)"

definition shown_as :: "fs \<Rightarrow> dir_entry \<Rightarrow> win_dirent" where
  "shown_as s e = (let name = utf16_encode (the (utf8_decode (de_name e))) in
     \<lparr>wd_size = of_nat (DIR_INFO_SIZE + 2 * length name), wd_info = shown_info (the (get_ok (getattr s (de_ino e)))), wd_name = name\<rparr>)"

abbreviation with_attrs :: "fs \<Rightarrow> dir_entry list \<Rightarrow> (dir_entry \<times> inode_attr option) list" where
  "with_attrs s es \<equiv> map (\<lambda>e. (e, get_ok (getattr s (de_ino e)))) es"

definition sizes_ok :: "fs \<Rightarrow> dir_entry list \<Rightarrow> bool" where
  "sizes_ok s es \<longleftrightarrow> (\<forall>e \<in> set es. \<forall>a. get_ok (getattr s (de_ino e)) = Some a \<longrightarrow> unat (a_size a) \<le> 2 ^ 63)"

lemma fill_ok: "unat (a_size a) \<le> 2 ^ 63 \<Longrightarrow> fill_file_info a = Ok (shown_info a)"
proof -
  assume sz: "unat (a_size a) \<le> 2 ^ 63"
  have "unat (div_ceil (a_size a) 4096) \<le> (unat (a_size a) + 4095) div 4096"
    by (simp add: div_ceil_def unat_of_nat)
  also have "\<dots> \<le> 2 ^ 51" using sz by simp
  finally have "\<not> 2 ^ 64 \<le> unat (div_ceil (a_size a) 4096) * 4096" by simp
  then show ?thesis by (simp add: shown_info_def fill_file_info_def)
qed

lemma win_entries_past: "win_entries env m True acc es = win_entries env m' True acc es"
proof (induction es arbitrary: acc)
  case (Cons x es)
  then show ?case by (cases x) (simp add: Let_def split: option.split cong: if_cong)
qed simp

lemma win_entries_skip:
  "de_name z \<notin> de_name ` set a \<Longrightarrow>
   win_entries env (Some (de_name z)) False acc (with_attrs s (a @ z # b)) = win_entries env None True acc (with_attrs s b)"
  by (induction a) (auto intro: win_entries_past)

text \<open>A page is a first part of what is shown; the next entry did not fit, or there is none.\<close>

lemma win_entries_page:
  assumes "sizes_ok s es"
  shows "\<exists>es1 es2 fin. es = es1 @ es2 \<and>
    win_entries env m True acc (with_attrs s es) = Ok (WinDir (acc @ map (shown_as s) (filter (shown s) es1)) fin) \<and>
    (if fin then es2 = [] else \<exists>e es'. es2 = e # es' \<and> shown s e \<and> \<not> dir_room env (acc @ map (shown_as s) (filter (shown s) es1)) (shown_as s e))"
  using assms
proof (induction es arbitrary: acc)
  case (Cons e es)
  have ok: "sizes_ok s es" using Cons.prems by (simp add: sizes_ok_def)
  show ?case
  proof (cases "shown s e")
    case False
    then have w: "win_entries env m True acc (with_attrs s (e # es)) = win_entries env m True acc (with_attrs s es)"
      by (auto simp: shown_def split: option.split)
    from Cons.IH [OF ok, of acc] obtain es1 es2 fin where i: "es = es1 @ es2"
      "win_entries env m True acc (with_attrs s es) = Ok (WinDir (acc @ map (shown_as s) (filter (shown s) es1)) fin)"
      "if fin then es2 = [] else \<exists>e es'. es2 = e # es' \<and> shown s e \<and> \<not> dir_room env (acc @ map (shown_as s) (filter (shown s) es1)) (shown_as s e)"
      by blast
    then show ?thesis using False w by - (rule exI [of _ "e # es1"], rule exI [of _ es2], rule exI [of _ fin], (cases fin; simp del: win_entries.simps))
  next
    case True
    then obtain a cps where a: "get_ok (getattr s (de_ino e)) = Some a" "utf8_decode (de_name e) = Some cps" by (auto simp: shown_def)
    have f: "fill_file_info a = Ok (shown_info a)" using Cons.prems a(1) by (intro fill_ok) (simp add: sizes_ok_def)
    have w: "win_entries env m True acc (with_attrs s (e # es)) = (if dir_room env acc (shown_as s e)
        then win_entries env m True (acc @ [shown_as s e]) (with_attrs s es) else Ok (WinDir acc False))"
      by (simp add: a f shown_as_def Let_def)
    show ?thesis
    proof (cases "dir_room env acc (shown_as s e)")
      case False
      then show ?thesis using w True by - (rule exI [of _ "[]"], rule exI [of _ "e # es"], rule exI [of _ False], simp del: win_entries.simps)
    next
      case room: True
      from Cons.IH [OF ok, of "acc @ [shown_as s e]"] obtain es1 es2 fin where i: "es = es1 @ es2"
        "win_entries env m True (acc @ [shown_as s e]) (with_attrs s es) = Ok (WinDir ((acc @ [shown_as s e]) @ map (shown_as s) (filter (shown s) es1)) fin)"
        "if fin then es2 = [] else \<exists>e' es'. es2 = e' # es' \<and> shown s e' \<and>
           \<not> dir_room env ((acc @ [shown_as s e]) @ map (shown_as s) (filter (shown s) es1)) (shown_as s e')"
        by blast
      then show ?thesis using True w room by - (rule exI [of _ "e # es1"], rule exI [of _ es2], rule exI [of _ fin], (cases fin; simp del: win_entries.simps))
    qed
  qed
qed (auto intro: exI [of _ "[]"])

text \<open>The kernel asks on with the last name it got.\<close>

fun list_win_pages :: "nat \<Rightarrow> win_env \<Rightarrow> fs \<Rightarrow> u64 \<Rightarrow> pwstr \<Rightarrow> win_dirent list option" where
  "list_win_pages 0 env s i m = None"
| "list_win_pages (Suc k) env s i m = (case cb_read_directory env i m s of
     (Ok (WinDir ds fin), s') \<Rightarrow> (if fin then Some ds else if ds = [] then None
       else map_option ((@) ds) (list_win_pages k env s i (Some (wd_name (last ds)))))
   | _ \<Rightarrow> None)"

lemma win_with_query: "win_with Ok (query g) s = (case g s of Ok r \<Rightarrow> (Ok r, s) | Err e \<Rightarrow> (Ok (WinStatus (errno_to_ntstatus e)), s) | Panic \<Rightarrow> (Panic, s))"
  by (simp add: win_with_def split: result.split)

lemma utf16_nonzero: "0 \<notin> set cps \<Longrightarrow> takeWhile (\<lambda>u. u \<noteq> 0) (utf16_encode cps) = utf16_encode cps"
  by (auto simp: takeWhile_eq_all_conv utf16_encode_def utf16_char_def split: if_splits) (metis gr0I)

lemma marker_of_shown:
  assumes "shown s e" "CHR 0x00 \<notin> set (de_name e)"
  shows "marker_bytes (Some (wd_name (shown_as s e))) = Some (de_name e)"
proof -
  obtain cps where c: "utf8_decode (de_name e) = Some cps" using assms(1) by (auto simp: shown_def)
  note b = utf8_back [OF c]
  have "wd_name (shown_as s e) = utf16_encode cps" by (simp add: shown_as_def c Let_def)
  moreover have "wide_to_slice (utf16_encode cps) = utf16_encode cps"
    unfolding wide_to_slice_def by (rule utf16_nonzero) (rule b(3) [OF assms(2)])
  ultimately show ?thesis using b(1) utf16_roundtrip [OF b(2)] by (simp add: marker_bytes_def)
qed

lemma list_win_pages_run:
  assumes all: "readdir s (Ino i) 0 = Ok all" and sz: "sizes_ok s all" and d: "distinct (map de_name all)"
    and nul: "\<forall>e \<in> set all. CHR 0x00 \<notin> set (de_name e)" and room: "\<forall>x. dir_room env [] x"
    and at: "all = a @ b" "cb_read_directory env i m s = win_with Ok (query (\<lambda>s. win_entries env None True [] (with_attrs s b))) s"
    and k: "length (filter (shown s) b) < k"
  shows "list_win_pages k env s i m = Some (map (shown_as s) (filter (shown s) b))"
  using at k
proof (induction k arbitrary: a b m)
  case (Suc k)
  have "sizes_ok s b" using sz Suc.prems(1) by (auto simp: sizes_ok_def)
  from win_entries_page [OF this, of env None "[]"] obtain b1 b2 fin where b: "b = b1 @ b2"
    "win_entries env None True [] (with_attrs s b) = Ok (WinDir ([] @ map (shown_as s) (filter (shown s) b1)) fin)"
    "if fin then b2 = [] else \<exists>e es'. b2 = e # es' \<and> shown s e \<and> \<not> dir_room env ([] @ map (shown_as s) (filter (shown s) b1)) (shown_as s e)"
    by blast
  have p: "cb_read_directory env i m s = (Ok (WinDir (map (shown_as s) (filter (shown s) b1)) fin), s)"
    unfolding Suc.prems(2) win_with_query using b(2) by simp
  show ?case
  proof (cases fin)
    case True
    then show ?thesis using p b by simp
  next
    case False
    let ?f = "filter (shown s) b1"
    have ne: "?f \<noteq> []" using b(3) False room by fastforce
    then have "\<exists>x \<in> set b1. shown s x" by (auto simp: filter_empty_conv)
    then obtain c z junk where cj: "b1 = c @ z # junk" "\<forall>e \<in> set junk. \<not> shown s e" and "shown s z"
      using split_list_last_prop [of b1 "shown s"] by blast
    then have z: "z \<in> set b1" "last ?f = z" by (auto simp: filter_empty_conv)
    have m: "marker_bytes (Some (wd_name (shown_as s z))) = Some (de_name z)"
      using \<open>shown s z\<close> nul z(1) Suc.prems(1) b(1) by (intro marker_of_shown) auto
    have e: "all = (a @ c) @ z # (junk @ b2)" using Suc.prems(1) b(1) cj(1) by simp
    have "de_name z \<notin> de_name ` set (a @ c)" using d unfolding e by auto
    then have n: "cb_read_directory env i (Some (wd_name (shown_as s z))) s = win_with Ok (query (\<lambda>s. win_entries env None True [] (with_attrs s (junk @ b2)))) s"
      unfolding cb_read_directory_def win_with_query using all win_entries_skip [of z "a @ c" env "[]" s "junk @ b2"]
      by (simp add: m e del: win_entries.simps map_append)
    have j: "filter (shown s) junk = []" using cj(2) by (simp add: filter_empty_conv)
    have "length (filter (shown s) (junk @ b2)) < k" using Suc.prems(3) b(1) cj(1) \<open>shown s z\<close> j by simp
    from Suc.IH [OF _ n this, of "a @ c @ [z]"] have
      "list_win_pages k env s i (Some (wd_name (shown_as s z))) = Some (map (shown_as s) (filter (shown s) (junk @ b2)))"
      using e by simp
    then show ?thesis using p False ne b(1) j by (simp add: last_map z(2))
  qed
qed simp

section \<open>Deleting\<close>

text \<open>A directory that lists nothing but the dot entries has no names.\<close>

lemma listed_empty:
  assumes wf: "fs_wf s" and n: "om_lookup (inodes s) i = Some n" "i_body n = Dir es"
    and all: "readdir s i 0 = Ok all" "filter (\<lambda>e. de_name e \<noteq> ''.'' \<and> de_name e \<noteq> ''..'') all = []"
  shows "t_ent (tree_of s) (i, nm) = None"
proof (rule ccontr)
  have ok: "tree_ok (tree_of s)" using wf by (simp add: fs_wf_def)
  assume "t_ent (tree_of s) (i, nm) \<noteq> None"
  then obtain c where c: "t_ent (tree_of s) (i, nm) = Some c" by blast
  then have "validate_name nm = Ok ()" by (rule tree_ent_name [OF ok])
  then have name: "nm \<noteq> ''.''" "nm \<noteq> ''..''" by (auto simp: validate_name_def)
  have "(nm, c) \<in> set (om_entries es)"
    using c n by (auto simp: tree_of_def ent_mtree om_entries_mem)
  then have "child_entry s (nm, c) \<in> set all" using all(1) readdir_run [OF wf n] by auto
  moreover have "de_name (child_entry s (nm, c)) = nm" by (simp add: child_entry_def)
  ultimately have "child_entry s (nm, c) \<in> set (filter (\<lambda>e. de_name e \<noteq> ''.'' \<and> de_name e \<noteq> ''..'') all)"
    using name by simp
  with all(2) show False by simp
qed

lemma kind_of_node:
  assumes "fs_wf s" "om_lookup (inodes s) i = Some n"
  shows "a_kind (i_attr n) = KDirectory \<longleftrightarrow> is_Dir (i_body n)" "t_isdir (tree_of s) i \<longleftrightarrow> is_Dir (i_body n)"
  using wf_node_ok [OF assms] assms(2) by (cases "i_body n"; simp add: node_ok_def isdir_lookup)+

text \<open>What \<open>CanDelete\<close> accepts, the removal of the name accepts.\<close>

lemma can_delete_allows:
  assumes wf: "fs_wf s" and e: "t_ent (tree_of s) (p, nm) = Some i"
    and can: "cb_can_delete (raw i) s = (Ok (WinStatus STATUS_SUCCESS), s)" and n: "om_lookup (inodes s) i = Some n"
  shows "t_deny (tree_of s) room (if is_Dir (i_body n) then OpRmdir p nm else OpUnlink p nm) = None"
proof -
  have ok: "tree_ok (tree_of s)" using wf by (simp add: fs_wf_def)
  have d: "t_isdir (tree_of s) p" "validate_name nm = Ok ()" using tree_ent_dir [OF ok e] tree_ent_name [OF ok e] by simp_all
  then have dn: "deny_name nm = None" "deny_old (tree_of s) p nm = None"
    using e by (auto simp: deny_name_def deny_old_def deny_dir_def refuse_def t_isdir_def first_deny_Cons)
  show ?thesis
  proof (cases "i_body n")
    case (Dir es)
    then have "a_kind (i_attr n) = KDirectory" using kind_of_node(1) [OF wf n] by simp
    moreover have "STATUS_DIRECTORY_NOT_EMPTY \<noteq> STATUS_SUCCESS" by (simp add: STATUS_DIRECTORY_NOT_EMPTY_def STATUS_SUCCESS_def)
    ultimately have "filter (\<lambda>e. de_name e \<noteq> ''.'' \<and> de_name e \<noteq> ''..'') all = []" if "readdir s i 0 = Ok all" for all
      using can n that by (auto simp: cb_can_delete_def win_with_query getattr_def get_def split: if_splits)
    then have "t_ent (tree_of s) (i, x) = None" for x
      using listed_empty [OF wf n Dir] readdir_run [OF wf n Dir] by blast
    then show ?thesis using dn e Dir kind_of_node(2) [OF wf n] by (simp add: first_deny_Cons refuse_def)
  next
    case (File c)
    then show ?thesis using dn e kind_of_node(2) [OF wf n] by (simp add: first_deny_Cons refuse_def)
  next
    case (Symlink c)
    then show ?thesis using dn e kind_of_node(2) [OF wf n] by (simp add: first_deny_Cons refuse_def)
  qed
qed

lemma cleanup_run:
  assumes wf: "fs_wf s" and path: "pwstr_to_fs_path name = Some path" "split_parent path = (pp, nm)" "resolve s pp = Ok p"
    and n: "om_lookup (inodes s) i = Some n"
    and op: "fs_exec (if is_Dir (i_body n) then OpRmdir p nm else OpUnlink p nm) now now s = (Ok (), s')"
  shows "cb_cleanup (raw i) name FspCleanupDelete now s = (Ok (WinStatus STATUS_SUCCESS), s')"
proof -
  have g: "getattr s (Ino (raw i)) = Ok (i_attr n)" using n by (simp add: getattr_def get_def)
  have "FspCleanupDelete AND FspCleanupDelete \<noteq> 0" by (simp add: FspCleanupDelete_def)
  then show ?thesis using op path g kind_of_node(1) [OF wf n]
    by (auto simp: cb_cleanup_def and_then_def void_iff)
qed

section \<open>Times\<close>

text \<open>Times from 1970 to the year 59000 lose what is below 100 nanoseconds.\<close>

lemma filetime_roundtrip:
  assumes "unat (secs t) < 1800000000000" "unat (nanos t) < 1000000000"
  shows "filetime_to_ts (ts_to_filetime t) = \<lparr>secs = secs t, nanos = of_nat (unat (nanos t) div 100 * 100)\<rparr>"
proof -
  have "sint (secs t) = int (unat (secs t))" using sint_of_nat_small [of "unat (secs t)"] assms(1) by simp
  then have s: "\<not> sint (secs t) < 0" by simp
  let ?r = "unat (secs t) * 10000000 + unat (nanos t) div 100"
  have m: "unat (saturating_mul (secs t) 10000000) = unat (secs t) * 10000000"
    using assms(1) by (simp add: saturating_mul_def unat_word_ariths)
  have "unat (nanos t) < 2 ^ 64" using assms(2) by simp
  then have c: "unat (ucast (nanos t) :: u64) = unat (nanos t)" by (simp add: unsigned_ucast_eq take_bit_nat_eq_self)
  have u: "unat (ts_to_filetime t) = ?r + 116444736000000000"
    using assms s m by (simp add: ts_to_filetime_def Let_def unat_saturating_add FILETIME_UNIX_EPOCH_DELTA_def unat_div c)
  have le: "\<not> ts_to_filetime t < FILETIME_UNIX_EPOCH_DELTA" using u by (simp add: word_less_nat_alt FILETIME_UNIX_EPOCH_DELTA_def)
  then have r: "unat (ts_to_filetime t - FILETIME_UNIX_EPOCH_DELTA) = ?r"
    using u by (simp add: unat_sub word_le_nat_alt not_less FILETIME_UNIX_EPOCH_DELTA_def)
  have n: "unat (nanos t) div 100 < 10000000" using assms(2) by simp
  have d: "?r div 10000000 = unat (secs t)" "?r mod 10000000 = unat (nanos t) div 100" using n by simp_all
  have "(ts_to_filetime t - FILETIME_UNIX_EPOCH_DELTA) div 10000000 = secs t"
    by (rule word_unat_eq_iff [THEN iffD2]) (simp add: unat_div r d)
  moreover have "unat ((ts_to_filetime t - FILETIME_UNIX_EPOCH_DELTA) mod 10000000 * 100 :: u64) = unat (nanos t) div 100 * 100"
    using n by (simp add: unat_word_ariths unat_mod r d)
  then have "ucast ((ts_to_filetime t - FILETIME_UNIX_EPOCH_DELTA) mod 10000000 * 100 :: u64) = (of_nat (unat (nanos t) div 100 * 100) :: u32)"
    by (metis of_nat_unat)
  ultimately show ?thesis using le by (simp add: filetime_to_ts_def Let_def)
qed

section \<open>Properties\<close>

text \<open>C33: Listing a directory through the WinFSP callback, page after page with the last name received as the marker,
  ends and gives every entry whose name is text exactly once and in the order of the directory, whatever the buffer
  has room for, as long as it takes one entry; names are distinct and without NUL, as the filesystem only
  creates them. The marker goes through UTF-16 and back on the way.\<close>

theorem win_pages_complete:
  assumes "readdir s (Ino i) 0 = Ok all" and "distinct (map de_name all)"
    and "\<forall>e \<in> set all. CHR 0x00 \<notin> set (de_name e) \<and> (\<forall>a. getattr s (de_ino e) = Ok a \<longrightarrow> unat (a_size a) \<le> 2 ^ 63)"
    and "\<forall>x. dir_room env [] x"
  shows "list_win_pages (Suc (length all)) env s i None = Some (map (shown_as s) (filter (shown s) all))"
proof (rule list_win_pages_run [OF assms(1) _ assms(2) _ assms(4), of "[]"])
  have "getattr s i = Ok a" if "get_ok (getattr s i) = Some a" for i a using that by (cases "getattr s i") simp_all
  then show "sizes_ok s all" using assms(3) by (auto simp: sizes_ok_def)
  show "cb_read_directory env i None s = win_with Ok (query (\<lambda>s. win_entries env None True [] (with_attrs s all))) s"
    unfolding cb_read_directory_def win_with_query using assms(1) by (simp add: marker_bytes_def)
  show "length (filter (shown s) all) < Suc (length all)" by (simp add: le_imp_less_Suc)
qed (use assms(3) in simp_all)

definition demo_win :: win_env where
  "demo_win = \<lparr>sd_len = 20, dir_room = (\<lambda>acc d. acc = [])\<rparr>"

definition demo_listing :: "dir_entry list" where
  "demo_listing = [\<lparr>de_ino = Ino 1, de_kind = KDirectory, de_name = ''.''\<rparr>, \<lparr>de_ino = Ino 1, de_kind = KDirectory, de_name = ''..''\<rparr>,
     \<lparr>de_ino = Ino 3, de_kind = KDirectory, de_name = ''d''\<rparr>, \<lparr>de_ino = Ino 2, de_kind = KFile, de_name = ''f''\<rparr>]"

lemma demo_readdir: "readdir demo (Ino 1) 0 = Ok demo_listing"
  by (simp add: readdir_def demo_def eval_simps parent_or_root_def demo_listing_def)

lemma demo_attrs: "\<exists>a. getattr demo (Ino 1) = Ok a \<and> unat (a_size a) \<le> 2 ^ 63" "\<exists>a. getattr demo (Ino 2) = Ok a \<and> unat (a_size a) \<le> 2 ^ 63"
  "\<exists>a. getattr demo (Ino 3) = Ok a \<and> unat (a_size a) \<le> 2 ^ 63"
  by (simp_all add: demo_def eval_simps map_attr_def)

lemma demo_names: "utf8_decode ''.'' = Some [46]" "utf8_decode ''..'' = Some [46, 46]" "utf8_decode ''d'' = Some [100]" "utf8_decode ''f'' = Some [102]"
  by code_simp+

theorem win_pages_complete_witness:
  "\<exists>ds. list_win_pages (Suc (length demo_listing)) demo_win demo 1 None = Some ds \<and> map wd_name ds = [[46], [46, 46], [100], [102]]"
proof -
  have "list_win_pages (Suc (length demo_listing)) demo_win demo 1 None = Some (map (shown_as demo) (filter (shown demo) demo_listing))"
  proof (rule win_pages_complete [OF demo_readdir])
    show "\<forall>e \<in> set demo_listing. CHR 0x00 \<notin> set (de_name e) \<and> (\<forall>a. getattr demo (de_ino e) = Ok a \<longrightarrow> unat (a_size a) \<le> 2 ^ 63)"
      using demo_attrs by (auto simp: demo_listing_def)
  qed (simp_all add: demo_listing_def demo_win_def)
  moreover have "map wd_name (map (shown_as demo) (filter (shown demo) demo_listing)) = [[46], [46, 46], [100], [102]]"
  proof -
    obtain a1 a2 a3 where a: "getattr demo (Ino 1) = Ok a1" "getattr demo (Ino 2) = Ok a2" "getattr demo (Ino 3) = Ok a3"
      using demo_attrs by blast
    have u: "utf16_encode [46] = [46]" "utf16_encode [46, 46] = [46, 46]" "utf16_encode [100] = [100]" "utf16_encode [102] = [102]"
      by (simp_all add: utf16_encode_def utf16_char_def)
    have f: "filter (shown demo) demo_listing = demo_listing" by (simp add: demo_listing_def shown_def demo_names a)
    show ?thesis unfolding f by (simp add: demo_listing_def shown_as_def demo_names u)
  qed
  ultimately show ?thesis by (intro exI conjI)
qed

text \<open>C34: Deleting in the two steps of Windows works: when \<open>CanDelete\<close> accepts the handle of the inode that a path
  names, the \<open>Cleanup\<close> that follows succeeds on the filesystem too (its outcome would not be reported), and leads to
  exactly the tree in which that name is gone, and the inode with it when it was its last link.\<close>

theorem delete_takes_the_name:
  assumes "fs_wf s" "roomy s"
    and "pwstr_to_fs_path name = Some path" "split_parent path = (pp, nm)" "resolve s pp = Ok p"
    and "t_ent (tree_of s) (p, nm) = Some i" "cb_can_delete (raw i) s = (Ok (WinStatus STATUS_SUCCESS), s)"
  shows "\<exists>s'. cb_cleanup (raw i) name FspCleanupDelete now s = (Ok (WinStatus STATUS_SUCCESS), s') \<and> fs_wf s' \<and>
    tree_of s' = t_clear (tree_of s) (links (inodes s)) p nm \<and> t_ent (tree_of s') (p, nm) = None"
proof -
  have "t_node (tree_of s) i \<noteq> None" using tree_ent_target [OF _ assms(6)] assms(1) by (simp add: fs_wf_def)
  then obtain n where n: "om_lookup (inodes s) i = Some n" by (auto simp: node_lookup)
  let ?op = "if is_Dir (i_body n) then OpRmdir p nm else OpUnlink p nm"
  have d: "t_deny (tree_of s) (room_of s) ?op = None" by (rule can_delete_allows [OF assms(1,6,7) n])
  have sz: "op_sized ?op" by simp
  from fs_exec_outcome [OF assms(1) sz assms(2), of now now] d obtain s' where s': "fs_exec ?op now now s = (Ok (), s')"
    "tree_of s' = t_exec (tree_of s) (Ino (next_ino s)) (links (inodes s)) ?op" by auto
  have "tree_of s' = t_clear (tree_of s) (links (inodes s)) p nm" using s'(2) by simp
  moreover have "t_ent (t_clear (tree_of s) (links (inodes s)) p nm) (p, nm) = None" using assms(6) by (simp add: t_clear_def)
  ultimately show ?thesis using cleanup_run [OF assms(1,3,4,5) n s'(1)] fs_exec_wf [OF assms(1) sz s'(1)] by auto
qed

theorem delete_takes_the_name_witness:
  "\<exists>s'. cb_cleanup (raw (Ino 2)) (Some [92, 102, 0]) FspCleanupDelete epoch demo = (Ok (WinStatus STATUS_SUCCESS), s') \<and> fs_wf s' \<and>
    tree_of s' = t_clear (tree_of demo) (links (inodes demo)) ROOT_INO ''f'' \<and> t_ent (tree_of s') (ROOT_INO, ''f'') = None"
proof (rule delete_takes_the_name [OF demo_wf demo_roomy])
  show "pwstr_to_fs_path (Some [92, 102, 0]) = Some ''/f''"
  proof -
    have "utf8_encode [92, 102] = [CHR 0x5C, CHR ''f'']" by code_simp
    then show ?thesis by (simp add: pwstr_to_fs_path_def wide_to_slice_def slashes_def starts_with_def Let_def)
  qed
  show "split_parent ''/f'' = (''/'', ''f'')" by code_simp
  show "resolve demo ''/'' = Ok ROOT_INO" using resolve_walk [OF demo_wf, of "''/''" ROOT_INO] by (simp add: is_absolute_def split_path_def)
  show "t_ent (tree_of demo) (ROOT_INO, ''f'') = Some (Ino 2)" by (simp add: demo_entries ROOT_INO_def)
  show "cb_can_delete (raw (Ino 2)) demo = (Ok (WinStatus STATUS_SUCCESS), demo)"
    unfolding cb_can_delete_def win_with_query by (simp add: demo_def eval_simps map_attr_def)
qed

end
