(* ===== verification/Review.thy ===== *)
theory Review
  imports RustStr
begin

text \<open>
  Extraction of inline review comments from the agent's text
  (\<open>crates/devdev-tasks/src/review.rs\<close>). \<open>lines\<close>, \<open>trim\<close>, \<open>find\<close> and \<open>split_once\<close> are those of
  \<open>RustStr\<close>.
\<close>

record inline_comment =
  ic_path :: bytes
  ic_line :: u64
  ic_body :: bytes

record parsed_review =
  rv_body :: bytes
  rv_comments :: "inline_comment list"

definition try_parse_inline :: "bytes \<Rightarrow> inline_comment option" where
  "try_parse_inline line =
     (let line = trim line in
      if \<not> starts_with line ''['' then None
      else Option.bind (find_str line '']'') (\<lambda>close_bracket.
        let marker = drop 1 (take close_bracket line) in
        Option.bind (split_once marker (CHR '':'')) (\<lambda>(path, line_str).
        let path = trim path in
        Option.bind (parse_u64 (trim line_str)) (\<lambda>line_num.
        if path = [] \<or> line_num = 0 then None
        else let body = trim (drop (close_bracket + 1) line) in
          if body = [] then None
          else Some \<lparr>ic_path = path, ic_line = line_num, ic_body = body\<rparr>))))"

text \<open>The loop over the lines, with the two vectors it fills.\<close>

fun review_lines :: "bytes list \<Rightarrow> bytes list \<Rightarrow> inline_comment list \<Rightarrow> bytes list \<times> inline_comment list" where
  "review_lines [] body_lines comments = (body_lines, comments)"
| "review_lines (l # ls) body_lines comments = (case try_parse_inline l of
     Some c \<Rightarrow> review_lines ls body_lines (comments @ [c])
   | None \<Rightarrow> review_lines ls (body_lines @ [l]) comments)"

definition parse_review :: "bytes \<Rightarrow> parsed_review" where
  "parse_review text = (case review_lines (lines text) [] [] of
     (body_lines, comments) \<Rightarrow> \<lparr>rv_body = trim (join [CHR 0x0A] body_lines), rv_comments = comments\<rparr>)"

section \<open>What the loop collects\<close>

lemma review_lines_run:
  "review_lines ls bs cs = (bs @ filter (\<lambda>l. try_parse_inline l = None) ls, cs @ List.map_filter try_parse_inline ls)"
  by (induction ls arbitrary: bs cs) (auto simp: List.map_filter_simps split: option.splits)

definition comment_ok :: "inline_comment \<Rightarrow> bool" where
  "comment_ok c \<longleftrightarrow> ic_path c \<noteq> [] \<and> ic_line c \<noteq> 0 \<and> ic_body c \<noteq> []"

lemma try_parse_ok: "try_parse_inline l = Some c \<Longrightarrow> comment_ok c"
  by (auto simp: try_parse_inline_def Let_def comment_ok_def split: if_splits bind_splits)

text \<open>A comment written in the form the prompt asks for.\<close>

definition show_comment :: "inline_comment \<Rightarrow> bytes" where
  "show_comment c = ''['' @ ic_path c @ '':'' @ show_u64 (ic_line c) @ ''] '' @ ic_body c"

definition tidy :: "bytes \<Rightarrow> bool" where
  "tidy s \<longleftrightarrow> s \<noteq> [] \<and> visible (hd s) \<and> visible (last s)"

lemma trim_tidy: "tidy s \<Longrightarrow> trim s = s"
  using trim_visible [of "hd s" "tl s"] by (auto simp: tidy_def)

lemma find_str_char: "c \<notin> set a \<Longrightarrow> find_str (a @ c # b) [c] = Some (length a)"
  by (induction a) (auto simp: starts_with_def)

lemma trim_space: "tidy s \<Longrightarrow> trim (CHR '' '' # s) = s"
proof -
  assume s: "tidy s"
  have "ws_len (CHR '' '' # s) = 1" by (simp add: ws_len_def)
  then have "trim_start (CHR '' '' # s) = trim_start s" by (simp add: trim_start.simps [of "CHR '' '' # s"])
  then show ?thesis using trim_tidy [OF s] by (simp add: trim_def)
qed

lemma tidy_digits: "tidy (show_u64 n)"
  using show_nat_visible [of "unat n"] show_nat_digits [of "hd (show_nat (unat n))" "unat n"]
  by (simp add: tidy_def show_u64_def digit_visible)

lemma try_parse_show:
  assumes "tidy (ic_path c)" "tidy (ic_body c)" "ic_line c \<noteq> 0"
    and "CHR '':'' \<notin> set (ic_path c)" "CHR '']'' \<notin> set (ic_path c)"
  shows "try_parse_inline (show_comment c) = Some c"
proof -
  let ?s = "show_comment c"
  let ?m = "''['' @ ic_path c @ '':'' @ show_u64 (ic_line c)"
  have "tidy ?s" using assms(2) by (simp add: tidy_def show_comment_def visible_def)
  then have t: "trim ?s = ?s" by (rule trim_tidy)
  have s: "?s = ?m @ CHR '']'' # CHR '' '' # ic_body c" by (simp add: show_comment_def)
  have "CHR '']'' \<notin> set ?m"
    using assms(5) show_nat_digits [of "CHR '']''" "unat (ic_line c)"] by (auto simp: show_u64_def is_digit_def less_eq_char_def)
  then have f: "find_str ?s '']'' = Some (length ?m)" unfolding s by (rule find_str_char)
  have tk: "take (length ?m) ?s = ?m" "drop (length ?m + 1) ?s = CHR '' '' # ic_body c" unfolding s by simp_all
  have sp: "split_once (drop 1 ?m) (CHR '':'') = Some (ic_path c, show_u64 (ic_line c))"
    using assms(4) by (simp add: split_once_Some)
  have b: "starts_with ?s ''[''" by (simp add: show_comment_def starts_with_def)
  show ?thesis
    unfolding try_parse_inline_def Let_def t f bind.simps tk sp prod.case trim_tidy [OF assms(1)] trim_tidy [OF tidy_digits]
      trim_space [OF assms(2)] parse_show_u64
    using b assms by (simp add: tidy_def)
qed

section \<open>Properties\<close>

text \<open>
  Every line of the text ends up in exactly one place, in order: the lines that
  parse as a comment become the comments, each with a path, a line number above zero and a
  body, and the others, joined, are the trimmed body.
\<close>

lemma review_partition:
  "rv_comments (parse_review text) = List.map_filter try_parse_inline (lines text) \<and>
   rv_body (parse_review text) = trim (join [CHR 0x0A] (filter (\<lambda>l. try_parse_inline l = None) (lines text))) \<and>
   list_all comment_ok (rv_comments (parse_review text))"
  by (auto simp: parse_review_def review_lines_run list_all_iff List.map_filter_def intro: try_parse_ok)

text \<open>A text of the agent: comments in the prompted form and lines of prose, in any order, one to a line.\<close>

primrec show_entry :: "inline_comment + bytes \<Rightarrow> bytes" where
  "show_entry (Inl c) = show_comment c"
| "show_entry (Inr l) = l"

definition show_review :: "(inline_comment + bytes) list \<Rightarrow> bytes" where
  "show_review es = concat (map (\<lambda>e. show_entry e @ [CHR 0x0A]) es)"

text \<open>
  A comment the form can carry; a line of prose: one line whose first visible character is not
  a bracket.
\<close>

primrec printable :: "inline_comment + bytes \<Rightarrow> bool" where
  "printable (Inl c) \<longleftrightarrow> tidy (ic_path c) \<and> tidy (ic_body c) \<and> ic_line c \<noteq> 0 \<and> CHR '':'' \<notin> set (ic_path c)
     \<and> CHR '']'' \<notin> set (ic_path c) \<and> CHR 0x0A \<notin> set (show_comment c)"
| "printable (Inr l) \<longleftrightarrow> CHR 0x0A \<notin> set l \<and> (l = [] \<or> last l \<noteq> CHR 0x0D) \<and> \<not> starts_with (trim l) ''[''"

lemma printable_line: "printable e \<Longrightarrow> CHR 0x0A \<notin> set (show_entry e) \<and> (show_entry e = [] \<or> last (show_entry e) \<noteq> CHR 0x0D)"
  by (cases e) (auto simp: tidy_def show_comment_def visible_def)

lemma lines_show_review: "\<forall>e \<in> set es. printable e \<Longrightarrow> lines (show_review es) = map show_entry es"
  using lines_concat [of "map show_entry es"] printable_line by (auto simp: show_review_def comp_def)

lemma try_parse_entry: "printable e \<Longrightarrow> try_parse_inline (show_entry e) = (case e of Inl c \<Rightarrow> Some c | Inr l \<Rightarrow> None)"
proof (cases e)
  case (Inr l)
  then show "printable e \<Longrightarrow> ?thesis" by (simp add: try_parse_inline_def Let_def)
qed (simp add: try_parse_show)

text \<open>
  C13: round trip. A review of inline comments \<open>[path:line] body\<close> and lines of prose, mixed in
  any order, one to a line, parses back to exactly its comments, in order, and to a body that is
  its lines of prose, in order, joined by line feeds and trimmed; when the joined prose begins
  and ends with a visible character it comes back unchanged.
\<close>

theorem review_roundtrip:
  assumes "\<forall>e \<in> set es. printable e"
  shows "rv_comments (parse_review (show_review es)) = [c. Inl c \<leftarrow> es] \<and>
    rv_body (parse_review (show_review es)) = trim (join [CHR 0x0A] [l. Inr l \<leftarrow> es]) \<and>
    (tidy (join [CHR 0x0A] [l. Inr l \<leftarrow> es]) \<longrightarrow>
      rv_body (parse_review (show_review es)) = join [CHR 0x0A] [l. Inr l \<leftarrow> es])"
proof -
  have c: "List.map_filter try_parse_inline (map show_entry es) = [c. Inl c \<leftarrow> es]"
    and b: "filter (\<lambda>l. try_parse_inline l = None) (map show_entry es) = [l. Inr l \<leftarrow> es]"
    using assms by (induction es) (auto simp: List.map_filter_simps try_parse_entry split: sum.splits)
  show ?thesis
    using trim_tidy by (simp add: parse_review_def lines_show_review [OF assms] review_lines_run c b)
qed

theorem review_roundtrip_witness:
  "parse_review (show_review [Inr ''Two'', Inl \<lparr>ic_path = ''a.rs'', ic_line = 3, ic_body = ''nit''\<rparr>, Inr ''nits.'']) =
     \<lparr>rv_body = ''Two'' @ [CHR 0x0A] @ ''nits.'', rv_comments = [\<lparr>ic_path = ''a.rs'', ic_line = 3, ic_body = ''nit''\<rparr>]\<rparr>"
proof -
  have "CHR 0x0A \<notin> set (show_nat 3)" using show_nat_digits [of "CHR 0x0A" 3] by (auto simp: is_digit_def less_eq_char_def)
  then show ?thesis
    using review_roundtrip [of "[Inr ''Two'', Inl \<lparr>ic_path = ''a.rs'', ic_line = 3, ic_body = ''nit''\<rparr>, Inr ''nits.'']"]
    by (simp add: tidy_def visible_def show_comment_def show_u64_def trim_tidy starts_with_def)
qed

end
