(* ===== verification/Forge.thy ===== *)
theory Forge
  imports RustStr
begin

text \<open>
  Identification of repository hosts and of pull requests: \<open>RepoHostId\<close>
  (\<open>crates/devdev-integrations/src/host.rs\<close>), the parser of pull request references
  (\<open>crates/devdev-tasks/src/pr_ref.rs\<close>) and the registry that routes a URL to an adapter
  (\<open>crates/devdev-daemon/src/host_registry.rs\<close>).
\<close>

section \<open>Host identifiers\<close>

datatype repo_host_kind = GitHub | AzureDevOps

record repo_host_id =
  host_kind :: repo_host_kind
  api_base :: bytes
  host :: bytes

definition github_com :: repo_host_id where
  "github_com = \<lparr>host_kind = GitHub, api_base = ''https://api.github.com'', host = ''github.com''\<rparr>"

definition ghe :: "bytes \<Rightarrow> repo_host_id" where
  "ghe h = \<lparr>host_kind = GitHub, api_base = ''https://'' @ h @ ''/api/v3'', host = h\<rparr>"

definition azure_devops :: repo_host_id where
  "azure_devops = \<lparr>host_kind = AzureDevOps, api_base = ''https://dev.azure.com'', host = ''dev.azure.com''\<rparr>"

fun kind_key :: "repo_host_kind \<Rightarrow> bytes" where
  "kind_key GitHub = ''github''"
| "kind_key AzureDevOps = ''ado''"

definition host_ledger_key :: "repo_host_id \<Rightarrow> bytes" where
  "host_ledger_key h = kind_key (host_kind h) @ '':'' @ host h"

definition classify_host :: "bytes \<Rightarrow> repo_host_kind option" where
  "classify_host h =
     (let h = to_ascii_lowercase h in
      if h = ''github.com'' \<or> h = ''www.github.com'' then Some GitHub
      else if h = ''dev.azure.com'' \<or> ends_with h ''.visualstudio.com'' then Some AzureDevOps
      else if starts_with h ''ghe.'' \<or> starts_with h ''github.'' then Some GitHub
      else None)"

definition eq_ignore_ascii_case :: "bytes \<Rightarrow> bytes \<Rightarrow> bool" where
  "eq_ignore_ascii_case a b \<longleftrightarrow> to_ascii_lowercase a = to_ascii_lowercase b"

definition from_browse_host :: "bytes \<Rightarrow> repo_host_id option" where
  "from_browse_host h = (case classify_host h of
     None \<Rightarrow> None
   | Some GitHub \<Rightarrow>
       (if eq_ignore_ascii_case h ''github.com'' \<or> eq_ignore_ascii_case h ''www.github.com''
        then Some github_com else Some (ghe h))
   | Some AzureDevOps \<Rightarrow> Some azure_devops)"

section \<open>Task errors\<close>

datatype task_error = TaskNotFound bytes | AlreadyCancelled bytes | PollFailed bytes | Serialization bytes

section \<open>Pull request references\<close>

record pr_ref =
  pr_host :: repo_host_id
  pr_owner :: bytes
  pr_repo :: bytes
  pr_number :: u64

type_synonym 'a task_result = "('a, task_error) result"

definition parse_shorthand :: "bytes \<Rightarrow> pr_ref task_result" where
  "parse_shorthand input = (case split_once input (CHR ''#'') of
     None \<Rightarrow> Err (PollFailed (''invalid PR reference: '' @ input @ '' (expected owner/repo#number)''))
   | Some (repo_part, number_str) \<Rightarrow> (case split_once repo_part (CHR ''/'') of
       None \<Rightarrow> Err (PollFailed (''invalid PR reference: '' @ input @ '' (expected owner/repo#number)''))
     | Some (owner, repo) \<Rightarrow> (case parse_u64 number_str of
         None \<Rightarrow> Err (PollFailed (''invalid PR number: '' @ number_str))
       | Some number \<Rightarrow>
           (if owner = [] \<or> repo = [] \<or> number = 0
            then Err (PollFailed (''invalid PR reference: '' @ input))
            else Ok \<lparr>pr_host = github_com, pr_owner = owner, pr_repo = repo, pr_number = number\<rparr>))))"

definition parse_github_path :: "repo_host_id \<Rightarrow> bytes \<Rightarrow> bytes \<Rightarrow> pr_ref task_result" where
  "parse_github_path host_id path input =
     (let parts = split_on (CHR ''/'') path in
      if length parts < 4 \<or> parts ! 2 \<noteq> ''pull''
      then Err (PollFailed (''invalid GitHub PR URL: '' @ input @ '' (expected .../owner/repo/pull/number)''))
      else let owner = parts ! 0; repo = parts ! 1 in
        (case parse_u64 (parts ! 3) of
           None \<Rightarrow> Err (PollFailed (''invalid PR number in URL: '' @ parts ! 3))
         | Some number \<Rightarrow>
             (if owner = [] \<or> repo = [] \<or> number = 0 then Err (PollFailed (''invalid PR URL: '' @ input))
              else Ok \<lparr>pr_host = host_id, pr_owner = owner, pr_repo = repo, pr_number = number\<rparr>)))"

definition ado_finalise :: "repo_host_id \<Rightarrow> bytes \<Rightarrow> bytes \<Rightarrow> bytes \<Rightarrow> bytes \<Rightarrow> bytes \<Rightarrow> pr_ref task_result" where
  "ado_finalise host_id org project repo id_str input = (case parse_u64 id_str of
     None \<Rightarrow> Err (PollFailed (''invalid ADO PR id: '' @ id_str))
   | Some number \<Rightarrow>
       (if org = [] \<or> project = [] \<or> repo = [] \<or> number = 0
        then Err (PollFailed (''invalid ADO PR URL: '' @ input))
        else Ok \<lparr>pr_host = host_id, pr_owner = org @ ''/'' @ project, pr_repo = repo, pr_number = number\<rparr>))"

definition parse_ado_path :: "repo_host_id \<Rightarrow> bytes \<Rightarrow> bytes \<Rightarrow> bytes \<Rightarrow> pr_ref task_result" where
  "parse_ado_path host_id h path input =
     (let parts = split_on (CHR ''/'') path; lower_host = to_ascii_lowercase h in
      if lower_host = ''dev.azure.com'' then
        (if length parts < 6 \<or> parts ! 2 \<noteq> ''_git'' \<or> parts ! 4 \<noteq> ''pullrequest''
         then Err (PollFailed (''invalid ADO PR URL: '' @ input @
           '' (expected /<org>/<project>/_git/<repo>/pullrequest/<id>)''))
         else ado_finalise host_id (parts ! 0) (parts ! 1) (parts ! 3) (parts ! 5) input)
      else (case strip_suffix lower_host ''.visualstudio.com'' of
        Some org \<Rightarrow>
          (if length parts < 5 \<or> parts ! 1 \<noteq> ''_git'' \<or> parts ! 3 \<noteq> ''pullrequest''
           then Err (PollFailed (''invalid ADO PR URL: '' @ input @
             '' (expected /<project>/_git/<repo>/pullrequest/<id> on visualstudio.com)''))
           else ado_finalise host_id org (parts ! 0) (parts ! 2) (parts ! 4) input)
      | None \<Rightarrow> Err (PollFailed (''unrecognised ADO host: '' @ h))))"

text \<open>The caller has checked the scheme: without one, \<open>expect\<close> panics.\<close>

definition parse_url :: "bytes \<Rightarrow> pr_ref task_result" where
  "parse_url input =
     (case (case strip_prefix input ''https://'' of Some r \<Rightarrow> Some r | None \<Rightarrow> strip_prefix input ''http://'') of
        None \<Rightarrow> Panic
      | Some after_scheme \<Rightarrow> (case split_once after_scheme (CHR ''/'') of
          None \<Rightarrow> Err (PollFailed (''invalid PR URL: '' @ input @ '' (missing path)''))
        | Some (h, path) \<Rightarrow> (case from_browse_host h of
            None \<Rightarrow> Err (PollFailed (''unsupported PR URL host: '' @ h @ '' (in '' @ input @ '')''))
          | Some host_id \<Rightarrow> (case host_kind host_id of
              GitHub \<Rightarrow> parse_github_path host_id path input
            | AzureDevOps \<Rightarrow> parse_ado_path host_id h path input))))"

definition pr_parse :: "bytes \<Rightarrow> pr_ref task_result" where
  "pr_parse input =
     (let input = trim input in
      if starts_with input ''https://'' \<or> starts_with input ''http://'' then parse_url input
      else parse_shorthand input)"

definition pr_show :: "pr_ref \<Rightarrow> bytes" where
  "pr_show r = pr_owner r @ ''/'' @ pr_repo r @ ''#'' @ show_u64 (pr_number r)"

section \<open>The host registry\<close>

instantiation repo_host_kind :: linorder
begin

definition less_eq_repo_host_kind :: "repo_host_kind \<Rightarrow> repo_host_kind \<Rightarrow> bool" where
  "less_eq_repo_host_kind a b \<longleftrightarrow> kind_key a \<le> kind_key b"

definition less_repo_host_kind :: "repo_host_kind \<Rightarrow> repo_host_kind \<Rightarrow> bool" where
  "less_repo_host_kind a b \<longleftrightarrow> kind_key a < kind_key b"

instance
proof
  fix a b :: repo_host_kind
  show "a \<le> b \<Longrightarrow> b \<le> a \<Longrightarrow> a = b"
    by (cases a; cases b) (auto simp: less_eq_repo_host_kind_def)
qed (auto simp: less_eq_repo_host_kind_def less_repo_host_kind_def)

end

text \<open>
  A key of the registry's map is a \<open>RepoHostId\<close>; its three fields, as a list, order it.
\<close>

type_synonym host_key = "bytes list"

definition host_key :: "repo_host_id \<Rightarrow> host_key" where
  "host_key h = [kind_key (host_kind h), api_base h, host h]"

type_synonym 'a registry = "(host_key, 'a) omap"

definition registry_empty :: "'a registry" where
  "registry_empty = om_empty"

definition registry_single :: "repo_host_id \<Rightarrow> 'a \<Rightarrow> 'a registry" where
  "registry_single h a = om_insert (host_key h) a om_empty"

definition registry_insert :: "'a registry \<Rightarrow> repo_host_id \<Rightarrow> 'a \<Rightarrow> 'a registry" where
  "registry_insert m h a = om_insert (host_key h) a m"

definition for_host :: "'a registry \<Rightarrow> repo_host_id \<Rightarrow> 'a option" where
  "for_host m h = om_lookup m (host_key h)"

definition extract_host :: "bytes \<Rightarrow> bytes option" where
  "extract_host input =
     (let s = trim input in
      if s = [] then None
      else let after_scheme = (case strip_prefix s ''https://'' of Some r \<Rightarrow> r
             | None \<Rightarrow> (case strip_prefix s ''http://'' of Some r \<Rightarrow> r | None \<Rightarrow> s));
               h = hd (split_on (CHR ''/'') after_scheme)
           in if h = [] then None else Some h)"

definition for_url :: "'a registry \<Rightarrow> bytes \<Rightarrow> 'a option" where
  "for_url m url = Option.bind (extract_host url) (\<lambda>h. Option.bind (from_browse_host h) (for_host m))"

section \<open>Facts about the parsers\<close>

lemma lower_append: "to_ascii_lowercase (a @ b) = to_ascii_lowercase a @ to_ascii_lowercase b"
  by (simp add: to_ascii_lowercase_def)

lemma ends_with_append [simp]: "ends_with (a @ p) p"
  by (simp add: ends_with_def)

lemma strip_suffix_append [simp]: "strip_suffix (a @ p) p = Some a"
  by (simp add: strip_suffix_def)

lemma lower_literals [simp]:
  "to_ascii_lowercase ''dev.azure.com'' = ''dev.azure.com''"
  "to_ascii_lowercase ''.visualstudio.com'' = ''.visualstudio.com''"
  "to_ascii_lowercase ''github.com'' = ''github.com''"
  "to_ascii_lowercase ''www.github.com'' = ''www.github.com''"
  by (simp_all add: to_ascii_lowercase_def ascii_lower_def less_eq_char_def)

lemma https_visible: "visible (CHR ''h'')"
  by (simp add: visible_def)

lemma pr_parse_https:
  assumes "r \<noteq> []" "visible (last r)" "CHR ''/'' \<notin> set h"
  shows "pr_parse (''https://'' @ h @ ''/'' @ r) = (case from_browse_host h of
     None \<Rightarrow> Err (PollFailed (''unsupported PR URL host: '' @ h @ '' (in '' @ (''https://'' @ h @ ''/'' @ r) @ '')''))
   | Some host_id \<Rightarrow> (case host_kind host_id of
       GitHub \<Rightarrow> parse_github_path host_id r (''https://'' @ h @ ''/'' @ r)
     | AzureDevOps \<Rightarrow> parse_ado_path host_id h r (''https://'' @ h @ ''/'' @ r)))"
proof -
  let ?u = "''https://'' @ h @ ''/'' @ r"
  have "trim (CHR ''h'' # (''ttps://'' @ h @ ''/'' @ r)) = CHR ''h'' # (''ttps://'' @ h @ ''/'' @ r)"
    using assms(1,2) by (intro trim_visible https_visible) simp
  then have t: "trim ?u = ?u" by simp
  have s: "strip_prefix ?u ''https://'' = Some (h @ ''/'' @ r)" by (simp add: strip_prefix_Some)
  have o: "split_once (h @ ''/'' @ r) (CHR ''/'') = Some (h, r)" using assms(3) by (simp add: split_once_Some)
  have w: "starts_with ?u ''https://''" by (simp add: starts_with_def)
  show ?thesis unfolding pr_parse_def Let_def t parse_url_def s option.case o
    using w by (simp add: split: option.splits)
qed

lemma split_path4:
  "CHR ''/'' \<notin> set a \<Longrightarrow> CHR ''/'' \<notin> set b \<Longrightarrow> CHR ''/'' \<notin> set c \<Longrightarrow>
   split_on (CHR ''/'') (a @ ''/'' @ b @ ''/'' @ c @ ''/'' @ r) = a # b # c # split_on (CHR ''/'') r"
  by (simp add: split_on_append)

lemma no_slash_digits: "CHR ''/'' \<notin> set (show_u64 n)"
  using show_nat_digits [of "CHR ''/''" "unat n"] by (auto simp: show_u64_def is_digit_def less_eq_char_def)

lemma split_digits:
  assumes "rest = [] \<or> (\<exists>r. rest = CHR ''/'' # r)"
  shows "split_on (CHR ''/'') (show_u64 n @ rest) ! 0 = show_u64 n"
  using assms split_on_plain [OF no_slash_digits, of n] split_on_append [OF no_slash_digits, of n] by auto

lemma last_visible:
  assumes "rest = [] \<or> visible (last rest)"
  shows "visible (last (show_u64 n @ rest))"
  using assms show_nat_visible [of "unat n"] by (cases "rest = []") (auto simp: show_u64_def)

lemma github_url:
  assumes host: "from_browse_host h = Some hid" "host_kind hid = GitHub" "CHR ''/'' \<notin> set h"
    and owner: "owner \<noteq> []" "CHR ''/'' \<notin> set owner" and repo: "repo \<noteq> []" "CHR ''/'' \<notin> set repo"
    and n: "n \<noteq> 0" and rest: "rest = [] \<or> (\<exists>r. rest = CHR ''/'' # r) \<and> visible (last rest)"
  shows "pr_parse (''https://'' @ h @ ''/'' @ owner @ ''/'' @ repo @ ''/pull/'' @ show_u64 n @ rest) =
     Ok \<lparr>pr_host = hid, pr_owner = owner, pr_repo = repo, pr_number = n\<rparr>"
proof -
  let ?r = "owner @ ''/'' @ repo @ ''/'' @ ''pull'' @ ''/'' @ show_u64 n @ rest"
  have sp: "split_on (CHR ''/'') ?r = owner # repo # ''pull'' # split_on (CHR ''/'') (show_u64 n @ rest)"
    by (rule split_path4) (use owner repo in auto)
  have hd: "split_on (CHR ''/'') (show_u64 n @ rest) ! 0 = show_u64 n"
    using rest by (intro split_digits) auto
  then obtain ps where ps: "split_on (CHR ''/'') (show_u64 n @ rest) = show_u64 n # ps"
    by (metis list.exhaust nth_Cons_0 split_on_not_Nil)
  have "visible (last ?r)" "?r \<noteq> []" using last_visible [of rest n] rest owner
    by (auto simp: show_u64_def)
  from pr_parse_https [OF this(2,1) host(3)]
  have "pr_parse (''https://'' @ h @ ''/'' @ ?r) = parse_github_path hid ?r (''https://'' @ h @ ''/'' @ ?r)"
    by (simp add: host)
  also have "\<dots> = Ok \<lparr>pr_host = hid, pr_owner = owner, pr_repo = repo, pr_number = n\<rparr>"
    unfolding parse_github_path_def sp ps Let_def using owner repo n by (simp add: parse_show_u64)
  finally show ?thesis by simp
qed

lemma shorthand:
  assumes owner: "CHR ''/'' \<notin> set owner" "CHR ''#'' \<notin> set owner" and repo: "repo \<noteq> []" "CHR ''#'' \<notin> set repo"
    and vis: "owner = c # os" "visible c" and n: "n \<noteq> 0"
    and plain: "\<not> starts_with (owner @ ''/'' @ repo) ''https://''" "\<not> starts_with (owner @ ''/'' @ repo) ''http://''"
  shows "pr_parse (owner @ ''/'' @ repo @ ''#'' @ show_u64 n) =
     Ok \<lparr>pr_host = github_com, pr_owner = owner, pr_repo = repo, pr_number = n\<rparr>"
proof -
  let ?u = "owner @ ''/'' @ repo @ ''#'' @ show_u64 n"
  have "visible (last ?u)" using last_visible [of "[]" n] show_nat_visible [of "unat n"] by (simp add: show_u64_def)
  then have t: "trim ?u = ?u"
    using trim_visible [of c "os @ ''/'' @ repo @ ''#'' @ show_u64 n"] vis by simp
  have o1: "split_once ?u (CHR ''#'') = Some (owner @ ''/'' @ repo, show_u64 n)"
    using owner repo by (simp add: split_once_Some)
  have o2: "split_once (owner @ ''/'' @ repo) (CHR ''/'') = Some (owner, repo)"
    using owner by (simp add: split_once_Some)
  have np: "\<not> starts_with ?u p" if p: "\<not> starts_with (owner @ ''/'' @ repo) p" "CHR ''#'' \<notin> set p" for p
  proof
    assume "starts_with ?u p"
    then obtain x where x: "(owner @ ''/'' @ repo) @ CHR ''#'' # show_u64 n = p @ x"
      by (auto simp: starts_with_iff)
    have "\<exists>y. owner @ ''/'' @ repo = p @ y"
    proof (cases "length p \<le> length (owner @ ''/'' @ repo)")
      case True
      then show ?thesis using x by (metis append_eq_append_conv_if append_take_drop_id)
    next
      case False
      then have "(p @ x) ! length (owner @ ''/'' @ repo) \<in> set p" by (auto simp: nth_append)
      with p(2) show ?thesis by (metis x nth_append_length)
    qed
    with p(1) show False by (auto simp: starts_with_iff)
  qed
  have "\<not> starts_with ?u ''https://''" "\<not> starts_with ?u ''http://''"
    by (rule np; use plain in simp)+
  then show ?thesis
    unfolding pr_parse_def Let_def t parse_shorthand_def o1 using o2 vis repo n
    by (simp add: parse_show_u64)
qed

lemma classify_vs: "classify_host (org @ ''.visualstudio.com'') = Some AzureDevOps"
proof -
  have "to_ascii_lowercase org @ ''.visualstudio.com'' \<noteq> ''github.com''"
    "to_ascii_lowercase org @ ''.visualstudio.com'' \<noteq> ''www.github.com''"
    by (auto simp: append_eq_Cons_conv)
  then show ?thesis by (simp add: classify_host_def lower_append Let_def)
qed

lemma ado_split:
  assumes "CHR ''/'' \<notin> set project" "CHR ''/'' \<notin> set repo"
  shows "split_on (CHR ''/'') (project @ ''/'' @ ''_git'' @ ''/'' @ repo @ ''/'' @ ''pullrequest'' @ ''/'' @ show_u64 n) =
     [project, ''_git'', repo, ''pullrequest'', show_u64 n]"
  using assms by (simp add: split_on_append split_on_plain [OF no_slash_digits])

lemma ado_urls:
  assumes org: "org \<noteq> []" "CHR ''/'' \<notin> set org" "to_ascii_lowercase org = org"
    and project: "project \<noteq> []" "CHR ''/'' \<notin> set project" and repo: "repo \<noteq> []" "CHR ''/'' \<notin> set repo" and n: "n \<noteq> 0"
  defines "r \<equiv> \<lparr>pr_host = azure_devops, pr_owner = org @ ''/'' @ project, pr_repo = repo, pr_number = n\<rparr>"
  shows "pr_parse (''https://dev.azure.com/'' @ org @ ''/'' @ project @ ''/_git/'' @ repo @ ''/pullrequest/'' @ show_u64 n) = Ok r"
    and "pr_parse (''https://'' @ org @ ''.visualstudio.com/'' @ project @ ''/_git/'' @ repo @ ''/pullrequest/'' @ show_u64 n) = Ok r"
proof -
  let ?p = "project @ ''/'' @ ''_git'' @ ''/'' @ repo @ ''/'' @ ''pullrequest'' @ ''/'' @ show_u64 n"
  have vis: "?p \<noteq> []" "visible (last ?p)" "visible (last (org @ ''/'' @ ?p))" "org @ ''/'' @ ?p \<noteq> []"
    using last_visible [of "[]" n] by (simp_all add: show_u64_def)
  have bh: "from_browse_host ''dev.azure.com'' = Some azure_devops" "from_browse_host (org @ ''.visualstudio.com'') = Some azure_devops"
    by (simp_all add: from_browse_host_def classify_vs, simp add: classify_host_def Let_def)
  have sp: "split_on (CHR ''/'') (org @ ''/'' @ ?p) = [org, project, ''_git'', repo, ''pullrequest'', show_u64 n]"
    using org(2) ado_split [OF project(2) repo(2), of n] split_on_append [OF org(2), of ?p] by simp
  have fin: "ado_finalise azure_devops org project repo (show_u64 n) u = Ok r" for u
    using org project repo n by (simp add: ado_finalise_def parse_show_u64 r_def)
  have az: "host_kind azure_devops = AzureDevOps" by (simp add: azure_devops_def)
  have "parse_ado_path azure_devops ''dev.azure.com'' (org @ ''/'' @ ?p) u = Ok r" for u
    unfolding parse_ado_path_def sp Let_def by (simp add: fin)
  with pr_parse_https [OF vis(4,3), of "''dev.azure.com''"] bh az
  show "pr_parse (''https://dev.azure.com/'' @ org @ ''/'' @ project @ ''/_git/'' @ repo @ ''/pullrequest/'' @ show_u64 n) = Ok r"
    by simp
  have ne: "org @ ''.visualstudio.com'' \<noteq> ''dev.azure.com''" by (auto simp: append_eq_Cons_conv)
  have "parse_ado_path azure_devops (org @ ''.visualstudio.com'') ?p u = Ok r" for u
    unfolding parse_ado_path_def ado_split [OF project(2) repo(2)] Let_def lower_append org(3) lower_literals
    using ne by (simp add: fin)
  with pr_parse_https [OF vis(1,2), of "org @ ''.visualstudio.com''"] bh az org(2)
  show "pr_parse (''https://'' @ org @ ''.visualstudio.com/'' @ project @ ''/_git/'' @ repo @ ''/pullrequest/'' @ show_u64 n) = Ok r"
    by simp
qed

text \<open>What every accepted reference satisfies.\<close>

definition pr_ok :: "pr_ref \<Rightarrow> bool" where
  "pr_ok r \<longleftrightarrow> pr_owner r \<noteq> [] \<and> pr_repo r \<noteq> [] \<and> pr_number r \<noteq> 0 \<and>
     (pr_host r = github_com \<or> pr_host r = azure_devops \<or> (\<exists>h. pr_host r = ghe h \<and> classify_host h = Some GitHub))"

lemma from_browse_host_kind:
  "from_browse_host h = Some hid \<Longrightarrow> hid = github_com \<or> hid = azure_devops \<or> hid = ghe h \<and> classify_host h = Some GitHub"
  by (auto simp: from_browse_host_def split: option.splits repo_host_kind.splits if_splits)

lemma parse_shorthand_ok: "parse_shorthand input = Ok r \<Longrightarrow> pr_ok r"
  by (auto simp: parse_shorthand_def pr_ok_def split: option.splits prod.splits if_splits)

lemma parse_github_path_ok:
  "parse_github_path hid path input = Ok r \<Longrightarrow> pr_owner r \<noteq> [] \<and> pr_repo r \<noteq> [] \<and> pr_number r \<noteq> 0 \<and> pr_host r = hid"
  by (auto simp: parse_github_path_def Let_def split: option.splits if_splits)

lemma ado_finalise_ok:
  "ado_finalise hid org project repo n input = Ok r \<Longrightarrow> pr_owner r \<noteq> [] \<and> pr_repo r \<noteq> [] \<and> pr_number r \<noteq> 0 \<and> pr_host r = hid"
  by (auto simp: ado_finalise_def split: option.splits if_splits)

lemma parse_ado_path_ok:
  "parse_ado_path hid h path input = Ok r \<Longrightarrow> pr_owner r \<noteq> [] \<and> pr_repo r \<noteq> [] \<and> pr_number r \<noteq> 0 \<and> pr_host r = hid"
  unfolding parse_ado_path_def Let_def
  by (auto split: option.splits if_splits dest: ado_finalise_ok)

lemma parse_url_ok: "parse_url input = Ok r \<Longrightarrow> pr_ok r"
  unfolding parse_url_def pr_ok_def
  by (auto split: option.splits prod.splits repo_host_kind.splits
      dest!: parse_github_path_ok parse_ado_path_ok from_browse_host_kind)

lemma pr_parse_ok: "pr_parse input = Ok r \<Longrightarrow> pr_ok r"
  by (auto simp: pr_parse_def Let_def split: if_splits intro: parse_shorthand_ok parse_url_ok)

lemma parsers_no_panic:
  "parse_shorthand input \<noteq> Panic" "parse_github_path hid path input \<noteq> Panic"
  "ado_finalise hid org project repo n input \<noteq> Panic"
  by (auto simp: parse_shorthand_def parse_github_path_def ado_finalise_def Let_def split: option.splits prod.splits)

lemma parse_ado_path_no_panic: "parse_ado_path hid h path input \<noteq> Panic"
  unfolding parse_ado_path_def Let_def by (auto split: option.splits simp: parsers_no_panic)

lemma parse_url_no_panic:
  assumes "starts_with u ''https://'' \<or> starts_with u ''http://''"
  shows "parse_url u \<noteq> Panic"
proof -
  obtain r where "(case strip_prefix u ''https://'' of Some r \<Rightarrow> Some r | None \<Rightarrow> strip_prefix u ''http://'') = Some r"
    using assms by (cases "strip_prefix u ''https://''") (auto simp: strip_prefix_def split: if_splits)
  then show ?thesis
    by (auto simp: parse_url_def parsers_no_panic parse_ado_path_no_panic split: option.splits prod.splits repo_host_kind.splits)
qed

lemma pr_parse_not_panic: "pr_parse input \<noteq> Panic"
  using parse_url_no_panic [of "trim input"] by (auto simp: pr_parse_def Let_def parsers_no_panic)

lemma host_ledger_key_inject:
  "host_ledger_key a = host_ledger_key b \<longleftrightarrow> host_kind a = host_kind b \<and> host a = host b"
  by (cases "host_kind a"; cases "host_kind b") (auto simp: host_ledger_key_def)

lemma host_key_inject: "host_key a = host_key b \<longleftrightarrow> a = b" for a b :: repo_host_id
  by (cases "host_kind a"; cases "host_kind b") (auto simp: host_key_def)

lemma split_once_hd: "split_once s d = Some (a, b) \<Longrightarrow> hd (split_on d s) = a"
  by (auto simp: split_once_Some split_on_append)

lemma for_url_route:
  assumes "starts_with (trim url) ''https://'' \<or> starts_with (trim url) ''http://''" "pr_parse url = Ok r"
  shows "for_url m url = for_host m (pr_host r)"
proof -
  obtain s where s: "(case strip_prefix (trim url) ''https://'' of Some r \<Rightarrow> Some r
      | None \<Rightarrow> strip_prefix (trim url) ''http://'') = Some s"
    using assms(1) by (cases "strip_prefix (trim url) ''https://''") (auto simp: strip_prefix_def split: if_splits)
  from assms obtain h path hid where h: "split_once s (CHR ''/'') = Some (h, path)" "from_browse_host h = Some hid"
    and r: "(case host_kind hid of GitHub \<Rightarrow> parse_github_path hid path (trim url)
      | AzureDevOps \<Rightarrow> parse_ado_path hid h path (trim url)) = Ok r"
    by (auto simp: pr_parse_def Let_def parse_url_def s split: option.splits prod.splits)
  from r have hid: "pr_host r = hid"
    by (auto split: repo_host_kind.splits dest: parse_github_path_ok parse_ado_path_ok)
  have ne: "h \<noteq> []"
    using h(2) by (auto simp: from_browse_host_def classify_host_def to_ascii_lowercase_def ends_with_def starts_with_def)
  have tn: "trim url \<noteq> []" using assms(1) by (auto simp: starts_with_def)
  have "(case strip_prefix (trim url) ''https://'' of Some r \<Rightarrow> r
      | None \<Rightarrow> (case strip_prefix (trim url) ''http://'' of Some r \<Rightarrow> r | None \<Rightarrow> trim url)) = s"
    using s by (auto split: option.splits)
  then have "extract_host url = Some h"
    using tn ne split_once_hd [OF h(1)] by (simp add: extract_host_def Let_def)
  with h(2) hid show ?thesis by (simp add: for_url_def)
qed

lemma for_host_insert: "for_host (registry_insert m h a) h' = (if h' = h then Some a else for_host m h')"
  by (auto simp: for_host_def registry_insert_def host_key_inject)

section \<open>Properties\<close>

text \<open>
  C12: safety. The parser of pull request references answers every input, with an error or with
  a reference whose owner and repository are not empty, whose number is not zero, and whose
  host is one of the three forms the registry knows; it never panics.
\<close>

theorem accepted_reference_valid:
  "case pr_parse input of Ok r \<Rightarrow> pr_ok r | Err e \<Rightarrow> True | Panic \<Rightarrow> False"
  using pr_parse_ok pr_parse_not_panic by (auto split: result.splits)

text \<open>
  A displayed reference of a github.com pull request parses back to itself,
  when its owner has neither a slash nor a hash, its repository no hash, and the text does not
  start like a URL.
\<close>

lemma shorthand_roundtrip:
  assumes "pr_host r = github_com" "CHR ''/'' \<notin> set (pr_owner r)" "CHR ''#'' \<notin> set (pr_owner r)"
    and "pr_owner r \<noteq> []" "visible (hd (pr_owner r))"
    and "pr_repo r \<noteq> []" "CHR ''#'' \<notin> set (pr_repo r)" "pr_number r \<noteq> 0"
    and "\<not> starts_with (pr_owner r @ ''/'' @ pr_repo r) ''https://''"
    and "\<not> starts_with (pr_owner r @ ''/'' @ pr_repo r) ''http://''"
  shows "pr_parse (pr_show r) = Ok r"
proof -
  obtain c os where "pr_owner r = c # os" using assms(4) by (cases "pr_owner r") auto
  with shorthand [OF assms(2,3,6,7) this _ assms(8-10)] assms(1,5) show ?thesis
    by (simp add: pr_show_def)
qed

definition demo_pr :: pr_ref where
  "demo_pr = \<lparr>pr_host = github_com, pr_owner = ''o'', pr_repo = ''r'', pr_number = 42\<rparr>"

lemma shorthand_roundtrip_witness: "pr_parse (pr_show demo_pr) = Ok demo_pr"
  by (rule shorthand_roundtrip) (simp_all add: demo_pr_def visible_def starts_with_def)

text \<open>
  The two URL forms of an Azure DevOps pull request, with the organisation in
  the path or in the host, parse to the same reference.
\<close>

lemma ado_forms_agree:
  assumes "org \<noteq> []" "CHR ''/'' \<notin> set org" "to_ascii_lowercase org = org"
    and "project \<noteq> []" "CHR ''/'' \<notin> set project" "repo \<noteq> []" "CHR ''/'' \<notin> set repo" "n \<noteq> 0"
  shows "pr_parse (''https://dev.azure.com/'' @ org @ ''/'' @ project @ ''/_git/'' @ repo @ ''/pullrequest/'' @ show_u64 n) =
      pr_parse (''https://'' @ org @ ''.visualstudio.com/'' @ project @ ''/_git/'' @ repo @ ''/pullrequest/'' @ show_u64 n) \<and>
    is_ok (pr_parse (''https://dev.azure.com/'' @ org @ ''/'' @ project @ ''/_git/'' @ repo @ ''/pullrequest/'' @ show_u64 n))"
  using ado_urls [OF assms] by simp

lemma ado_forms_agree_witness:
  "pr_parse (''https://dev.azure.com/o/p/_git/r/pullrequest/'' @ show_u64 7) =
   pr_parse (''https://o.visualstudio.com/p/_git/r/pullrequest/'' @ show_u64 7)"
  using ado_forms_agree [of "''o''" "''p''" "''r''" 7] by (simp add: to_ascii_lowercase_def ascii_lower_def less_eq_char_def)

text \<open>
  A URL that parses as a pull request is routed by the registry to exactly the
  adapter registered for the reference's host, and a registration replaces only its own host.
\<close>

lemma url_routes_to_its_host:
  assumes "starts_with (trim url) ''https://'' \<or> starts_with (trim url) ''http://''" "pr_parse url = Ok r"
  shows "for_url (registry_insert m hid a) url = (if pr_host r = hid then Some a else for_host m (pr_host r))"
  using for_url_route [OF assms, of "registry_insert m hid a"] by (simp add: for_host_insert)

lemma demo_url: "pr_parse (''https://github.com/o/r/pull/'' @ show_u64 42) = Ok demo_pr"
  using github_url [of "''github.com''" github_com "''o''" "''r''" 42 "[]"]
  by (simp add: from_browse_host_def classify_host_def Let_def eq_ignore_ascii_case_def demo_pr_def github_com_def)

lemma url_routes_to_its_host_witness:
  "for_url (registry_insert registry_empty github_com (1 :: nat)) (''https://github.com/o/r/pull/'' @ show_u64 42) = Some 1"
proof -
  let ?u = "''https://github.com/o/r/pull/'' @ show_u64 42"
  have "trim (CHR ''h'' # tl ?u) = CHR ''h'' # tl ?u"
    using last_visible [of "[]" 42] by (intro trim_visible) (simp_all add: https_visible show_u64_def)
  then have "starts_with (trim ?u) ''https://''" by (simp add: starts_with_def)
  with url_routes_to_its_host [OF _ demo_url, of registry_empty github_com "1 :: nat"] show ?thesis
    by (simp add: demo_pr_def)
qed

text \<open>
  Ledger keys never collide: two hosts have the same ledger key only when they
  have the same kind and the same host name.
\<close>

lemma host_ledger_key_injective:
  "host_ledger_key a = host_ledger_key b \<longleftrightarrow> host_kind a = host_kind b \<and> host a = host b"
  by (rule host_ledger_key_inject)

end
