(* ===== verification/Json.thy ===== *)
theory Json
  imports RustStr
begin

text \<open>
  The values of \<open>serde_json\<close> that the components build and inspect, and its accessors. Numbers
  are integers; a number that is not one is kept apart, since the code only asks whether it is
  an unsigned integer. An object lists its members, the first of a name counting.
\<close>

datatype json = JNull | JBool bool | JNum int | JFloat bytes | JStr bytes | JArr "json list"
  | JObj "(bytes \<times> json) list"

fun json_get :: "json \<Rightarrow> bytes \<Rightarrow> json option" where
  "json_get (JObj ms) k = map_of ms k"
| "json_get _ k = None"

text \<open>\<open>value["key"]\<close> is \<open>Null\<close> when there is no such member.\<close>

definition json_at :: "json \<Rightarrow> bytes \<Rightarrow> json" where
  "json_at v k = (case json_get v k of Some x \<Rightarrow> x | None \<Rightarrow> JNull)"

fun as_str :: "json \<Rightarrow> bytes option" where
  "as_str (JStr s) = Some s"
| "as_str _ = None"

fun as_bool :: "json \<Rightarrow> bool option" where
  "as_bool (JBool b) = Some b"
| "as_bool _ = None"

fun as_u64 :: "json \<Rightarrow> u64 option" where
  "as_u64 (JNum n) = (if 0 \<le> n \<and> n < 2 ^ 64 then Some (word_of_int n) else None)"
| "as_u64 _ = None"

fun as_array :: "json \<Rightarrow> json list option" where
  "as_array (JArr xs) = Some xs"
| "as_array _ = None"

definition j_u64 :: "u64 \<Rightarrow> json" where
  "j_u64 n = JNum (uint n)"

lemma as_u64_j_u64 [simp]: "as_u64 (j_u64 n) = Some n"
  using uint_bounded [of n] by (simp add: j_u64_def)

definition j_opt_str :: "bytes option \<Rightarrow> json" where
  "j_opt_str s = (case s of None \<Rightarrow> JNull | Some s \<Rightarrow> JStr s)"

end
