(* ===== verification/Adapter.thy ===== *)
theory Adapter
  imports Forge Json
begin

text \<open>
  The forge-independent side of \<open>crates/devdev-integrations\<close>: the data of pull requests and the
  errors (\<open>types.rs\<close>), the trait \<open>RepoHostAdapter\<close> as a record of its methods (\<open>lib.rs\<close>), the
  rate-limit tracker (\<open>rate_limit.rs\<close>), and the exchange of an HTTP request for an answer that
  both adapters are written with. The network, \<open>serde_json\<close>'s parser, \<open>SipHash\<close> and the \<open>Debug\<close>
  form of a string are parameters.
\<close>

section \<open>Data\<close>

datatype pr_state = Open | Closed | Merged

record pull_request =
  p_number :: u64
  p_title :: bytes
  p_author :: bytes
  p_state :: pr_state
  p_head_sha :: bytes
  p_base_sha :: bytes
  p_head_ref :: bytes
  p_base_ref :: bytes
  p_body :: "bytes option"
  p_created_at :: bytes
  p_updated_at :: bytes

record pr_comment =
  c_id :: u64
  c_author :: bytes
  c_body :: bytes
  c_path :: "bytes option"
  c_line :: "u64 option"
  c_created_at :: bytes

datatype review_event = Approve | RequestChanges | CommentOnly

record review_comment =
  r_path :: bytes
  r_line :: u64
  r_body :: bytes

record review =
  rv_event :: review_event
  rv_text :: bytes
  rv_notes :: "review_comment list"

record check_run =
  k_name :: bytes
  k_status :: bytes
  k_conclusion :: "bytes option"

record pr_status =
  mergeable :: "bool option"
  checks :: "check_run list"

datatype repo_host_error = Unauthorized | NotFound bytes | RateLimited u64 | ServerError nat bytes
  | Network bytes | TokenNotSet | Deserialize bytes | Unsupported bytes

fun show_host_error :: "repo_host_error \<Rightarrow> bytes" where
  "show_host_error Unauthorized = ''authentication failed: token missing or invalid''"
| "show_host_error (NotFound s) = ''not found: '' @ s"
| "show_host_error (RateLimited n) = ''rate limited: retry after '' @ show_u64 n @ ''s''"
| "show_host_error (ServerError status body) = ''server error: '' @ show_nat status @ '' '' @ body"
| "show_host_error (Network s) = ''network error: '' @ s"
| "show_host_error TokenNotSet = ''token not set: a credential is required for this host''"
| "show_host_error (Deserialize s) = ''deserialization error: '' @ s"
| "show_host_error (Unsupported s) = ''unsupported operation: '' @ s"

section \<open>The adapter trait\<close>

text \<open>\<open>'w\<close> is what the methods act on: the forge, the network, a test double.\<close>

type_synonym ('w, 'a) forge_call = "('w, 'a, repo_host_error) prog"

record 'w repo_host_adapter =
  ad_host_id :: repo_host_id
  ad_get_pr :: "bytes \<Rightarrow> bytes \<Rightarrow> u64 \<Rightarrow> ('w, pull_request) forge_call"
  ad_get_pr_diff :: "bytes \<Rightarrow> bytes \<Rightarrow> u64 \<Rightarrow> ('w, bytes) forge_call"
  ad_list_pr_comments :: "bytes \<Rightarrow> bytes \<Rightarrow> u64 \<Rightarrow> ('w, pr_comment list) forge_call"
  ad_post_review :: "bytes \<Rightarrow> bytes \<Rightarrow> u64 \<Rightarrow> review \<Rightarrow> ('w, unit) forge_call"
  ad_post_comment :: "bytes \<Rightarrow> bytes \<Rightarrow> u64 \<Rightarrow> bytes \<Rightarrow> ('w, unit) forge_call"
  ad_get_pr_status :: "bytes \<Rightarrow> bytes \<Rightarrow> u64 \<Rightarrow> ('w, pr_status) forge_call"
  ad_get_pr_head_sha :: "bytes \<Rightarrow> bytes \<Rightarrow> u64 \<Rightarrow> ('w, bytes) forge_call"
  ad_list_open_prs :: "bytes \<Rightarrow> bytes \<Rightarrow> ('w, pull_request list) forge_call"

text \<open>\<open>{:x}\<close> of a 64-bit number; \<open>hash\<close> is the keyed SipHash of the two strings.\<close>

fun show_hex :: "nat \<Rightarrow> bytes" where
  "show_hex n = (if n < 16 then [''0123456789abcdef'' ! n] else show_hex (n div 16) @ [''0123456789abcdef'' ! (n mod 16)])"

declare show_hex.simps [simp del]

definition pr_state_hash :: "(bytes \<Rightarrow> bytes \<Rightarrow> u64) \<Rightarrow> pull_request \<Rightarrow> bytes" where
  "pr_state_hash hash pr = ''sha:'' @ show_hex (unat (hash (p_head_sha pr) (p_updated_at pr)))"

section \<open>Rate limits\<close>

record rate_limit_tracker =
  remaining :: u64
  reset_at :: u64

definition rate_limit_new :: rate_limit_tracker where
  "rate_limit_new = \<lparr>remaining = - 1, reset_at = 0\<rparr>"

definition rate_limit_update :: "u64 \<Rightarrow> u64 \<Rightarrow> rate_limit_tracker \<Rightarrow> rate_limit_tracker" where
  "rate_limit_update rem reset t = t\<lparr>remaining := rem, reset_at := reset\<rparr>"

section \<open>HTTP\<close>

datatype http_body = HttpGet | HttpPost json | HttpPatch json

record http_req =
  rq_body :: http_body
  rq_url :: bytes
  rq_auth :: bytes
  rq_accept :: bytes
  rq_user_agent :: bytes

text \<open>An answer, or the text of the error when none arrived; reading its text may fail as well.\<close>

datatype http_resp = NoAnswer bytes
  | Answer (rs_status: nat) (rs_url: bytes) (rs_header: "bytes \<Rightarrow> bytes option") (rs_text: "bytes + bytes")

text \<open>
  What is outside: how the network answers the request with the given number, and the parser and
  the formatter of the libraries.
\<close>

record net =
  answer :: "nat \<Rightarrow> http_req \<Rightarrow> http_resp"
  parse_json :: "bytes \<Rightarrow> bytes + json"
  debug_str :: "bytes \<Rightarrow> bytes"

text \<open>The requests sent so far, and the tracker of each GitHub adapter by its host.\<close>

record http_world =
  http_log :: "http_req list"
  rates :: "host_key \<Rightarrow> rate_limit_tracker"

definition http_send :: "net \<Rightarrow> http_req \<Rightarrow> ('x http_world_scheme, http_resp) forge_call" where
  "http_send N rq w =
     (case answer N (length (http_log w)) rq of
        NoAnswer e \<Rightarrow> (Err (Network e), w\<lparr>http_log := http_log w @ [rq]\<rparr>)
      | resp \<Rightarrow> (Ok resp, w\<lparr>http_log := http_log w @ [rq]\<rparr>))"

text \<open>\<open>resp.headers().get(name)\<close>, read as a number.\<close>

definition header_u64 :: "http_resp \<Rightarrow> bytes \<Rightarrow> u64 option" where
  "header_u64 resp name = Option.bind (rs_header resp name) parse_u64"

definition retry_after :: "http_resp \<Rightarrow> u64" where
  "retry_after resp = (case header_u64 resp ''retry-after'' of Some n \<Rightarrow> n | None \<Rightarrow> 60)"

definition resp_text :: "http_resp \<Rightarrow> (bytes, repo_host_error) result" where
  "resp_text resp = (case rs_text resp of Inl e \<Rightarrow> Err (Network e) | Inr t \<Rightarrow> Ok t)"

definition from_str :: "net \<Rightarrow> bytes \<Rightarrow> (json, repo_host_error) result" where
  "from_str N t = (case parse_json N t of
     Inl e \<Rightarrow> Err (Deserialize (e @ '': '' @ t))
   | Inr v \<Rightarrow> Ok v)"

text \<open>\<open>value[k].as_str().unwrap_or("")\<close>\<close>

definition str_or :: "bytes \<Rightarrow> json \<Rightarrow> bytes" where
  "str_or d v = (case as_str v of Some s \<Rightarrow> s | None \<Rightarrow> d)"

definition num_or :: "u64 \<Rightarrow> json \<Rightarrow> u64" where
  "num_or d v = (case as_u64 v of Some n \<Rightarrow> n | None \<Rightarrow> d)"

section \<open>Facts\<close>

lemma http_send_log: "http_log (snd (http_send N rq w)) = http_log w @ [rq]"
  by (simp add: http_send_def split: http_resp.splits)

lemma http_send_no_panic: "fst (http_send N rq w) \<noteq> Panic"
  by (simp add: http_send_def split: http_resp.splits)

lemma from_str_no_panic [simp]: "from_str N t \<noteq> Panic"
  by (simp add: from_str_def split: sum.splits)

lemma resp_text_no_panic [simp]: "resp_text r \<noteq> Panic"
  by (simp add: resp_text_def split: sum.splits)

end
