(* ===== verification/GitHubApi.thy ===== *)
theory GitHubApi
  imports Adapter
begin

text \<open>
  The GitHub adapter (\<open>crates/devdev-integrations/src/github.rs\<close>): the requests each method sends,
  how an answer is checked and parsed, and the paging of the two listings.
\<close>

record github_adapter =
  gh_host :: repo_host_id
  gh_token :: bytes

definition gh_api_base :: "github_adapter \<Rightarrow> bytes" where
  "gh_api_base A = api_base (gh_host A)"

section \<open>Requests\<close>

definition gh_request :: "github_adapter \<Rightarrow> http_body \<Rightarrow> bytes \<Rightarrow> bytes \<Rightarrow> http_req" where
  "gh_request A body url accept = \<lparr>rq_body = body, rq_url = url, rq_auth = ''Bearer '' @ gh_token A,
     rq_accept = accept, rq_user_agent = ''devdev/0.1''\<rparr>"

definition gh_update_rate_limit :: "github_adapter \<Rightarrow> http_resp \<Rightarrow> ('x http_world_scheme, unit) forge_call" where
  "gh_update_rate_limit A resp =
     (let rem = (case header_u64 resp ''x-ratelimit-remaining'' of Some n \<Rightarrow> n | None \<Rightarrow> - 1);
          reset = (case header_u64 resp ''x-ratelimit-reset'' of Some n \<Rightarrow> n | None \<Rightarrow> 0);
          k = host_key (gh_host A)
      in modify (\<lambda>w. w\<lparr>rates := (rates w)(k := rate_limit_update rem reset (rates w k))\<rparr>))"

definition gh_check_status :: "http_resp \<Rightarrow> (unit, repo_host_error) result" where
  "gh_check_status resp =
     (let status = rs_status resp in
      if 200 \<le> status \<and> status \<le> 299 then Ok ()
      else if status = 401 then Err Unauthorized
      else if status = 404 then Err (NotFound (rs_url resp))
      else if status = 429 then Err (RateLimited (retry_after resp))
      else Err (ServerError status []))"

definition gh_send :: "net \<Rightarrow> github_adapter \<Rightarrow> http_req \<Rightarrow> ('x http_world_scheme, http_resp) forge_call" where
  "gh_send N A rq =
     and_then (http_send N rq) (\<lambda>resp.
     and_then (gh_update_rate_limit A resp) (\<lambda>_.
     and_then (query (\<lambda>_. gh_check_status resp)) (\<lambda>_.
     ret resp)))"

definition gh_get_json :: "net \<Rightarrow> github_adapter \<Rightarrow> bytes \<Rightarrow> ('x http_world_scheme, json) forge_call" where
  "gh_get_json N A url =
     and_then (gh_send N A (gh_request A HttpGet url ''application/vnd.github.v3+json'')) (\<lambda>resp.
     and_then (query (\<lambda>_. resp_text resp)) (\<lambda>text.
     query (\<lambda>_. from_str N text)))"

definition gh_get_text :: "net \<Rightarrow> github_adapter \<Rightarrow> bytes \<Rightarrow> bytes \<Rightarrow> ('x http_world_scheme, bytes) forge_call" where
  "gh_get_text N A url accept =
     and_then (gh_send N A (gh_request A HttpGet url accept)) (\<lambda>resp.
     query (\<lambda>_. resp_text resp))"

definition gh_post_json :: "net \<Rightarrow> github_adapter \<Rightarrow> bytes \<Rightarrow> json \<Rightarrow> ('x http_world_scheme, unit) forge_call" where
  "gh_post_json N A url body =
     and_then (gh_send N A (gh_request A (HttpPost body) url ''application/vnd.github.v3+json'')) (\<lambda>_. ret ())"

section \<open>Parsing\<close>

definition gh_parse_pr :: "json \<Rightarrow> pull_request" where
  "gh_parse_pr v =
     (let merged = (case Option.bind (json_get v ''merged'') as_bool of Some b \<Rightarrow> b | None \<Rightarrow> False);
          state_str = (case Option.bind (json_get v ''state'') as_str of Some s \<Rightarrow> s | None \<Rightarrow> ''open'');
          state = (if merged then Merged else if state_str = ''closed'' then Closed else Open)
      in \<lparr>p_number = num_or 0 (json_at v ''number''),
          p_title = str_or [] (json_at v ''title''),
          p_author = str_or [] (json_at (json_at v ''user'') ''login''),
          p_state = state,
          p_head_sha = str_or [] (json_at (json_at v ''head'') ''sha''),
          p_base_sha = str_or [] (json_at (json_at v ''base'') ''sha''),
          p_head_ref = str_or [] (json_at (json_at v ''head'') ''ref''),
          p_base_ref = str_or [] (json_at (json_at v ''base'') ''ref''),
          p_body = as_str (json_at v ''body''),
          p_created_at = str_or [] (json_at v ''created_at''),
          p_updated_at = str_or [] (json_at v ''updated_at'')\<rparr>)"

definition gh_parse_comment :: "json \<Rightarrow> pr_comment" where
  "gh_parse_comment v =
     \<lparr>c_id = num_or 0 (json_at v ''id''),
      c_author = str_or [] (json_at (json_at v ''user'') ''login''),
      c_body = str_or [] (json_at v ''body''),
      c_path = as_str (json_at v ''path''),
      c_line = as_u64 (json_at v ''line''),
      c_created_at = str_or [] (json_at v ''created_at'')\<rparr>"

section \<open>The methods\<close>

definition gh_repo_url :: "github_adapter \<Rightarrow> bytes \<Rightarrow> bytes \<Rightarrow> bytes" where
  "gh_repo_url A owner repo = gh_api_base A @ ''/repos/'' @ owner @ ''/'' @ repo"

definition gh_pr_url :: "github_adapter \<Rightarrow> bytes \<Rightarrow> bytes \<Rightarrow> u64 \<Rightarrow> bytes" where
  "gh_pr_url A owner repo number = gh_repo_url A owner repo @ ''/pulls/'' @ show_u64 number"

definition gh_get_pr :: "net \<Rightarrow> github_adapter \<Rightarrow> bytes \<Rightarrow> bytes \<Rightarrow> u64 \<Rightarrow> ('x http_world_scheme, pull_request) forge_call" where
  "gh_get_pr N A owner repo number =
     and_then (gh_get_json N A (gh_pr_url A owner repo number)) (\<lambda>v. ret (gh_parse_pr v))"

definition gh_get_pr_diff :: "net \<Rightarrow> github_adapter \<Rightarrow> bytes \<Rightarrow> bytes \<Rightarrow> u64 \<Rightarrow> ('x http_world_scheme, bytes) forge_call" where
  "gh_get_pr_diff N A owner repo number =
     gh_get_text N A (gh_pr_url A owner repo number) ''application/vnd.github.v3.diff''"

definition MAX_PAGES :: nat where "MAX_PAGES = 10"

text \<open>
  The loop both listings are written as: \<open>left\<close> counts the pages up to \<open>max_pages\<close>, \<open>url\<close> is the
  address of a page and \<open>item\<close> reads an element.
\<close>

primrec gh_pages :: "net \<Rightarrow> github_adapter \<Rightarrow> (u32 \<Rightarrow> bytes) \<Rightarrow> (json \<Rightarrow> 'b) \<Rightarrow> nat \<Rightarrow> u32 \<Rightarrow> 'b list \<Rightarrow>
    ('x http_world_scheme, 'b list) forge_call" where
  "gh_pages N A url item 0 page acc = ret acc"
| "gh_pages N A url item (Suc left) page acc =
     and_then (gh_get_json N A (url page)) (\<lambda>v.
     and_then (query (\<lambda>_. ok_or (as_array v) (Deserialize ''expected array''))) (\<lambda>arr.
     if arr = [] then ret acc
     else gh_pages N A url item left (page + 1) (acc @ map item arr)))"

definition gh_list_pr_comments :: "net \<Rightarrow> github_adapter \<Rightarrow> bytes \<Rightarrow> bytes \<Rightarrow> u64 \<Rightarrow> ('x http_world_scheme, pr_comment list) forge_call" where
  "gh_list_pr_comments N A owner repo number =
     gh_pages N A (\<lambda>page. gh_pr_url A owner repo number @ ''/comments?per_page=100&page='' @ show_nat (unat page))
       gh_parse_comment MAX_PAGES 1 []"

fun gh_event :: "review_event \<Rightarrow> bytes" where
  "gh_event Approve = ''APPROVE''"
| "gh_event RequestChanges = ''REQUEST_CHANGES''"
| "gh_event CommentOnly = ''COMMENT''"

definition gh_post_review :: "net \<Rightarrow> github_adapter \<Rightarrow> bytes \<Rightarrow> bytes \<Rightarrow> u64 \<Rightarrow> review \<Rightarrow> ('x http_world_scheme, unit) forge_call" where
  "gh_post_review N A owner repo number rv =
     (let comments = map (\<lambda>c. JObj [(''path'', JStr (r_path c)), (''line'', j_u64 (r_line c)), (''body'', JStr (r_body c))]) (rv_notes rv);
          body = JObj [(''event'', JStr (gh_event (rv_event rv))), (''body'', JStr (rv_text rv)), (''comments'', JArr comments)]
      in gh_post_json N A (gh_pr_url A owner repo number @ ''/reviews'') body)"

definition gh_post_comment :: "net \<Rightarrow> github_adapter \<Rightarrow> bytes \<Rightarrow> bytes \<Rightarrow> u64 \<Rightarrow> bytes \<Rightarrow> ('x http_world_scheme, unit) forge_call" where
  "gh_post_comment N A owner repo number body =
     gh_post_json N A (gh_repo_url A owner repo @ ''/issues/'' @ show_u64 number @ ''/comments'') (JObj [(''body'', JStr body)])"

definition gh_get_pr_status :: "net \<Rightarrow> github_adapter \<Rightarrow> bytes \<Rightarrow> bytes \<Rightarrow> u64 \<Rightarrow> ('x http_world_scheme, pr_status) forge_call" where
  "gh_get_pr_status N A owner repo number =
     and_then (gh_get_json N A (gh_pr_url A owner repo number)) (\<lambda>pr_value.
     let head_sha = str_or [] (json_at (json_at pr_value ''head'') ''sha'') in
     and_then (gh_get_json N A (gh_repo_url A owner repo @ ''/commits/'' @ head_sha @ ''/check-runs'')) (\<lambda>checks_value.
     let runs = (case as_array (json_at checks_value ''check_runs'') of Some arr \<Rightarrow> arr | None \<Rightarrow> []) in
     ret \<lparr>mergeable = as_bool (json_at pr_value ''mergeable''),
          checks = map (\<lambda>c. \<lparr>k_name = str_or [] (json_at c ''name''), k_status = str_or [] (json_at c ''status''),
            k_conclusion = as_str (json_at c ''conclusion'')\<rparr>) runs\<rparr>))"

definition gh_get_pr_head_sha :: "net \<Rightarrow> github_adapter \<Rightarrow> bytes \<Rightarrow> bytes \<Rightarrow> u64 \<Rightarrow> ('x http_world_scheme, bytes) forge_call" where
  "gh_get_pr_head_sha N A owner repo number =
     and_then (gh_get_json N A (gh_pr_url A owner repo number)) (\<lambda>v.
     ret (str_or [] (json_at (json_at v ''head'') ''sha'')))"

definition gh_open_url :: "github_adapter \<Rightarrow> bytes \<Rightarrow> bytes \<Rightarrow> u32 \<Rightarrow> bytes" where
  "gh_open_url A owner repo page = gh_repo_url A owner repo @ ''/pulls?state=open&per_page=100&page='' @ show_nat (unat page)"

definition gh_list_open_prs :: "net \<Rightarrow> github_adapter \<Rightarrow> bytes \<Rightarrow> bytes \<Rightarrow> ('x http_world_scheme, pull_request list) forge_call" where
  "gh_list_open_prs N A owner repo = gh_pages N A (gh_open_url A owner repo) gh_parse_pr MAX_PAGES 1 []"

definition github_adapter_of :: "net \<Rightarrow> github_adapter \<Rightarrow> 'x http_world_scheme repo_host_adapter" where
  "github_adapter_of N A = \<lparr>ad_host_id = gh_host A, ad_get_pr = gh_get_pr N A, ad_get_pr_diff = gh_get_pr_diff N A,
     ad_list_pr_comments = gh_list_pr_comments N A, ad_post_review = gh_post_review N A, ad_post_comment = gh_post_comment N A,
     ad_get_pr_status = gh_get_pr_status N A, ad_get_pr_head_sha = gh_get_pr_head_sha N A, ad_list_open_prs = gh_list_open_prs N A\<rparr>"

section \<open>What a listing returns\<close>

text \<open>The outcome of a GET that is sent as request number \<open>n\<close>.\<close>

definition gh_answer :: "net \<Rightarrow> github_adapter \<Rightarrow> bytes \<Rightarrow> nat \<Rightarrow> (json, repo_host_error) result" where
  "gh_answer N A url n =
     (case answer N n (gh_request A HttpGet url ''application/vnd.github.v3+json'') of
        NoAnswer e \<Rightarrow> Err (Network e)
      | resp \<Rightarrow> res_bind (gh_check_status resp) (\<lambda>_. res_bind (resp_text resp) (from_str N)))"

lemma gh_check_no_panic [simp]: "gh_check_status r \<noteq> Panic"
  by (simp add: gh_check_status_def Let_def)

lemma gh_get_json_run:
  obtains w' where "gh_get_json N A url w = (gh_answer N A url (length (http_log w)), w')"
    "http_log w' = http_log w @ [gh_request A HttpGet url ''application/vnd.github.v3+json'']"
proof (cases "answer N (length (http_log w)) (gh_request A HttpGet url ''application/vnd.github.v3+json'')")
  case (NoAnswer e)
  then show ?thesis
    by (intro that [of "w\<lparr>http_log := http_log w @ [gh_request A HttpGet url ''application/vnd.github.v3+json'']\<rparr>"])
       (simp_all add: gh_get_json_def gh_send_def http_send_def gh_answer_def and_then_def)
next
  case (Answer status u h tx)
  let ?r = "Answer status u h tx"
  obtain w1 where w1: "gh_update_rate_limit A ?r
      (w\<lparr>http_log := http_log w @ [gh_request A HttpGet url ''application/vnd.github.v3+json'']\<rparr>) = (Ok (), w1)"
    "http_log w1 = http_log w @ [gh_request A HttpGet url ''application/vnd.github.v3+json'']"
    by (simp add: gh_update_rate_limit_def Let_def)
  show ?thesis
    by (intro that [of w1])
       (cases "gh_check_status ?r"; cases "resp_text ?r";
        simp add: Answer gh_get_json_def gh_send_def http_send_def gh_answer_def and_then_def w1)+
qed

lemma gh_pages_run:
  assumes "\<forall>i < length ps. gh_answer N A (url (page + of_nat i)) (length (http_log w) + i) = Ok (JArr (ps ! i))"
    and "[] \<notin> set ps"
    and "gh_answer N A (url (page + of_nat (length ps))) (length (http_log w) + length ps) = Ok (JArr [])"
  shows "\<exists>w'. gh_pages N A url item left page acc w = (Ok (acc @ map item (concat (take left ps))), w') \<and>
     length (http_log w') = length (http_log w) + min (length ps + 1) left"
  using assms
proof (induction left arbitrary: page acc w ps)
  case (Suc left)
  obtain w1 where w1: "gh_get_json N A (url page) w = (gh_answer N A (url page) (length (http_log w)), w1)"
    "length (http_log w1) = length (http_log w) + 1"
    using gh_get_json_run [of N A "url page" w] by (metis length_append_singleton Suc_eq_plus1)
  show ?case
  proof (cases ps)
    case Nil
    then show ?thesis using Suc.prems(3) w1 by (simp add: and_then_def)
  next
    case (Cons p ps')
    have a: "gh_answer N A (url (page + 1 + of_nat i)) (length (http_log w1) + i) =
        gh_answer N A (url (page + of_nat (Suc i))) (length (http_log w) + Suc i)" for i
      by (simp add: w1(2) add.assoc)
    have "\<forall>i < length ps'. gh_answer N A (url (page + 1 + of_nat i)) (length (http_log w1) + i) = Ok (JArr (ps' ! i))"
      using Suc.prems(1) unfolding a Cons by (metis Suc_less_eq length_Cons nth_Cons_Suc)
    moreover have "gh_answer N A (url (page + 1 + of_nat (length ps'))) (length (http_log w1) + length ps') = Ok (JArr [])"
      using Suc.prems(3) unfolding a Cons by simp
    moreover have "[] \<notin> set ps'" using Suc.prems(2) by (simp add: Cons)
    ultimately obtain w' where w': "gh_pages N A url item left (page + 1) (acc @ map item p) w1 =
        (Ok ((acc @ map item p) @ map item (concat (take left ps'))), w')"
      "length (http_log w') = length (http_log w1) + min (length ps' + 1) left"
      using Suc.IH [of ps' "page + 1" w1 "acc @ map item p"] by blast
    have "gh_answer N A (url page) (length (http_log w)) = Ok (JArr p)" "p \<noteq> []"
      using Suc.prems(1) [rule_format, of 0] Suc.prems(2) by (auto simp: Cons)
    with w1 w' show ?thesis by (simp add: and_then_def Cons)
  qed
qed simp

section \<open>Properties\<close>

text \<open>
  C17: bounds. The listing of open pull requests asks for the pages one by one until an empty one
  and returns their elements in order, but it never asks for more than ten: of a repository with
  more pages, the rest is silently left out.
\<close>

theorem open_prs_capped:
  assumes "\<forall>i < length pages. gh_answer N A (gh_open_url A owner repo (1 + of_nat i)) (length (http_log w) + i) = Ok (JArr (pages ! i))"
    and "[] \<notin> set pages"
    and "gh_answer N A (gh_open_url A owner repo (1 + of_nat (length pages))) (length (http_log w) + length pages) = Ok (JArr [])"
  shows "\<exists>w'. gh_list_open_prs N A owner repo w = (Ok (map gh_parse_pr (concat (take 10 pages))), w') \<and>
     length (http_log w') = length (http_log w) + min (length pages + 1) 10"
  using gh_pages_run [OF assms, of gh_parse_pr MAX_PAGES "[]"]
  by (simp only: gh_list_open_prs_def MAX_PAGES_def append_Nil)

text \<open>A forge that serves eleven pages of one pull request each, and then an empty page.\<close>

definition demo_gh :: github_adapter where
  "demo_gh = \<lparr>gh_host = github_com, gh_token = ''t''\<rparr>"

definition demo_net :: net where
  "demo_net = \<lparr>answer = (\<lambda>n rq. Answer 200 (rq_url rq) (\<lambda>_. None) (Inr (if n < 11 then ''page'' else []))),
     parse_json = (\<lambda>t. Inr (JArr (if t = [] then [] else [JObj [(''number'', JNum 7)]]))), debug_str = (\<lambda>s. s)\<rparr>"

definition demo_world :: http_world where
  "demo_world = \<lparr>http_log = [], rates = (\<lambda>_. rate_limit_new)\<rparr>"

theorem open_prs_capped_witness:
  "\<exists>prs w'. gh_list_open_prs demo_net demo_gh ''o'' ''r'' demo_world = (Ok prs, w') \<and>
     length prs = 10 \<and> length (http_log w') = 10"
proof -
  let ?pages = "replicate 11 [JObj [(''number'', JNum 7)]]"
  have "gh_answer demo_net demo_gh u n = Ok (JArr (if n < 11 then [JObj [(''number'', JNum 7)]] else []))" for u n
    by (simp add: gh_answer_def demo_net_def gh_check_status_def resp_text_def from_str_def)
  then show ?thesis
    using open_prs_capped [of ?pages demo_net demo_gh "''o''" "''r''" demo_world]
    by (auto simp: demo_world_def concat_replicate_trivial length_concat sum_list_replicate)
qed

end
