(* ===== verification/AzureApi.thy ===== *)
theory AzureApi
  imports Adapter
begin

text \<open>
  The Azure DevOps adapter (\<open>crates/devdev-integrations/src/azure_devops.rs\<close>): its addresses, the
  checked requests, the mapping of its JSON, and a review as a sequence of requests. The Base64
  encoder of the PAT is a parameter of the adapter's constructor.
\<close>

record azure_adapter =
  az_host :: repo_host_id
  az_auth_header :: bytes

definition az_with_host :: "(bytes \<Rightarrow> bytes) \<Rightarrow> repo_host_id \<Rightarrow> bytes \<Rightarrow> azure_adapter" where
  "az_with_host b64 h pat = \<lparr>az_host = h, az_auth_header = ''Basic '' @ b64 ('':'' @ pat)\<rparr>"

section \<open>Addresses\<close>

definition split_owner :: "net \<Rightarrow> bytes \<Rightarrow> (bytes \<times> bytes, repo_host_error) result" where
  "split_owner N owner = ok_or (split_once owner (CHR ''/''))
     (Unsupported (''ADO requires owner='' @ [CHR 0x22] @ ''<org>/<project>'' @ [CHR 0x22] @ ''; got '' @ debug_str N owner))"

definition az_list_base :: "net \<Rightarrow> azure_adapter \<Rightarrow> bytes \<Rightarrow> bytes \<Rightarrow> (bytes, repo_host_error) result" where
  "az_list_base N A owner repo = res_bind (split_owner N owner) (\<lambda>(org, project).
     Ok (api_base (az_host A) @ ''/'' @ org @ ''/'' @ project @ ''/_apis/git/repositories/'' @ repo @ ''/pullrequests''))"

definition az_pr_base :: "net \<Rightarrow> azure_adapter \<Rightarrow> bytes \<Rightarrow> bytes \<Rightarrow> u64 \<Rightarrow> (bytes, repo_host_error) result" where
  "az_pr_base N A owner repo number = res_bind (split_owner N owner) (\<lambda>(org, project).
     Ok (api_base (az_host A) @ ''/'' @ org @ ''/'' @ project @ ''/_apis/git/repositories/'' @ repo @ ''/pullrequests/'' @ show_u64 number))"

section \<open>Requests\<close>

definition az_request :: "azure_adapter \<Rightarrow> http_body \<Rightarrow> bytes \<Rightarrow> http_req" where
  "az_request A body url = \<lparr>rq_body = body, rq_url = url, rq_auth = az_auth_header A,
     rq_accept = ''application/json'', rq_user_agent = ''devdev/0.1''\<rparr>"

definition az_check_status :: "http_resp \<Rightarrow> (unit, repo_host_error) result" where
  "az_check_status resp =
     (let status = rs_status resp in
      if 200 \<le> status \<and> status \<le> 299 then Ok ()
      else if status = 401 \<or> status = 403 then Err Unauthorized
      else if status = 404 then Err (NotFound (rs_url resp))
      else if status = 429 then Err (RateLimited (retry_after resp))
      else Err (ServerError status []))"

definition az_get_json :: "net \<Rightarrow> azure_adapter \<Rightarrow> bytes \<Rightarrow> ('x http_world_scheme, json) forge_call" where
  "az_get_json N A url =
     and_then (http_send N (az_request A HttpGet url)) (\<lambda>resp.
     and_then (query (\<lambda>_. az_check_status resp)) (\<lambda>_.
     and_then (query (\<lambda>_. resp_text resp)) (\<lambda>text.
     query (\<lambda>_. from_str N text))))"

definition az_post_json :: "net \<Rightarrow> azure_adapter \<Rightarrow> bytes \<Rightarrow> json \<Rightarrow> ('x http_world_scheme, json) forge_call" where
  "az_post_json N A url body =
     and_then (http_send N (az_request A (HttpPost body) url)) (\<lambda>resp.
     and_then (query (\<lambda>_. az_check_status resp)) (\<lambda>_.
     and_then (query (\<lambda>_. resp_text resp)) (\<lambda>text.
     if trim text = [] then ret JNull else query (\<lambda>_. from_str N text))))"

definition az_patch_json :: "net \<Rightarrow> azure_adapter \<Rightarrow> bytes \<Rightarrow> json \<Rightarrow> ('x http_world_scheme, unit) forge_call" where
  "az_patch_json N A url body =
     and_then (http_send N (az_request A (HttpPatch body) url)) (\<lambda>resp.
     query (\<lambda>_. az_check_status resp))"

section \<open>Parsing\<close>

definition strip_refs :: "bytes \<Rightarrow> bytes" where
  "strip_refs r = (case strip_prefix r ''refs/heads/'' of Some s \<Rightarrow> s | None \<Rightarrow> r)"

text \<open>\<open>a.as_str().or_else(|| b.as_str()).unwrap_or("")\<close>\<close>

definition first_str :: "json \<Rightarrow> json \<Rightarrow> bytes" where
  "first_str a b = (case as_str a of Some s \<Rightarrow> s | None \<Rightarrow> str_or [] b)"

definition az_parse_pr :: "json \<Rightarrow> pull_request" where
  "az_parse_pr v =
     (let status = str_or ''active'' (json_at v ''status'');
          state = (if status = ''completed'' then Merged else if status = ''abandoned'' then Closed else Open);
          by = json_at v ''createdBy''
      in \<lparr>p_number = num_or 0 (json_at v ''pullRequestId''),
          p_title = str_or [] (json_at v ''title''),
          p_author = first_str (json_at by ''uniqueName'') (json_at by ''displayName''),
          p_state = state,
          p_head_sha = str_or [] (json_at (json_at v ''lastMergeSourceCommit'') ''commitId''),
          p_base_sha = str_or [] (json_at (json_at v ''lastMergeTargetCommit'') ''commitId''),
          p_head_ref = strip_refs (str_or [] (json_at v ''sourceRefName'')),
          p_base_ref = strip_refs (str_or [] (json_at v ''targetRefName'')),
          p_body = as_str (json_at v ''description''),
          p_created_at = str_or [] (json_at v ''creationDate''),
          p_updated_at = first_str (json_at v ''closedDate'') (json_at v ''creationDate'')\<rparr>)"

definition map_status_state :: "bytes \<Rightarrow> bytes \<times> bytes option" where
  "map_status_state state =
     (if state = ''succeeded'' then (''completed'', Some ''success'')
      else if state = ''failed'' then (''completed'', Some ''failure'')
      else if state = ''error'' then (''completed'', Some ''failure'')
      else if state = ''notApplicable'' then (''completed'', Some ''neutral'')
      else if state = ''pending'' then (''in_progress'', None)
      else if state = ''notSet'' \<or> state = [] then (''queued'', None)
      else (state, None))"

definition array_or_empty :: "json \<Rightarrow> json list" where
  "array_or_empty v = (case as_array v of Some arr \<Rightarrow> arr | None \<Rightarrow> [])"

definition az_thread_comments :: "json \<Rightarrow> pr_comment list" where
  "az_thread_comments thread =
     map (\<lambda>c. \<lparr>c_id = num_or 0 (json_at c ''id''),
         c_author = first_str (json_at (json_at c ''author'') ''uniqueName'') (json_at (json_at c ''author'') ''displayName''),
         c_body = str_or [] (json_at c ''content''),
         c_path = as_str (json_at (json_at thread ''threadContext'') ''filePath''),
         c_line = as_u64 (json_at (json_at (json_at thread ''threadContext'') ''rightFileStart'') ''line''),
         c_created_at = str_or [] (json_at c ''publishedDate'')\<rparr>)
       (array_or_empty (json_at thread ''comments''))"

definition az_parse_check :: "json \<Rightarrow> check_run" where
  "az_parse_check c =
     (let state = str_or [] (json_at c ''state''); (status, conclusion) = map_status_state state;
          name = str_or (str_or [] (json_at c ''description'')) (json_at (json_at c ''context'') ''name'')
      in \<lparr>k_name = name, k_status = status, k_conclusion = conclusion\<rparr>)"

section \<open>The methods\<close>

definition API_VERSION :: bytes where "API_VERSION = ''7.0''"

definition az_get_pr_json :: "net \<Rightarrow> azure_adapter \<Rightarrow> bytes \<Rightarrow> bytes \<Rightarrow> u64 \<Rightarrow> ('x http_world_scheme, json) forge_call" where
  "az_get_pr_json N A owner repo number =
     and_then (query (\<lambda>_. az_pr_base N A owner repo number)) (\<lambda>base.
     az_get_json N A (base @ ''?api-version='' @ API_VERSION))"

definition az_get_pr :: "net \<Rightarrow> azure_adapter \<Rightarrow> bytes \<Rightarrow> bytes \<Rightarrow> u64 \<Rightarrow> ('x http_world_scheme, pull_request) forge_call" where
  "az_get_pr N A owner repo number = and_then (az_get_pr_json N A owner repo number) (\<lambda>v. ret (az_parse_pr v))"

definition az_get_pr_diff :: "net \<Rightarrow> azure_adapter \<Rightarrow> bytes \<Rightarrow> bytes \<Rightarrow> u64 \<Rightarrow> ('x http_world_scheme, bytes) forge_call" where
  "az_get_pr_diff N A owner repo number =
     fail (Unsupported ''Azure DevOps unified-diff endpoint is not implemented; diff via head SHA against base instead'')"

definition az_threads_url :: "bytes \<Rightarrow> bytes" where
  "az_threads_url base = base @ ''/threads?api-version='' @ API_VERSION"

definition az_list_pr_comments :: "net \<Rightarrow> azure_adapter \<Rightarrow> bytes \<Rightarrow> bytes \<Rightarrow> u64 \<Rightarrow> ('x http_world_scheme, pr_comment list) forge_call" where
  "az_list_pr_comments N A owner repo number =
     and_then (query (\<lambda>_. az_pr_base N A owner repo number)) (\<lambda>base.
     and_then (az_get_json N A (az_threads_url base)) (\<lambda>v.
     ret (concat (map az_thread_comments (array_or_empty (json_at v ''value''))))))"

definition az_thread :: "bytes \<Rightarrow> (bytes \<times> json) list \<Rightarrow> json" where
  "az_thread content context = JObj ([(''comments'', JArr [JObj [(''parentCommentId'', JNum 0), (''content'', JStr content),
     (''commentType'', JNum 1)]]), (''status'', JNum 1)] @ context)"

definition az_line_context :: "review_comment \<Rightarrow> (bytes \<times> json) list" where
  "az_line_context c =
     (let at = JObj [(''line'', j_u64 (r_line c)), (''offset'', JNum 1)]
      in [(''threadContext'', JObj [(''filePath'', JStr (r_path c)), (''rightFileStart'', at), (''rightFileEnd'', at)])])"

fun az_post_notes :: "net \<Rightarrow> azure_adapter \<Rightarrow> bytes \<Rightarrow> bytes \<Rightarrow> u64 \<Rightarrow> review_comment list \<Rightarrow> ('x http_world_scheme, unit) forge_call" where
  "az_post_notes N A owner repo number [] w = (Ok (), w)"
| "az_post_notes N A owner repo number (c # cs) w =
     and_then (query (\<lambda>_. az_pr_base N A owner repo number)) (\<lambda>base.
     and_then (az_post_json N A (az_threads_url base) (az_thread (r_body c) (az_line_context c))) (\<lambda>_.
     az_post_notes N A owner repo number cs)) w"

fun az_vote :: "review_event \<Rightarrow> int" where
  "az_vote Approve = 10"
| "az_vote RequestChanges = - 10"
| "az_vote CommentOnly = 0"

definition az_post_review :: "net \<Rightarrow> azure_adapter \<Rightarrow> bytes \<Rightarrow> bytes \<Rightarrow> u64 \<Rightarrow> review \<Rightarrow> ('x http_world_scheme, unit) forge_call" where
  "az_post_review N A owner repo number rv =
     and_then (if rv_text rv \<noteq> []
        then and_then (query (\<lambda>_. az_pr_base N A owner repo number)) (\<lambda>base.
             and_then (az_post_json N A (az_threads_url base) (az_thread (rv_text rv) [])) (\<lambda>_. ret ()))
        else ret ()) (\<lambda>_.
     and_then (az_post_notes N A owner repo number (rv_notes rv)) (\<lambda>_.
     if az_vote (rv_event rv) \<noteq> 0
     then and_then (query (\<lambda>_. az_pr_base N A owner repo number)) (\<lambda>base.
          az_patch_json N A (base @ ''/reviewers/me?api-version='' @ API_VERSION) (JObj [(''vote'', JNum (az_vote (rv_event rv)))]))
     else ret ()))"

definition az_post_comment :: "net \<Rightarrow> azure_adapter \<Rightarrow> bytes \<Rightarrow> bytes \<Rightarrow> u64 \<Rightarrow> bytes \<Rightarrow> ('x http_world_scheme, unit) forge_call" where
  "az_post_comment N A owner repo number body =
     and_then (query (\<lambda>_. az_pr_base N A owner repo number)) (\<lambda>base.
     and_then (az_post_json N A (az_threads_url base) (az_thread body [])) (\<lambda>_. ret ()))"

definition az_get_pr_status :: "net \<Rightarrow> azure_adapter \<Rightarrow> bytes \<Rightarrow> bytes \<Rightarrow> u64 \<Rightarrow> ('x http_world_scheme, pr_status) forge_call" where
  "az_get_pr_status N A owner repo number =
     and_then (az_get_pr_json N A owner repo number) (\<lambda>pr_value.
     let mg = map_option (\<lambda>s. s = ''succeeded'' \<or> s = ''queued'') (as_str (json_at pr_value ''mergeStatus'')) in
     and_then (query (\<lambda>_. az_pr_base N A owner repo number)) (\<lambda>base.
     and_then (az_get_json N A (base @ ''/statuses?api-version='' @ API_VERSION)) (\<lambda>st_value.
     ret \<lparr>mergeable = mg, checks = map az_parse_check (array_or_empty (json_at st_value ''value''))\<rparr>)))"

definition az_get_pr_head_sha :: "net \<Rightarrow> azure_adapter \<Rightarrow> bytes \<Rightarrow> bytes \<Rightarrow> u64 \<Rightarrow> ('x http_world_scheme, bytes) forge_call" where
  "az_get_pr_head_sha N A owner repo number =
     and_then (az_get_pr_json N A owner repo number) (\<lambda>v.
     ret (str_or [] (json_at (json_at v ''lastMergeSourceCommit'') ''commitId'')))"

definition az_list_open_prs :: "net \<Rightarrow> azure_adapter \<Rightarrow> bytes \<Rightarrow> bytes \<Rightarrow> ('x http_world_scheme, pull_request list) forge_call" where
  "az_list_open_prs N A owner repo =
     and_then (query (\<lambda>_. az_list_base N A owner repo)) (\<lambda>base.
     and_then (az_get_json N A (base @ ''?searchCriteria.status=active&api-version='' @ API_VERSION)) (\<lambda>v.
     ret (map az_parse_pr (array_or_empty (json_at v ''value'')))))"

definition azure_adapter_of :: "net \<Rightarrow> azure_adapter \<Rightarrow> 'x http_world_scheme repo_host_adapter" where
  "azure_adapter_of N A = \<lparr>ad_host_id = az_host A, ad_get_pr = az_get_pr N A, ad_get_pr_diff = az_get_pr_diff N A,
     ad_list_pr_comments = az_list_pr_comments N A, ad_post_review = az_post_review N A, ad_post_comment = az_post_comment N A,
     ad_get_pr_status = az_get_pr_status N A, ad_get_pr_head_sha = az_get_pr_head_sha N A, ad_list_open_prs = az_list_open_prs N A\<rparr>"

section \<open>Programs as sequences of requests\<close>

text \<open>
  A request that is accepted is answered in the 200s; a note is followed by the next request only
  when the text of its answer can be read too, and is blank or JSON.
\<close>

definition accepted :: "net \<Rightarrow> nat \<Rightarrow> http_req \<Rightarrow> bool" where
  "accepted N n rq = (case answer N n rq of NoAnswer e \<Rightarrow> False | Answer st u h t \<Rightarrow> 200 \<le> st \<and> st \<le> 299)"

definition readable :: "net \<Rightarrow> http_resp \<Rightarrow> bool" where
  "readable N resp = (case resp_text resp of Ok t \<Rightarrow> trim t = [] \<or> (\<exists>v. parse_json N t = Inr v) | _ \<Rightarrow> False)"

definition served :: "net \<Rightarrow> nat \<Rightarrow> http_req \<Rightarrow> bool" where
  "served N n rq \<longleftrightarrow> accepted N n rq \<and> (case rq_body rq of HttpPost b \<Rightarrow> readable N (answer N n rq) | _ \<Rightarrow> True)"

text \<open>
  \<open>sends N m rqs\<close>: \<open>m\<close> sends the requests of \<open>rqs\<close> in order, up to the first that is not served,
  and fails exactly when there is one.
\<close>

fun sent :: "net \<Rightarrow> http_req list \<Rightarrow> http_req list \<Rightarrow> ('a, repo_host_error) result \<Rightarrow> http_req list \<Rightarrow> bool" where
  "sent N [] log r log' \<longleftrightarrow> is_ok r \<and> log' = log"
| "sent N (q # qs) log r log' \<longleftrightarrow>
     (if served N (length log) q then sent N qs (log @ [q]) r log' else (\<exists>e. r = Err e) \<and> log' = log @ [q])"

definition sends :: "net \<Rightarrow> ('x http_world_scheme, 'a) forge_call \<Rightarrow> http_req list \<Rightarrow> bool" where
  "sends N m rqs \<longleftrightarrow> (\<forall>w. sent N rqs (http_log w) (fst (m w)) (http_log (snd (m w))))"

lemma sends_ret [intro]: "sends N (ret x) []"
  by (simp add: sends_def)

lemma sent_append: "sent N rs1 log (Ok x) log1 \<Longrightarrow> sent N rs2 log1 r log2 \<Longrightarrow> sent N (rs1 @ rs2) log r log2"
  by (induction rs1 arbitrary: log) (auto split: if_splits)

lemma sent_failed: "sent N rs1 log (Err e :: ('a, repo_host_error) result) log1 \<Longrightarrow> sent N (rs1 @ rs2) log (Err e' :: ('b, repo_host_error) result) log1"
  by (induction rs1 arbitrary: log) (auto split: if_splits)

lemma sent_no_panic: "\<not> sent N rs log Panic log1"
  by (induction rs arbitrary: log) auto

lemma sends_and_then [intro]:
  assumes m: "sends N m rs1" and k: "\<And>x. sends N (k x) rs2"
  shows "sends N (and_then m k) (rs1 @ rs2)"
  unfolding sends_def
proof
  fix w
  obtain r w1 where r: "m w = (r, w1)" by (cases "m w")
  have s: "sent N rs1 (http_log w) r (http_log w1)"
    using m [unfolded sends_def, rule_format, of w] by (simp add: r)
  show "sent N (rs1 @ rs2) (http_log w) (fst (and_then m k w)) (http_log (snd (and_then m k w)))"
  proof (cases r)
    case (Ok x)
    then show ?thesis using s k [of x] by (auto simp: r and_then_def sends_def intro!: sent_append)
  next
    case (Err e)
    then show ?thesis using s sent_failed by (simp add: r and_then_def)
  next
    case Panic
    then show ?thesis using s by (simp add: sent_no_panic)
  qed
qed

text \<open>The first request that is not served, spelled out.\<close>

lemma sent_iff:
  "sent N rqs log r log' \<longleftrightarrow>
     (if \<forall>j < length rqs. served N (length log + j) (rqs ! j) then is_ok r \<and> log' = log @ rqs
      else \<exists>e k. k < length rqs \<and> (\<forall>j < k. served N (length log + j) (rqs ! j)) \<and> \<not> served N (length log + k) (rqs ! k) \<and>
        r = Err e \<and> log' = log @ take (Suc k) rqs)"
proof (induction rqs arbitrary: log)
  case (Cons q qs)
  then show ?case
    by (auto simp: All_less_Suc2 Ex_less_Suc2)
qed simp

lemma sends_from: "sends N m rs \<Longrightarrow> rs = rs' \<Longrightarrow> sends N m rs'"
  by simp

lemma az_check_no_panic [simp]: "az_check_status r \<noteq> Panic"
  by (simp add: az_check_status_def Let_def)

text \<open>The two calls of a review: a note is served when its answer is accepted and can be read, the vote when it is accepted.\<close>

lemma sends_post: "sends N (az_post_json N A url body) [az_request A (HttpPost body) url]"
  by (auto simp: sends_def az_post_json_def and_then_def http_send_def served_def accepted_def readable_def az_request_def
      az_check_status_def resp_text_def from_str_def Let_def split: http_resp.splits sum.splits)

lemma sends_patch: "sends N (az_patch_json N A url body :: ('x http_world_scheme, unit) forge_call) [az_request A (HttpPatch body) url]"
  by (auto simp: sends_def az_patch_json_def and_then_def http_send_def served_def accepted_def az_request_def
      az_check_status_def Let_def split: http_resp.splits)

text \<open>The requests of a review: its text, its notes in order, and its vote.\<close>

definition review_requests :: "azure_adapter \<Rightarrow> bytes \<Rightarrow> review \<Rightarrow> http_req list" where
  "review_requests A base rv =
     (if rv_text rv = [] then [] else [az_request A (HttpPost (az_thread (rv_text rv) [])) (az_threads_url base)]) @
     map (\<lambda>c. az_request A (HttpPost (az_thread (r_body c) (az_line_context c))) (az_threads_url base)) (rv_notes rv) @
     (if rv_event rv = CommentOnly then []
      else [az_request A (HttpPatch (JObj [(''vote'', JNum (az_vote (rv_event rv)))])) (base @ ''/reviewers/me?api-version='' @ API_VERSION)])"

lemma sends_query_then:
  assumes "f = (\<lambda>_. Ok x)" "sends N (k x) rs"
  shows "sends N (and_then (query f) k) rs"
  using assms by (simp add: sends_def and_then_def)

lemma sends_notes:
  assumes "az_pr_base N A owner repo number = Ok base"
  shows "sends N (az_post_notes N A owner repo number cs :: ('x http_world_scheme, unit) forge_call)
     (map (\<lambda>c. az_request A (HttpPost (az_thread (r_body c) (az_line_context c))) (az_threads_url base)) cs)"
proof (induction cs)
  case Nil
  then show ?case by (simp add: sends_def)
next
  case (Cons c cs)
  have e: "az_post_notes N A owner repo number (c # cs) = (and_then (query (\<lambda>_. az_pr_base N A owner repo number)) (\<lambda>base.
      and_then (az_post_json N A (az_threads_url base) (az_thread (r_body c) (az_line_context c))) (\<lambda>_.
      az_post_notes N A owner repo number cs)) :: ('x http_world_scheme, unit) forge_call)"
    by (rule ext) simp
  have "sends N (and_then (az_post_json N A (az_threads_url base) (az_thread (r_body c) (az_line_context c))) (\<lambda>_.
      az_post_notes N A owner repo number cs) :: ('x http_world_scheme, unit) forge_call)
     ([az_request A (HttpPost (az_thread (r_body c) (az_line_context c))) (az_threads_url base)] @
      map (\<lambda>c. az_request A (HttpPost (az_thread (r_body c) (az_line_context c))) (az_threads_url base)) cs)"
    by (rule sends_and_then [OF sends_post Cons.IH])
  then show ?case using assms by (simp add: e sends_query_then)
qed

lemma vote_zero [simp]: "az_vote e = 0 \<longleftrightarrow> e = CommentOnly"
  by (cases e) simp_all

lemma sends_review:
  assumes "az_pr_base N A owner repo number = Ok base"
  shows "sends N (az_post_review N A owner repo number rv) (review_requests A base rv)"
  unfolding az_post_review_def review_requests_def
proof (intro sends_and_then)
  show "sends N (if rv_text rv \<noteq> [] then and_then (query (\<lambda>_. az_pr_base N A owner repo number)) (\<lambda>base.
      and_then (az_post_json N A (az_threads_url base) (az_thread (rv_text rv) [])) (\<lambda>_. ret ())) else ret ())
     (if rv_text rv = [] then [] else [az_request A (HttpPost (az_thread (rv_text rv) [])) (az_threads_url base)])"
  proof (cases "rv_text rv = []")
    case False
    have "sends N (and_then (az_post_json N A (az_threads_url base) (az_thread (rv_text rv) [])) (\<lambda>_. ret ()))
        ([az_request A (HttpPost (az_thread (rv_text rv) [])) (az_threads_url base)] @ [])"
      by (intro sends_and_then sends_post sends_ret)
    with False assms show ?thesis by (auto intro: sends_query_then)
  qed (simp add: sends_ret)
next
  show "sends N (az_post_notes N A owner repo number (rv_notes rv))
     (map (\<lambda>c. az_request A (HttpPost (az_thread (r_body c) (az_line_context c))) (az_threads_url base)) (rv_notes rv))"
    using assms by (rule sends_notes)
next
  show "sends N (if az_vote (rv_event rv) \<noteq> 0 then and_then (query (\<lambda>_. az_pr_base N A owner repo number)) (\<lambda>base.
        az_patch_json N A (base @ ''/reviewers/me?api-version='' @ API_VERSION) (JObj [(''vote'', JNum (az_vote (rv_event rv)))])) else ret ())
     (if rv_event rv = CommentOnly then []
      else [az_request A (HttpPatch (JObj [(''vote'', JNum (az_vote (rv_event rv)))])) (base @ ''/reviewers/me?api-version='' @ API_VERSION)])"
    using assms by (cases "rv_event rv = CommentOnly") (auto intro: sends_query_then sends_patch)
qed

section \<open>Properties\<close>

text \<open>
  C18: safety. A review is sent as its text, its notes in order, and then the vote. The call
  succeeds exactly when every request is served (answered in the 200s, and for a note with an
  answer that can be read), and then all were sent. Otherwise it is an error, what was sent is
  the requests up to and with the first that was not served, and none after it. In particular
  the vote is only sent when the text and all notes were served, and when the forge accepts a
  vote the call succeeds.
\<close>

theorem review_sent_in_order:
  assumes "az_pr_base N A owner repo number = Ok base" "az_post_review N A owner repo number rv w = (r, w')"
  shows "(if \<forall>j < length (review_requests A base rv). served N (length (http_log w) + j) (review_requests A base rv ! j)
      then r = Ok () \<and> http_log w' = http_log w @ review_requests A base rv
      else \<exists>e k. k < length (review_requests A base rv) \<and>
        (\<forall>j < k. served N (length (http_log w) + j) (review_requests A base rv ! j)) \<and>
        \<not> served N (length (http_log w) + k) (review_requests A base rv ! k) \<and>
        r = Err e \<and> http_log w' = http_log w @ take (Suc k) (review_requests A base rv)) \<and>
    (\<forall>n b. length (http_log w) \<le> n \<and> n < length (http_log w') \<and> rq_body (http_log w' ! n) = HttpPatch b \<and>
        accepted N n (http_log w' ! n) \<longrightarrow> r = Ok ())"
proof -
  let ?rqs = "review_requests A base rv" and ?l = "length (http_log w)"
  have s: "sent N ?rqs (http_log w) r (http_log w')"
    using sends_review [OF assms(1), of rv, unfolded sends_def, rule_format, of w] by (simp add: assms(2))
  have last_patch: "Suc n = length ?rqs" if "n < length ?rqs" "rq_body (?rqs ! n) = HttpPatch b" for n b
    using that by (auto simp: review_requests_def nth_append az_request_def split: if_splits)
  have "r = Ok ()" if n: "?l \<le> n" "n < length (http_log w')" "rq_body (http_log w' ! n) = HttpPatch b" "accepted N n (http_log w' ! n)" for n b
  proof (rule ccontr)
    assume "r \<noteq> Ok ()"
    with s obtain k where k: "k < length ?rqs" "\<not> served N (?l + k) (?rqs ! k)" "http_log w' = http_log w @ take (Suc k) ?rqs"
      unfolding sent_iff by (cases r) (auto split: if_splits)
    obtain m where m: "n = ?l + m" using n(1) le_Suc_ex by blast
    have "m \<le> k" using n(2) k(1,3) by (simp add: m)
    then have q: "http_log w' ! n = ?rqs ! m" using k(1,3) by (simp add: m nth_append)
    with last_patch [of m b] n(3) \<open>m \<le> k\<close> k(1) have "m = k" by simp
    with n(3,4) k(2) q show False by (simp add: served_def m)
  qed
  with s show ?thesis unfolding sent_iff by (cases r) (auto split: if_splits)
qed

text \<open>A forge that refuses every request after the first.\<close>

definition demo_az_net :: net where
  "demo_az_net = \<lparr>answer = (\<lambda>n rq. Answer (if n = 0 then 200 else 403) (rq_url rq) (\<lambda>_. None) (Inr [])),
     parse_json = (\<lambda>t. Inr JNull), debug_str = (\<lambda>s. s)\<rparr>"

definition demo_az :: azure_adapter where
  "demo_az = az_with_host (\<lambda>s. s) azure_devops ''pat''"

definition demo_review :: review where
  "demo_review = \<lparr>rv_event = Approve, rv_text = ''ok'', rv_notes = [\<lparr>r_path = ''a'', r_line = 1, r_body = ''b''\<rparr>]\<rparr>"

theorem review_sent_in_order_witness:
  "\<exists>r w'. az_post_review demo_az_net demo_az ''org/project'' ''repo'' 1 demo_review \<lparr>http_log = [], rates = (\<lambda>_. rate_limit_new)\<rparr> = (r, w') \<and>
     (\<exists>e. r = Err e) \<and> length (http_log w') = 2"
proof -
  let ?w = "\<lparr>http_log = [], rates = (\<lambda>_. rate_limit_new)\<rparr>"
  let ?b = "''https://dev.azure.com/org/project/_apis/git/repositories/repo/pullrequests/1''"
  have "show_u64 1 = ''1''" by code_simp
  then have base: "az_pr_base demo_az_net demo_az ''org/project'' ''repo'' 1 = Ok ?b"
    by (simp add: az_pr_base_def split_owner_def demo_az_def az_with_host_def azure_devops_def)
  obtain r w' where run: "az_post_review demo_az_net demo_az ''org/project'' ''repo'' 1 demo_review ?w = (r, w')"
    by (meson surj_pair)
  have rqs: "length (review_requests demo_az ?b demo_review) = 3" by (simp add: review_requests_def demo_review_def)
  have served: "served demo_az_net j (review_requests demo_az ?b demo_review ! j) \<longleftrightarrow> j = 0" if "j < 3" for j
    using that by (auto simp: served_def accepted_def readable_def resp_text_def demo_az_net_def review_requests_def demo_review_def
        az_request_def trim_def trim_start.simps [of "[]"] less_Suc_eq numeral_3_eq_3)
  have two: "\<not> (\<forall>j < 3. j = (0 :: nat))" by (auto intro: exI [of _ 1])
  obtain e k where k: "k < 3" "\<forall>j < k. j = 0" "k \<noteq> 0" "r = Err e"
      "http_log w' = take (Suc k) (review_requests demo_az ?b demo_review)"
    using review_sent_in_order [OF base run] served two by (auto simp: rqs split: if_splits)
  have "k = 1" using k(2,3) by (metis One_nat_def neq0_conv less_one nat_neq_iff)
  then show ?thesis using run k(4,5) rqs by simp
qed

end
