(* ===== verification/Ledger.thy ===== *)
theory Ledger
  imports Forge
begin

text \<open>
  The idempotency ledger: its interface (\<open>crates/devdev-tasks/src/ledger.rs\<close>) as a locale, and
  the NDJSON file that implements it (\<open>crates/devdev-daemon/src/ledger.rs\<close>). The JSON codec of
  \<open>serde_json\<close> is a parameter; each file operation may fail, at the point the caller says.
\<close>

section \<open>Keys and entries\<close>

datatype ledger_key = LedgerKey (lk_adapter: bytes) (lk_resource_type: bytes) (lk_resource_id: bytes) (lk_state_hash: bytes)

definition key_fields :: "ledger_key \<Rightarrow> bytes list" where
  "key_fields k = [lk_adapter k, lk_resource_type k, lk_resource_id k, lk_state_hash k]"

lemma key_fields_inject [simp]: "key_fields a = key_fields b \<longleftrightarrow> a = b"
  by (cases a; cases b) (simp add: key_fields_def)

instantiation ledger_key :: linorder
begin

definition less_eq_ledger_key :: "ledger_key \<Rightarrow> ledger_key \<Rightarrow> bool" where
  "less_eq_ledger_key a b \<longleftrightarrow> key_fields a \<le> key_fields b"

definition less_ledger_key :: "ledger_key \<Rightarrow> ledger_key \<Rightarrow> bool" where
  "less_ledger_key a b \<longleftrightarrow> key_fields a < key_fields b"

instance
proof
  fix a b c :: ledger_key
  show "a < b \<longleftrightarrow> a \<le> b \<and> \<not> b \<le> a"
    unfolding less_eq_ledger_key_def less_ledger_key_def by (rule less_le_not_le)
  show "a \<le> a" by (simp add: less_eq_ledger_key_def)
  show "a \<le> b \<Longrightarrow> b \<le> c \<Longrightarrow> a \<le> c" unfolding less_eq_ledger_key_def by (rule order_trans)
  show "a \<le> b \<Longrightarrow> b \<le> a \<Longrightarrow> a = b" unfolding less_eq_ledger_key_def by (simp add: antisym)
  show "a \<le> b \<or> b \<le> a" unfolding less_eq_ledger_key_def by (rule linear)
qed

end

record 'j ledger_entry =
  adapter :: bytes
  resource_type :: bytes
  resource_id :: bytes
  state_hash :: bytes
  metadata :: 'j
  recorded_at :: u64
  tombstone :: bool

definition entry_key :: "'j ledger_entry \<Rightarrow> ledger_key" where
  "entry_key e = LedgerKey (adapter e) (resource_type e) (resource_id e) (state_hash e)"

datatype ledger_error = LedgerIo | LedgerFormat bytes

text \<open>\<open>serde_json\<close>: the line of an entry, the entry of a line, and the value \<open>null\<close>.\<close>

record 'j serde =
  to_json :: "'j ledger_entry \<Rightarrow> bytes + bytes"
  from_json :: "bytes \<Rightarrow> bytes + 'j ledger_entry"
  json_null :: 'j

text \<open>The file at \<open>path\<close> (\<open>None\<close> when there is none) and the index behind the mutex.\<close>

record ledger =
  on_disk :: "bytes option"
  index :: "(ledger_key, u64) omap"

type_synonym 'a ledger_prog = "(ledger, 'a, ledger_error) prog"

section \<open>Opening\<close>

fun load_lines :: "'j serde \<Rightarrow> nat \<Rightarrow> bytes list \<Rightarrow> (ledger_key, u64) omap \<Rightarrow> ((ledger_key, u64) omap, ledger_error) result" where
  "load_lines sd lineno [] idx = Ok idx"
| "load_lines sd lineno (line # ls) idx =
     (if \<not> utf8_valid line then Err LedgerIo
      else if trim line = [] then load_lines sd (Suc lineno) ls idx
      else (case from_json sd line of
          Inl e \<Rightarrow> Err (LedgerFormat (''line '' @ show_nat (lineno + 1) @ '': '' @ e))
        | Inr entry \<Rightarrow> load_lines sd (Suc lineno) ls
            (if tombstone entry then om_remove (entry_key entry) idx
             else om_insert (entry_key entry) (recorded_at entry) idx)))"

definition ledger_open :: "'j serde \<Rightarrow> bool \<Rightarrow> bytes option \<Rightarrow> (ledger, ledger_error) result" where
  "ledger_open sd readable disk =
     res_bind (case disk of
         None \<Rightarrow> Ok om_empty
       | Some f \<Rightarrow> if \<not> readable then Err LedgerIo else load_lines sd 0 (lines f) om_empty)
       (\<lambda>idx. Ok \<lparr>on_disk = disk, index = idx\<rparr>)"

section \<open>Appending\<close>

text \<open>
  How the calls of \<open>append_entry\<close> go: all succeed, the file cannot be opened, the write stops
  after some bytes, or the data cannot be flushed after it was written.
\<close>

datatype append_io = AppendFine | OpenFails | WriteFails nat | SyncFails

definition disk_bytes :: "ledger \<Rightarrow> bytes" where
  "disk_bytes s = (case on_disk s of None \<Rightarrow> [] | Some f \<Rightarrow> f)"

definition append_entry :: "'j serde \<Rightarrow> append_io \<Rightarrow> 'j ledger_entry \<Rightarrow> unit ledger_prog" where
  "append_entry sd io entry =
     and_then (if io = OpenFails then fail LedgerIo else modify (\<lambda>s. s\<lparr>on_disk := Some (disk_bytes s)\<rparr>)) (\<lambda>_.
     and_then (query (\<lambda>_. map_err LedgerFormat (of_sum (to_json sd entry)))) (\<lambda>line.
     let line = line @ [CHR 0x0A] in
     case io of
       WriteFails k \<Rightarrow> and_then (modify (\<lambda>s. s\<lparr>on_disk := Some (disk_bytes s @ take k line)\<rparr>)) (\<lambda>_. fail LedgerIo)
     | SyncFails \<Rightarrow> and_then (modify (\<lambda>s. s\<lparr>on_disk := Some (disk_bytes s @ line)\<rparr>)) (\<lambda>_. fail LedgerIo)
     | _ \<Rightarrow> modify (\<lambda>s. s\<lparr>on_disk := Some (disk_bytes s @ line)\<rparr>)))"

definition entry_of :: "ledger_key \<Rightarrow> 'j \<Rightarrow> u64 \<Rightarrow> 'j ledger_entry" where
  "entry_of k meta at = \<lparr>adapter = lk_adapter k, resource_type = lk_resource_type k, resource_id = lk_resource_id k,
     state_hash = lk_state_hash k, metadata = meta, recorded_at = at, tombstone = False\<rparr>"

definition seen :: "ledger \<Rightarrow> ledger_key \<Rightarrow> (bool, ledger_error) result" where
  "seen s k = Ok (om_lookup (index s) k \<noteq> None)"

text \<open>
  \<open>record\<close> appends first, without the lock, and then enters the key into the index under the
  lock: another thread can run between the two steps.
\<close>

definition record_index :: "ledger_key \<Rightarrow> u64 \<Rightarrow> unit ledger_prog" where
  "record_index k now = modify (\<lambda>s. s\<lparr>index := om_insert k now (index s)\<rparr>)"

definition record_key :: "'j serde \<Rightarrow> append_io \<Rightarrow> ledger_key \<Rightarrow> 'j \<Rightarrow> u64 \<Rightarrow> unit ledger_prog" where
  "record_key sd io k meta now =
     and_then (append_entry sd io (entry_of k meta now)) (\<lambda>_. record_index k now)"

section \<open>Pruning\<close>

text \<open>
  How the calls of \<open>prune\<close> go: all succeed, or the temporary file cannot be created, the write of
  its line number \<open>j\<close> fails, it cannot be flushed, or it cannot be renamed over the ledger.
\<close>

datatype prune_io = PruneFine | CreateFails | LineFails nat | FlushFails | RenameFails

fun tmp_lines :: "'j serde \<Rightarrow> prune_io \<Rightarrow> nat \<Rightarrow> (ledger_key \<times> u64) list \<Rightarrow> (bytes, ledger_error) result" where
  "tmp_lines sd io j [] = Ok []"
| "tmp_lines sd io j ((k, ts) # es) =
     res_bind (map_err LedgerFormat (of_sum (to_json sd (entry_of k (json_null sd) ts)))) (\<lambda>line.
     if io = LineFails j then Err LedgerIo
     else res_bind (tmp_lines sd io (Suc j) es) (\<lambda>rest. Ok (line @ [CHR 0x0A] @ rest)))"

definition prune :: "'j serde \<Rightarrow> prune_io \<Rightarrow> u64 \<Rightarrow> u64 \<Rightarrow> nat ledger_prog" where
  "prune sd io now older_than =
     (\<lambda>s. let cutoff = saturating_sub now older_than;
          survivors = filter (\<lambda>(k, ts). cutoff \<le> ts) (om_entries (index s));
          removed = om_len (index s) - length survivors
      in and_then (if io = CreateFails then fail LedgerIo else ret ()) (\<lambda>_.
         and_then (query (\<lambda>_. tmp_lines sd io 0 survivors)) (\<lambda>tmp.
         and_then (if io = FlushFails \<or> io = RenameFails then fail LedgerIo else ret ()) (\<lambda>_.
         and_then (modify (\<lambda>s. s\<lparr>on_disk := Some tmp\<rparr>)) (\<lambda>_.
         and_then (modify (\<lambda>s. s\<lparr>index := om_of_list survivors\<rparr>)) (\<lambda>_.
         ret removed))))) s)"

section \<open>What the file says\<close>

text \<open>
  The codec gives a line for the entry that reads back as the entry: one line of UTF-8 text, not
  blank, without a line end. This is what \<open>serde_json\<close> documents for an object.
\<close>

definition line_ok :: "'j serde \<Rightarrow> 'j ledger_entry \<Rightarrow> bool" where
  "line_ok sd e \<longleftrightarrow> (\<exists>l. to_json sd e = Inr l \<and> from_json sd l = Inr e \<and> utf8_valid l \<and> trim l \<noteq> [] \<and>
     CHR 0x0A \<notin> set l \<and> (l = [] \<or> last l \<noteq> CHR 0x0D))"

text \<open>The file ends with a line end, and opening it again would give the index in memory.\<close>

definition in_sync :: "'j serde \<Rightarrow> ledger \<Rightarrow> bool" where
  "in_sync sd s \<longleftrightarrow> (disk_bytes s = [] \<or> last (disk_bytes s) = CHR 0x0A) \<and>
     load_lines sd 0 (lines (disk_bytes s)) om_empty = Ok (index s)"

lemma split_on_join_sep: "split_on d (xs @ d # ys) = split_on d xs @ split_on d ys"
proof (induction xs)
  case (Cons x xs)
  then show ?case by (cases "split_on d xs") auto
qed simp

lemma lines_terminated:
  assumes "f = [] \<or> last f = CHR 0x0A"
  shows "lines (f @ s) = lines f @ lines s"
proof (cases "f = []")
  case False
  then obtain g where g: "f = g @ [CHR 0x0A]" using assms by (metis append_butlast_last_id)
  have 1: "split_on (CHR 0x0A) (f @ s) = split_on (CHR 0x0A) g @ split_on (CHR 0x0A) s"
    using split_on_join_sep [of "CHR 0x0A" g s] by (simp add: g)
  have 2: "split_on (CHR 0x0A) f = split_on (CHR 0x0A) g @ [[]]"
    using split_on_join_sep [of "CHR 0x0A" g "[]"] by (simp add: g)
  show ?thesis unfolding lines_def 1 2 Let_def by (simp add: butlast_append)
qed simp

lemma load_lines_append:
  "load_lines sd n (as @ bs) idx = res_bind (load_lines sd n as idx) (load_lines sd (n + length as) bs)"
  by (induction sd n as idx rule: load_lines.induct) (auto split: sum.splits)

lemma load_lines_entry:
  assumes "to_json sd e = Inr l" "from_json sd l = Inr e" "utf8_valid l" "trim l \<noteq> []"
  shows "load_lines sd n (l # ls) idx = load_lines sd (Suc n) ls
     (if tombstone e then om_remove (entry_key e) idx else om_insert (entry_key e) (recorded_at e) idx)"
  using assms by simp

lemma ledger_open_in_sync:
  assumes "in_sync sd s"
  shows "ledger_open sd True (on_disk s) = Ok s"
  using assms by (cases "on_disk s") (auto simp: in_sync_def ledger_open_def disk_bytes_def)

lemma entry_key_of [simp]: "entry_key (entry_of k meta at) = k" "recorded_at (entry_of k meta at) = at"
  "tombstone (entry_of k meta at) = False"
  by (simp_all add: entry_key_def entry_of_def)

lemma record_run:
  assumes sync: "in_sync sd s" and ok: "line_ok sd (entry_of k meta now)"
  shows "\<exists>s'. record_key sd AppendFine k meta now s = (Ok (), s') \<and> in_sync sd s' \<and> index s' = om_insert k now (index s)"
proof -
  from ok obtain l where l: "to_json sd (entry_of k meta now) = Inr l" "from_json sd l = Inr (entry_of k meta now)"
    "utf8_valid l" "trim l \<noteq> []" "CHR 0x0A \<notin> set l" "l = [] \<or> last l \<noteq> CHR 0x0D"
    by (auto simp: line_ok_def)
  let ?s = "\<lparr>on_disk = Some (disk_bytes s @ l @ [CHR 0x0A]), index = om_insert k now (index s)\<rparr>"
  have run: "record_key sd AppendFine k meta now s = (Ok (), ?s)"
    by (simp add: record_key_def append_entry_def record_index_def and_then_def l disk_bytes_def)
  have "lines (disk_bytes ?s) = lines (disk_bytes s) @ [l]"
    using lines_terminated [of "disk_bytes s" "l @ [CHR 0x0A]"] sync lines_append_line [OF l(5,6), of "[]"]
    by (simp add: in_sync_def disk_bytes_def)
  then have "in_sync sd ?s"
    using sync by (simp add: in_sync_def load_lines_append load_lines_entry [OF l(1-4)] disk_bytes_def del: load_lines.simps(2))
  with run show ?thesis by auto
qed

lemma tmp_lines_run:
  assumes "\<forall>(k, ts) \<in> set es. line_ok sd (entry_of k (json_null sd) ts)" "\<forall>i. io \<noteq> LineFails i"
  shows "\<exists>f. tmp_lines sd io j es = Ok f \<and> (f = [] \<or> last f = CHR 0x0A) \<and>
     (\<forall>n idx. load_lines sd n (lines f) idx = Ok (fold (\<lambda>(k, ts). om_insert k ts) es idx))"
  using assms(1)
proof (induction es arbitrary: j)
  case (Cons e es)
  obtain k ts where e: "e = (k, ts)" by (cases e)
  let ?e = "entry_of k (json_null sd) ts"
  from Cons.prems obtain l where l: "to_json sd ?e = Inr l" "from_json sd l = Inr ?e"
    "utf8_valid l" "trim l \<noteq> []" "CHR 0x0A \<notin> set l" "l = [] \<or> last l \<noteq> CHR 0x0D"
    by (auto simp: line_ok_def e)
  from Cons.IH [of "Suc j"] Cons.prems obtain f where f: "tmp_lines sd io (Suc j) es = Ok f" "f = [] \<or> last f = CHR 0x0A"
    "\<And>n idx. load_lines sd n (lines f) idx = Ok (fold (\<lambda>(k, ts). om_insert k ts) es idx)"
    by auto
  have "tmp_lines sd io j (e # es) = Ok (l @ CHR 0x0A # f)"
    using assms(2) by (simp add: e l f)
  moreover have "lines (l @ CHR 0x0A # f) = l # lines f" by (rule lines_append_line [OF l(5,6)])
  then have "load_lines sd n (lines (l @ CHR 0x0A # f)) idx = Ok (fold (\<lambda>(k, ts). om_insert k ts) (e # es) idx)" for n idx
    by (simp add: load_lines_entry [OF l(1-4)] f e del: load_lines.simps(2))
  ultimately show ?case using f(2) by auto
qed simp

definition survivors :: "u64 \<Rightarrow> u64 \<Rightarrow> ledger \<Rightarrow> (ledger_key \<times> u64) list" where
  "survivors now older_than s = filter (\<lambda>(k, ts). saturating_sub now older_than \<le> ts) (om_entries (index s))"

lemma survivors_lookup:
  "om_lookup (om_of_list (survivors now older s)) k = (case om_lookup (index s) k of
     Some ts \<Rightarrow> if saturating_sub now older \<le> ts then Some ts else None | None \<Rightarrow> None)"
proof -
  let ?P = "\<lambda>(k :: ledger_key, ts). saturating_sub now older \<le> ts"
  have d: "distinct (map fst (filter ?P (om_entries (index s))))"
    using om_entries_distinct [of "index s"] by (rule distinct_map_filter)
  have "om_lookup (om_of_list (survivors now older s)) k = map_of (filter ?P (om_entries (index s))) k"
    unfolding survivors_def om_lookup_of_list using d
    by (simp add: map_of_rev_distinct)
  also have "map_of (filter ?P xs) k = (case map_of xs k of
     Some ts \<Rightarrow> if saturating_sub now older \<le> ts then Some ts else None | None \<Rightarrow> None)"
    if "distinct (map fst xs)" for xs
    using that
  proof (induction xs)
    case (Cons x xs)
    have "map_of (filter ?P xs) (fst x) = None" if "fst x \<notin> fst ` set xs"
      using that by (auto simp: map_of_eq_None_iff)
    with Cons show ?case by (cases x) (auto simp: map_of_eq_None_iff split: option.splits)
  qed simp
  finally show ?thesis by (simp add: om_lookup_entries)
qed

lemma prune_run:
  assumes ok: "\<forall>(k, ts) \<in> set (om_entries (index s)). line_ok sd (entry_of k (json_null sd) ts)"
  shows "\<exists>s'. prune sd PruneFine now older s = (Ok (om_len (index s) - length (survivors now older s)), s') \<and>
     in_sync sd s' \<and> index s' = om_of_list (survivors now older s)"
proof -
  have "\<forall>(k, ts) \<in> set (survivors now older s). line_ok sd (entry_of k (json_null sd) ts)"
    using ok by (auto simp: survivors_def)
  from tmp_lines_run [OF this, of PruneFine 0] obtain f where f: "tmp_lines sd PruneFine 0 (survivors now older s) = Ok f"
    "f = [] \<or> last f = CHR 0x0A"
    "\<And>n idx. load_lines sd n (lines f) idx = Ok (fold (\<lambda>(k, ts). om_insert k ts) (survivors now older s) idx)"
    by auto
  let ?s = "s\<lparr>on_disk := Some f, index := om_of_list (survivors now older s)\<rparr>"
  have "prune sd PruneFine now older s = (Ok (om_len (index s) - length (survivors now older s)), ?s)"
    using f(1) by (simp add: prune_def survivors_def Let_def and_then_def)
  moreover have "in_sync sd ?s"
    using f(2,3) by (simp add: in_sync_def disk_bytes_def om_of_list_def)
  ultimately show ?thesis by auto
qed

text \<open>What a call that failed leaves: \<open>prune\<close> nothing, \<open>record\<close> at most bytes at the end of the file.\<close>

lemma prune_failed: "prune sd io now older s = (Err e, s') \<Longrightarrow> s' = s"
  by (auto simp: prune_def Let_def and_then_Err and_then_Ok split: if_splits)

lemma prune_no_panic: "prune sd io now older s \<noteq> (Panic, s')"
proof -
  have "tmp_lines sd io j es \<noteq> Panic" for j es
    by (induction sd io j es rule: tmp_lines.induct) (auto simp: res_bind_eq_Panic elim: map_err.elims)
  then show ?thesis by (auto simp: prune_def Let_def and_then_Panic and_then_Ok split: if_splits)
qed

lemma append_run:
  "append_entry sd io e s = (case io of
     OpenFails \<Rightarrow> (Err LedgerIo, s)
   | AppendFine \<Rightarrow> (case to_json sd e of
       Inl x \<Rightarrow> (Err (LedgerFormat x), s\<lparr>on_disk := Some (disk_bytes s)\<rparr>)
     | Inr l \<Rightarrow> (Ok (), s\<lparr>on_disk := Some (disk_bytes s @ l @ [CHR 0x0A])\<rparr>))
   | WriteFails k \<Rightarrow> (case to_json sd e of
       Inl x \<Rightarrow> (Err (LedgerFormat x), s\<lparr>on_disk := Some (disk_bytes s)\<rparr>)
     | Inr l \<Rightarrow> (Err LedgerIo, s\<lparr>on_disk := Some (disk_bytes s @ take k (l @ [CHR 0x0A]))\<rparr>))
   | SyncFails \<Rightarrow> (case to_json sd e of
       Inl x \<Rightarrow> (Err (LedgerFormat x), s\<lparr>on_disk := Some (disk_bytes s)\<rparr>)
     | Inr l \<Rightarrow> (Err LedgerIo, s\<lparr>on_disk := Some (disk_bytes s @ l @ [CHR 0x0A])\<rparr>)))"
  by (cases io; cases "to_json sd e") (simp_all add: append_entry_def and_then_def Let_def disk_bytes_def)

lemma append_no_panic: "append_entry sd io e s \<noteq> (Panic, s')"
  by (auto simp: append_run split: append_io.splits sum.splits)

lemma record_failed:
  assumes "record_key sd io k meta now s = (Err e, s')"
  shows "index s' = index s \<and> (\<exists>tail. disk_bytes s' = disk_bytes s @ tail)"
  using assms
  by (auto simp: record_key_def append_run record_index_def and_then_Err disk_bytes_def
        split: append_io.splits sum.splits)

lemma record_Ok:
  assumes "record_key sd io k meta now s = (Ok u, s')"
  shows "index s' = om_insert k now (index s)"
  using assms
  by (auto simp: record_key_def append_run record_index_def and_then_Ok split: append_io.splits sum.splits)

lemma record_no_panic: "record_key sd io k meta now s \<noteq> (Panic, s')"
  using append_no_panic [of sd io "entry_of k meta now"] by (auto simp: record_key_def and_then_Panic record_index_def)

section \<open>The interface\<close>

text \<open>
  What the tasks rely on: \<open>seen\<close> answers without changing the ledger, a successful \<open>record\<close> makes
  exactly its key seen, and a failed one makes none.
\<close>

locale idempotency_ledger =
  fixes lseen :: "'s \<Rightarrow> ledger_key \<Rightarrow> (bool, ledger_error) result"
    and lrecord :: "'x \<Rightarrow> ledger_key \<Rightarrow> 'm \<Rightarrow> u64 \<Rightarrow> 's \<Rightarrow> (unit, ledger_error) result \<times> 's"
  assumes seen_no_panic: "lseen s k \<noteq> Panic"
    and record_seen: "lrecord io k m now s = (Ok u, s') \<Longrightarrow> lseen s' k' = (if k' = k then Ok True else lseen s k')"
    and record_err: "lrecord io k m now s = (Err e, s') \<Longrightarrow> lseen s' k' = lseen s k'"
    and record_panic: "lrecord io k m now s \<noteq> (Panic, s')"
begin

lemma record_keeps_seen:
  assumes "lrecord io k m now s = (r, s')" "lseen s k' = Ok True"
  shows "lseen s' k' = Ok True"
proof (cases r)
  case (Ok u)
  with assms record_seen [of io k m now s u s' k'] show ?thesis by simp
next
  case (Err e)
  with assms record_err [of io k m now s e s' k'] show ?thesis by simp
next
  case Panic
  with assms record_panic [of io k m now s s'] show ?thesis by simp
qed

end

text \<open>A ledger that survives a restart: what \<open>reopen\<close> finds has the same keys seen.\<close>

locale durable_ledger = idempotency_ledger lseen lrecord
  for lseen :: "'s \<Rightarrow> ledger_key \<Rightarrow> (bool, ledger_error) result"
    and lrecord :: "'x \<Rightarrow> ledger_key \<Rightarrow> 'm \<Rightarrow> u64 \<Rightarrow> 's \<Rightarrow> (unit, ledger_error) result \<times> 's" +
  fixes linv :: "'s \<Rightarrow> bool"
    and lfits :: "ledger_key \<Rightarrow> 'm \<Rightarrow> u64 \<Rightarrow> bool"
    and lfine :: 'x
    and reopen :: "'s \<Rightarrow> ('s, ledger_error) result"
  assumes record_fine: "linv s \<Longrightarrow> lfits k m now \<Longrightarrow> \<exists>s'. lrecord lfine k m now s = (Ok (), s') \<and> linv s'"
    and reopen_seen: "linv s \<Longrightarrow> \<exists>s'. reopen s = Ok s' \<and> (\<forall>k. lseen s' k = lseen s k)"
begin

lemma record_survives_restart:
  assumes "linv s" "lfits k m now"
  shows "\<exists>s' s''. lrecord lfine k m now s = (Ok (), s') \<and> reopen s' = Ok s'' \<and> lseen s'' k = Ok True"
proof -
  from record_fine [OF assms] obtain s' where s': "lrecord lfine k m now s = (Ok (), s')" "linv s'" by blast
  from reopen_seen [OF s'(2)] record_seen [OF s'(1), of k] s' show ?thesis by auto
qed

end

interpretation ndjson: idempotency_ledger seen "record_key sd" for sd :: "'j serde"
proof
  show "record_key sd io k m now s = (Ok u, s') \<Longrightarrow> seen s' k' = (if k' = k then Ok True else seen s k')"
    for io k m now s u s' k' using record_Ok [of sd io k m now s u s'] by (simp add: seen_def)
  show "record_key sd io k m now s = (Err e, s') \<Longrightarrow> seen s' k' = seen s k'"
    for io k m now s e s' k' using record_failed [of sd io k m now s e s'] by (simp add: seen_def)
qed (simp_all add: seen_def record_no_panic)

interpretation ndjson: durable_ledger seen "record_key sd" "in_sync sd"
  "\<lambda>k m now. line_ok sd (entry_of k m now)" AppendFine "\<lambda>s. ledger_open sd True (on_disk s)" for sd :: "'j serde"
proof
  show "in_sync sd s \<Longrightarrow> line_ok sd (entry_of k m now) \<Longrightarrow>
      \<exists>s'. record_key sd AppendFine k m now s = (Ok (), s') \<and> in_sync sd s'" for s k m now
    by (drule (1) record_run) blast
  show "in_sync sd s \<Longrightarrow> \<exists>s'. ledger_open sd True (on_disk s) = Ok s' \<and> (\<forall>k. seen s' k = seen s k)" for s
    using ledger_open_in_sync by blast
qed

section \<open>Properties\<close>

definition demo_key :: ledger_key where
  "demo_key = LedgerKey ''github:github.com'' ''pr_state'' ''o/r#1'' ''sha:1''"

text \<open>A codec that knows one entry: enough to apply the properties.\<close>

definition demo_serde :: "unit serde" where
  "demo_serde = \<lparr>to_json = (\<lambda>e. Inr ''{}''),
     from_json = (\<lambda>l. if l = ''{}'' then Inr (entry_of demo_key () 7) else Inl ''expected value''), json_null = ()\<rparr>"

definition no_ledger :: ledger where
  "no_ledger = \<lparr>on_disk = None, index = om_empty\<rparr>"

lemma demo_line_ok: "line_ok demo_serde (entry_of demo_key () 7)"
  using trim_visible [of "CHR ''{''" "''}''"]
  by (simp add: line_ok_def demo_serde_def utf8_valid_def utf8_decode_def visible_def)

lemma no_ledger_sync: "in_sync sd no_ledger"
  by (simp add: in_sync_def no_ledger_def disk_bytes_def)

text \<open>
  C14: round trip. A recorded key survives a restart: \<open>record\<close> succeeds, keeps the file in step
  with the index, and a ledger opened from the file has exactly the index in memory, in which
  the key is seen.
\<close>

theorem recorded_survives_restart:
  assumes "in_sync sd s" "line_ok sd (entry_of k meta now)"
  shows "\<exists>s'. record_key sd AppendFine k meta now s = (Ok (), s') \<and> in_sync sd s' \<and>
     ledger_open sd True (on_disk s') = Ok s' \<and> (\<forall>k'. seen s' k' = (if k' = k then Ok True else seen s k'))"
proof -
  from record_run [OF assms] obtain s' where s': "record_key sd AppendFine k meta now s = (Ok (), s')" "in_sync sd s'"
    by blast
  with ledger_open_in_sync [OF s'(2)] ndjson.record_seen [OF s'(1)] show ?thesis by blast
qed

theorem recorded_survives_restart_witness:
  "\<exists>s'. record_key demo_serde AppendFine demo_key () 7 no_ledger = (Ok (), s') \<and>
     ledger_open demo_serde True (on_disk s') = Ok s' \<and> seen s' demo_key = Ok True"
  using recorded_survives_restart [OF no_ledger_sync demo_line_ok] by auto

text \<open>
  C15: functional. \<open>prune\<close> keeps exactly the entries recorded at or after the cutoff, returns how
  many it removed, and rewrites the file so that a restart finds the same; when any of its file
  operations fails, neither the file nor the index has changed.
\<close>

theorem prune_exact:
  assumes "\<forall>(k, ts) \<in> set (om_entries (index s)). line_ok sd (entry_of k (json_null sd) ts)"
  shows "\<exists>n s'. prune sd PruneFine now older s = (Ok n, s') \<and> ledger_open sd True (on_disk s') = Ok s' \<and>
     n + om_len (index s') = om_len (index s) \<and>
     (\<forall>k. om_lookup (index s') k = (case om_lookup (index s) k of
        Some ts \<Rightarrow> if saturating_sub now older \<le> ts then Some ts else None | None \<Rightarrow> None)) \<and>
     (\<forall>io e s''. prune sd io now older s = (Err e, s'') \<longrightarrow> s'' = s)"
proof -
  let ?v = "survivors now older s"
  from prune_run [OF assms, of now older] obtain s' where
    s': "prune sd PruneFine now older s = (Ok (om_len (index s) - length ?v), s')" "in_sync sd s'" "index s' = om_of_list ?v"
    by blast
  have "om_dom (om_of_list ?v) = fst ` set ?v"
    by (auto simp: om_dom_def om_lookup_of_list dom_map_of_conv_image_fst)
  moreover have "distinct (map fst ?v)" unfolding survivors_def by (intro distinct_map_filter om_entries_distinct)
  ultimately have "om_len (om_of_list ?v) = length ?v"
    by (metis distinct_card length_map om_len_card set_map)
  moreover have "length ?v \<le> om_len (index s)" by (simp add: survivors_def om_len_def)
  ultimately have "om_len (index s) - length ?v + om_len (index s') = om_len (index s)" by (simp add: s')
  with s' ledger_open_in_sync [OF s'(2)] survivors_lookup [of now older s] prune_failed show ?thesis by auto
qed

theorem prune_exact_witness:
  "\<exists>s'. prune demo_serde PruneFine 10 2 \<lparr>on_disk = None, index = om_insert demo_key 7 om_empty\<rparr> = (Ok 1, s') \<and>
     seen s' demo_key = Ok False"
proof -
  let ?s = "\<lparr>on_disk = None, index = om_insert demo_key 7 om_empty\<rparr>"
  have "json_null demo_serde = ()" by simp
  from prune_exact [of ?s demo_serde 10 2] obtain n s' where p: "prune demo_serde PruneFine 10 2 ?s = (Ok n, s')"
    and n: "n + om_len (index s') = 1"
    and l: "\<forall>k. om_lookup (index s') k = (case (om_lookup (index ?s)) k of
        Some ts \<Rightarrow> if saturating_sub 10 2 \<le> ts then Some ts else None | None \<Rightarrow> None)"
    using demo_line_ok by (auto simp: om_len_insert)
  have e: "om_lookup (index s') = Map.empty"
    by (rule ext) (simp add: l saturating_sub_def)
  then have "n = 1" using n om_len_zero [of "index s'"] by simp
  with p e show ?thesis by (auto simp: seen_def)
qed

text \<open>
  \<open>record\<close> appends without holding the lock, so a \<open>prune\<close> of another thread that runs
  between its append and its index update rewrites the file without the new entry: the call
  succeeds, the key is seen until the next restart, and is forgotten then.
\<close>

lemma prune_inside_record_forgets:
  assumes "\<forall>(k, ts) \<in> set (om_entries (index s)). line_ok sd (entry_of k (json_null sd) ts)"
    and "seen s k = Ok False" "append_entry sd AppendFine (entry_of k meta now) s = (Ok (), s1)"
    and "prune sd PruneFine now older s1 = (Ok n, s2)" "record_index k now s2 = (Ok (), s3)"
  shows "seen s3 k = Ok True \<and> (\<exists>s4. ledger_open sd True (on_disk s3) = Ok s4 \<and> seen s4 k = Ok False)"
proof -
  have i1: "index s1 = index s" using assms(3) by (auto simp: append_run split: sum.splits)
  from prune_run [of s1 sd now older] assms(1,4)
  have s2: "in_sync sd s2" "index s2 = om_of_list (survivors now older s1)" by (auto simp: i1)
  have s3: "on_disk s3 = on_disk s2" "index s3 = om_insert k now (index s2)"
    using assms(5) by (auto simp: record_index_def)
  have "om_lookup (index s2) k = None"
    using assms(2) survivors_lookup [of now older s1 k] by (simp add: seen_def i1 s2)
  then show ?thesis using ledger_open_in_sync [OF s2(1)] s3 by (simp add: seen_def)
qed

lemma prune_inside_record_forgets_witness:
  "\<exists>s1 s2. append_entry demo_serde AppendFine (entry_of demo_key () 7) no_ledger = (Ok (), s1) \<and>
     prune demo_serde PruneFine 7 0 s1 = (Ok 0, s2) \<and>
     (\<exists>s4. ledger_open demo_serde True (on_disk (snd (record_index demo_key 7 s2))) = Ok s4 \<and> seen s4 demo_key = Ok False)"
proof -
  have a: "append_entry demo_serde AppendFine (entry_of demo_key () 7) no_ledger =
      (Ok (), \<lparr>on_disk = Some (''{}'' @ [CHR 0x0A]), index = om_empty\<rparr>)"
    by (simp add: append_run demo_serde_def no_ledger_def disk_bytes_def)
  have p: "prune demo_serde PruneFine 7 0 \<lparr>on_disk = Some (''{}'' @ [CHR 0x0A]), index = om_empty\<rparr> =
      (Ok 0, \<lparr>on_disk = Some [], index = om_empty\<rparr>)"
    by (simp add: prune_def Let_def and_then_def om_of_list_def)
  have r: "record_index demo_key 7 \<lparr>on_disk = Some [], index = om_empty\<rparr> =
      (Ok (), \<lparr>on_disk = Some [], index = om_insert demo_key 7 om_empty\<rparr>)"
    by (simp add: record_index_def)
  have "\<forall>(k, ts) \<in> set (om_entries (index no_ledger)). line_ok demo_serde (entry_of k (json_null demo_serde) ts)"
    by (simp add: no_ledger_def)
  from prune_inside_record_forgets [OF this _ a p r] a p r show ?thesis by (auto simp: seen_def no_ledger_def)
qed

text \<open>
  C16: error. An append that stops in the middle leaves an unfinished line: the next record
  succeeds and is glued to it, and from then on the ledger cannot be opened, since the codec
  rejects the mixed line.
\<close>

theorem torn_append_blocks_open:
  assumes "in_sync sd s" "to_json sd (entry_of k meta now) = Inr l" "n \<le> length l"
    and "record_key sd (WriteFails n) k meta now s = (Err LedgerIo, s1)"
    and "to_json sd (entry_of k' meta' now') = Inr l'" "from_json sd (take n l @ l') = Inl msg"
    and "utf8_valid (take n l @ l')" "trim (take n l @ l') \<noteq> []" "CHR 0x0A \<notin> set (take n l @ l')" "last (take n l @ l') \<noteq> CHR 0x0D"
  shows "\<exists>s2 why. record_key sd AppendFine k' meta' now' s1 = (Ok (), s2) \<and>
     ledger_open sd True (on_disk s2) = Err (LedgerFormat why)"
proof -
  have s1: "on_disk s1 = Some (disk_bytes s @ take n l)"
    using assms(2,3,4) by (auto simp: record_key_def append_run and_then_Err record_index_def)
  let ?s2 = "s1\<lparr>on_disk := Some (disk_bytes s @ (take n l @ l') @ [CHR 0x0A]), index := om_insert k' now' (index s1)\<rparr>"
  have run: "record_key sd AppendFine k' meta' now' s1 = (Ok (), ?s2)"
    using assms(5) by (simp add: record_key_def append_run record_index_def and_then_def disk_bytes_def s1)
  have "lines (disk_bytes s @ (take n l @ l') @ [CHR 0x0A]) = lines (disk_bytes s) @ [take n l @ l']"
    using assms(1) lines_terminated [of "disk_bytes s" "(take n l @ l') @ [CHR 0x0A]"]
      lines_append_line [of "take n l @ l'" "[]"] assms(9,10)
    by (simp add: in_sync_def)
  then have "ledger_open sd True (on_disk ?s2) = Err (LedgerFormat (''line '' @ show_nat (length (lines (disk_bytes s)) + 1) @ '': '' @ msg))"
    using assms(1,6,7,8) by (simp add: ledger_open_def load_lines_append in_sync_def)
  with run show ?thesis by blast
qed

theorem torn_append_blocks_open_witness:
  "\<exists>s2 why. record_key demo_serde AppendFine demo_key () 7
       (snd (record_key demo_serde (WriteFails 1) demo_key () 7 no_ledger)) = (Ok (), s2) \<and>
     ledger_open demo_serde True (on_disk s2) = Err (LedgerFormat why)"
proof -
  have r: "record_key demo_serde (WriteFails 1) demo_key () 7 no_ledger = (Err LedgerIo, snd (record_key demo_serde (WriteFails 1) demo_key () 7 no_ledger))"
    by (simp add: record_key_def append_run demo_serde_def and_then_def)
  show ?thesis
    by (rule torn_append_blocks_open [OF no_ledger_sync _ _ r, of "''{}''" "demo_key" "()" 7 "''{}''"])
       (use trim_visible [of "CHR ''{''" "''{}''"] in \<open>simp_all add: demo_serde_def utf8_valid_def utf8_decode_def visible_def\<close>)
qed

end
