(* ===== verification/Tasks.thy ===== *)
theory Tasks
  imports Forge Json
begin

text \<open>
  The task layer (\<open>crates/devdev-tasks/src\<close>): task status and messages (\<open>task.rs\<close>), the events of
  the bus (\<open>events.rs\<close>), the registry of tasks with its checkpoint (\<open>registry.rs\<close>) and one turn of
  the scheduler's polling loop (\<open>scheduler.rs\<close>). A \<open>dyn Task\<close> is a value of a type parameter
  together with the record of its methods.
\<close>

section \<open>Status and messages\<close>

datatype task_status = Created | Polling | Idle | Completed | Cancelled | Errored bytes

fun is_terminal :: "task_status \<Rightarrow> bool" where
  "is_terminal Completed = True"
| "is_terminal Cancelled = True"
| "is_terminal (Errored e) = True"
| "is_terminal _ = False"

datatype task_message = Text bytes | StatusChange bytes task_status task_status

fun show_task_error :: "task_error \<Rightarrow> bytes" where
  "show_task_error (TaskNotFound s) = ''task not found: '' @ s"
| "show_task_error (AlreadyCancelled s) = ''task already cancelled: '' @ s"
| "show_task_error (PollFailed s) = ''poll failed: '' @ s"
| "show_task_error (Serialization s) = ''serialization error: '' @ s"

fun show_task_status :: "task_status \<Rightarrow> bytes" where
  "show_task_status Created = ''created''"
| "show_task_status Polling = ''polling''"
| "show_task_status Idle = ''idle''"
| "show_task_status Completed = ''completed''"
| "show_task_status Cancelled = ''cancelled''"
| "show_task_status (Errored e) = ''errored: '' @ e"

section \<open>Events\<close>

datatype daemon_event =
    PrOpened (ev_host: repo_host_id) (ev_owner: bytes) (ev_repo: bytes) (ev_number: u64) (ev_sha: bytes)
  | PrUpdated (ev_host: repo_host_id) (ev_owner: bytes) (ev_repo: bytes) (ev_number: u64) (ev_sha: bytes)
  | PrClosed (ev_host: repo_host_id) (ev_owner: bytes) (ev_repo: bytes) (ev_number: u64) (ev_merged: bool)

type_synonym pr_target = "repo_host_id \<times> bytes \<times> bytes \<times> u64"

definition pr_target :: "daemon_event \<Rightarrow> pr_target option" where
  "pr_target ev = Some (ev_host ev, ev_owner ev, ev_repo ev, ev_number ev)"

text \<open>
  The broadcast channel, as its senders and receivers see it: everything published, and for each
  receiver what it has not taken yet. The channel keeps the last 1024 events for a receiver that
  falls behind and tells it how many it lost.
\<close>

definition CHANNEL_CAPACITY :: nat where "CHANNEL_CAPACITY = 1024"

datatype recv = Event daemon_event | Lagged nat

record event_bus =
  published :: "daemon_event list"
  receivers :: "nat list"  \<comment> \<open>for each receiver, how many events it has taken or lost\<close>

definition bus_new :: event_bus where
  "bus_new = \<lparr>published = [], receivers = []\<rparr>"

definition publish :: "daemon_event \<Rightarrow> event_bus \<Rightarrow> nat \<times> event_bus" where
  "publish ev b = (if receivers b = [] then (0, b)
     else (length (receivers b), b\<lparr>published := published b @ [ev]\<rparr>))"

definition subscribe :: "event_bus \<Rightarrow> nat \<times> event_bus" where
  "subscribe b = (length (receivers b), b\<lparr>receivers := receivers b @ [length (published b)]\<rparr>)"

definition try_recv :: "nat \<Rightarrow> event_bus \<Rightarrow> recv option \<times> event_bus" where
  "try_recv r b =
     (let pos = receivers b ! r; behind = length (published b) - pos in
      if behind = 0 then (None, b)
      else if CHANNEL_CAPACITY < behind
      then (Some (Lagged (behind - CHANNEL_CAPACITY)),
            b\<lparr>receivers := (receivers b)[r := length (published b) - CHANNEL_CAPACITY]\<rparr>)
      else (Some (Event (published b ! pos)), b\<lparr>receivers := (receivers b)[r := Suc pos]\<rparr>))"

section \<open>The methods of a task\<close>

text \<open>A \<open>Duration\<close>, and an \<open>Instant\<close> of the monotonic clock, in nanoseconds.\<close>

type_synonym duration = nat

definition from_secs :: "u64 \<Rightarrow> duration" where
  "from_secs s = unat s * 10 ^ 9"

definition as_secs :: "duration \<Rightarrow> u64" where
  "as_secs d = of_nat (d div 10 ^ 9)"

lemma as_secs_from_secs [simp]: "as_secs (from_secs s) = s"
  by (simp add: as_secs_def from_secs_def)

text \<open>\<open>'t\<close> is the task and \<open>'w\<close> the world its poll acts on.\<close>

record ('t, 'w) task_ops =
  t_id :: "'t \<Rightarrow> bytes"
  t_status :: "'t \<Rightarrow> task_status"
  t_set_status :: "task_status \<Rightarrow> 't \<Rightarrow> 't"
  t_poll :: "'t \<Rightarrow> 'w \<Rightarrow> (task_message list, task_error) result \<times> 't \<times> 'w"
  t_type :: "'t \<Rightarrow> bytes"
  t_interval :: "'t \<Rightarrow> duration"
  t_serialize :: "'t \<Rightarrow> (json, task_error) result"

section \<open>The registry\<close>

record 't registry_state =
  tasks :: "(bytes, 't) omap"
  next_task :: u64

definition task_registry_new :: "'t registry_state" where
  "task_registry_new = \<lparr>tasks = om_empty, next_task = 1\<rparr>"

definition task_num :: "bytes \<Rightarrow> u64 option" where
  "task_num i = Option.bind (strip_prefix i ''t-'') parse_u64"

definition add_task :: "('t, 'w) task_ops \<Rightarrow> 't \<Rightarrow> ('t registry_state, bytes, task_error) prog" where
  "add_task ops t =
     (let i = t_id ops t in
      and_then (modify (\<lambda>s. s\<lparr>tasks := om_insert i t (tasks s)\<rparr>)) (\<lambda>_.
      and_then (\<lambda>s. case task_num i of
          Some num \<Rightarrow> (if next_task s \<le> num then
              (case checked_add num 1 of None \<Rightarrow> (Panic, s) | Some n \<Rightarrow> (Ok (), s\<lparr>next_task := n\<rparr>))
            else (Ok (), s))
        | None \<Rightarrow> (Ok (), s)) (\<lambda>_.
      ret i)))"

definition next_id :: "('t registry_state, bytes, task_error) prog" where
  "next_id s = (case checked_add (next_task s) 1 of
     None \<Rightarrow> (Panic, s)
   | Some n \<Rightarrow> (Ok (''t-'' @ show_u64 (next_task s)), s\<lparr>next_task := n\<rparr>))"

definition cancel_task :: "('t, 'w) task_ops \<Rightarrow> bytes \<Rightarrow> ('t registry_state, unit, task_error) prog" where
  "cancel_task ops i s = (case om_lookup (tasks s) i of
     None \<Rightarrow> (Err (TaskNotFound i), s)
   | Some t \<Rightarrow> (if is_terminal (t_status ops t) then (Err (AlreadyCancelled i), s)
       else (Ok (), s\<lparr>tasks := om_insert i (t_set_status ops Cancelled t) (tasks s)\<rparr>)))"

definition task_list :: "'t registry_state \<Rightarrow> 't list" where
  "task_list s = map snd (om_entries (tasks s))"

fun entries_json :: "('t, 'w) task_ops \<Rightarrow> 't list \<Rightarrow> (json list, task_error) result" where
  "entries_json ops [] = Ok []"
| "entries_json ops (t # ts) =
     res_bind (t_serialize ops t) (\<lambda>state.
     res_bind (entries_json ops ts) (\<lambda>rest.
     Ok (JObj [(''type'', JStr (t_type ops t)), (''id'', JStr (t_id ops t)), (''state'', state)] # rest)))"

definition registry_serialize :: "('t, 'w) task_ops \<Rightarrow> 't registry_state \<Rightarrow> (json, task_error) result" where
  "registry_serialize ops s = res_bind (entries_json ops (task_list s)) (\<lambda>entries.
     Ok (JObj [(''next_id'', j_u64 (next_task s)), (''tasks'', JArr entries)]))"

type_synonym 't factory = "json \<Rightarrow> ('t, task_error) result"

fun restore_entries :: "('t, 'w) task_ops \<Rightarrow> (bytes, 't factory) omap \<Rightarrow> json list \<Rightarrow> (bytes, 't) omap \<Rightarrow>
    ((bytes, 't) omap, task_error) result" where
  "restore_entries ops fs [] m = Ok m"
| "restore_entries ops fs (entry # es) m =
     res_bind (ok_or (as_str (json_at entry ''type'')) (Serialization ''missing task type'')) (\<lambda>ty.
     let state = json_at entry ''state'' in
     res_bind (ok_or (om_lookup fs ty) (Serialization (''unknown task type: '' @ ty))) (\<lambda>factory.
     res_bind (factory state) (\<lambda>t.
     restore_entries ops fs es (om_insert (t_id ops t) t m))))"

definition registry_deserialize :: "('t, 'w) task_ops \<Rightarrow> (bytes, 't factory) omap \<Rightarrow> json \<Rightarrow> ('t registry_state, task_error) result" where
  "registry_deserialize ops fs data =
     (let nxt = (case as_u64 (json_at data ''next_id'') of Some n \<Rightarrow> n | None \<Rightarrow> 1) in
      res_bind (case as_array (json_at data ''tasks'') of
          Some arr \<Rightarrow> restore_entries ops fs arr om_empty
        | None \<Rightarrow> Ok om_empty) (\<lambda>m.
      Ok \<lparr>tasks = m, next_task = nxt\<rparr>))"

section \<open>The scheduler\<close>

text \<open>
  One tick of the loop that polls task \<open>i\<close>, under the registry lock: what it appends to the
  messages, whether the loop goes on, and the registry and world it leaves.
\<close>

definition tick :: "('t, 'w) task_ops \<Rightarrow> bytes \<Rightarrow> 't registry_state \<Rightarrow> 'w \<Rightarrow>
    (task_message list \<times> bool, task_error) result \<times> 't registry_state \<times> 'w" where
  "tick ops i s w = (case om_lookup (tasks s) i of
     None \<Rightarrow> (Ok ([], False), s, w)
   | Some t \<Rightarrow>
       (if is_terminal (t_status ops t) then (Ok ([], False), s, w)
        else (case t_poll ops (t_set_status ops Polling t) w of
            (Ok msgs, t', w') \<Rightarrow>
              (let t'' = (if t_status ops t' = Polling then t_set_status ops Idle t' else t')
               in (Ok (msgs, True), s\<lparr>tasks := om_insert i t'' (tasks s)\<rparr>, w'))
          | (Err e, t', w') \<Rightarrow>
              (Ok ([], False), s\<lparr>tasks := om_insert i (t_set_status ops (Errored (show_task_error e)) t') (tasks s)\<rparr>, w')
          | (Panic, t', w') \<Rightarrow> (Panic, s\<lparr>tasks := om_insert i t' (tasks s)\<rparr>, w'))))"

definition scheduled :: "('t, 'w) task_ops \<Rightarrow> 't registry_state \<Rightarrow> (bytes \<times> duration) list" where
  "scheduled ops s = map (\<lambda>t. (t_id ops t, t_interval ops t))
     (filter (\<lambda>t. \<not> is_terminal (t_status ops t)) (task_list s))"

text \<open>
  What the daemon does to the registry: it adds a task, draws an id, cancels a task, ticks the
  polling loop of a task, or polls it once outside the scheduler, whatever the outcome.
\<close>

definition poll_task :: "('t, 'w) task_ops \<Rightarrow> bytes \<Rightarrow> 't registry_state \<Rightarrow> 'w \<Rightarrow>
    (task_message list, task_error) result option \<times> 't registry_state \<times> 'w" where
  "poll_task ops i s w = (case om_lookup (tasks s) i of
     None \<Rightarrow> (None, s, w)
   | Some t \<Rightarrow> (case t_poll ops t w of (r, t', w') \<Rightarrow> (Some r, s\<lparr>tasks := om_insert i t' (tasks s)\<rparr>, w')))"

inductive registry_step :: "('t, 'w) task_ops \<Rightarrow> 't registry_state \<Rightarrow> 't registry_state \<Rightarrow> bool" for ops where
  add: "add_task ops t s = (Ok i, s') \<Longrightarrow> registry_step ops s s'"
| draw: "next_id s = (Ok i, s') \<Longrightarrow> registry_step ops s s'"
| cancel: "cancel_task ops i s = (r, s') \<Longrightarrow> registry_step ops s s'"
| tick: "tick ops i s w = (r, s', w') \<Longrightarrow> registry_step ops s s'"
| poll: "poll_task ops i s w = (r, s', w') \<Longrightarrow> registry_step ops s s'"

section \<open>The contract of a task\<close>

locale task_contract =
  fixes ops :: "('t, 'w) task_ops"
  assumes id_set: "t_id ops (t_set_status ops st t) = t_id ops t"
    and status_set: "t_status ops (t_set_status ops st t) = st"
    and id_poll: "t_poll ops t w = (r, t', w') \<Longrightarrow> t_id ops t' = t_id ops t"
    and poll_terminal: "is_terminal (t_status ops t) \<Longrightarrow> t_poll ops t w = (Ok [], t, w)"
begin

text \<open>Every task is stored under its id, and every numbered id was drawn before \<open>next_task\<close>.\<close>

definition inv :: "'t registry_state \<Rightarrow> bool" where
  "inv s \<longleftrightarrow> (\<forall>i t. om_lookup (tasks s) i = Some t \<longrightarrow> t_id ops t = i \<and> (\<forall>n. task_num i = Some n \<longrightarrow> n < next_task s))"

lemma inv_new: "inv task_registry_new"
  by (simp add: inv_def task_registry_new_def)

lemma inv_update: "inv s \<Longrightarrow> om_lookup (tasks s) i = Some t \<Longrightarrow> t_id ops t' = t_id ops t \<Longrightarrow> inv (s\<lparr>tasks := om_insert i t' (tasks s)\<rparr>)"
  by (simp add: inv_def)

lemma checked_succ: "checked_add n 1 = Some m \<Longrightarrow> m = n + 1 \<and> n < m" for n :: u64
  by (auto simp: checked_add_def word_less_def uint_word_ariths split: if_splits)

lemma inv_add:
  assumes "inv s" "add_task ops t s = (Ok i, s')"
  shows "inv s' \<and> i = t_id ops t \<and> om_lookup (tasks s') i = Some t"
proof -
  let ?s1 = "s\<lparr>tasks := om_insert (t_id ops t) t (tasks s)\<rparr>"
  show ?thesis
  proof (cases "\<exists>num. task_num (t_id ops t) = Some num \<and> next_task s \<le> num")
    case True
    then obtain num m where n: "task_num (t_id ops t) = Some num" "next_task s \<le> num" "checked_add num 1 = Some m"
      using assms(2) by (auto simp: add_task_def Let_def and_then_def split: option.splits if_splits)
    then have s': "s' = ?s1\<lparr>next_task := m\<rparr>" "i = t_id ops t"
      using assms(2) by (auto simp: add_task_def Let_def and_then_def)
    have "k < m" if "k \<le> num" for k using conjunct2 [OF checked_succ [OF n(3)]] that by (rule le_less_trans [rotated])
    moreover have "k \<le> num" if "k < next_task s" for k using that n(2) by simp
    ultimately show ?thesis using assms(1) n(1) unfolding s' inv_def by auto
  next
    case False
    then have s': "s' = ?s1" "i = t_id ops t"
      using assms(2) by (auto simp: add_task_def Let_def and_then_def split: option.splits if_splits)
    show ?thesis using assms(1) False unfolding s' inv_def by (auto simp: not_le)
  qed
qed

lemma next_id_run: "next_id s = (Ok i, s') \<Longrightarrow> i = ''t-'' @ show_u64 (next_task s) \<and> tasks s' = tasks s \<and> next_task s < next_task s'"
  by (auto simp: next_id_def dest: checked_succ split: option.splits)

lemma task_num_id [simp]: "task_num (''t-'' @ show_u64 n) = Some n"
  using strip_prefix_append [of "''t-''" "show_u64 n"] by (simp add: task_num_def parse_show_u64)

lemma inv_draw:
  assumes "inv s" "next_id s = (Ok i, s')"
  shows "inv s' \<and> om_lookup (tasks s') i = None"
proof -
  note r = next_id_run [OF assms(2)]
  have "om_lookup (tasks s) i = None"
  proof (rule ccontr)
    assume "om_lookup (tasks s) i \<noteq> None"
    then obtain t where "om_lookup (tasks s) i = Some t" by blast
    with assms(1) r show False unfolding inv_def by (metis less_irrefl task_num_id)
  qed
  moreover have "inv s'" using assms(1) r unfolding inv_def by (metis less_trans)
  ultimately show ?thesis using r by simp
qed

text \<open>A task added under the id just drawn is new, and does not move the counter.\<close>

lemma add_drawn:
  assumes "inv s" "next_id s = (Ok i, s1)" "t_id ops t = i"
  shows "add_task ops t s1 = (Ok i, s1\<lparr>tasks := om_insert i t (tasks s1)\<rparr>)" "inv (s1\<lparr>tasks := om_insert i t (tasks s1)\<rparr>)"
    and "om_lookup (tasks s1) = om_lookup (tasks s)" "om_lookup (tasks s) i = None"
proof -
  note r = next_id_run [OF assms(2)]
  show a: "add_task ops t s1 = (Ok i, s1\<lparr>tasks := om_insert i t (tasks s1)\<rparr>)"
  proof -
    have "task_num i = Some (next_task s)" "\<not> next_task s1 \<le> next_task s" using r by (auto simp del: append_Cons append_Nil)
    then show ?thesis using assms(3) by (simp add: add_task_def and_then_def Let_def)
  qed
  show "inv (s1\<lparr>tasks := om_insert i t (tasks s1)\<rparr>)" using inv_add [OF _ a] inv_draw [OF assms(1,2)] by blast
  show "om_lookup (tasks s1) = om_lookup (tasks s)" using r by simp
  show "om_lookup (tasks s) i = None" using inv_draw [OF assms(1,2)] r by simp
qed

lemma inv_cancel: "inv s \<Longrightarrow> cancel_task ops i s = (r, s') \<Longrightarrow> inv s'"
  by (auto simp: cancel_task_def id_set intro: inv_update split: option.splits if_splits)

lemma inv_tick:
  assumes "inv s" "tick ops i s w = (r, s', w')"
  shows "inv s'"
proof (cases "om_lookup (tasks s) i")
  case (Some t)
  obtain r1 t1 w1 where p: "t_poll ops (t_set_status ops Polling t) w = (r1, t1, w1)" by (metis prod_cases3)
  have "t_id ops t1 = t_id ops t" using id_poll [OF p] by (simp add: id_set)
  then show ?thesis using assms Some p inv_update [OF assms(1) Some]
    by (cases r1) (auto simp: tick_def Let_def id_set split: if_splits)
qed (use assms in \<open>simp add: tick_def\<close>)

lemma inv_poll:
  assumes "inv s" "poll_task ops i s w = (r, s', w')"
  shows "inv s'"
  using assms by (auto simp: poll_task_def intro!: inv_update dest: id_poll split: option.splits prod.splits)

lemma inv_reachable:
  assumes "(registry_step ops)\<^sup>*\<^sup>* task_registry_new s"
  shows "inv s"
  using assms
proof (induction rule: rtranclp_induct)
  case (step s s')
  from step(2) show ?case
  proof cases
    case (add t i)
    then show ?thesis using inv_add [OF step.IH] by blast
  next
    case (draw i)
    then show ?thesis using inv_draw [OF step.IH] by blast
  qed (use step.IH inv_cancel inv_tick inv_poll in blast)+
qed (rule inv_new)

text \<open>A task that ended stays as it is, unless a task is added under its id.\<close>

lemma terminal_final:
  assumes "om_lookup (tasks s) i = Some t" "is_terminal (t_status ops t)"
  shows "tick ops j s w = (r, s', w') \<Longrightarrow> om_lookup (tasks s') i = Some t"
    and "cancel_task ops j s = (q, s') \<Longrightarrow> om_lookup (tasks s') i = Some t"
    and "poll_task ops j s w = (q', s', w') \<Longrightarrow> om_lookup (tasks s') i = Some t"
proof -
  show "om_lookup (tasks s') i = Some t" if "tick ops j s w = (r, s', w')"
    using that assms by (auto simp: tick_def Let_def split: option.splits if_splits prod.splits result.splits)
  show "om_lookup (tasks s') i = Some t" if "cancel_task ops j s = (q, s')"
    using that assms by (auto simp: cancel_task_def split: option.splits if_splits)
  show "om_lookup (tasks s') i = Some t" if "poll_task ops j s w = (q', s', w')"
    using that assms poll_terminal [OF assms(2), of w]
    by (auto simp: poll_task_def split: option.splits if_splits prod.splits)
qed

text \<open>A tick of an active task: what it leaves behind decides whether the loop goes on.\<close>

lemma tick_active:
  assumes "om_lookup (tasks s) i = Some t" "\<not> is_terminal (t_status ops t)" "tick ops i s w = (r, s', w')"
  shows "\<exists>t'. s' = s\<lparr>tasks := om_insert i t' (tasks s)\<rparr> \<and>
     (case fst (t_poll ops (t_set_status ops Polling t) w) of
        Ok ms \<Rightarrow> r = Ok (ms, True) \<and> t_status ops t' \<noteq> Polling
      | Err e \<Rightarrow> r = Ok ([], False) \<and> t_status ops t' = Errored (show_task_error e)
      | Panic \<Rightarrow> r = Panic)"
proof -
  obtain r1 t1 w1 where p: "t_poll ops (t_set_status ops Polling t) w = (r1, t1, w1)" by (metis prod_cases3)
  let ?t = "case r1 of Ok ms \<Rightarrow> if t_status ops t1 = Polling then t_set_status ops Idle t1 else t1
    | Err e \<Rightarrow> t_set_status ops (Errored (show_task_error e)) t1 | Panic \<Rightarrow> t1"
  show ?thesis using assms p by (intro exI [of _ ?t]) (cases r1; auto simp: tick_def Let_def status_set)
qed

end

end
