(* ===== verification/RepoWatch.thy ===== *)
theory RepoWatch
  imports Adapter Ledger Tasks
begin

text \<open>
  The task that polls a repository for its open pull requests and publishes what changed
  (\<open>crates/devdev-tasks/src/repo_watch.rs\<close>). The adapter, the ledger and the hash function are
  arguments; the laws of the ledger are the locale \<open>event_ledger\<close>, which every ledger that keeps
  the contract of \<open>idempotency_ledger\<close> satisfies.
\<close>

section \<open>The ledger as the task sees it\<close>

text \<open>\<open>lo_io_text\<close> is the text of an \<open>io::Error\<close>.\<close>

record 's ledger_ops =
  lo_seen :: "'s \<Rightarrow> ledger_key \<Rightarrow> (bool, ledger_error) result"
  lo_record :: "ledger_key \<Rightarrow> json \<Rightarrow> ('s, unit, ledger_error) prog"
  lo_io_text :: bytes

fun show_ledger_error :: "bytes \<Rightarrow> ledger_error \<Rightarrow> bytes" where
  "show_ledger_error io LedgerIo = ''ledger I/O error: '' @ io"
| "show_ledger_error io (LedgerFormat s) = ''ledger format error: '' @ s"

text \<open>What a poll acts on: the network, the bus, the ledger and the monotonic clock, read once.\<close>

record 's task_world = http_world +
  bus :: event_bus
  led :: 's
  mono :: duration

definition with_ledger :: "'s ledger_ops \<Rightarrow> bytes \<Rightarrow> ('s, 'a, ledger_error) prog \<Rightarrow> (('s, 'x) task_world_scheme, 'a, task_error) prog" where
  "with_ledger L what m w = (case m (led w) of
     (r, l) \<Rightarrow> (map_err (\<lambda>e. PollFailed (what @ '': '' @ show_ledger_error (lo_io_text L) e)) r, w\<lparr>led := l\<rparr>))"

definition emit :: "daemon_event \<Rightarrow> (('s, 'x) task_world_scheme, unit, 'e) prog" where
  "emit ev = modify (\<lambda>w. w\<lparr>bus := snd (publish ev (bus w))\<rparr>)"

section \<open>The task\<close>

record repo_watch =
  w_id :: bytes
  w_host :: repo_host_id
  w_owner :: bytes
  w_repo :: bytes
  w_last_seen :: "(u64, bytes) omap"
  w_interval :: duration
  w_last_polled :: "duration option"
  w_status :: task_status

definition repo_watch_new :: "bytes \<Rightarrow> repo_host_id \<Rightarrow> bytes \<Rightarrow> bytes \<Rightarrow> repo_watch" where
  "repo_watch_new i h owner repo = \<lparr>w_id = i, w_host = h, w_owner = owner, w_repo = repo, w_last_seen = om_empty,
     w_interval = from_secs 60, w_last_polled = None, w_status = Created\<rparr>"

definition watch_with_interval :: "duration \<Rightarrow> repo_watch \<Rightarrow> repo_watch" where
  "watch_with_interval d t = t\<lparr>w_interval := d\<rparr>"

definition watch_resource_id :: "repo_watch \<Rightarrow> u64 \<Rightarrow> bytes" where
  "watch_resource_id t n = w_owner t @ ''/'' @ w_repo t @ ''#'' @ show_u64 n"

definition watch_key :: "(bytes \<Rightarrow> bytes \<Rightarrow> u64) \<Rightarrow> repo_watch \<Rightarrow> pull_request \<Rightarrow> ledger_key" where
  "watch_key hash t pr = LedgerKey (host_ledger_key (w_host t)) ''pr_state'' (watch_resource_id t (p_number pr)) (pr_state_hash hash pr)"

definition watch_event :: "repo_watch \<Rightarrow> pull_request \<Rightarrow> daemon_event" where
  "watch_event t pr =
     (if om_lookup (w_last_seen t) (p_number pr) = None
      then PrOpened (w_host t) (w_owner t) (w_repo t) (p_number pr) (p_head_sha pr)
      else PrUpdated (w_host t) (w_owner t) (w_repo t) (p_number pr) (p_head_sha pr))"

definition watch_message :: "repo_watch \<Rightarrow> pull_request \<Rightarrow> task_message" where
  "watch_message t pr = Text (watch_resource_id t (p_number pr) @ '' #'' @ show_u64 (p_number pr) @ '' state '' @
     (if om_lookup (w_last_seen t) (p_number pr) = None then ''opened'' else ''updated''))"

text \<open>The loop over the open pull requests, with the two collections it fills.\<close>

primrec watch_prs :: "(bytes \<Rightarrow> bytes \<Rightarrow> u64) \<Rightarrow> 's ledger_ops \<Rightarrow> repo_watch \<Rightarrow> pull_request list \<Rightarrow>
    task_message list \<Rightarrow> (u64, bytes) omap \<Rightarrow>
    (('s, 'x) task_world_scheme, task_message list \<times> (u64, bytes) omap, task_error) prog" where
  "watch_prs hash L t [] messages current = ret (messages, current)"
| "watch_prs hash L t (pr # prs) messages current =
     (let current = om_insert (p_number pr) (pr_state_hash hash pr) current;
          k = watch_key hash t pr
      in and_then (with_ledger L ''ledger.seen'' (query (\<lambda>l. lo_seen L l k))) (\<lambda>already.
         if already \<and> om_lookup (w_last_seen t) (p_number pr) \<noteq> None
         then watch_prs hash L t prs messages current
         else and_then (emit (watch_event t pr)) (\<lambda>_.
              and_then (if already then ret ()
                else with_ledger L ''ledger.record'' (lo_record L k
                  (JObj [(''head_sha'', JStr (p_head_sha pr)), (''updated_at'', JStr (p_updated_at pr))]))) (\<lambda>_.
              watch_prs hash L t prs (messages @ [watch_message t pr]) current))))"

definition closed_event :: "repo_watch \<Rightarrow> u64 \<Rightarrow> daemon_event" where
  "closed_event t n = PrClosed (w_host t) (w_owner t) (w_repo t) n False"

text \<open>The loop over \<open>last_seen\<close>; its order is the one of the map.\<close>

primrec close_missing :: "repo_watch \<Rightarrow> (u64, bytes) omap \<Rightarrow> (u64 \<times> bytes) list \<Rightarrow> task_message list \<Rightarrow>
    (('s, 'x) task_world_scheme, task_message list, task_error) prog" where
  "close_missing t current [] messages = ret messages"
| "close_missing t current (e # es) messages =
     (if om_lookup current (fst e) = None
      then and_then (emit (closed_event t (fst e))) (\<lambda>_.
           close_missing t current es (messages @ [Text (watch_resource_id t (fst e) @ '' closed'')]))
      else close_missing t current es messages)"

type_synonym ('t, 'w) poll = "'w \<Rightarrow> (task_message list, task_error) result \<times> 't \<times> 'w"

definition watch_do_poll :: "(bytes \<Rightarrow> bytes \<Rightarrow> u64) \<Rightarrow> ('s, 'x) task_world_scheme repo_host_adapter \<Rightarrow> 's ledger_ops \<Rightarrow>
    repo_watch \<Rightarrow> (repo_watch, ('s, 'x) task_world_scheme) poll" where
  "watch_do_poll hash A L t w =
     (case and_then (\<lambda>w. case ad_list_open_prs A (w_owner t) (w_repo t) w of
              (r, w') \<Rightarrow> (map_err (\<lambda>e. PollFailed (''list_open_prs: '' @ show_host_error e)) r, w')) (\<lambda>prs.
           and_then (watch_prs hash L t prs [] om_empty) (\<lambda>(messages, current).
           and_then (close_missing t current (om_entries (w_last_seen t)) messages) (\<lambda>messages.
           ret (messages, current)))) w of
        (Ok (messages, current), w') \<Rightarrow> (Ok messages, t\<lparr>w_last_seen := current, w_status := Idle\<rparr>, w')
      | (Err e, w') \<Rightarrow> (Err e, t, w')
      | (Panic, w') \<Rightarrow> (Panic, t, w'))"

definition watch_poll :: "(bytes \<Rightarrow> bytes \<Rightarrow> u64) \<Rightarrow> ('s, 'x) task_world_scheme repo_host_adapter \<Rightarrow> 's ledger_ops \<Rightarrow>
    repo_watch \<Rightarrow> (repo_watch, ('s, 'x) task_world_scheme) poll" where
  "watch_poll hash A L t w =
     (if is_terminal (w_status t) then (Ok [], t, w)
      else if (case w_last_polled t of None \<Rightarrow> False | Some prev \<Rightarrow> mono w - prev < w_interval t) then (Ok [], t, w)
      else watch_do_poll hash A L (t\<lparr>w_last_polled := Some (mono w)\<rparr>) w)"

definition watch_serialize :: "repo_watch \<Rightarrow> (json, task_error) result" where
  "watch_serialize t = Ok (JObj [(''id'', JStr (w_id t)), (''host'', JStr (host_ledger_key (w_host t))),
     (''owner'', JStr (w_owner t)), (''repo'', JStr (w_repo t)),
     (''last_seen'', JObj (map (\<lambda>(n, h). (show_u64 n, JStr h)) (om_entries (w_last_seen t)))),
     (''poll_interval_secs'', j_u64 (as_secs (w_interval t)))])"

definition watch_describe :: "repo_watch \<Rightarrow> bytes" where
  "watch_describe t = ''Watching '' @ w_owner t @ ''/'' @ w_repo t @ '' for PR events ('' @ host_ledger_key (w_host t) @ '')''"

section \<open>Runs of the loops\<close>

lemma with_ledger_run:
  "with_ledger L what m w = (map_err (\<lambda>e. PollFailed (what @ '': '' @ show_ledger_error (lo_io_text L) e)) (fst (m (led w))),
     w\<lparr>led := snd (m (led w))\<rparr>)"
  by (simp add: with_ledger_def split: prod.splits)

lemma map_err_iff [simp]:
  "map_err f r = Ok x \<longleftrightarrow> r = Ok x" "map_err f r = Panic \<longleftrightarrow> r = Panic"
  by (cases r; simp)+

lemma show_u64_inject [simp]: "show_u64 m = show_u64 n \<longleftrightarrow> m = n"
  by (metis option.inject parse_show_u64)

lemma watch_key_number: "watch_key hash t pr = watch_key hash t' pr' \<Longrightarrow> w_owner t = w_owner t' \<Longrightarrow> w_repo t = w_repo t' \<Longrightarrow>
    p_number pr = p_number pr'"
  by (simp add: watch_key_def watch_resource_id_def)

definition emitted :: "daemon_event list \<Rightarrow> ('s, 'x) task_world_scheme \<Rightarrow> ('s, 'x) task_world_scheme \<Rightarrow> bool" where
  "emitted evs w w' \<longleftrightarrow> receivers (bus w') = receivers (bus w) \<and>
     published (bus w') = published (bus w) @ (if receivers (bus w) = [] then [] else evs)"

lemma emitted_refl [simp]: "emitted [] w w"
  by (simp add: emitted_def)

lemma emitted_some [simp]: "\<exists>evs. emitted evs w w"
  using emitted_refl by blast

lemma emitted_trans: "emitted a w w1 \<Longrightarrow> emitted b w1 w2 \<Longrightarrow> emitted (a @ b) w w2"
  by (auto simp: emitted_def)

lemma emitted_led [simp]: "emitted evs w (w'\<lparr>led := l\<rparr>) = emitted evs w w'"
  by (simp add: emitted_def)

lemma emit_run: "emit ev w = (Ok (), w\<lparr>bus := snd (publish ev (bus w))\<rparr>)"
  by (simp add: emit_def)

lemma emitted_emit: "emitted [ev] w (w\<lparr>bus := snd (publish ev (bus w))\<rparr>)"
  by (simp add: emitted_def publish_def)

lemma close_missing_run:
  "\<exists>w'. close_missing t current es messages w =
      (Ok (messages @ map (\<lambda>e. Text (watch_resource_id t (fst e) @ '' closed'')) (filter (\<lambda>e. om_lookup current (fst e) = None) es)), w') \<and>
     emitted (map (\<lambda>e. closed_event t (fst e)) (filter (\<lambda>e. om_lookup current (fst e) = None) es)) w w' \<and> led w' = led w"
proof (induction es arbitrary: messages w)
  case (Cons e es)
  show ?case
  proof (cases "om_lookup current (fst e) = None")
    case True
    let ?w = "w\<lparr>bus := snd (publish (closed_event t (fst e)) (bus w))\<rparr>"
    obtain w' where w': "close_missing t current es (messages @ [Text (watch_resource_id t (fst e) @ '' closed'')]) ?w =
        (Ok ((messages @ [Text (watch_resource_id t (fst e) @ '' closed'')]) @
          map (\<lambda>e. Text (watch_resource_id t (fst e) @ '' closed'')) (filter (\<lambda>e. om_lookup current (fst e) = None) es)), w')"
      "emitted (map (\<lambda>e. closed_event t (fst e)) (filter (\<lambda>e. om_lookup current (fst e) = None) es)) ?w w'" "led w' = led ?w"
      using Cons.IH [of "messages @ [Text (watch_resource_id t (fst e) @ '' closed'')]" ?w] by blast
    with True emitted_trans [OF emitted_emit [of "closed_event t (fst e)" w] w'(2)] show ?thesis
      by (simp add: and_then_def emit_run)
  next
    case False
    then show ?thesis using Cons.IH [of messages w] by (simp del: not_None_eq)
  qed
qed simp

declare watch_prs.simps(2) [simp del]

text \<open>A pull request has an event to publish: it is new to this task, or its state is not in the ledger.\<close>

definition watch_due :: "(bytes \<Rightarrow> bytes \<Rightarrow> u64) \<Rightarrow> 's ledger_ops \<Rightarrow> repo_watch \<Rightarrow> 's \<Rightarrow> pull_request \<Rightarrow> bool" where
  "watch_due hash L t l pr \<longleftrightarrow>
     om_lookup (w_last_seen t) (p_number pr) = None \<or> lo_seen L l (watch_key hash t pr) \<noteq> Ok True"

text \<open>The numbers that were open at the last poll and are no longer listed.\<close>

definition watch_gone :: "repo_watch \<Rightarrow> pull_request list \<Rightarrow> u64 list" where
  "watch_gone t prs = filter (\<lambda>n. n \<notin> p_number ` set prs) (map fst (om_entries (w_last_seen t)))"

section \<open>The contract of the ledger\<close>

locale event_ledger =
  fixes lseen :: "'s \<Rightarrow> ledger_key \<Rightarrow> (bool, ledger_error) result"
    and lrec :: "ledger_key \<Rightarrow> json \<Rightarrow> ('s, unit, ledger_error) prog"
  assumes seen_no_panic: "lseen s k \<noteq> Panic"
    and rec_seen: "lrec k m s = (Ok u, s') \<Longrightarrow> lseen s' k' = (if k' = k then Ok True else lseen s k')"
    and rec_err: "lrec k m s = (Err e, s') \<Longrightarrow> lseen s' k' = lseen s k'"
    and rec_panic: "lrec k m s \<noteq> (Panic, s')"
begin

definition ops :: "bytes \<Rightarrow> 's ledger_ops" where
  "ops io = \<lparr>lo_seen = lseen, lo_record = lrec, lo_io_text = io\<rparr>"

lemma seen_step:
  "with_ledger (ops io) what (query (\<lambda>l. lo_seen (ops io) l k)) w =
     (map_err (\<lambda>e. PollFailed (what @ '': '' @ show_ledger_error io e)) (lseen (led w) k), w)"
  by (simp add: with_ledger_run ops_def)

lemma rec_keys:
  assumes "lrec k m s = (r, s')"
  shows "r \<noteq> Panic \<and> (lseen s' k' = (if k' = k \<and> is_ok r then Ok True else lseen s k'))"
proof (cases r)
  case (Ok u)
  with assms rec_seen [of k m s u s' k'] show ?thesis by simp
next
  case (Err e)
  with assms rec_err [of k m s e s' k'] show ?thesis by simp
next
  case Panic
  with assms rec_panic [of k m s s'] show ?thesis by simp
qed

text \<open>One turn of the loop for a pull request that is due: its event, then the record if it is not seen.\<close>

definition after_event :: "repo_watch \<Rightarrow> pull_request \<Rightarrow> ('s, 'x) task_world_scheme \<Rightarrow> ('s, 'x) task_world_scheme" where
  "after_event t pr w = w\<lparr>bus := snd (publish (watch_event t pr) (bus w))\<rparr>"

lemma after_event_facts:
  "led (after_event t pr w) = led w" "emitted [watch_event t pr] w (after_event t pr w)"
  by (simp_all add: after_event_def emitted_emit)

definition record_step :: "bytes \<Rightarrow> bool \<Rightarrow> ledger_key \<Rightarrow> json \<Rightarrow> (('s, 'x) task_world_scheme, unit, task_error) prog" where
  "record_step io already k m = (if already then ret () else with_ledger (ops io) ''ledger.record'' (lrec k m))"

lemma record_step_facts:
  assumes "record_step io already k m w = (r, w')"
  shows "bus w' = bus w \<and> r \<noteq> Panic \<and> (\<forall>k'. lseen (led w) k' = Ok True \<longrightarrow> lseen (led w') k' = Ok True) \<and>
     (\<forall>k'. lseen (led w') k' = Ok True \<longrightarrow> lseen (led w) k' = Ok True \<or> k' = k) \<and>
     (is_ok r \<longrightarrow> already = (lseen (led w) k = Ok True) \<longrightarrow> (\<forall>k'. lseen (led w') k' = (if k' = k then Ok True else lseen (led w) k')))"
proof (cases already)
  case True
  then show ?thesis using assms by (auto simp: record_step_def)
next
  case False
  obtain r1 l1 where l: "lrec k m (led w) = (r1, l1)" by (cases "lrec k m (led w)")
  then have w': "w' = w\<lparr>led := l1\<rparr>" "r = map_err (\<lambda>e. PollFailed (''ledger.record'' @ '': '' @ show_ledger_error (lo_io_text (ops io)) e)) r1"
    using assms False by (auto simp: record_step_def with_ledger_run)
  show ?thesis using rec_keys [OF l] by (cases r1) (simp_all add: w')
qed

lemma watch_prs_Cons:
  "watch_prs hash (ops io) t (pr # prs) messages current w =
     (case lseen (led w) (watch_key hash t pr) of
        Err e \<Rightarrow> (Err (PollFailed (''ledger.seen'' @ '': '' @ show_ledger_error io e)), w)
      | Panic \<Rightarrow> (Panic, w)
      | Ok already \<Rightarrow>
         if already \<and> om_lookup (w_last_seen t) (p_number pr) \<noteq> None
         then watch_prs hash (ops io) t prs messages (om_insert (p_number pr) (pr_state_hash hash pr) current) w
         else and_then (record_step io already (watch_key hash t pr)
                (JObj [(''head_sha'', JStr (p_head_sha pr)), (''updated_at'', JStr (p_updated_at pr))])) (\<lambda>_.
              watch_prs hash (ops io) t prs (messages @ [watch_message t pr]) (om_insert (p_number pr) (pr_state_hash hash pr) current))
              (after_event t pr w))"
proof -
  have e: "lo_record (ops io) = lrec" by (simp add: ops_def)
  show ?thesis
    by (cases "lseen (led w) (watch_key hash t pr)")
       (auto simp: watch_prs.simps(2) Let_def and_then_def [of "with_ledger (ops io) ''ledger.seen'' m" for m] seen_step
          and_then_def [of "emit ev" for ev] emit_run after_event_def e record_step_def)
qed

text \<open>Whatever the outcome: what is newly seen was published, and nothing is forgotten.\<close>

lemma watch_prs_safe:
  "watch_prs hash (ops io) t prs messages current w = (r, w') \<Longrightarrow>
     r \<noteq> Panic \<and> (\<forall>k. lseen (led w) k = Ok True \<longrightarrow> lseen (led w') k = Ok True) \<and>
     (\<exists>evs. emitted evs w w' \<and> (\<forall>k. lseen (led w') k = Ok True \<longrightarrow> lseen (led w) k = Ok True \<or>
        (\<exists>pr \<in> set prs. k = watch_key hash t pr \<and> watch_event t pr \<in> set evs)))"
proof (induction prs arbitrary: messages current w)
  case Nil
  then show ?case by (auto intro: exI [of _ "[]"])
next
  case (Cons pr prs)
  let ?cur = "om_insert (p_number pr) (pr_state_hash hash pr) current" and ?k = "watch_key hash t pr"
  show ?case
  proof (cases "lseen (led w) ?k")
    case (Ok already)
    show ?thesis
    proof (cases "already \<and> om_lookup (w_last_seen t) (p_number pr) \<noteq> None")
      case True
      then show ?thesis using Cons.IH [of messages ?cur w] Cons.prems Ok by (auto simp: watch_prs_Cons)
    next
      case False
      let ?m = "JObj [(''head_sha'', JStr (p_head_sha pr)), (''updated_at'', JStr (p_updated_at pr))]"
      obtain r1 w1 where w1: "record_step io already ?k ?m (after_event t pr w) = (r1, w1)" by (meson surj_pair)
      note f = record_step_facts [OF w1] and g = after_event_facts [of t pr w]
      have em: "emitted [watch_event t pr] w w1" using f g by (simp add: emitted_def)
      show ?thesis
      proof (cases r1)
        case (Ok u)
        with False w1 \<open>lseen (led w) ?k = Ok already\<close> Cons.prems
        have rest: "watch_prs hash (ops io) t prs (messages @ [watch_message t pr]) ?cur w1 = (r, w')"
          by (auto simp: watch_prs_Cons and_then_def)
        from Cons.IH [OF rest] obtain evs where evs: "r \<noteq> Panic" "emitted evs w1 w'"
          "\<forall>k. lseen (led w1) k = Ok True \<longrightarrow> lseen (led w') k = Ok True"
          "\<forall>k. lseen (led w') k = Ok True \<longrightarrow> lseen (led w1) k = Ok True \<or>
             (\<exists>pr \<in> set prs. k = watch_key hash t pr \<and> watch_event t pr \<in> set evs)"
          by blast
        have "emitted (watch_event t pr # evs) w w'" using emitted_trans [OF em evs(2)] by simp
        then show ?thesis using evs f g by (intro conjI exI [of _ "watch_event t pr # evs"]) auto
      next
        case (Err e)
        with False w1 \<open>lseen (led w) ?k = Ok already\<close> Cons.prems have "w' = w1" "r = Err e"
          by (auto simp: watch_prs_Cons and_then_def)
        then show ?thesis using em f g by (intro conjI exI [of _ "[watch_event t pr]"]) auto
      qed (use f in simp)
    qed
  next
    case (Err e)
    then show ?thesis using Cons.prems emitted_refl [of w] by (auto simp: watch_prs_Cons)
  qed (use seen_no_panic in simp)
qed

text \<open>A loop that ends: exactly the events that were due, and everything is seen.\<close>

lemma watch_prs_exact:
  "watch_prs hash (ops io) t prs messages current w = (Ok res, w') \<Longrightarrow> distinct (map p_number prs) \<Longrightarrow>
     fst res = messages @ map (watch_message t) (filter (watch_due hash (ops io) t (led w)) prs) \<and>
     snd res = fold (\<lambda>pr. om_insert (p_number pr) (pr_state_hash hash pr)) prs current \<and>
     emitted (map (watch_event t) (filter (watch_due hash (ops io) t (led w)) prs)) w w' \<and>
     (\<forall>pr \<in> set prs. lseen (led w') (watch_key hash t pr) = Ok True)"
proof (induction prs arbitrary: messages current w)
  case (Cons pr prs)
  let ?cur = "om_insert (p_number pr) (pr_state_hash hash pr) current" and ?k = "watch_key hash t pr"
  have keys: "watch_key hash t pr' \<noteq> ?k" if "pr' \<in> set prs" for pr'
  proof
    assume "watch_key hash t pr' = ?k"
    then have "p_number pr = p_number pr'" using watch_key_number [of hash t pr' t pr] by simp
    then show False using that Cons.prems(2) by simp
  qed
  from Cons.prems(1) obtain already where a: "lseen (led w) ?k = Ok already"
    by (auto simp: watch_prs_Cons split: result.splits)
  show ?case
  proof (cases "already \<and> om_lookup (w_last_seen t) (p_number pr) \<noteq> None")
    case True
    then have rest: "watch_prs hash (ops io) t prs messages ?cur w = (Ok res, w')"
      using Cons.prems(1) a by (simp add: watch_prs_Cons)
    have "lseen (led w') ?k = Ok True" using watch_prs_safe [OF rest, THEN conjunct2, THEN conjunct1] a True by simp
    with Cons.IH [OF rest] Cons.prems(2) True a show ?thesis by (simp add: watch_due_def ops_def)
  next
    case False
    let ?m = "JObj [(''head_sha'', JStr (p_head_sha pr)), (''updated_at'', JStr (p_updated_at pr))]"
    obtain r1 w1 where w1: "record_step io already ?k ?m (after_event t pr w) = (r1, w1)" by (meson surj_pair)
    note f = record_step_facts [OF w1] and g = after_event_facts [of t pr w]
    from Cons.prems(1) a False w1 have rest: "watch_prs hash (ops io) t prs (messages @ [watch_message t pr]) ?cur w1 = (Ok res, w')"
      and ok: "is_ok r1"
      by (auto simp: watch_prs_Cons and_then_def split: result.splits)
    have al: "already = (lseen (led (after_event t pr w)) ?k = Ok True)" using a by (simp add: g)
    have l1: "lseen (led w1) k = (if k = ?k then Ok True else lseen (led w) k)" for k
      using f ok al by (simp add: g)
    have fl: "filter (watch_due hash (ops io) t (led w1)) prs = filter (watch_due hash (ops io) t (led w)) prs"
      by (rule filter_cong) (auto simp: watch_due_def ops_def l1 keys)
    have d: "watch_due hash (ops io) t (led w) pr" using False a by (auto simp: watch_due_def ops_def)
    have em: "emitted [watch_event t pr] w w1" using f g by (simp add: emitted_def)
    have "lseen (led w') ?k = Ok True" using watch_prs_safe [OF rest, THEN conjunct2, THEN conjunct1] l1 by simp
    with Cons.IH [OF rest] Cons.prems(2) fl d emitted_trans [OF em] show ?thesis by auto
  qed
qed auto

lemma do_poll_exact:
  assumes list: "ad_list_open_prs A (w_owner t) (w_repo t) w = (Ok prs, w1)" and d: "distinct (map p_number prs)"
    and run: "watch_do_poll hash A (ops io) t w = (Ok messages, t', w')"
  shows "t' = t\<lparr>w_last_seen := fold (\<lambda>pr. om_insert (p_number pr) (pr_state_hash hash pr)) prs om_empty, w_status := Idle\<rparr> \<and>
     emitted (map (watch_event t) (filter (watch_due hash (ops io) t (led w1)) prs) @ map (closed_event t) (watch_gone t prs)) w1 w' \<and>
     (\<forall>pr \<in> set prs. lseen (led w') (watch_key hash t pr) = Ok True)"
proof -
  obtain r2 w2 where r2: "watch_prs hash (ops io) t prs [] om_empty w1 = (r2, w2)" by (meson surj_pair)
  have np: "r2 \<noteq> Panic" using watch_prs_safe [OF r2] by simp
  with run r2 list obtain ms cur where r2': "r2 = Ok (ms, cur)"
    by (cases r2) (auto simp: watch_do_poll_def and_then_def)
  note ex = watch_prs_exact [OF r2 [unfolded r2'] d]
  obtain w3 where w3: "close_missing t cur (om_entries (w_last_seen t)) ms w2 =
      (Ok (ms @ map (\<lambda>e. Text (watch_resource_id t (fst e) @ '' closed'')) (filter (\<lambda>e. om_lookup cur (fst e) = None) (om_entries (w_last_seen t)))), w3)"
    "emitted (map (\<lambda>e. closed_event t (fst e)) (filter (\<lambda>e. om_lookup cur (fst e) = None) (om_entries (w_last_seen t)))) w2 w3" "led w3 = led w2"
    using close_missing_run [of t cur "om_entries (w_last_seen t)" ms w2] by blast
  have dom: "om_lookup (fold (\<lambda>pr. om_insert (p_number pr) (pr_state_hash hash pr)) prs m) n = None \<longleftrightarrow>
      n \<notin> p_number ` set prs \<and> om_lookup m n = None" for n m
    by (induction prs arbitrary: m) auto
  have gone: "map (\<lambda>e. closed_event t (fst e)) (filter (\<lambda>e. om_lookup cur (fst e) = None) (om_entries (w_last_seen t))) =
      map (closed_event t) (watch_gone t prs)"
    using ex by (simp add: watch_gone_def filter_map comp_def dom)
  from run list r2 r2' w3 have e: "t' = t\<lparr>w_last_seen := cur, w_status := Idle\<rparr>" "w' = w3"
    by (auto simp: watch_do_poll_def and_then_def)
  have em: "emitted (map (watch_event t) (filter (watch_due hash (ops io) t (led w1)) prs)) w1 w2" using ex by simp
  have "emitted (map (watch_event t) (filter (watch_due hash (ops io) t (led w1)) prs) @ map (closed_event t) (watch_gone t prs)) w1 w'"
    using emitted_trans [OF em w3(2)] by (simp only: gone e)
  moreover have "led w' = led w2" using w3(3) by (simp add: e)
  ultimately show ?thesis using ex by (simp add: e(1))
qed

lemma do_poll_failed:
  assumes quiet: "\<forall>r v. ad_list_open_prs A (w_owner t) (w_repo t) w = (r, v) \<longrightarrow> bus v = bus w \<and> led v = led w"
    and run: "watch_do_poll hash A (ops io) t w = (Err e, t', w')"
  shows "t' = t \<and> (\<exists>evs. emitted evs w w' \<and> (\<forall>pr. lseen (led w') (watch_key hash t pr) = Ok True \<longrightarrow>
     lseen (led w) (watch_key hash t pr) = Ok True \<or>
     (\<exists>pr'. watch_key hash t pr' = watch_key hash t pr \<and> watch_event t pr' \<in> set evs)))"
proof -
  obtain r1 w1 where r1: "ad_list_open_prs A (w_owner t) (w_repo t) w = (r1, w1)" by (meson surj_pair)
  have q: "bus w1 = bus w" "led w1 = led w" using quiet r1 by auto
  show ?thesis
  proof (cases r1)
    case (Ok prs)
    obtain r2 w2 where r2: "watch_prs hash (ops io) t prs [] om_empty w1 = (r2, w2)" by (meson surj_pair)
    obtain evs where evs: "emitted evs w1 w2" "\<forall>k. lseen (led w2) k = Ok True \<longrightarrow> lseen (led w1) k = Ok True \<or>
        (\<exists>pr \<in> set prs. k = watch_key hash t pr \<and> watch_event t pr \<in> set evs)"
      using watch_prs_safe [OF r2] by blast
    have "t' = t \<and> w' = w2"
    proof (cases r2)
      case (Ok res)
      obtain ms cur where res: "res = (ms, cur)" by (cases res)
      obtain ms' w3 where "close_missing t cur (om_entries (w_last_seen t)) ms w2 = (Ok ms', w3)"
        using close_missing_run [of t cur "om_entries (w_last_seen t)" ms w2] by blast
      then show ?thesis using run r1 r2 \<open>r1 = Ok prs\<close> Ok by (simp add: watch_do_poll_def and_then_def res)
    next
      case (Err e')
      then show ?thesis using run r1 r2 \<open>r1 = Ok prs\<close> by (simp add: watch_do_poll_def and_then_def)
    next
      case Panic
      then show ?thesis using run r1 r2 \<open>r1 = Ok prs\<close> by (simp add: watch_do_poll_def and_then_def)
    qed
    moreover have "emitted evs w w2" using evs(1) q by (simp add: emitted_def)
    ultimately show ?thesis using evs(2) q by metis
  next
    case (Err e')
    then have "t' = t" "w' = w1" using run r1 by (auto simp: watch_do_poll_def and_then_def)
    moreover have "emitted [] w w1" using q by (simp add: emitted_def)
    ultimately show ?thesis using q by auto
  next
    case Panic
    then show ?thesis using run r1 by (simp add: watch_do_poll_def and_then_def)
  qed
qed

end

section \<open>The file ledger keeps the contract\<close>

text \<open>
  The handle of the NDJSON ledger: how each of its file operations goes and what the clock says at
  each record are given by the number of records made so far.
\<close>

record ledger_handle =
  lh_ledger :: ledger
  lh_calls :: nat

definition ndjson_seen :: "ledger_handle \<Rightarrow> ledger_key \<Rightarrow> (bool, ledger_error) result" where
  "ndjson_seen h k = seen (lh_ledger h) k"

definition ndjson_record :: "json serde \<Rightarrow> (nat \<Rightarrow> append_io) \<Rightarrow> (nat \<Rightarrow> u64) \<Rightarrow> ledger_key \<Rightarrow> json \<Rightarrow>
    (ledger_handle, unit, ledger_error) prog" where
  "ndjson_record sd ios clock k m h =
     (case record_key sd (ios (lh_calls h)) k m (clock (lh_calls h)) (lh_ledger h) of
        (r, l) \<Rightarrow> (r, \<lparr>lh_ledger = l, lh_calls = Suc (lh_calls h)\<rparr>))"

definition ndjson_ops :: "json serde \<Rightarrow> (nat \<Rightarrow> append_io) \<Rightarrow> (nat \<Rightarrow> u64) \<Rightarrow> bytes \<Rightarrow> ledger_handle ledger_ops" where
  "ndjson_ops sd ios clock io = \<lparr>lo_seen = ndjson_seen, lo_record = ndjson_record sd ios clock, lo_io_text = io\<rparr>"

interpretation ndjson_events: event_ledger ndjson_seen "ndjson_record sd ios clock" for sd ios clock
proof
  show "ndjson_record sd ios clock k m s = (Ok u, s') \<Longrightarrow> ndjson_seen s' k' = (if k' = k then Ok True else ndjson_seen s k')"
    for k m s u s' k'
    by (auto simp: ndjson_record_def ndjson_seen_def ndjson.record_seen split: prod.splits)
  show "ndjson_record sd ios clock k m s = (Err e, s') \<Longrightarrow> ndjson_seen s' k' = ndjson_seen s k'" for k m s e s' k'
    by (auto simp: ndjson_record_def ndjson_seen_def ndjson.record_err split: prod.splits)
qed (auto simp: ndjson_seen_def ndjson_record_def ndjson.seen_no_panic ndjson.record_panic split: prod.splits)

lemma ndjson_ops_eq: "ndjson_events.ops sd ios clock io = ndjson_ops sd ios clock io"
  by (simp add: ndjson_events.ops_def ndjson_ops_def)

lemma watch_polled [simp]:
  "watch_key hash (t\<lparr>w_last_polled := p\<rparr>) = watch_key hash t"
  "watch_event (t\<lparr>w_last_polled := p\<rparr>) = watch_event t"
  "closed_event (t\<lparr>w_last_polled := p\<rparr>) = closed_event t"
  "watch_gone (t\<lparr>w_last_polled := p\<rparr>) = watch_gone t"
  "watch_due hash L (t\<lparr>w_last_polled := p\<rparr>) = watch_due hash L t"
  by (simp_all add: fun_eq_iff watch_key_def watch_resource_id_def watch_event_def closed_event_def watch_gone_def watch_due_def)

definition throttled :: "repo_watch \<Rightarrow> duration \<Rightarrow> bool" where
  "throttled t now \<longleftrightarrow> (case w_last_polled t of None \<Rightarrow> False | Some prev \<Rightarrow> now - prev < w_interval t)"

lemma watch_poll_active:
  "\<not> is_terminal (w_status t) \<Longrightarrow> \<not> throttled t (mono w) \<Longrightarrow>
     watch_poll hash A L t w = watch_do_poll hash A L (t\<lparr>w_last_polled := Some (mono w)\<rparr>) w"
  by (simp add: watch_poll_def throttled_def)

lemma watch_poll_idle:
  "is_terminal (w_status t) \<or> throttled t (mono w) \<Longrightarrow> watch_poll hash A L t w = (Ok [], t, w)"
  by (auto simp: watch_poll_def throttled_def)

lemma watch_publishes_changes_aux:
  assumes active: "\<not> is_terminal (w_status t)" "\<not> throttled t (mono w)"
    and list: "ad_list_open_prs A (w_owner t) (w_repo t) w = (Ok prs, w1)" "distinct (map p_number prs)"
    and run: "watch_poll hash A (ndjson_ops sd ios clock io) t w = (Ok messages, t', w')"
  shows "emitted (map (watch_event t) (filter (watch_due hash (ndjson_ops sd ios clock io) t (led w1)) prs) @
        map (closed_event t) (watch_gone t prs)) w1 w' \<and>
     w_status t' = Idle \<and>
     (\<forall>n. om_lookup (w_last_seen t') n = map_of (rev (map (\<lambda>pr. (p_number pr, pr_state_hash hash pr)) prs)) n) \<and>
     (\<forall>pr \<in> set prs. ndjson_seen (led w') (watch_key hash t pr) = Ok True)"
proof -
  let ?t = "t\<lparr>w_last_polled := Some (mono w)\<rparr>"
  have l: "ad_list_open_prs A (w_owner ?t) (w_repo ?t) w = (Ok prs, w1)" using list by simp
  from run have r: "watch_do_poll hash A (ndjson_events.ops sd ios clock io) ?t w = (Ok messages, t', w')"
    by (simp add: ndjson_ops_eq watch_poll_active active)
  have fold: "fold (\<lambda>pr. om_insert (p_number pr) (pr_state_hash hash pr)) prs om_empty =
      om_of_list (map (\<lambda>pr. (p_number pr, pr_state_hash hash pr)) prs)"
    by (simp add: om_of_list_def fold_map comp_def)
  note * = ndjson_events.do_poll_exact [OF l list(2) r, unfolded ndjson_ops_eq watch_polled]
  then show ?thesis by (simp add: fold om_lookup_of_list)
qed

text \<open>A forge with one open pull request, and a ledger file that is not there yet.\<close>

definition demo_pull :: pull_request where
  "demo_pull = \<lparr>p_number = 2, p_title = [], p_author = [], p_state = Open, p_head_sha = ''s'', p_base_sha = [],
     p_head_ref = [], p_base_ref = [], p_body = None, p_created_at = [], p_updated_at = ''u''\<rparr>"

definition demo_forge :: "'w repo_host_adapter" where
  "demo_forge = \<lparr>ad_host_id = github_com, ad_get_pr = (\<lambda>_ _ _. ret demo_pull), ad_get_pr_diff = (\<lambda>_ _ _. ret []),
     ad_list_pr_comments = (\<lambda>_ _ _. ret []), ad_post_review = (\<lambda>_ _ _ _. ret ()), ad_post_comment = (\<lambda>_ _ _ _. ret ()),
     ad_get_pr_status = (\<lambda>_ _ _. fail Unauthorized), ad_get_pr_head_sha = (\<lambda>_ _ _. ret ''s''), ad_list_open_prs = (\<lambda>_ _. ret [demo_pull])\<rparr>"

definition demo_codec :: "json serde" where
  "demo_codec = \<lparr>to_json = (\<lambda>e. Inr ''{}''), from_json = (\<lambda>l. Inl ''expected value''), json_null = JNull\<rparr>"

definition demo_task_world :: "ledger_handle task_world" where
  "demo_task_world = \<lparr>http_log = [], rates = (\<lambda>_. rate_limit_new), bus = \<lparr>published = [], receivers = [0]\<rparr>,
     led = \<lparr>lh_ledger = no_ledger, lh_calls = 0\<rparr>, mono = 0\<rparr>"

text \<open>The task has seen pull request 1, which is no longer open.\<close>

definition demo_watch :: repo_watch where
  "demo_watch = (repo_watch_new ''t-1'' github_com ''o'' ''r'')\<lparr>w_last_seen := om_insert 1 ''sha:0'' om_empty\<rparr>"

lemma demo_record:
  "ndjson_record demo_codec (\<lambda>_. io) (\<lambda>_. now) k m h = (case io of
      AppendFine \<Rightarrow> (Ok (), \<lparr>lh_ledger = \<lparr>on_disk = Some (disk_bytes (lh_ledger h) @ ''{}'' @ [CHR 0x0A]),
        index = om_insert k now (index (lh_ledger h))\<rparr>, lh_calls = Suc (lh_calls h)\<rparr>)
    | _ \<Rightarrow> ndjson_record demo_codec (\<lambda>_. io) (\<lambda>_. now) k m h)"
  by (cases io) (simp_all add: ndjson_record_def record_key_def append_run record_index_def and_then_def demo_codec_def)

lemmas demo_watch_eval = watch_poll_def watch_do_poll_def and_then_def watch_prs.simps close_missing.simps Let_def
  with_ledger_run demo_watch_def repo_watch_new_def demo_forge_def demo_pull_def demo_task_world_def emit_def publish_def
  ndjson_ops_def ndjson_seen_def seen_def no_ledger_def throttled_def

section \<open>Properties\<close>

text \<open>
  The name of a state of a pull request in the ledger: its forge, its repository and number, and the
  hash of its head and of its last update.
\<close>

definition state_key :: "(bytes \<Rightarrow> bytes \<Rightarrow> u64) \<Rightarrow> repo_host_id \<Rightarrow> bytes \<Rightarrow> bytes \<Rightarrow> pull_request \<Rightarrow> ledger_key" where
  "state_key hash h owner repo pr = LedgerKey (host_ledger_key h) ''pr_state'' (owner @ ''/'' @ repo @ ''#'' @ show_u64 (p_number pr))
     (''sha:'' @ show_hex (unat (hash (p_head_sha pr) (p_updated_at pr))))"

lemma watch_key_state: "watch_key hash t = state_key hash (w_host t) (w_owner t) (w_repo t)"
  by (rule ext) (simp add: watch_key_def state_key_def watch_resource_id_def pr_state_hash_def)

text \<open>
  C19: functional. A poll that runs to its end publishes, in order, one event for each open pull
  request that needs one: an opened event when its number was not there at the task's last poll,
  else an updated event when the ledger has not seen its state; then one closed event for each
  number of the last poll that is gone. It publishes nothing else, remembers exactly the listed
  pull requests, and leaves each of their states in the ledger.
\<close>

theorem watch_publishes_changes:
  assumes active: "\<not> is_terminal (w_status t)" "\<not> throttled t (mono w)"
    and list: "ad_list_open_prs A (w_owner t) (w_repo t) w = (Ok prs, w1)" "distinct (map p_number prs)"
    and run: "watch_poll hash A (ndjson_ops sd ios clock io) t w = (Ok messages, t', w')"
  shows "emitted (map (\<lambda>pr. if p_number pr \<notin> om_dom (w_last_seen t)
          then PrOpened (w_host t) (w_owner t) (w_repo t) (p_number pr) (p_head_sha pr)
          else PrUpdated (w_host t) (w_owner t) (w_repo t) (p_number pr) (p_head_sha pr))
        (filter (\<lambda>pr. p_number pr \<notin> om_dom (w_last_seen t) \<or> ndjson_seen (led w1) (state_key hash (w_host t) (w_owner t) (w_repo t) pr) \<noteq> Ok True) prs) @
      map (\<lambda>n. PrClosed (w_host t) (w_owner t) (w_repo t) n False)
        (filter (\<lambda>n. n \<notin> p_number ` set prs) (map fst (om_entries (w_last_seen t))))) w1 w' \<and>
     w_status t' = Idle \<and>
     (\<forall>n. om_lookup (w_last_seen t') n = map_of (rev (map (\<lambda>pr. (p_number pr, pr_state_hash hash pr)) prs)) n) \<and>
     (\<forall>pr \<in> set prs. ndjson_seen (led w') (state_key hash (w_host t) (w_owner t) (w_repo t) pr) = Ok True)"
  using watch_publishes_changes_aux [OF assms]
  by (simp add: watch_event_def [abs_def] watch_due_def [abs_def] closed_event_def [abs_def] watch_gone_def ndjson_ops_def watch_key_state in_om_dom disj_imp del: not_None_eq)

text \<open>The task knows the open pull request in an older state.\<close>

definition demo_known :: repo_watch where
  "demo_known = demo_watch\<lparr>w_last_seen := om_insert 2 ''sha:9'' (om_insert 1 ''sha:0'' om_empty)\<rparr>"

theorem watch_publishes_changes_witness:
  "\<exists>messages t' w'. watch_poll (\<lambda>_ _. 0) demo_forge (ndjson_ops demo_codec (\<lambda>_. AppendFine) (\<lambda>_. 7) []) demo_known demo_task_world =
       (Ok messages, t', w') \<and>
     published (bus w') = [PrUpdated github_com ''o'' ''r'' 2 ''s'', PrClosed github_com ''o'' ''r'' 1 False]"
proof -
  let ?L = "ndjson_ops demo_codec (\<lambda>_. AppendFine) (\<lambda>_. 7) []"
  have "is_ok (fst (watch_poll (\<lambda>_ _. 0) demo_forge ?L demo_known demo_task_world))"
    by (simp add: demo_watch_eval demo_known_def demo_record)
  then obtain messages t' w' where run: "watch_poll (\<lambda>_ _. 0) demo_forge ?L demo_known demo_task_world = (Ok messages, t', w')"
    by (metis is_ok.elims(2) prod.collapse)
  have active: "\<not> is_terminal (w_status demo_known)" "\<not> throttled demo_known (mono demo_task_world)"
    by (simp_all add: demo_known_def demo_watch_def repo_watch_new_def throttled_def)
  have list: "ad_list_open_prs demo_forge (w_owner demo_known) (w_repo demo_known) demo_task_world = (Ok [demo_pull], demo_task_world)"
    "distinct (map p_number [demo_pull])"
    by (simp_all add: demo_forge_def)
  have "ndjson_seen (led demo_task_world) (state_key (\<lambda>_ _. 0) (w_host demo_known) (w_owner demo_known) (w_repo demo_known) demo_pull) = Ok False"
    by (simp add: ndjson_seen_def seen_def demo_task_world_def no_ledger_def)
  with watch_publishes_changes [OF active list run] run show ?thesis
    by (simp add: emitted_def om_dom_def demo_known_def demo_watch_def repo_watch_new_def demo_pull_def demo_task_world_def)
qed

text \<open>
  C20: liveness. A changed state is never lost to a failed poll: when a poll stops in the middle,
  what it recorded in the ledger it had already published, it remembers nothing else, and the
  next poll that runs to its end publishes the rest.
\<close>

theorem no_update_lost:
  assumes quiet: "\<forall>v r v'. ad_list_open_prs A (w_owner t) (w_repo t) v = (r, v') \<longrightarrow> bus v' = bus v \<and> led v' = led v"
    and p1: "watch_poll hash A (ndjson_ops sd ios clock io) t w = (Err e, t1, w1)"
    and p2: "watch_poll hash A (ndjson_ops sd ios clock io) t1 w2 = (Ok messages, t2, w3)" "\<not> throttled t1 (mono w2)" "led w2 = led w1"
    and list: "ad_list_open_prs A (w_owner t) (w_repo t) w2 = (Ok prs, v)" "distinct (map p_number prs)" "pr \<in> set prs"
    and fresh: "ndjson_seen (led w) (watch_key hash t pr) = Ok False"
  shows "\<exists>evs1 evs2 pr'. emitted evs1 w w1 \<and> emitted evs2 w2 w3 \<and> watch_key hash t pr' = watch_key hash t pr \<and>
     watch_event t pr' \<in> set (evs1 @ evs2)"
proof -
  let ?t = "t\<lparr>w_last_polled := Some (mono w)\<rparr>" and ?L = "ndjson_ops sd ios clock io"
  have active: "\<not> is_terminal (w_status t)" "\<not> throttled t (mono w)"
    using p1 watch_poll_idle [of t w hash A ?L] by auto
  have r: "watch_do_poll hash A (ndjson_events.ops sd ios clock io) ?t w = (Err e, t1, w1)"
    using p1 by (simp add: ndjson_ops_eq watch_poll_active active)
  have q: "\<forall>r v. ad_list_open_prs A (w_owner ?t) (w_repo ?t) w = (r, v) \<longrightarrow> bus v = bus w \<and> led v = led w"
    using quiet by simp
  note failed = ndjson_events.do_poll_failed [OF q r, unfolded watch_polled]
  then have t1: "t1 = ?t" by simp
  from failed obtain evs1 where e1: "emitted evs1 w w1" "\<forall>pr. ndjson_seen (led w1) (watch_key hash t pr) = Ok True \<longrightarrow>
      ndjson_seen (led w) (watch_key hash t pr) = Ok True \<or> (\<exists>pr'. watch_key hash t pr' = watch_key hash t pr \<and> watch_event t pr' \<in> set evs1)"
    by blast
  have v: "bus v = bus w2" "led v = led w1" using quiet list(1) p2(3) by auto
  have a2: "\<not> is_terminal (w_status t1)" using active t1 by simp
  have l2: "ad_list_open_prs A (w_owner t1) (w_repo t1) w2 = (Ok prs, v)" using list t1 by simp
  from watch_publishes_changes_aux [OF a2 p2(2) l2 list(2) p2(1)]
  have e2: "emitted (map (watch_event t) (filter (watch_due hash ?L t (led w1)) prs) @ map (closed_event t) (watch_gone t prs)) w2 w3"
    by (simp add: t1 v emitted_def)
  show ?thesis
  proof (cases "ndjson_seen (led w1) (watch_key hash t pr) = Ok True")
    case True
    then obtain pr' where "watch_key hash t pr' = watch_key hash t pr" "watch_event t pr' \<in> set evs1"
      using e1(2) fresh by fastforce
    with e1(1) e2 show ?thesis by (metis UnCI set_append)
  next
    case False
    then have "watch_due hash ?L t (led w1) pr" by (simp add: watch_due_def ndjson_ops_def)
    with list(3) have "watch_event t pr \<in> set (map (watch_event t) (filter (watch_due hash ?L t (led w1)) prs) @ map (closed_event t) (watch_gone t prs))"
      by simp
    with e1(1) e2 show ?thesis by (metis UnCI set_append)
  qed
qed

theorem no_update_lost_witness:
  "\<exists>w1. watch_poll (\<lambda>_ _. 0) demo_forge (ndjson_ops demo_codec (\<lambda>n. if n = 0 then OpenFails else AppendFine) (\<lambda>_. 7) [])
        demo_watch demo_task_world = (Err (PollFailed (''ledger.record: ledger I/O error: '')), demo_watch\<lparr>w_last_polled := Some 0\<rparr>, w1) \<and>
     (\<exists>messages t2 w3 evs1 evs2 pr'. watch_poll (\<lambda>_ _. 0) demo_forge (ndjson_ops demo_codec (\<lambda>n. if n = 0 then OpenFails else AppendFine) (\<lambda>_. 7) [])
        (demo_watch\<lparr>w_last_polled := Some 0\<rparr>) (w1\<lparr>mono := from_secs 60\<rparr>) = (Ok messages, t2, w3) \<and>
        emitted evs1 demo_task_world w1 \<and> emitted evs2 (w1\<lparr>mono := from_secs 60\<rparr>) w3 \<and>
        watch_key (\<lambda>_ _. 0) demo_watch pr' = watch_key (\<lambda>_ _. 0) demo_watch demo_pull \<and> watch_event demo_watch pr' \<in> set (evs1 @ evs2))"
proof -
  let ?L = "ndjson_ops demo_codec (\<lambda>n. if n = 0 then OpenFails else AppendFine) (\<lambda>_. 7) []" and ?h = "\<lambda>_ _. 0 :: u64"
  let ?t1 = "demo_watch\<lparr>w_last_polled := Some 0\<rparr>"
  have rec: "ndjson_record demo_codec (\<lambda>n. if n = 0 then OpenFails else AppendFine) (\<lambda>_. 7) k m \<lparr>lh_ledger = no_ledger, lh_calls = 0\<rparr> =
      (Err LedgerIo, \<lparr>lh_ledger = no_ledger, lh_calls = 1\<rparr>)" for k m
    by (simp add: ndjson_record_def record_key_def append_run record_index_def and_then_def demo_codec_def)
  have rec2: "ndjson_record demo_codec (\<lambda>n. if n = 0 then OpenFails else AppendFine) (\<lambda>_. 7) k m \<lparr>lh_ledger = no_ledger, lh_calls = 1\<rparr> =
      (Ok (), \<lparr>lh_ledger = \<lparr>on_disk = Some (disk_bytes no_ledger @ ''{}'' @ [CHR 0x0A]), index = om_insert k 7 (index no_ledger)\<rparr>, lh_calls = 2\<rparr>)" for k m
    by (simp add: ndjson_record_def record_key_def append_run record_index_def and_then_def demo_codec_def)
  obtain w1 where p1: "watch_poll ?h demo_forge ?L demo_watch demo_task_world =
      (Err (PollFailed (''ledger.record: ledger I/O error: '')), ?t1, w1)" "led w1 = \<lparr>lh_ledger = no_ledger, lh_calls = 1\<rparr>"
    using rec by (simp add: demo_watch_eval)
  have "is_ok (fst (watch_poll ?h demo_forge ?L ?t1 (w1\<lparr>mono := from_secs 60\<rparr>)))"
    using rec2 p1(2) by (simp add: demo_watch_eval)
  then obtain messages t2 w3 where p2: "watch_poll ?h demo_forge ?L ?t1 (w1\<lparr>mono := from_secs 60\<rparr>) = (Ok messages, t2, w3)"
    by (metis is_ok.elims(2) prod.collapse)
  have "\<exists>evs1 evs2 pr'. emitted evs1 demo_task_world w1 \<and> emitted evs2 (w1\<lparr>mono := from_secs 60\<rparr>) w3 \<and>
      watch_key ?h demo_watch pr' = watch_key ?h demo_watch demo_pull \<and> watch_event demo_watch pr' \<in> set (evs1 @ evs2)"
  proof (rule no_update_lost [OF _ p1(1) p2])
    show "\<not> throttled ?t1 (mono (w1\<lparr>mono := from_secs 60\<rparr>))"
      by (simp add: throttled_def demo_watch_def repo_watch_new_def)
    show "ad_list_open_prs demo_forge (w_owner demo_watch) (w_repo demo_watch) (w1\<lparr>mono := from_secs 60\<rparr>) = (Ok [demo_pull], w1\<lparr>mono := from_secs 60\<rparr>)"
      by (simp add: demo_forge_def)
  qed (auto simp: demo_forge_def demo_task_world_def ndjson_seen_def seen_def no_ledger_def)
  with p1 p2 show ?thesis by blast
qed

end
