(* ===== verification/MonitorPr.thy ===== *)
theory MonitorPr
  imports RepoWatch
begin

text \<open>
  The task that shepherds one pull request (\<open>crates/devdev-tasks/src/monitor_pr.rs\<close>): it takes the
  events of its receiver on the bus, keeps those of its pull request, and prompts the agent. The
  adapter and the runner of prompts are arguments. The loop of a poll takes the events that were
  there when the poll began; those that arrive meanwhile are left to the next poll.
\<close>

section \<open>The task\<close>

text \<open>\<open>'r\<close> is the runner's own state, and \<open>m_rx\<close> the number of the task's receiver.\<close>

record 'r monitor_pr =
  m_id :: bytes
  m_pr :: pr_ref
  m_status :: task_status
  m_last_sha :: "bytes option"
  m_observations :: "bytes list"
  m_interval :: duration
  m_rx :: nat
  m_prefs :: "bytes list"
  m_runner :: 'r

type_synonym ('r, 'w) agent_runner = "bytes \<Rightarrow> ('r \<times> 'w, bytes, bytes) prog"

definition monitor_new :: "bytes \<Rightarrow> bytes \<Rightarrow> 'r \<Rightarrow> event_bus \<Rightarrow> ('r monitor_pr, task_error) result \<times> event_bus" where
  "monitor_new i s runner b = (case pr_parse s of
     Ok pr \<Rightarrow> (case subscribe b of (rx, b') \<Rightarrow>
        (Ok \<lparr>m_id = i, m_pr = pr, m_status = Created, m_last_sha = None, m_observations = [],
             m_interval = from_secs 60, m_rx = rx, m_prefs = [], m_runner = runner\<rparr>, b'))
   | Err e \<Rightarrow> (Err e, b)
   | Panic \<Rightarrow> (Panic, b))"

definition matches :: "'r monitor_pr \<Rightarrow> daemon_event \<Rightarrow> bool" where
  "matches t ev = (case pr_target ev of
     Some (h, owner, repo, n) \<Rightarrow> h = pr_host (m_pr t) \<and> owner = pr_owner (m_pr t) \<and> repo = pr_repo (m_pr t) \<and> n = pr_number (m_pr t)
   | None \<Rightarrow> False)"

section \<open>Prompting\<close>

definition nl :: bytes where "nl = [CHR 0x0A]"

definition build_prompt :: "'r monitor_pr \<Rightarrow> bytes \<Rightarrow> bytes \<Rightarrow> bytes \<Rightarrow> bytes \<Rightarrow> bytes" where
  "build_prompt t kind title body diff =
     ''PR '' @ pr_show (m_pr t) @ '' was '' @ kind @ '' (head_sha='' @ (case m_last_sha t of Some s \<Rightarrow> s | None \<Rightarrow> ''?'') @ '').'' @ nl @
     ''Title: '' @ title @ nl @
     ''Description: '' @ body @ nl @ nl @
     ''Diff:'' @ nl @ ''```'' @ nl @ diff @ nl @ ''```'' @ nl @ nl @
     (if m_prefs t = [] then [] else ''Preference files (read on demand):'' @ nl @
        concat (map (\<lambda>p. ''- '' @ p @ nl) (m_prefs t)) @ nl) @
     (if m_observations t = [] then [] else ''Prior observations:'' @ nl @
        concat (map (\<lambda>obs. ''- '' @ obs @ nl) (m_observations t)) @ nl) @
     ''Review this PR. To post a comment or review, call the `devdev_ask` tool with `kind=post_review`; on approval you'' @ [CHR 0x27] @
     ''ll receive a short-lived token to run `gh` yourself.''"

fun debug_state :: "pr_state \<Rightarrow> bytes" where
  "debug_state Open = ''Open''"
| "debug_state Closed = ''Closed''"
| "debug_state Merged = ''Merged''"

text \<open>\<open>&reply[..200]\<close> panics when byte 200 is inside a character.\<close>

definition ellipsis :: bytes where "ellipsis = [CHR 0xE2, CHR 0x80, CHR 0xA6]"

definition summarise :: "bytes \<Rightarrow> (bytes, task_error) result" where
  "summarise reply = (if 200 < length reply
     then if is_char_boundary reply 200 then Ok (take 200 reply @ ellipsis) else Panic
     else Ok reply)"

definition forge_step :: "bytes \<Rightarrow> ('w, 'a, repo_host_error) prog \<Rightarrow> ('w, 'a, task_error) prog" where
  "forge_step what m w = (case m w of
     (r, w') \<Rightarrow> (map_err (\<lambda>e. PollFailed (what @ '': '' @ show_host_error e)) r, w'))"

definition agent_step :: "('r, 'w) agent_runner \<Rightarrow> bytes \<Rightarrow> ('r \<times> 'w, bytes, task_error) prog" where
  "agent_step run prompt s = (case run prompt s of
     (r, s') \<Rightarrow> (map_err (\<lambda>e. PollFailed (''agent: '' @ e)) r, s'))"

text \<open>What a prompt leads to: the state of the pull request, or the reply and the message.\<close>

definition do_prompt :: "'w repo_host_adapter \<Rightarrow> ('r, 'w) agent_runner \<Rightarrow> 'r monitor_pr \<Rightarrow> bytes \<Rightarrow> ('r monitor_pr, 'w) poll" where
  "do_prompt A run t kind w =
     (let owner = pr_owner (m_pr t); repo = pr_repo (m_pr t); n = pr_number (m_pr t) in
      case forge_step ''get_pr'' (ad_get_pr A owner repo n) w of
        (Err e, w1) \<Rightarrow> (Err e, t, w1)
      | (Panic, w1) \<Rightarrow> (Panic, t, w1)
      | (Ok pr, w1) \<Rightarrow>
          (if p_state pr = Closed \<or> p_state pr = Merged
           then (Ok [Text (''PR '' @ pr_show (m_pr t) @ '' is now '' @ debug_state (p_state pr) @ ''.'')], t\<lparr>m_status := Completed\<rparr>, w1)
           else case forge_step ''get_pr_diff'' (ad_get_pr_diff A owner repo n) w1 of
             (Err e, w2) \<Rightarrow> (Err e, t, w2)
           | (Panic, w2) \<Rightarrow> (Panic, t, w2)
           | (Ok diff, w2) \<Rightarrow>
               (let prompt = build_prompt t kind (p_title pr) (case p_body pr of Some b \<Rightarrow> b | None \<Rightarrow> []) diff in
                case agent_step run prompt (m_runner t, w2) of
                  (Err e, r, w3) \<Rightarrow> (Err e, t\<lparr>m_runner := r\<rparr>, w3)
                | (Panic, r, w3) \<Rightarrow> (Panic, t\<lparr>m_runner := r\<rparr>, w3)
                | (Ok reply, r, w3) \<Rightarrow>
                    (case summarise reply of
                       Ok summary \<Rightarrow>
                         (Ok [Text (''PR '' @ pr_show (m_pr t) @ '' ('' @ kind @ '') '' @ [CHR 0xE2, CHR 0x86, CHR 0x92] @ '' agent reply:'' @ nl @ reply)],
                          t\<lparr>m_runner := r, m_observations := m_observations t @ [summary], m_status := Idle\<rparr>, w3)
                     | Err e \<Rightarrow> (Err e, t\<lparr>m_runner := r\<rparr>, w3)
                     | Panic \<Rightarrow> (Panic, t\<lparr>m_runner := r\<rparr>, w3)))))"

fun handle_event :: "'w repo_host_adapter \<Rightarrow> ('r, 'w) agent_runner \<Rightarrow> 'r monitor_pr \<Rightarrow> daemon_event \<Rightarrow> ('r monitor_pr, 'w) poll" where
  "handle_event A run t (PrClosed h owner repo n merged) w =
     (Ok [Text (''PR '' @ pr_show (m_pr t) @ '' closed (merged='' @ (if merged then ''true'' else ''false'') @ '').'')],
      t\<lparr>m_status := Completed\<rparr>, w)"
| "handle_event A run t (PrOpened h owner repo n sha) w = do_prompt A run (t\<lparr>m_last_sha := Some sha\<rparr>) ''opened'' w"
| "handle_event A run t (PrUpdated h owner repo n sha) w = do_prompt A run (t\<lparr>m_last_sha := Some sha\<rparr>) ''updated'' w"

section \<open>Polling\<close>

definition lag_warning :: "'r monitor_pr \<Rightarrow> nat \<Rightarrow> task_message" where
  "lag_warning t n = Text (''[warning] event bus lagged '' @ show_nat n @ '' messages '' @ [CHR 0xE2, CHR 0x80, CHR 0x94] @
     '' possible missed events for '' @ pr_show (m_pr t))"

type_synonym ('s, 'x) tworld = "('s, 'x) task_world_scheme"

primrec monitor_drain :: "('s, 'x) tworld repo_host_adapter \<Rightarrow> ('r, ('s, 'x) tworld) agent_runner \<Rightarrow> nat \<Rightarrow> 'r monitor_pr \<Rightarrow>
    task_message list \<Rightarrow> ('r monitor_pr, ('s, 'x) tworld) poll" where
  "monitor_drain A run 0 t messages w = (Ok messages, t, w)"
| "monitor_drain A run (Suc fuel) t messages w =
     (case try_recv (m_rx t) (bus w) of
        (None, b) \<Rightarrow> (Ok messages, t, w)
      | (Some (Lagged n), b) \<Rightarrow> monitor_drain A run fuel t (messages @ [lag_warning t n]) (w\<lparr>bus := b\<rparr>)
      | (Some (Event ev), b) \<Rightarrow>
          (if matches t ev
           then (case handle_event A run t ev (w\<lparr>bus := b\<rparr>) of
              (Ok ms, t', w') \<Rightarrow>
                (if is_terminal (m_status t') then (Ok (messages @ ms), t', w')
                 else monitor_drain A run fuel t' (messages @ ms) w')
            | (Err e, t', w') \<Rightarrow> (Err e, t', w')
            | (Panic, t', w') \<Rightarrow> (Panic, t', w'))
           else monitor_drain A run fuel t messages (w\<lparr>bus := b\<rparr>)))"

text \<open>Every event waiting, the report of a lag, and the empty receive that ends the loop.\<close>

definition drain_fuel :: "'r monitor_pr \<Rightarrow> event_bus \<Rightarrow> nat" where
  "drain_fuel t b = length (published b) - receivers b ! m_rx t + 2"

definition monitor_poll :: "('s, 'x) tworld repo_host_adapter \<Rightarrow> ('r, ('s, 'x) tworld) agent_runner \<Rightarrow> 'r monitor_pr \<Rightarrow>
    ('r monitor_pr, ('s, 'x) tworld) poll" where
  "monitor_poll A run t w =
     (if is_terminal (m_status t) then (Ok [], t, w)
      else monitor_drain A run (drain_fuel t (bus w)) t [] w)"

definition monitor_serialize :: "'r monitor_pr \<Rightarrow> (json, task_error) result" where
  "monitor_serialize t = Ok (JObj [(''id'', JStr (m_id t)), (''owner'', JStr (pr_owner (m_pr t))), (''repo'', JStr (pr_repo (m_pr t))),
     (''number'', j_u64 (pr_number (m_pr t))), (''last_sha'', j_opt_str (m_last_sha t)),
     (''observations'', JArr (map JStr (m_observations t)))])"

definition monitor_describe :: "'r monitor_pr \<Rightarrow> bytes" where
  "monitor_describe t = ''Monitoring PR '' @ pr_show (m_pr t)"

section \<open>What a poll amounts to\<close>

text \<open>The same events handled one after the other, without a bus.\<close>

primrec handle_all :: "'w repo_host_adapter \<Rightarrow> ('r, 'w) agent_runner \<Rightarrow> daemon_event list \<Rightarrow> 'r monitor_pr \<Rightarrow>
    task_message list \<Rightarrow> ('r monitor_pr, 'w) poll" where
  "handle_all A run [] t messages w = (Ok messages, t, w)"
| "handle_all A run (ev # evs) t messages w =
     (case handle_event A run t ev w of
        (Ok ms, t', w') \<Rightarrow>
          (if is_terminal (m_status t') then (Ok (messages @ ms), t', w')
           else handle_all A run evs t' (messages @ ms) w')
      | (Err e, t', w') \<Rightarrow> (Err e, t', w')
      | (Panic, t', w') \<Rightarrow> (Panic, t', w'))"

text \<open>Neither the forge nor the agent reads or moves the receivers of the bus.\<close>

definition blind :: "(('s, 'x) tworld, 'a, 'e) prog \<Rightarrow> bool" where
  "blind m \<longleftrightarrow> (\<forall>w b. m (w\<lparr>bus := b\<rparr>) = (case m w of (r, w') \<Rightarrow> (r, w'\<lparr>bus := b\<rparr>)))"

definition blind_forge :: "('s, 'x) tworld repo_host_adapter \<Rightarrow> bool" where
  "blind_forge A \<longleftrightarrow> (\<forall>owner repo n. blind (ad_get_pr A owner repo n) \<and> blind (ad_get_pr_diff A owner repo n))"

definition blind_agent :: "('r, ('s, 'x) tworld) agent_runner \<Rightarrow> bool" where
  "blind_agent run \<longleftrightarrow> (\<forall>p r w b. run p (r, w\<lparr>bus := b\<rparr>) = (case run p (r, w) of (x, r', w') \<Rightarrow> (x, r', w'\<lparr>bus := b\<rparr>)))"

definition on_bus :: "event_bus \<Rightarrow> 'a \<times> 't \<times> ('s, 'x) tworld \<Rightarrow> 'a \<times> 't \<times> ('s, 'x) tworld" where
  "on_bus b res = (case res of (x, t, w) \<Rightarrow> (x, t, w\<lparr>bus := b\<rparr>))"

lemma on_bus_simps [simp]: "on_bus b (x, t, w) = (x, t, w\<lparr>bus := b\<rparr>)" "on_bus b (on_bus c res) = on_bus b res"
  by (simp_all add: on_bus_def split: prod.splits)

lemma blind_forge_step: "blind m \<Longrightarrow> forge_step what m (w\<lparr>bus := b\<rparr>) = (case forge_step what m w of (r, w') \<Rightarrow> (r, w'\<lparr>bus := b\<rparr>))"
  by (simp add: blind_def forge_step_def split: prod.splits)

lemma blind_agent_step: "blind_agent run \<Longrightarrow>
    agent_step run p (r, w\<lparr>bus := b\<rparr>) = (case agent_step run p (r, w) of (x, r', w') \<Rightarrow> (x, r', w'\<lparr>bus := b\<rparr>))"
  by (simp add: blind_agent_def agent_step_def split: prod.splits)

lemma do_prompt_blind:
  assumes "blind_forge A" "blind_agent run"
  shows "do_prompt A run t kind (w\<lparr>bus := b\<rparr>) = on_bus b (do_prompt A run t kind w)"
proof -
  have f: "forge_step what (ad_get_pr A owner repo n) (w\<lparr>bus := b\<rparr>) = (case forge_step what (ad_get_pr A owner repo n) w of (r, w') \<Rightarrow> (r, w'\<lparr>bus := b\<rparr>))"
    "forge_step what (ad_get_pr_diff A owner repo n) (w\<lparr>bus := b\<rparr>) = (case forge_step what (ad_get_pr_diff A owner repo n) w of (r, w') \<Rightarrow> (r, w'\<lparr>bus := b\<rparr>))"
    for what owner repo n w using assms(1) by (simp_all add: blind_forge_def blind_forge_step)
  show ?thesis
    by (simp add: do_prompt_def Let_def f blind_agent_step [OF assms(2)] split: prod.splits result.splits)
qed

lemma handle_event_blind:
  "blind_forge A \<Longrightarrow> blind_agent run \<Longrightarrow> handle_event A run t ev (w\<lparr>bus := b\<rparr>) = on_bus b (handle_event A run t ev w)"
  by (cases ev) (simp_all add: do_prompt_blind)

lemma handle_all_blind:
  "blind_forge A \<Longrightarrow> blind_agent run \<Longrightarrow> handle_all A run evs t ms (w\<lparr>bus := b\<rparr>) = on_bus b (handle_all A run evs t ms w)"
proof (induction evs arbitrary: t ms w)
  case (Cons ev evs)
  then show ?case by (simp add: handle_event_blind split: prod.splits result.splits)
qed simp

lemma do_prompt_frame: "do_prompt A run t kind w = (x, t', w') \<Longrightarrow> m_id t' = m_id t \<and> m_pr t' = m_pr t \<and> m_rx t' = m_rx t"
  by (auto simp: do_prompt_def Let_def split: prod.splits result.splits if_splits)

lemma handle_event_frame: "handle_event A run t ev w = (x, t', w') \<Longrightarrow> m_id t' = m_id t \<and> m_pr t' = m_pr t \<and> m_rx t' = m_rx t"
  by (cases ev) (auto dest: do_prompt_frame)

lemma matches_frame: "m_pr t' = m_pr t \<Longrightarrow> matches t' = matches t"
  by (rule ext) (simp add: matches_def pr_target_def)

text \<open>The part of the published events that the receiver can still get, and the report of a loss.\<close>

definition waiting :: "nat \<Rightarrow> event_bus \<Rightarrow> daemon_event list" where
  "waiting r b = drop (max (receivers b ! r) (length (published b) - CHANNEL_CAPACITY)) (published b)"

definition lost :: "'r monitor_pr \<Rightarrow> event_bus \<Rightarrow> task_message list" where
  "lost t b = (let behind = length (published b) - receivers b ! m_rx t in
     if CHANNEL_CAPACITY < behind then [lag_warning t (behind - CHANNEL_CAPACITY)] else [])"

definition moved :: "nat \<Rightarrow> event_bus \<Rightarrow> event_bus \<Rightarrow> bool" where
  "moved r b b' \<longleftrightarrow> (\<exists>p \<le> length (published b). b' = b\<lparr>receivers := (receivers b)[r := p]\<rparr>)"

lemma moved_trans: "moved r b b1 \<Longrightarrow> moved r b1 b2 \<Longrightarrow> moved r b b2"
  by (auto simp: moved_def)

definition pos_ok :: "nat \<Rightarrow> event_bus \<Rightarrow> bool" where
  "pos_ok r b \<longleftrightarrow> r < length (receivers b) \<and> receivers b ! r \<le> length (published b)"

lemma moved_at: "pos_ok r b \<Longrightarrow> p \<le> length (published b) \<Longrightarrow>
    moved r b (b\<lparr>receivers := (receivers b)[r := p]\<rparr>) \<and> pos_ok r (b\<lparr>receivers := (receivers b)[r := p]\<rparr>)"
  by (auto simp: moved_def pos_ok_def)

lemma moved_refl: "pos_ok r b \<Longrightarrow> moved r b b"
  unfolding moved_def pos_ok_def by (intro exI [of _ "receivers b ! r"]) simp

text \<open>The loop without a lag.\<close>

lemma drain_run:
  assumes "blind_forge A" "blind_agent run"
  shows "pos_ok (m_rx t) (bus w) \<Longrightarrow> receivers (bus w) ! m_rx t + length evs = length (published (bus w)) \<Longrightarrow>
     drop (receivers (bus w) ! m_rx t) (published (bus w)) = evs \<Longrightarrow> length evs \<le> CHANNEL_CAPACITY \<Longrightarrow> length evs < fuel \<Longrightarrow>
     \<exists>b. moved (m_rx t) (bus w) b \<and> monitor_drain A run fuel t ms w = on_bus b (handle_all A run (filter (matches t) evs) t ms w)"
proof (induction evs arbitrary: t ms w fuel)
  case Nil
  then obtain f where f: "fuel = Suc f" by (cases fuel) auto
  from Nil have "try_recv (m_rx t) (bus w) = (None, bus w)" by (simp add: try_recv_def Let_def)
  then show ?case using moved_refl [OF Nil.prems(1)] by (intro exI [of _ "bus w"]) (simp add: f)
next
  case (Cons ev evs)
  obtain f where f: "fuel = Suc f" using Cons.prems by (cases fuel) auto
  let ?p = "receivers (bus w) ! m_rx t"
  let ?b = "(bus w)\<lparr>receivers := (receivers (bus w))[m_rx t := Suc ?p]\<rparr>"
  have at: "published (bus w) ! ?p = ev" using Cons.prems(3) by (metis nth_via_drop)
  have p: "Suc ?p \<le> length (published (bus w))" using Cons.prems(2) by simp
  have tr: "try_recv (m_rx t) (bus w) = (Some (Event ev), ?b)"
    using Cons.prems(2,4) at by (simp add: try_recv_def Let_def)
  note mv = moved_at [OF Cons.prems(1) p]
  have d: "drop (Suc ?p) (published (bus w)) = evs" using Cons.prems(3) by (metis drop_Suc list.sel(3) tl_drop)
  have r: "m_rx t < length (receivers (bus w))" using Cons.prems(1) by (simp add: pos_ok_def)
  have step: "\<exists>b. moved (m_rx t) (bus w) b \<and> monitor_drain A run f t' ms' (w'\<lparr>bus := ?b\<rparr>) =
      on_bus b (handle_all A run (filter (matches t) evs) t' ms' w')"
    if t': "m_rx t' = m_rx t" "m_pr t' = m_pr t" for t' ms' w'
  proof -
    have "\<exists>b. moved (m_rx t') ?b b \<and> monitor_drain A run f t' ms' (w'\<lparr>bus := ?b\<rparr>) =
        on_bus b (handle_all A run (filter (matches t') evs) t' ms' (w'\<lparr>bus := ?b\<rparr>))"
      using Cons.IH [of t' "w'\<lparr>bus := ?b\<rparr>" f ms'] Cons.prems(2,4,5) mv d r f by (simp add: t')
    then show ?thesis using moved_trans [OF conjunct1 [OF mv]] t' matches_frame [OF t'(2)]
      by (auto simp: handle_all_blind [OF assms])
  qed
  show ?case
  proof (cases "matches t ev")
    case False
    then show ?thesis using step [of t ms w] by (simp add: f tr)
  next
    case True
    obtain x t' w' where h: "handle_event A run t ev w = (x, t', w')" by (metis prod_cases3)
    have hb: "handle_event A run t ev (w\<lparr>bus := ?b\<rparr>) = (x, t', w'\<lparr>bus := ?b\<rparr>)"
      by (simp add: handle_event_blind [OF assms] h)
    note fr = handle_event_frame [OF h]
    show ?thesis
    proof (cases "\<exists>ms'. x = Ok ms' \<and> \<not> is_terminal (m_status t')")
      case True
      then obtain ms' where "x = Ok ms'" "\<not> is_terminal (m_status t')" by blast
      then show ?thesis using step [of t' "ms @ ms'" w'] fr \<open>matches t ev\<close> by (simp add: f tr h hb)
    next
      case False
      then show ?thesis using mv \<open>matches t ev\<close>
        by (intro exI [of _ ?b]) (cases x; auto simp: f tr h hb)
    qed
  qed
qed

lemma monitor_poll_run:
  assumes "blind_forge A" "blind_agent run" "pos_ok (m_rx t) (bus w)" "\<not> is_terminal (m_status t)"
  shows "\<exists>b. moved (m_rx t) (bus w) b \<and>
     monitor_poll A run t w = on_bus b (handle_all A run (filter (matches t) (waiting (m_rx t) (bus w))) t (lost t (bus w)) w)"
proof (cases "CHANNEL_CAPACITY < length (published (bus w)) - receivers (bus w) ! m_rx t")
  case False
  then have "max (receivers (bus w) ! m_rx t) (length (published (bus w)) - CHANNEL_CAPACITY) = receivers (bus w) ! m_rx t" by simp
  then have wt: "waiting (m_rx t) (bus w) = drop (receivers (bus w) ! m_rx t) (published (bus w))" by (simp add: waiting_def)
  have le: "receivers (bus w) ! m_rx t \<le> length (published (bus w))" using assms(3) by (simp add: pos_ok_def)
  have "length (waiting (m_rx t) (bus w)) < drain_fuel t (bus w)" by (simp add: wt drain_fuel_def)
  moreover have "lost t (bus w) = []" using False by (simp add: lost_def)
  moreover have "monitor_poll A run t w = monitor_drain A run (drain_fuel t (bus w)) t [] w" using assms(4) by (simp add: monitor_poll_def)
  moreover have "length (waiting (m_rx t) (bus w)) \<le> CHANNEL_CAPACITY"
    "receivers (bus w) ! m_rx t + length (waiting (m_rx t) (bus w)) = length (published (bus w))"
    using False le by (simp_all add: wt)
  ultimately show ?thesis
    using drain_run [OF assms(1,2,3) _ wt [symmetric], of "drain_fuel t (bus w)" "[]"] by simp
next
  case True
  let ?n = "length (published (bus w))"
  let ?b = "(bus w)\<lparr>receivers := (receivers (bus w))[m_rx t := ?n - CHANNEL_CAPACITY]\<rparr>"
  have mx: "max (receivers (bus w) ! m_rx t) (?n - CHANNEL_CAPACITY) = ?n - CHANNEL_CAPACITY" using True by simp
  have r: "m_rx t < length (receivers (bus w))" using assms(3) by (simp add: pos_ok_def)
  have tr: "try_recv (m_rx t) (bus w) = (Some (Lagged (?n - receivers (bus w) ! m_rx t - CHANNEL_CAPACITY)), ?b)"
    using True by (simp add: try_recv_def Let_def)
  have fuel: "drain_fuel t (bus w) = Suc (?n - receivers (bus w) ! m_rx t + 1)" by (simp add: drain_fuel_def)
  note mv = moved_at [OF assms(3), of "?n - CHANNEL_CAPACITY", simplified]
  obtain b where b: "moved (m_rx t) ?b b" "monitor_drain A run (?n - receivers (bus w) ! m_rx t + 1) t (lost t (bus w)) (w\<lparr>bus := ?b\<rparr>) =
      on_bus b (handle_all A run (filter (matches t) (waiting (m_rx t) (bus w))) t (lost t (bus w)) (w\<lparr>bus := ?b\<rparr>))"
    using drain_run [OF assms(1,2), of t "w\<lparr>bus := ?b\<rparr>" "waiting (m_rx t) (bus w)" "?n - receivers (bus w) ! m_rx t + 1" "lost t (bus w)"]
      mv True r by (auto simp: waiting_def mx)
  have l: "lost t (bus w) = [lag_warning t (?n - receivers (bus w) ! m_rx t - CHANNEL_CAPACITY)]"
    using True by (simp add: lost_def)
  have "monitor_poll A run t w = monitor_drain A run (?n - receivers (bus w) ! m_rx t + 1) t (lost t (bus w)) (w\<lparr>bus := ?b\<rparr>)"
    using assms(4) by (simp add: monitor_poll_def fuel tr l)
  then show ?thesis using moved_trans [OF conjunct1 [OF mv] b(1)] b(2) by (auto simp: handle_all_blind [OF assms(1,2)])
qed

text \<open>A failed prompt leaves the status alone, so the task stays active.\<close>

lemma handle_event_failed: "handle_event A run t ev w = (Err e, t', w') \<Longrightarrow> m_status t' = m_status t"
  by (cases ev) (auto simp: do_prompt_def Let_def split: prod.splits result.splits if_splits)

lemma one_waiting:
  assumes "pos_ok r b" "waiting r b = [ev]"
  shows "try_recv r b = (if length (published b) - receivers b ! r \<le> CHANNEL_CAPACITY
     then (Some (Event ev), b\<lparr>receivers := (receivers b)[r := length (published b)]\<rparr>) else try_recv r b)"
proof (cases "length (published b) - receivers b ! r \<le> CHANNEL_CAPACITY")
  case True
  let ?p = "receivers b ! r"
  from True have "max ?p (length (published b) - CHANNEL_CAPACITY) = ?p" by linarith
  then have w: "drop ?p (published b) = [ev]" using assms(2) by (simp add: waiting_def)
  then have l: "length (published b) = Suc ?p" by (metis add_diff_inverse_nat diff_is_0_eq' drop_all length_drop length_Cons
      list.distinct(1) list.size(3) nat_le_linear not_less plus_1_eq_Suc add.commute)
  have "published b ! ?p = ev" using w by (metis nth_via_drop)
  with l show ?thesis by (simp add: try_recv_def Let_def CHANNEL_CAPACITY_def)
qed simp

section \<open>Properties\<close>

text \<open>The pull request an event is about: its host, owner, repository and number.\<close>

fun event_pr :: "daemon_event \<Rightarrow> pr_ref" where
  "event_pr (PrOpened h owner repo n sha) = \<lparr>pr_host = h, pr_owner = owner, pr_repo = repo, pr_number = n\<rparr>"
| "event_pr (PrUpdated h owner repo n sha) = \<lparr>pr_host = h, pr_owner = owner, pr_repo = repo, pr_number = n\<rparr>"
| "event_pr (PrClosed h owner repo n merged) = \<lparr>pr_host = h, pr_owner = owner, pr_repo = repo, pr_number = n\<rparr>"

lemma matches_event_pr: "matches t ev \<longleftrightarrow> event_pr ev = m_pr t"
  by (cases ev; cases "m_pr t") (auto simp: matches_def pr_target_def)

text \<open>
  C21: refinement. A poll does what handling one after the other the waiting events that are about
  the task's pull request does (same host, owner, repository and number), up to the first that
  ends the task or fails, after a warning when the bus dropped some: same messages or error, same
  task, same world, and only its own receiver moved on the bus. Events of other pull requests, and
  of pull requests with the same name on another forge, have no effect.
\<close>

theorem monitor_poll_handles_own_events:
  assumes "blind_forge A" "blind_agent run" "pos_ok (m_rx t) (bus w)" "\<not> is_terminal (m_status t)"
  shows "\<exists>b. moved (m_rx t) (bus w) b \<and>
     monitor_poll A run t w =
       on_bus b (handle_all A run (filter (\<lambda>ev. event_pr ev = m_pr t) (waiting (m_rx t) (bus w))) t (lost t (bus w)) w)"
  using monitor_poll_run [OF assms] by (simp add: matches_event_pr [abs_def])

definition demo_monitor :: "unit monitor_pr" where
  "demo_monitor = \<lparr>m_id = ''t-1'', m_pr = \<lparr>pr_host = github_com, pr_owner = ''o'', pr_repo = ''r'', pr_number = 2\<rparr>,
     m_status = Created, m_last_sha = None, m_observations = [], m_interval = from_secs 60, m_rx = 0, m_prefs = [], m_runner = ()\<rparr>"

text \<open>
  An event of another pull request, one of the pull request of the same name on another forge, and
  then one of the task's own.
\<close>

definition demo_bus :: event_bus where
  "demo_bus = \<lparr>published = [PrOpened github_com ''o'' ''r'' 1 ''a'', PrOpened azure_devops ''o'' ''r'' 2 ''z'',
     PrOpened github_com ''o'' ''r'' 2 ''s''], receivers = [0]\<rparr>"

definition demo_agent :: "bytes \<Rightarrow> (unit, 'w) agent_runner" where
  "demo_agent reply = (\<lambda>prompt. ret reply)"

lemma demo_blind: "blind_forge demo_forge" "blind_agent (demo_agent reply)"
  by (simp_all add: blind_forge_def blind_def demo_forge_def blind_agent_def demo_agent_def)

theorem monitor_poll_handles_own_events_witness:
  "\<exists>msgs t' w'. monitor_poll demo_forge (demo_agent ''ok'') demo_monitor (demo_task_world\<lparr>bus := demo_bus\<rparr>) = (Ok msgs, t', w') \<and>
     m_last_sha t' = Some ''s'' \<and> m_observations t' = [''ok''] \<and> m_status t' = Idle"
proof -
  let ?w = "demo_task_world\<lparr>bus := demo_bus\<rparr>" and ?run = "demo_agent ''ok'' :: (unit, ledger_handle task_world) agent_runner"
  have w: "filter (\<lambda>ev. event_pr ev = m_pr demo_monitor) (waiting (m_rx demo_monitor) (bus ?w)) = [PrOpened github_com ''o'' ''r'' 2 ''s'']"
    by (simp add: waiting_def demo_bus_def demo_monitor_def CHANNEL_CAPACITY_def github_com_def azure_devops_def)
  have "pos_ok (m_rx demo_monitor) (bus ?w)" "\<not> is_terminal (m_status demo_monitor)"
    by (simp_all add: pos_ok_def demo_bus_def demo_monitor_def)
  from monitor_poll_handles_own_events [OF demo_blind this]
  obtain b where "monitor_poll demo_forge ?run demo_monitor ?w =
      on_bus b (handle_all demo_forge ?run [PrOpened github_com ''o'' ''r'' 2 ''s''] demo_monitor (lost demo_monitor (bus ?w)) ?w)"
    unfolding w by blast
  then show ?thesis
    by (simp add: do_prompt_def forge_step_def agent_step_def demo_forge_def demo_agent_def demo_pull_def summarise_def demo_monitor_def)
qed

text \<open>
  An event is taken off the bus before it is handled, so when the prompt for it fails
  the event is gone: the task stays active but its next poll finds nothing to do, and the change
  is not reviewed unless another event arrives.
\<close>

lemma failed_prompt_not_retried:
  assumes blind: "blind_forge A" "blind_agent run" and active: "\<not> is_terminal (m_status t)"
    and bus: "pos_ok (m_rx t) (bus w)" "waiting (m_rx t) (bus w) = [ev]" "length (published (bus w)) - receivers (bus w) ! m_rx t \<le> CHANNEL_CAPACITY"
    and own: "matches t ev" and failed: "handle_event A run t ev w = (Err e, t', w')"
  shows "\<exists>b. monitor_poll A run t w = (Err e, t', w'\<lparr>bus := b\<rparr>) \<and>
     monitor_poll A run t' (w'\<lparr>bus := b\<rparr>) = (Ok [], t', w'\<lparr>bus := b\<rparr>)"
proof -
  let ?b = "(bus w)\<lparr>receivers := (receivers (bus w))[m_rx t := length (published (bus w))]\<rparr>"
  have fuel: "drain_fuel t (bus w) = Suc (length (published (bus w)) - receivers (bus w) ! m_rx t + 1)" by (simp add: drain_fuel_def)
  have "handle_event A run t ev (w\<lparr>bus := ?b\<rparr>) = (Err e, t', w'\<lparr>bus := ?b\<rparr>)"
    by (simp add: handle_event_blind [OF blind] failed)
  then have first: "monitor_poll A run t w = (Err e, t', w'\<lparr>bus := ?b\<rparr>)"
    using active own one_waiting [OF bus(1,2)] bus(3) by (simp add: monitor_poll_def fuel)
  have rx: "m_rx t' = m_rx t" "\<not> is_terminal (m_status t')"
    using handle_event_frame [OF failed] handle_event_failed [OF failed] active by simp_all
  have "try_recv (m_rx t') ?b = (None, ?b)" using bus(1) rx by (simp add: try_recv_def Let_def pos_ok_def)
  moreover obtain f where "drain_fuel t' ?b = Suc f" by (simp add: drain_fuel_def)
  ultimately have "monitor_poll A run t' (w'\<lparr>bus := ?b\<rparr>) = (Ok [], t', w'\<lparr>bus := ?b\<rparr>)"
    using rx(2) by (simp add: monitor_poll_def)
  with first show ?thesis by blast
qed

lemma failed_prompt_not_retried_witness:
  "\<exists>t' w' b. monitor_poll demo_forge (\<lambda>_. fail ''down'') demo_monitor
        (demo_task_world\<lparr>bus := \<lparr>published = [PrUpdated github_com ''o'' ''r'' 2 ''s''], receivers = [0]\<rparr>\<rparr>) =
       (Err (PollFailed ''agent: down''), t', w'\<lparr>bus := b\<rparr>) \<and>
     monitor_poll demo_forge (\<lambda>_. fail ''down'') t' (w'\<lparr>bus := b\<rparr>) = (Ok [], t', w'\<lparr>bus := b\<rparr>)"
proof -
  let ?w = "demo_task_world\<lparr>bus := \<lparr>published = [PrUpdated github_com ''o'' ''r'' 2 ''s''], receivers = [0]\<rparr>\<rparr>"
  let ?run = "\<lambda>_. fail ''down'' :: (unit \<times> ledger_handle task_world, bytes, bytes) prog"
  have "blind_agent ?run" by (simp add: blind_agent_def)
  note * = failed_prompt_not_retried [OF demo_blind(1) this, of demo_monitor ?w "PrUpdated github_com ''o'' ''r'' 2 ''s''"]
  have "handle_event demo_forge ?run demo_monitor (PrUpdated github_com ''o'' ''r'' 2 ''s'') ?w =
      (Err (PollFailed ''agent: down''), demo_monitor\<lparr>m_last_sha := Some ''s''\<rparr>, ?w)"
    by (simp add: do_prompt_def forge_step_def agent_step_def demo_forge_def demo_pull_def demo_monitor_def)
  from * [OF _ _ _ _ _ this] show ?thesis
    by (auto simp: demo_monitor_def pos_ok_def waiting_def CHANNEL_CAPACITY_def matches_def pr_target_def)
qed

text \<open>
  A reply longer than 200 bytes whose byte 200 is inside a character makes the task
  panic while it shortens the reply for its notes.
\<close>

lemma long_reply_panics:
  assumes "ad_get_pr A (pr_owner (m_pr t)) (pr_repo (m_pr t)) (pr_number (m_pr t)) w = (Ok pr, w1)" "p_state pr = Open"
    and "ad_get_pr_diff A (pr_owner (m_pr t)) (pr_repo (m_pr t)) (pr_number (m_pr t)) w1 = (Ok diff, w2)"
    and "run (build_prompt t kind (p_title pr) (case p_body pr of Some b \<Rightarrow> b | None \<Rightarrow> []) diff) (m_runner t, w2) = (Ok reply, r, w3)"
    and "200 < length reply" "is_cont (of_char (reply ! 200))"
  shows "do_prompt A run t kind w = (Panic, t\<lparr>m_runner := r\<rparr>, w3)"
  using assms by (simp add: do_prompt_def forge_step_def agent_step_def summarise_def is_char_boundary_def Let_def)

lemma long_reply_panics_witness:
  "fst (do_prompt demo_forge (demo_agent (replicate 199 (CHR ''a'') @ [CHR 0xC3, CHR 0xA9])) demo_monitor ''opened'' demo_task_world) = Panic"
proof -
  let ?reply = "replicate 199 (CHR ''a'') @ [CHR 0xC3, CHR 0xA9]"
  let ?run = "demo_agent ?reply :: (unit, ledger_handle task_world) agent_runner"
  have b: "is_cont (of_char (?reply ! 200))" "200 < length ?reply"
    by (simp_all add: nth_append is_cont_def)
  have "do_prompt demo_forge ?run demo_monitor ''opened'' demo_task_world = (Panic, demo_monitor\<lparr>m_runner := ()\<rparr>, demo_task_world)"
    by (rule long_reply_panics [where pr = demo_pull and ?w1.0 = demo_task_world and ?w2.0 = demo_task_world and diff = "[]", OF _ _ _ _ b(2,1)])
       (simp_all add: demo_forge_def demo_agent_def demo_pull_def del: replicate.simps)
  then show ?thesis by simp
qed

end
