(* ===== verification/Router.thy ===== *)
theory Router
  imports RustStr
begin

text \<open>
  The session router (\<open>crates/devdev-daemon/src/router.rs\<close>), which maps tasks to agent sessions, and
  the runner that a task prompts the agent through (\<open>runner.rs\<close>). The agent backend behind the
  trait \<open>SessionBackend\<close> is a record of its methods over a state \<open>'b\<close>.
\<close>

section \<open>The backend\<close>

datatype router_error = SessionNotFound bytes | SessionExists bytes | Backend bytes | SubprocessCrashed

fun show_router_error :: "router_error \<Rightarrow> bytes" where
  "show_router_error (SessionNotFound s) = ''session not found: '' @ s"
| "show_router_error (SessionExists s) = ''session already exists for task: '' @ s"
| "show_router_error (Backend s) = ''backend error: '' @ s"
| "show_router_error SubprocessCrashed = ''subprocess crashed, recovery in progress''"

record agent_response =
  resp_body :: bytes
  stop_reason :: bytes

record 'b session_backend =
  sb_create_session :: "bytes \<Rightarrow> ('b, bytes, router_error) prog"
  sb_send_prompt :: "bytes \<Rightarrow> bytes \<Rightarrow> ('b, agent_response, router_error) prog"
  sb_destroy_session :: "bytes \<Rightarrow> ('b, unit, router_error) prog"

section \<open>Sessions\<close>

record session_context =
  system_prompt :: bytes
  repo_paths :: "bytes list"
  prior_observations :: "bytes list"

definition default_context :: session_context where
  "default_context = \<lparr>system_prompt = [], repo_paths = [], prior_observations = []\<rparr>"

definition initial_prompt :: "session_context \<Rightarrow> bytes" where
  "initial_prompt c = join [CHR 0x0A]
     ((if system_prompt c = [] then [] else [system_prompt c]) @
      (if repo_paths c = [] then [] else [''Repos: '' @ join '', '' (repo_paths c)]) @
      map (\<lambda>obs. ''Prior: '' @ obs) (prior_observations c))"

record session_state =
  ss_session_id :: bytes
  ss_task_id :: bytes
  ss_context :: session_context

record session_handle =
  sh_task_id :: bytes
  sh_session_id :: bytes

text \<open>The router's two locked fields and the backend it shares with the handles.\<close>

record 'b router =
  sessions :: "(bytes, session_state) omap"
  interactive_session :: "bytes option"
  backend :: 'b

type_synonym ('b, 'a) router_prog = "('b router, 'a, router_error) prog"

definition router_new :: "'b \<Rightarrow> 'b router" where
  "router_new b = \<lparr>sessions = om_empty, interactive_session = None, backend = b\<rparr>"

definition on_backend :: "('b, 'a, router_error) prog \<Rightarrow> ('b, 'a) router_prog" where
  "on_backend m s = (case m (backend s) of (r, b) \<Rightarrow> (r, s\<lparr>backend := b\<rparr>))"

text \<open>Injection of a context into a new session, when there is any.\<close>

definition inject :: "'b session_backend \<Rightarrow> bytes \<Rightarrow> session_context \<Rightarrow> ('b, unit) router_prog" where
  "inject B sid c =
     (let initial = initial_prompt c in
      if initial \<noteq> [] then and_then (on_backend (sb_send_prompt B sid initial)) (\<lambda>_. ret ()) else ret ())"

definition create_session :: "'b session_backend \<Rightarrow> bytes \<Rightarrow> session_context \<Rightarrow> ('b, session_handle) router_prog" where
  "create_session B task c s =
     (if om_lookup (sessions s) task \<noteq> None then (Err (SessionExists task), s)
      else and_then (on_backend (sb_create_session B ''/'')) (\<lambda>sid.
           and_then (inject B sid c) (\<lambda>_.
           and_then (modify (\<lambda>s. s\<lparr>sessions := om_insert task \<lparr>ss_session_id = sid, ss_task_id = task, ss_context = c\<rparr> (sessions s)\<rparr>)) (\<lambda>_.
           ret \<lparr>sh_task_id = task, sh_session_id = sid\<rparr>))) s)"

definition destroy_session :: "'b session_backend \<Rightarrow> bytes \<Rightarrow> ('b, unit) router_prog" where
  "destroy_session B task s = (case om_lookup (sessions s) task of
     None \<Rightarrow> (Err (SessionNotFound task), s)
   | Some st \<Rightarrow> on_backend (sb_destroy_session B (ss_session_id st)) (s\<lparr>sessions := om_remove task (sessions s)\<rparr>))"

definition create_interactive_session :: "'b session_backend \<Rightarrow> ('b, session_handle) router_prog" where
  "create_interactive_session B =
     and_then (on_backend (sb_create_session B ''/'')) (\<lambda>sid.
     and_then (modify (\<lambda>s. s\<lparr>interactive_session := Some sid\<rparr>)) (\<lambda>_.
     ret \<lparr>sh_task_id = ''__interactive__'', sh_session_id = sid\<rparr>))"

definition get_session_id :: "'b router \<Rightarrow> bytes \<Rightarrow> bytes option" where
  "get_session_id s task = map_option ss_session_id (om_lookup (sessions s) task)"

definition active_sessions :: "'b router \<Rightarrow> (bytes \<times> bytes) list" where
  "active_sessions s = map (\<lambda>(tid, st). (tid, ss_session_id st)) (om_entries (sessions s))"

text \<open>
  \<open>drain\<close> empties the map before the first session is recreated, and the new map is stored only
  when all of them were.
\<close>

primrec recover_loop :: "'b session_backend \<Rightarrow> (bytes \<times> session_state) list \<Rightarrow> (bytes, session_state) omap \<Rightarrow>
    ('b, (bytes, session_state) omap) router_prog" where
  "recover_loop B [] new = ret new"
| "recover_loop B (e # es) new =
     and_then (on_backend (sb_create_session B ''/'')) (\<lambda>sid.
     and_then (inject B sid (ss_context (snd e))) (\<lambda>_.
     recover_loop B es (om_insert (fst e) ((snd e)\<lparr>ss_session_id := sid\<rparr>) new)))"

definition recover :: "'b session_backend \<Rightarrow> ('b, unit) router_prog" where
  "recover B s =
     and_then (modify (\<lambda>s. s\<lparr>sessions := om_empty\<rparr>)) (\<lambda>_.
     and_then (recover_loop B (om_entries (sessions s)) om_empty) (\<lambda>new.
     modify (\<lambda>s. s\<lparr>sessions := new\<rparr>))) s"

definition handle_send_prompt :: "'b session_backend \<Rightarrow> session_handle \<Rightarrow> bytes \<Rightarrow> ('b, agent_response) router_prog" where
  "handle_send_prompt B h text = on_backend (sb_send_prompt B (sh_session_id h) text)"

section \<open>The runner of a task\<close>

record router_runner =
  rr_task_id :: bytes
  rr_handle :: "session_handle option"

definition runner_new :: "bytes \<Rightarrow> router_runner" where
  "runner_new task = \<lparr>rr_task_id = task, rr_handle = None\<rparr>"

definition on_router :: "('b, 'a) router_prog \<Rightarrow> (router_runner \<times> 'b router, 'a, bytes) prog" where
  "on_router m s = (case m (snd s) of (r, w) \<Rightarrow> (map_err show_router_error r, fst s, w))"

definition run_prompt :: "'b session_backend \<Rightarrow> bytes \<Rightarrow> (router_runner \<times> 'b router, bytes, bytes) prog" where
  "run_prompt B prompt s =
     and_then (case rr_handle (fst s) of
         Some h \<Rightarrow> ret h
       | None \<Rightarrow> and_then (on_router (create_session B (rr_task_id (fst s)) default_context)) (\<lambda>h.
           and_then (modify (\<lambda>(rr, w). (rr\<lparr>rr_handle := Some h\<rparr>, w))) (\<lambda>_. ret h))) (\<lambda>h.
     and_then (on_router (handle_send_prompt B h prompt)) (\<lambda>resp.
     ret (resp_body resp))) s"

section \<open>Facts\<close>

lemma default_no_prompt [simp]: "initial_prompt default_context = []"
  by (simp add: initial_prompt_def default_context_def)

lemma on_backend_sessions [simp]: "sessions (snd (on_backend m s)) = sessions s"
  by (simp add: on_backend_def split: prod.splits)

lemma on_backend_keeps: "on_backend m s = (r, s') \<Longrightarrow> sessions s' = sessions s"
  using on_backend_sessions [of m s] by simp

lemma inject_sessions [simp]: "sessions (snd (inject B sid c s)) = sessions s"
  by (auto simp: inject_def Let_def and_then_def dest: on_backend_keeps split: prod.splits result.splits)

lemma inject_keeps: "inject B sid c s = (r, s') \<Longrightarrow> sessions s' = sessions s"
  using inject_sessions [of B sid c s] by simp

lemma recover_loop_run:
  assumes "recover_loop B es new s = (r, s')"
  shows "sessions s' = sessions s \<and> (\<forall>m. r = Ok m \<longrightarrow>
     (\<forall>task. map_option ss_context (om_lookup m task) = map_option ss_context (map_of (rev es @ om_entries new) task)))"
  using assms
proof (induction es arbitrary: new s)
  case (Cons e es)
  obtain r1 s1 where c: "on_backend (sb_create_session B ''/'') s = (r1, s1)" by (meson surj_pair)
  have s1: "sessions s1 = sessions s" using on_backend_sessions [of "sb_create_session B ''/''" s] c by simp
  show ?case
  proof (cases r1)
    case (Ok sid)
    obtain r2 s2 where i: "inject B sid (ss_context (snd e)) s1 = (r2, s2)" by (meson surj_pair)
    have s2: "sessions s2 = sessions s1" using inject_sessions [of B sid "ss_context (snd e)" s1] i by simp
    show ?thesis
    proof (cases r2)
      case (Ok u)
      let ?new = "om_insert (fst e) ((snd e)\<lparr>ss_session_id := sid\<rparr>) new"
      from Cons.prems c i Ok \<open>r1 = Ok sid\<close> have "recover_loop B es ?new s2 = (r, s')" by (simp add: and_then_def)
      note ih = Cons.IH [OF this]
      have "map_option ss_context (map_of (rev es @ om_entries ?new) task) =
          map_option ss_context (map_of (rev (e # es) @ om_entries new) task)" for task
        by (cases e) (auto simp: map_add_def map_of_ins_entry split: option.splits)
      with ih s1 s2 show ?thesis by simp
    qed (use Cons.prems c i s1 s2 Ok in \<open>auto simp: and_then_def\<close>)
  qed (use Cons.prems c s1 in \<open>auto simp: and_then_def\<close>)
qed (auto simp: om_lookup_entries)

lemma recover_run:
  assumes "recover B s = (r, s')"
  shows "(r = Ok () \<longrightarrow> (\<forall>task. map_option ss_context (om_lookup (sessions s') task) = map_option ss_context (om_lookup (sessions s) task))) \<and>
     (r \<noteq> Ok () \<longrightarrow> sessions s' = om_empty)"
proof -
  obtain r1 s1 where l: "recover_loop B (om_entries (sessions s)) om_empty (s\<lparr>sessions := om_empty\<rparr>) = (r1, s1)" by (meson surj_pair)
  have rv: "map_of (rev (om_entries m)) = om_lookup m" for m :: "(bytes, session_state) omap"
    by (metis om_lookup_of_list om_of_list_entries)
  show ?thesis using recover_loop_run [OF l] assms l
    by (cases r1) (auto simp: recover_def and_then_def rv)
qed

text \<open>A runner that has a handle prompts its session, whatever the router knows.\<close>

definition reply_of :: "(agent_response, router_error) result \<Rightarrow> (bytes, bytes) result" where
  "reply_of r = (case r of Ok resp \<Rightarrow> Ok (resp_body resp) | Err e \<Rightarrow> Err (show_router_error e) | Panic \<Rightarrow> Panic)"

lemma run_prompt_handle:
  "rr_handle rr = Some h \<Longrightarrow> run_prompt B p (rr, s) =
     (case sb_send_prompt B (sh_session_id h) p (backend s) of (r, b) \<Rightarrow> (reply_of r, rr, s\<lparr>backend := b\<rparr>))"
  by (auto simp: run_prompt_def and_then_def on_router_def handle_send_prompt_def on_backend_def reply_of_def
      split: prod.splits result.splits)

lemma create_session_run:
  assumes "create_session B task c s = (Ok h, s')"
  shows "get_session_id s' task = Some (sh_session_id h)"
  using assms by (auto simp: create_session_def and_then_Ok get_session_id_def split: if_splits)

text \<open>The first prompt of a task creates its session and keeps the handle, whether or not the prompt succeeds.\<close>

lemma first_prompt:
  assumes "run_prompt B p (runner_new task, s) = (r, rr, s')" "rr_handle rr = Some h"
  shows "get_session_id s' task = Some (sh_session_id h)"
proof -
  obtain r1 s1 where c: "create_session B task default_context s = (r1, s1)" by (meson surj_pair)
  show ?thesis
  proof (cases r1)
    case (Ok h1)
    obtain r2 s2 where q: "handle_send_prompt B h1 p s1 = (r2, s2)" by (meson surj_pair)
    have "sessions s2 = sessions s1" using q on_backend_keeps by (auto simp: handle_send_prompt_def)
    moreover have "rr_handle rr = Some h1 \<and> s' = s2"
      using assms(1) c q Ok by (cases r2) (auto simp: run_prompt_def and_then_def on_router_def runner_new_def)
    ultimately show ?thesis using create_session_run [of B task default_context s h1 s1] c Ok assms(2) by (simp add: get_session_id_def)
  next
    case (Err e)
    then show ?thesis using assms c by (auto simp: run_prompt_def and_then_def on_router_def runner_new_def)
  next
    case Panic
    then show ?thesis using assms c by (auto simp: run_prompt_def and_then_def on_router_def runner_new_def)
  qed
qed

section \<open>Properties\<close>

text \<open>
  Recovery after a crash of the agent either recreates the session of every task with
  its context or forgets them all, but the runners keep their handles: a task that had a session
  before goes on prompting the session id of the dead subprocess, not the one the router has now.
\<close>

lemma recovery_strands_runners:
  assumes "run_prompt B p (runner_new task, s) = (r, rr, s1)" "get_session_id s1 task = Some old" "rr_handle rr = Some h"
    and "recover B s1 = (res, s2)"
  shows "(if res = Ok () then \<forall>i. map_option ss_context (om_lookup (sessions s2) i) = map_option ss_context (om_lookup (sessions s1) i)
       else sessions s2 = om_empty) \<and>
     run_prompt B p' (rr, s2) = (case sb_send_prompt B old p' (backend s2) of (r', b) \<Rightarrow> (reply_of r', rr, s2\<lparr>backend := b\<rparr>))"
proof -
  have "sh_session_id h = old" using first_prompt [OF assms(1,3)] assms(2) by simp
  then show ?thesis using recover_run [OF assms(4)] run_prompt_handle [OF assms(3), of B p' s2] by simp
qed

text \<open>A backend that numbers its sessions and answers with the number of the session.\<close>

definition demo_backend :: "nat session_backend" where
  "demo_backend = \<lparr>sb_create_session = (\<lambda>cwd n. (Ok (show_nat n), Suc n)),
     sb_send_prompt = (\<lambda>sid p. ret \<lparr>resp_body = sid, stop_reason = ''end''\<rparr>), sb_destroy_session = (\<lambda>sid. ret ())\<rparr>"

lemma recovery_strands_runners_witness:
  "\<exists>rr s1 s2. run_prompt demo_backend ''p'' (runner_new ''t-1'', router_new 0) = (Ok (show_nat 0), rr, s1) \<and>
     recover demo_backend s1 = (Ok (), s2) \<and> get_session_id s2 ''t-1'' = Some (show_nat 1) \<and>
     fst (run_prompt demo_backend ''q'' (rr, s2)) = Ok (show_nat 0)"
proof -
  let ?h = "\<lparr>sh_task_id = ''t-1'', sh_session_id = show_nat 0\<rparr>"
  let ?st = "\<lambda>n. \<lparr>ss_session_id = show_nat n, ss_task_id = ''t-1'', ss_context = default_context\<rparr>"
  let ?s1 = "\<lparr>sessions = om_insert ''t-1'' (?st 0) om_empty, interactive_session = None, backend = 1\<rparr>"
  let ?s2 = "\<lparr>sessions = om_insert ''t-1'' (?st 1) om_empty, interactive_session = None, backend = 2\<rparr>"
  have p: "run_prompt demo_backend ''p'' (runner_new ''t-1'', router_new 0) = (Ok (show_nat 0), \<lparr>rr_task_id = ''t-1'', rr_handle = Some ?h\<rparr>, ?s1)"
    by (simp add: run_prompt_def runner_new_def router_new_def on_router_def create_session_def on_backend_def demo_backend_def inject_def
        handle_send_prompt_def and_then_def del: show_nat.simps)
  have r: "recover demo_backend ?s1 = (Ok (), ?s2)"
    by (simp add: recover_def on_backend_def demo_backend_def inject_def and_then_def del: show_nat.simps)
  have "get_session_id ?s1 ''t-1'' = Some (show_nat 0)" by (simp add: get_session_id_def del: show_nat.simps)
  from recovery_strands_runners [OF p this _ r, of ?h "''q''"]
  have "fst (run_prompt demo_backend ''q'' (\<lparr>rr_task_id = ''t-1'', rr_handle = Some ?h\<rparr>, ?s2)) = Ok (show_nat 0)"
    by (simp add: demo_backend_def reply_of_def del: show_nat.simps)
  with p r show ?thesis by (auto simp: get_session_id_def simp del: show_nat.simps)
qed

end
