(* ===== verification/Fleet.thy ===== *)
theory Fleet
  imports MonitorPr Router
begin

text \<open>
  The tasks of the daemon together: a \<open>Box<dyn Task>\<close> is a repository watcher or a pull request
  monitor with the adapter it was given, its methods act on the daemon's shared state, and the
  registry and scheduler of \<open>Tasks\<close> run on them. This is where the contract of a task is
  discharged for the two kinds of task.
\<close>

text \<open>The shared state of the daemon: what a poll acts on, and the session router.\<close>

record ('s, 'b) daemon_world = "'s task_world" +
  rt :: "'b router"

text \<open>A \<open>RouterRunner\<close> as the agent of a monitor.\<close>

definition runner_agent :: "'b session_backend \<Rightarrow> (router_runner, ('s, 'b) daemon_world) agent_runner" where
  "runner_agent B p s = (case run_prompt B p (fst s, rt (snd s)) of
     (r, rr, router) \<Rightarrow> (r, rr, (snd s)\<lparr>rt := router\<rparr>))"

datatype 'w dyn_task = Watch "'w repo_host_adapter" repo_watch | Monitor "'w repo_host_adapter" "router_runner monitor_pr"

fun dyn_id :: "'w dyn_task \<Rightarrow> bytes" where
  "dyn_id (Watch A t) = w_id t"
| "dyn_id (Monitor A t) = m_id t"

fun dyn_status :: "'w dyn_task \<Rightarrow> task_status" where
  "dyn_status (Watch A t) = w_status t"
| "dyn_status (Monitor A t) = m_status t"

fun dyn_set_status :: "task_status \<Rightarrow> 'w dyn_task \<Rightarrow> 'w dyn_task" where
  "dyn_set_status st (Watch A t) = Watch A (t\<lparr>w_status := st\<rparr>)"
| "dyn_set_status st (Monitor A t) = Monitor A (t\<lparr>m_status := st\<rparr>)"

fun dyn_poll :: "(bytes \<Rightarrow> bytes \<Rightarrow> u64) \<Rightarrow> 's ledger_ops \<Rightarrow> 'b session_backend \<Rightarrow> ('s, 'b) daemon_world dyn_task \<Rightarrow>
    (('s, 'b) daemon_world dyn_task, ('s, 'b) daemon_world) poll" where
  "dyn_poll hash L B (Watch A t) w = (case watch_poll hash A L t w of (r, t', w') \<Rightarrow> (r, Watch A t', w'))"
| "dyn_poll hash L B (Monitor A t) w = (case monitor_poll A (runner_agent B) t w of (r, t', w') \<Rightarrow> (r, Monitor A t', w'))"

fun dyn_type :: "'w dyn_task \<Rightarrow> bytes" where
  "dyn_type (Watch A t) = ''repo_watch''"
| "dyn_type (Monitor A t) = ''monitor_pr''"

fun dyn_interval :: "'w dyn_task \<Rightarrow> duration" where
  "dyn_interval (Watch A t) = w_interval t"
| "dyn_interval (Monitor A t) = m_interval t"

fun dyn_serialize :: "'w dyn_task \<Rightarrow> (json, task_error) result" where
  "dyn_serialize (Watch A t) = watch_serialize t"
| "dyn_serialize (Monitor A t) = monitor_serialize t"

definition fleet_ops :: "(bytes \<Rightarrow> bytes \<Rightarrow> u64) \<Rightarrow> 's ledger_ops \<Rightarrow> 'b session_backend \<Rightarrow>
    (('s, 'b) daemon_world dyn_task, ('s, 'b) daemon_world) task_ops" where
  "fleet_ops hash L B = \<lparr>t_id = dyn_id, t_status = dyn_status, t_set_status = dyn_set_status, t_poll = dyn_poll hash L B,
     t_type = dyn_type, t_interval = dyn_interval, t_serialize = dyn_serialize\<rparr>"

section \<open>The tasks keep the contract\<close>

lemma watch_poll_frame: "watch_poll hash A L t w = (r, t', w') \<Longrightarrow>
    w_id t' = w_id t \<and> w_host t' = w_host t \<and> w_owner t' = w_owner t \<and> w_repo t' = w_repo t"
  by (auto simp: watch_poll_def watch_do_poll_def split: prod.splits result.splits if_splits)

lemma monitor_drain_frame: "monitor_drain A run fuel t ms w = (r, t', w') \<Longrightarrow> m_id t' = m_id t \<and> m_pr t' = m_pr t"
proof (induction fuel arbitrary: t ms w)
  case (Suc fuel)
  obtain e b where tr: "try_recv (m_rx t) (bus w) = (e, b)" by (cases "try_recv (m_rx t) (bus w)")
  show ?case
  proof (cases e)
    case None
    then show ?thesis using Suc.prems tr by simp
  next
    case (Some ev)
    show ?thesis
    proof (cases ev)
      case (Lagged n)
      then show ?thesis using Suc tr Some by simp
    next
      case (Event d)
      obtain x t1 w1 where h: "handle_event A run t d (w\<lparr>bus := b\<rparr>) = (x, t1, w1)" by (metis prod_cases3)
      note handle_event_frame [OF h]
      then show ?thesis using Suc tr Some Event h by (cases x) (auto split: if_splits)
    qed
  qed
qed simp

lemma monitor_poll_frame: "monitor_poll A run t w = (r, t', w') \<Longrightarrow> m_id t' = m_id t \<and> m_pr t' = m_pr t"
  by (auto simp: monitor_poll_def dest: monitor_drain_frame split: if_splits)

interpretation fleet: task_contract "fleet_ops hash L B" for hash L B
proof
  show "t_id (fleet_ops hash L B) (t_set_status (fleet_ops hash L B) st t) = t_id (fleet_ops hash L B) t" for st t
    by (cases t) (simp_all add: fleet_ops_def)
  show "t_status (fleet_ops hash L B) (t_set_status (fleet_ops hash L B) st t) = st" for st t
    by (cases t) (simp_all add: fleet_ops_def)
  show "t_id (fleet_ops hash L B) t' = t_id (fleet_ops hash L B) t" if "t_poll (fleet_ops hash L B) t w = (r, t', w')" for t w r t' w'
    using that by (cases t) (auto simp: fleet_ops_def dest: watch_poll_frame monitor_poll_frame split: prod.splits)
  show "t_poll (fleet_ops hash L B) t w = (Ok [], t, w)" if "is_terminal (t_status (fleet_ops hash L B) t)" for t w
    using that by (cases t) (simp_all add: fleet_ops_def watch_poll_def monitor_poll_def)
qed

section \<open>Properties\<close>

text \<open>
  C22: invariant. In every registry the daemon can reach, each task is stored under its own id,
  and the next id drawn is not the id of any of them.
\<close>

theorem task_ids_fresh:
  assumes "(registry_step (fleet_ops hash L B))\<^sup>*\<^sup>* task_registry_new s" "next_id s = (Ok i, s')"
  shows "om_lookup (tasks s) i = None \<and> (\<forall>j t. om_lookup (tasks s) j = Some t \<longrightarrow> dyn_id t = j)"
proof -
  have inv: "fleet.inv hash L B s" using assms(1) by (rule fleet.inv_reachable)
  then have "dyn_id t = j" if "om_lookup (tasks s) j = Some t" for j t
    using that fleet.inv_def [of hash L B s] by (auto simp: fleet_ops_def)
  moreover have "om_lookup (tasks s) i = None"
    using fleet.inv_draw [OF inv assms(2)] fleet.next_id_run [OF assms(2)] by simp
  ultimately show ?thesis by blast
qed

theorem task_ids_fresh_witness:
  "\<exists>s s' :: (ledger_handle, nat) daemon_world dyn_task registry_state. add_task (fleet_ops (\<lambda>_ _. 0) (ndjson_ops demo_codec (\<lambda>_. AppendFine) (\<lambda>_. 7) []) demo_backend) (Watch demo_forge demo_watch)
       task_registry_new = (Ok ''t-1'', s) \<and> next_id s = (Ok ''t-2'', s') \<and> om_lookup (tasks s) ''t-2'' = None"
proof -
  let ?ops = "fleet_ops (\<lambda>_ _. 0) (ndjson_ops demo_codec (\<lambda>_. AppendFine) (\<lambda>_. 7) []) demo_backend"
  let ?s = "\<lparr>tasks = om_insert ''t-1'' (Watch demo_forge demo_watch) om_empty, next_task = 2\<rparr> :: (ledger_handle, nat) daemon_world dyn_task registry_state"
  have sh: "show_u64 1 = ''1''" "show_u64 2 = ''2''" by code_simp+
  have "task_num ''t-1'' = Some 1" using fleet.task_num_id [of 1] sh by simp
  then have a: "add_task ?ops (Watch demo_forge demo_watch) task_registry_new = (Ok ''t-1'', ?s)"
    by (simp add: add_task_def fleet_ops_def demo_watch_def repo_watch_new_def task_registry_new_def and_then_def checked_add_def Let_def)
  have n: "next_id ?s = (Ok ''t-2'', ?s\<lparr>next_task := 3\<rparr>)"
    using sh by (simp add: next_id_def checked_add_def)
  have "(registry_step ?ops)\<^sup>*\<^sup>* task_registry_new ?s" by (rule r_into_rtranclp, rule registry_step.add [OF a])
  from task_ids_fresh [OF this n] a n show ?thesis by blast
qed

text \<open>
  A tick of the scheduler ends the loop of a task that is gone or ended and changes
  nothing; for an active task it polls once, keeps every other task, never leaves the status at
  \<open>polling\<close>, and turns any failed poll into the final status \<open>errored\<close>, which ends the loop.
\<close>

lemma tick_outcome:
  "case tick (fleet_ops hash L B) i s w of (r, s', w') \<Rightarrow> (case om_lookup (tasks s) i of
     None \<Rightarrow> r = Ok ([], False) \<and> s' = s \<and> w' = w
   | Some t \<Rightarrow>
       if is_terminal (dyn_status t) then r = Ok ([], False) \<and> s' = s \<and> w' = w
       else \<exists>t'. s' = s\<lparr>tasks := om_insert i t' (tasks s)\<rparr> \<and>
         (case fst (dyn_poll hash L B (dyn_set_status Polling t) w) of
            Ok ms \<Rightarrow> r = Ok (ms, True) \<and> dyn_status t' \<noteq> Polling
          | Err e \<Rightarrow> r = Ok ([], False) \<and> dyn_status t' = Errored (show_task_error e)
          | Panic \<Rightarrow> r = Panic))"
proof -
  obtain r s' w' where k: "tick (fleet_ops hash L B) i s w = (r, s', w')" by (metis prod_cases3)
  have st: "t_status (fleet_ops hash L B) = dyn_status" "t_poll (fleet_ops hash L B) = dyn_poll hash L B"
    "t_set_status (fleet_ops hash L B) = dyn_set_status" by (simp_all add: fleet_ops_def)
  show ?thesis
  proof (cases "om_lookup (tasks s) i")
    case None
    then show ?thesis by (simp add: tick_def)
  next
    case (Some t)
    show ?thesis
    proof (cases "is_terminal (dyn_status t)")
      case True
      then show ?thesis using Some by (simp add: tick_def st)
    next
      case False
      then show ?thesis using fleet.tick_active [OF Some _ k, unfolded st] Some by (simp add: k)
    qed
  qed
qed

end
