(* ===== verification/Approval.thy ===== *)
theory Approval
  imports Json
begin

text \<open>
  The approval gate (\<open>crates/devdev-tasks/src/approval.rs\<close>). The gate and its handle share two
  bounded channels; an awaited request is a phase that polling drives as far as it can go, the way
  the future of \<open>request_approval\<close> is. The gate is behind a mutex that a request holds until it is
  done, so there is one phase at a time.
\<close>

section \<open>The gate\<close>

datatype approval_policy = Ask | AutoApprove | DryRun

record approval_request =
  rq_id :: bytes
  rq_action :: bytes
  rq_details :: json

record approval_response =
  rs_id :: bytes
  rs_approve :: bool

datatype approval_error = ApprovalRejected | ApprovalTimeout | ApprovalDryRun bytes json | ApprovalChannelClosed

text \<open>
  Both ends of the channels in one record: the queues, whether the handle, the only receiver of
  requests and sender of responses, is still there, and whether the gate is.
\<close>

record approval_gate =
  ag_policy :: approval_policy
  ag_requests :: "approval_request list"
  ag_responses :: "approval_response list"
  ag_open :: bool
  ag_listening :: bool
  ag_next :: u64

definition APPROVAL_CAPACITY :: nat where "APPROVAL_CAPACITY = 32"

definition approval_channel :: "approval_policy \<Rightarrow> approval_gate" where
  "approval_channel pol = \<lparr>ag_policy = pol, ag_requests = [], ag_responses = [], ag_open = True, ag_listening = True, ag_next = 1\<rparr>"

section \<open>A request\<close>

datatype ask_phase = SendingRequest approval_request | AwaitingResponse | AskDone "(unit, approval_error) result"

text \<open>What \<open>request_approval\<close> does before it first waits.\<close>

definition ask_start :: "bytes \<Rightarrow> json \<Rightarrow> approval_gate \<Rightarrow> ask_phase \<times> approval_gate" where
  "ask_start action details g = (case ag_policy g of
     AutoApprove \<Rightarrow> (AskDone (Ok ()), g)
   | DryRun \<Rightarrow> (AskDone (Err (ApprovalDryRun action details)), g)
   | Ask \<Rightarrow> (case checked_add (ag_next g) 1 of
       None \<Rightarrow> (AskDone Panic, g)
     | Some n \<Rightarrow> (SendingRequest \<lparr>rq_id = ''a-'' @ show_u64 (ag_next g), rq_action = action, rq_details = details\<rparr>,
                  g\<lparr>ag_next := n\<rparr>)))"

text \<open>\<open>response_rx.recv()\<close>: queued responses come first, also after the handle is gone.\<close>

definition await_response :: "ask_phase \<Rightarrow> approval_gate \<Rightarrow> ask_phase \<times> approval_gate" where
  "await_response waiting g = (case ag_responses g of
     r # rs \<Rightarrow> (AskDone (if rs_approve r then Ok () else Err ApprovalRejected), g\<lparr>ag_responses := rs\<rparr>)
   | [] \<Rightarrow> (if ag_open g then (waiting, g) else (AskDone (Err ApprovalChannelClosed), g)))"

fun ask_poll :: "ask_phase \<Rightarrow> approval_gate \<Rightarrow> ask_phase \<times> approval_gate" where
  "ask_poll (SendingRequest q) g =
     (if \<not> ag_open g then (AskDone (Err ApprovalChannelClosed), g)
      else if length (ag_requests g) < APPROVAL_CAPACITY
      then await_response AwaitingResponse (g\<lparr>ag_requests := ag_requests g @ [q]\<rparr>)
      else (SendingRequest q, g))"
| "ask_poll AwaitingResponse g = await_response AwaitingResponse g"
| "ask_poll (AskDone r) g = (AskDone r, g)"

text \<open>
  The timer covers only the wait for the response, and \<open>timeout\<close> looks at the channel once more
  before it gives up.
\<close>

fun ask_expire :: "ask_phase \<Rightarrow> approval_gate \<Rightarrow> ask_phase \<times> approval_gate" where
  "ask_expire AwaitingResponse g = await_response (AskDone (Err ApprovalTimeout)) g"
| "ask_expire p g = (p, g)"

section \<open>The handle\<close>

text \<open>\<open>response_tx.send\<close> waits while the channel is full; \<open>None\<close> is waiting.\<close>

definition respond :: "approval_response \<Rightarrow> approval_gate \<Rightarrow> (approval_gate, unit) result option" where
  "respond r g = (if \<not> ag_listening g then Some (Err ())
     else if length (ag_responses g) < APPROVAL_CAPACITY then Some (Ok (g\<lparr>ag_responses := ag_responses g @ [r]\<rparr>)) else None)"

definition take_request :: "approval_gate \<Rightarrow> approval_request option \<times> approval_gate" where
  "take_request g = (case ag_requests g of [] \<Rightarrow> (None, g) | q # qs \<Rightarrow> (Some q, g\<lparr>ag_requests := qs\<rparr>))"

section \<open>Runs\<close>

text \<open>
  What happens to a gate, in any order: a request starts once the one before is done, its future is
  polled or its timer fires, the handle responds or takes a request, and the handle is dropped.
\<close>

datatype ask_event = StartAsk bytes json | PollAsk | ExpireAsk | Respond approval_response | TakeRequest | DropHandle

fun gate_event :: "ask_event \<Rightarrow> ask_phase \<times> approval_gate \<Rightarrow> ask_phase \<times> approval_gate" where
  "gate_event (StartAsk a d) (p, g) = (case p of AskDone r \<Rightarrow> ask_start a d g | _ \<Rightarrow> (p, g))"
| "gate_event PollAsk (p, g) = ask_poll p g"
| "gate_event ExpireAsk (p, g) = ask_expire p g"
| "gate_event (Respond r) (p, g) = (case respond r g of Some (Ok g') \<Rightarrow> (p, g') | _ \<Rightarrow> (p, g))"
| "gate_event TakeRequest (p, g) = (p, snd (take_request g))"
| "gate_event DropHandle (p, g) = (p, g\<lparr>ag_open := False\<rparr>)"

primrec ask_run :: "ask_event list \<Rightarrow> ask_phase \<times> approval_gate \<Rightarrow> ask_phase \<times> approval_gate" where
  "ask_run [] s = s"
| "ask_run (e # es) s = ask_run es (gate_event e s)"

definition idle :: "approval_gate \<Rightarrow> ask_phase \<times> approval_gate" where
  "idle g = (AskDone (Ok ()), g)"

lemma ask_run_append: "ask_run (xs @ ys) s = ask_run ys (ask_run xs s)"
  by (induction xs arbitrary: s) simp_all

text \<open>The number of requests started, when nobody takes one from the channel and none is dropped.\<close>

fun in_flight :: "ask_phase \<Rightarrow> nat" where
  "in_flight (SendingRequest q) = 1"
| "in_flight _ = 0"

definition unread :: "ask_phase \<times> approval_gate \<Rightarrow> bool" where
  "unread s = (case s of (p, g) \<Rightarrow> ag_open g \<and> ag_policy g = Ask \<and> length (ag_requests g) \<le> APPROVAL_CAPACITY \<and>
     unat (ag_next g) = length (ag_requests g) + in_flight p + 1 \<and>
     (\<forall>q. p = SendingRequest q \<longrightarrow> rq_id q = ''a-'' @ show_nat (Suc (length (ag_requests g)))))"

lemma await_response_kept:
  "await_response w g = (p, g') \<Longrightarrow> ag_requests g' = ag_requests g \<and> ag_next g' = ag_next g \<and> ag_open g' = ag_open g \<and>
     ag_policy g' = ag_policy g \<and> (p = w \<or> (\<exists>r. p = AskDone r))"
  by (auto simp: await_response_def split: list.splits if_splits)

lemma checked_succ_below:
  fixes n :: u64
  assumes "unat n + 1 < 2 ^ 64"
  shows "checked_add n 1 = Some (n + 1)" "unat (n + 1) = Suc (unat n)"
proof -
  have "int (unat n + 1) < int (2 ^ 64)" using assms by (simp only: of_nat_less_iff)
  then have "uint n + 1 < 2 ^ 64" by simp
  then show "checked_add n 1 = Some (n + 1)" by (simp add: checked_add_def)
  show "unat (n + 1) = Suc (unat n)" using assms unat_word_ariths(1) [of n 1] by simp
qed

lemma unread_start:
  assumes "unread (AskDone r, g)"
  shows "unread (ask_start a d g)"
proof -
  have n: "unat (ag_next g) \<le> 33" using assms by (simp add: unread_def APPROVAL_CAPACITY_def)
  then have "checked_add (ag_next g) 1 = Some (ag_next g + 1)" "unat (ag_next g + 1) = Suc (unat (ag_next g))"
    using checked_succ_below [of "ag_next g"] by simp_all
  then show ?thesis using assms by (simp add: unread_def ask_start_def show_u64_def)
qed

lemma unread_poll:
  assumes "unread (p, g)"
  shows "unread (ask_poll p g)"
proof (cases p)
  case (SendingRequest q)
  show ?thesis
  proof (cases "length (ag_requests g) < APPROVAL_CAPACITY")
    case True
    let ?g = "g\<lparr>ag_requests := ag_requests g @ [q]\<rparr>"
    obtain p' g' where a: "await_response AwaitingResponse ?g = (p', g')" by (cases "await_response AwaitingResponse ?g")
    show ?thesis using await_response_kept [OF a] assms SendingRequest True a
      by (auto simp: unread_def)
  next
    case False
    then show ?thesis using assms SendingRequest by (auto simp: unread_def)
  qed
next
  case AwaitingResponse
  obtain p' g' where a: "await_response AwaitingResponse g = (p', g')" by (cases "await_response AwaitingResponse g")
  show ?thesis using await_response_kept [OF a] assms AwaitingResponse a by (auto simp: unread_def)
qed (use assms in simp)

lemma unread_expire:
  assumes "unread (p, g)"
  shows "unread (ask_expire p g)"
proof (cases p)
  case AwaitingResponse
  let ?w = "AskDone (Err ApprovalTimeout)"
  obtain p' g' where a: "await_response ?w g = (p', g')" by (cases "await_response ?w g")
  show ?thesis using await_response_kept [OF a] assms AwaitingResponse a by (auto simp: unread_def)
qed (use assms in simp_all)

lemma unread_run: "unread s \<Longrightarrow> TakeRequest \<notin> set es \<Longrightarrow> DropHandle \<notin> set es \<Longrightarrow> unread (ask_run es s)"
proof (induction es arbitrary: s)
  case (Cons e es)
  obtain p g where s: "s = (p, g)" by (cases s)
  have "unread (gate_event e s)"
  proof (cases e)
    case (StartAsk a d)
    then show ?thesis using Cons.prems(1) unread_start s by (cases p) simp_all
  next
    case (Respond r)
    then show ?thesis using Cons.prems(1) s by (simp add: respond_def unread_def)
  qed (use Cons.prems s unread_poll unread_expire in auto)
  then show ?case using Cons by simp
qed simp

section \<open>Which answer decides\<close>

text \<open>
  A request that was not done is decided by an answer when it becomes accepted or rejected; the
  verdicts of a run, in order, and the answers the handle sent into the channel.
\<close>

fun verdict :: "ask_phase \<Rightarrow> ask_phase \<Rightarrow> bool list" where
  "verdict (AskDone r) p = []"
| "verdict _ (AskDone (Ok u)) = [True]"
| "verdict _ (AskDone (Err ApprovalRejected)) = [False]"
| "verdict _ _ = []"

primrec verdicts :: "ask_event list \<Rightarrow> ask_phase \<times> approval_gate \<Rightarrow> bool list" where
  "verdicts [] s = []"
| "verdicts (e # es) s = verdict (fst s) (fst (gate_event e s)) @ verdicts es (gate_event e s)"

fun answered :: "ask_event \<Rightarrow> approval_gate \<Rightarrow> bool list" where
  "answered (Respond r) g = (case respond r g of Some (Ok g') \<Rightarrow> [rs_approve r] | _ \<Rightarrow> [])"
| "answered e g = []"

primrec answers_sent :: "ask_event list \<Rightarrow> ask_phase \<times> approval_gate \<Rightarrow> bool list" where
  "answers_sent [] s = []"
| "answers_sent (e # es) s = answered e (snd s) @ answers_sent es (gate_event e s)"

abbreviation queued :: "approval_gate \<Rightarrow> bool list" where
  "queued g \<equiv> map rs_approve (ag_responses g)"

lemma await_verdict:
  assumes "await_response w g = (p, g')" "p0 = AwaitingResponse \<or> p0 = SendingRequest q" "w = AwaitingResponse \<or> w = AskDone (Err ApprovalTimeout)"
  shows "verdict p0 p @ queued g' = queued g"
  using assms by (auto simp: await_response_def split: list.splits if_splits)

lemma event_verdict:
  assumes "gate_event e (p, g) = (p', g')" "ag_policy g = Ask"
  shows "ag_policy g' = Ask \<and> verdict p p' @ queued g' = queued g @ answered e g"
proof (cases e)
  case (StartAsk a d)
  then show ?thesis using assms by (cases p) (auto simp: ask_start_def split: option.splits)
next
  case PollAsk
  show ?thesis
  proof (cases p)
    case (SendingRequest q)
    then show ?thesis using assms PollAsk await_verdict [of AwaitingResponse "g\<lparr>ag_requests := ag_requests g @ [q]\<rparr>" p' g' p q]
        await_response_kept [of AwaitingResponse "g\<lparr>ag_requests := ag_requests g @ [q]\<rparr>" p' g']
      by (auto split: if_splits)
  next
    case AwaitingResponse
    then show ?thesis using assms PollAsk await_verdict [of AwaitingResponse g p' g' p] await_response_kept [of _ g p' g'] by auto
  qed (use assms PollAsk in auto)
next
  case ExpireAsk
  then show ?thesis using assms await_verdict [of "AskDone (Err ApprovalTimeout)" g p' g' p] await_response_kept [of _ g p' g']
    by (cases p) auto
next
  case (Respond r)
  then show ?thesis using assms by (cases p) (auto simp: respond_def split: if_splits)
next
  case TakeRequest
  then show ?thesis using assms by (cases p) (auto simp: take_request_def split: list.splits)
next
  case DropHandle
  then show ?thesis using assms by (cases p) auto
qed

lemma run_verdicts:
  "ask_run es s = (p, g) \<Longrightarrow> ag_policy (snd s) = Ask \<Longrightarrow> ag_policy g = Ask \<and> verdicts es s @ queued g = queued (snd s) @ answers_sent es s"
proof (induction es arbitrary: s)
  case (Cons e es)
  obtain p0 g0 where s: "s = (p0, g0)" by (cases s)
  obtain p1 g1 where e: "gate_event e s = (p1, g1)" by (cases "gate_event e s")
  have v: "ag_policy g1 = Ask \<and> verdict p0 p1 @ queued g1 = queued g0 @ answered e g0"
    using event_verdict e Cons.prems(2) by (simp add: s)
  have "ag_policy g = Ask \<and> verdicts es (p1, g1) @ queued g = queued g1 @ answers_sent es (p1, g1)"
    using Cons.IH [of "(p1, g1)"] Cons.prems(1) v by (simp add: e)
  with v show ?case using e by (simp add: s)
qed simp

section \<open>Properties\<close>

text \<open>
  C23: safety. Answers decide in the order they were sent and are never compared with the request.
  Over any run of an asking gate the verdicts given so far and the answers still waiting are, in
  order, the answers sent: the n-th request that is decided at all gets the n-th answer, whatever
  its id. So when answers are waiting as a request starts (those to requests that timed out, say),
  the oldest of them decides it at once.
\<close>

theorem late_answer_decides_next:
  assumes "ask_run es (idle g) = (p, g')" "ag_policy g = Ask"
  shows "verdicts es (idle g) @ map rs_approve (ag_responses g') = map rs_approve (ag_responses g) @ answers_sent es (idle g) \<and>
    (\<forall>x r rs b e. p = AskDone x \<and> ag_responses g' = r # rs \<and> ag_open g' \<and> length (ag_requests g') < APPROVAL_CAPACITY \<and>
        unat (ag_next g') + 1 < 2 ^ 64 \<longrightarrow>
      fst (ask_run [StartAsk b e, PollAsk] (p, g')) = AskDone (if rs_approve r then Ok () else Err ApprovalRejected) \<and>
      ag_responses (snd (ask_run [StartAsk b e, PollAsk] (p, g'))) = rs)"
proof -
  have run: "ag_policy g' = Ask" "verdicts es (idle g) @ queued g' = queued g @ answers_sent es (idle g)"
    using run_verdicts [OF assms(1)] assms(2) by (simp_all add: idle_def)
  then show ?thesis
    using checked_succ_below [of "ag_next g'"] by (auto simp: ask_start_def await_response_def)
qed

text \<open>A request that timed out, then a late approval of it, then a rejection.\<close>

definition demo_late :: "ask_event list" where
  "demo_late = [StartAsk ''post_comment'' JNull, PollAsk, ExpireAsk, Respond \<lparr>rs_id = ''a-1'', rs_approve = True\<rparr>,
     Respond \<lparr>rs_id = ''a-2'', rs_approve = False\<rparr>]"

theorem late_answer_decides_next_witness:
  "fst (ask_run (demo_late @ [StartAsk ''request_token'' JNull, PollAsk]) (idle (approval_channel Ask))) = AskDone (Ok ())"
proof -
  obtain g where g: "ask_run demo_late (idle (approval_channel Ask)) = (AskDone (Err ApprovalTimeout), g)" "ag_open g"
      "ag_responses g = [\<lparr>rs_id = ''a-1'', rs_approve = True\<rparr>, \<lparr>rs_id = ''a-2'', rs_approve = False\<rparr>]"
      "length (ag_requests g) = 1" "ag_next g = 2"
    by (simp add: demo_late_def idle_def ask_start_def await_response_def respond_def approval_channel_def APPROVAL_CAPACITY_def
        checked_add_def)
  show ?thesis
    using late_answer_decides_next [OF g(1)] g
    by (simp add: ask_run_append approval_channel_def APPROVAL_CAPACITY_def del: ask_run.simps)
qed

text \<open>
  When nobody takes requests from the handle, at most 32 requests are ever done: the
  33rd waits for room in the channel, which no timer covers, and nothing that happens ends it.
\<close>

lemma unread_requests_block:
  assumes "TakeRequest \<notin> set es" "DropHandle \<notin> set es"
    and "ask_run es (idle (approval_channel Ask)) = (p, g)"
  shows "unat (ag_next g) \<le> 34 \<and>
    (unat (ag_next g) = 34 \<longrightarrow> (\<exists>q. p = SendingRequest q \<and> rq_id q = ''a-33''))"
proof -
  have "unread (idle (approval_channel Ask))" by (simp add: unread_def idle_def approval_channel_def)
  from unread_run [OF this assms(1,2)] have u: "unread (p, g)" using assms(3) by simp
  have "show_nat 33 = ''33''" by code_simp
  with u show ?thesis by (cases p) (auto simp: unread_def APPROVAL_CAPACITY_def)
qed

lemma unread_requests_block_witness:
  "\<exists>q. fst (ask_run (concat (replicate 33 [StartAsk ''question'' JNull, PollAsk, ExpireAsk])) (idle (approval_channel Ask))) =
     SendingRequest q \<and> rq_id q = ''a-33''"
proof -
  let ?es = "concat (replicate 33 [StartAsk ''question'' JNull, PollAsk, ExpireAsk])"
  obtain p g where r: "ask_run ?es (idle (approval_channel Ask)) = (p, g)" by (cases "ask_run ?es (idle (approval_channel Ask))")
  have "unat (ag_next (snd (ask_run ?es (idle (approval_channel Ask))))) = 34" by code_simp
  then have "unat (ag_next g) = 34" using r by simp
  with unread_requests_block [OF _ _ r] r show ?thesis by simp
qed

end
