(* ===== verification/Dispatch.thy ===== *)
theory Dispatch
  imports Fleet Approval MemFsPath
begin

text \<open>
  The dispatcher of IPC requests and the event coordinator (\<open>crates/devdev-daemon/src/dispatch.rs\<close>)
  over the shared state of the daemon. A handler is atomic here; the two requests that look a map
  up under one lock and insert under a later one are also given in these two parts. The part of a
  handler that ends with an error response is an \<open>Err\<close>.
\<close>

section \<open>Requests and responses\<close>

record ipc_request =
  rq_num :: u64
  rq_method :: bytes
  rq_params :: json

record ipc_error =
  ie_code :: int
  ie_message :: bytes

record ipc_response =
  rp_num :: u64
  rp_result :: "json option"
  rp_error :: "ipc_error option"

definition ipc_ok :: "u64 \<Rightarrow> json \<Rightarrow> ipc_response" where
  "ipc_ok n v = \<lparr>rp_num = n, rp_result = Some v, rp_error = None\<rparr>"

definition ipc_err :: "u64 \<Rightarrow> int \<Rightarrow> bytes \<Rightarrow> ipc_response" where
  "ipc_err n code msg = \<lparr>rp_num = n, rp_result = None, rp_error = Some \<lparr>ie_code = code, ie_message = msg\<rparr>\<rparr>"

definition bad :: "int \<Rightarrow> bytes \<Rightarrow> ipc_error" where
  "bad code msg = \<lparr>ie_code = code, ie_message = msg\<rparr>"

definition str_param :: "json \<Rightarrow> bytes \<Rightarrow> (bytes, ipc_error) result" where
  "str_param params name = ok_or (as_str (json_at params name)) (bad (- 32602) (''missing params.'' @ name))"

section \<open>The shared state\<close>

text \<open>
  The fields of \<open>DispatchContext\<close> that never change, with what the tasks are given: the hash, the
  ledger and the backend; and the texts of the libraries: the \<open>Debug\<close> form of a string and the
  error of \<open>String::from_utf8\<close>.
\<close>

record ('s, 'b) dispatch_env =
  de_github :: "('s, 'b) daemon_world repo_host_adapter"
  de_registry :: "('s, 'b) daemon_world repo_host_adapter registry"
  de_policy :: approval_policy
  de_backend :: "'b session_backend"
  de_ledger :: "'s ledger_ops"
  de_hash :: "bytes \<Rightarrow> bytes \<Rightarrow> u64"
  de_debug :: "bytes \<Rightarrow> bytes"
  de_utf8_text :: "bytes \<Rightarrow> bytes"

type_synonym repo_key = "repo_host_id \<times> bytes \<times> bytes"

record ('s, 'b) dispatch_state =
  d_tasks :: "('s, 'b) daemon_world dyn_task registry_state"
  d_world :: "('s, 'b) daemon_world"
  d_gate :: approval_gate
  d_fs :: fs
  d_shutdown :: bool
  d_interactive :: "session_handle option"
  d_logs :: "bytes \<Rightarrow> bytes list option"
  d_watches :: "repo_key \<Rightarrow> bytes option"
  d_monitors :: "pr_target \<Rightarrow> bytes option"

type_synonym ('s, 'b, 'a, 'e) daemon_prog = "(('s, 'b) dispatch_state, 'a, 'e) prog"

definition dispatch_new :: "('s, 'b) daemon_world \<Rightarrow> fs \<Rightarrow> approval_policy \<Rightarrow> ('s, 'b) dispatch_state" where
  "dispatch_new w s pol = \<lparr>d_tasks = task_registry_new, d_world = w, d_gate = approval_channel pol, d_fs = s, d_shutdown = False,
     d_interactive = None, d_logs = Map.empty, d_watches = Map.empty, d_monitors = Map.empty\<rparr>"

definition env_ops :: "('s, 'b) dispatch_env \<Rightarrow> (('s, 'b) daemon_world dyn_task, ('s, 'b) daemon_world) task_ops" where
  "env_ops E = fleet_ops (de_hash E) (de_ledger E) (de_backend E)"

definition adapter_for :: "('s, 'b) dispatch_env \<Rightarrow> repo_host_id \<Rightarrow> ('s, 'b) daemon_world repo_host_adapter" where
  "adapter_for E h = (case for_host (de_registry E) h of Some a \<Rightarrow> a | None \<Rightarrow> de_github E)"

definition on_tasks :: "('e \<Rightarrow> 'f) \<Rightarrow> (('s, 'b) daemon_world dyn_task registry_state, 'a, 'e) prog \<Rightarrow> ('s, 'b, 'a, 'f) daemon_prog" where
  "on_tasks f m s = (case m (d_tasks s) of (r, t) \<Rightarrow> (map_err f r, s\<lparr>d_tasks := t\<rparr>))"

definition on_rt :: "('b, 'a) router_prog \<Rightarrow> ('s, 'b, 'a, ipc_error) daemon_prog" where
  "on_rt m s = (case m (rt (d_world s)) of
     (r, q) \<Rightarrow> (map_err (\<lambda>e. bad (- 1) (show_router_error e)) r, s\<lparr>d_world := (d_world s)\<lparr>rt := q\<rparr>\<rparr>))"

section \<open>Finding a reference in a description\<close>

text \<open>\<open>split_whitespace\<close> and the text up to the first white space.\<close>

function words_from :: "bytes \<Rightarrow> bytes \<Rightarrow> bytes list" where
  "words_from acc s =
     (let flush = (if acc = [] then [] else [acc]) in
      if s = [] then flush
      else if ws_len s = 0 then words_from (acc @ [hd s]) (tl s)
      else flush @ words_from [] (drop (ws_len s) s))"
  by pat_completeness auto

termination by (relation "measure (\<lambda>(acc, s). length s)") auto

declare words_from.simps [simp del]

definition split_whitespace :: "bytes \<Rightarrow> bytes list" where
  "split_whitespace s = words_from [] s"

fun until_whitespace :: "bytes \<Rightarrow> bytes" where
  "until_whitespace [] = []"
| "until_whitespace (c # cs) = (if ws_len (c # cs) = 0 then c # until_whitespace cs else [])"

definition shorthand_word :: "bytes \<Rightarrow> bool" where
  "shorthand_word w = (case split_once w (CHR ''#'') of
     None \<Rightarrow> False
   | Some (before, after) \<Rightarrow>
       CHR ''/'' \<in> set before \<and> \<not> starts_with before ''/'' \<and> list_all is_digit after \<and> after \<noteq> [])"

definition regex_lite_shorthand :: "bytes \<Rightarrow> bytes option" where
  "regex_lite_shorthand desc = find shorthand_word (split_whitespace desc)"

definition extract_pr_ref :: "bytes \<Rightarrow> bytes option" where
  "extract_pr_ref desc = (case regex_lite_shorthand desc of
     Some s \<Rightarrow> Some s
   | None \<Rightarrow> map_option (\<lambda>start. until_whitespace (drop start desc)) (find_str desc ''https://github.com/''))"

section \<open>Handlers\<close>

fun debug_errno :: "errno \<Rightarrow> bytes" where
  "debug_errno NoEnt = ''NoEnt''"
| "debug_errno Exist = ''Exist''"
| "debug_errno IsDir = ''IsDir''"
| "debug_errno NotDir = ''NotDir''"
| "debug_errno NotEmpty = ''NotEmpty''"
| "debug_errno Mlink = ''Mlink''"
| "debug_errno Acces = ''Acces''"
| "debug_errno Inval = ''Inval''"
| "debug_errno NoSpc = ''NoSpc''"
| "debug_errno Io = ''Io''"
| "debug_errno NameTooLong = ''NameTooLong''"
| "debug_errno BadF = ''BadF''"
| "debug_errno NoSys = ''NoSys''"

definition handle_fs_read :: "('s, 'b) dispatch_env \<Rightarrow> json \<Rightarrow> ('s, 'b, json, ipc_error) daemon_prog" where
  "handle_fs_read E params =
     query (\<lambda>s.
       res_bind (str_param params ''path'') (\<lambda>path.
       if \<not> starts_with path ''/''
       then Err (bad (- 32602) (''path must be absolute (start with '' @ [CHR 0x27] @ ''/'' @ [CHR 0x27] @ ''): '' @ path))
       else res_bind (map_err (\<lambda>e. bad (- 1) (''read_path '' @ path @ '': '' @ debug_errno e)) (read_path (d_fs s) path)) (\<lambda>data.
       if utf8_valid data then Ok (JObj [(''content'', JStr data)])
       else Err (bad (- 1) (''non-UTF-8 bytes at '' @ path @ '': '' @ de_utf8_text E data)))))"

definition handle_send :: "('s, 'b) dispatch_env \<Rightarrow> json \<Rightarrow> ('s, 'b, json, ipc_error) daemon_prog" where
  "handle_send E params =
     and_then (query (\<lambda>_. str_param params ''text'')) (\<lambda>txt.
     and_then (\<lambda>s. case d_interactive s of
         Some h \<Rightarrow> ret h s
       | None \<Rightarrow> and_then (on_rt (create_interactive_session (de_backend E))) (\<lambda>h.
                 and_then (modify (\<lambda>s. s\<lparr>d_interactive := Some h\<rparr>)) (\<lambda>_. ret h)) s) (\<lambda>h.
     and_then (on_rt (handle_send_prompt (de_backend E) h txt)) (\<lambda>resp.
     ret (JObj [(''response'', JStr (resp_body resp)), (''stop_reason'', JStr (stop_reason resp))]))))"

text \<open>\<open>MonitorPrTask::new\<close> under the registry lock, with the id drawn before, and \<open>add\<close>.\<close>

definition add_monitor :: "('s, 'b) dispatch_env \<Rightarrow> (task_error \<Rightarrow> 'e) \<Rightarrow> bytes \<Rightarrow> repo_host_id \<Rightarrow> bytes \<Rightarrow> ('s, 'b, pr_ref, 'e) daemon_prog" where
  "add_monitor E f i h ref s =
     (case monitor_new i ref (runner_new i) (bus (d_world s)) of
        (Ok t, b) \<Rightarrow> and_then (on_tasks f (add_task (env_ops E) (Monitor (adapter_for E h) t))) (\<lambda>_. ret (m_pr t))
            (s\<lparr>d_world := (d_world s)\<lparr>bus := b\<rparr>\<rparr>)
      | (Err e, b) \<Rightarrow> (Err (f e), s\<lparr>d_world := (d_world s)\<lparr>bus := b\<rparr>\<rparr>)
      | (Panic, b) \<Rightarrow> (Panic, s\<lparr>d_world := (d_world s)\<lparr>bus := b\<rparr>\<rparr>))"

definition pr_key :: "pr_ref \<Rightarrow> pr_target" where
  "pr_key r = (pr_host r, pr_owner r, pr_repo r, pr_number r)"

definition task_error_response :: "task_error \<Rightarrow> ipc_error" where
  "task_error_response e = bad (- 1) (show_task_error e)"

text \<open>\<open>auto_approve\<close> is read and then ignored.\<close>

definition handle_task_add :: "('s, 'b) dispatch_env \<Rightarrow> json \<Rightarrow> ('s, 'b, json, ipc_error) daemon_prog" where
  "handle_task_add E params =
     and_then (query (\<lambda>_. str_param params ''description'')) (\<lambda>desc.
     and_then (query (\<lambda>_. ok_or (extract_pr_ref desc) (bad (- 32602) ''could not find PR reference in description''))) (\<lambda>ref.
     and_then (on_tasks task_error_response next_id) (\<lambda>i.
     and_then (query (\<lambda>_. map_err (\<lambda>e. bad (- 32602) (''invalid PR ref: '' @ show_task_error e)) (pr_parse ref))) (\<lambda>parsed.
     and_then (add_monitor E task_error_response i (pr_host parsed) ref) (\<lambda>pr.
     and_then (modify (\<lambda>s. s\<lparr>d_monitors := (d_monitors s)(pr_key pr \<mapsto> i)\<rparr>)) (\<lambda>_.
     ret (JObj [(''task_id'', JStr i)])))))))"

definition repo_params :: "('s, 'b) dispatch_env \<Rightarrow> json \<Rightarrow> (repo_key, ipc_error) result" where
  "repo_params E params =
     res_bind (str_param params ''owner'') (\<lambda>owner.
     res_bind (str_param params ''repo'') (\<lambda>repo.
     res_bind (case Option.bind (json_get params ''host'') as_str of
         Some h \<Rightarrow> ok_or (from_browse_host h) (bad (- 32602) (''params.host '' @ de_debug E h @ '' is not a recognised repo host''))
       | None \<Rightarrow> Ok github_com) (\<lambda>host.
     Ok (host, owner, repo))))"

definition watch_interval :: "json \<Rightarrow> duration" where
  "watch_interval params = from_secs (case Option.bind (json_get params ''poll_interval_secs'') as_u64 of Some n \<Rightarrow> n | None \<Rightarrow> 60)"

definition watching :: "bytes \<Rightarrow> bool \<Rightarrow> json" where
  "watching i already = JObj [(''task_id'', JStr i), (''already_watching'', JBool already)]"

text \<open>The second part of \<open>repo/watch\<close>, which does not look at the map again.\<close>

definition watch_create :: "('s, 'b) dispatch_env \<Rightarrow> repo_key \<Rightarrow> duration \<Rightarrow> ('s, 'b, json, ipc_error) daemon_prog" where
  "watch_create E k d =
     and_then (on_tasks task_error_response next_id) (\<lambda>i.
     and_then (on_tasks task_error_response (add_task (env_ops E)
         (Watch (adapter_for E (fst k)) (watch_with_interval d (repo_watch_new i (fst k) (fst (snd k)) (snd (snd k))))))) (\<lambda>_.
     and_then (modify (\<lambda>s. s\<lparr>d_watches := (d_watches s)(k \<mapsto> i)\<rparr>)) (\<lambda>_.
     ret (watching i False))))"

definition handle_repo_watch :: "('s, 'b) dispatch_env \<Rightarrow> json \<Rightarrow> ('s, 'b, json, ipc_error) daemon_prog" where
  "handle_repo_watch E params =
     and_then (query (\<lambda>_. repo_params E params)) (\<lambda>k s.
       case d_watches s k of
         Some i \<Rightarrow> (Ok (watching i True), s)
       | None \<Rightarrow> watch_create E k (watch_interval params) s)"

definition handle_repo_unwatch :: "('s, 'b) dispatch_env \<Rightarrow> json \<Rightarrow> ('s, 'b, json, ipc_error) daemon_prog" where
  "handle_repo_unwatch E params =
     and_then (query (\<lambda>_. repo_params E params)) (\<lambda>k.
     and_then (query (\<lambda>s. ok_or (d_watches s k)
         (bad (- 32602) (''not watching '' @ host_ledger_key (fst k) @ '':'' @ fst (snd k) @ ''/'' @ snd (snd k))))) (\<lambda>i.
     and_then (modify (\<lambda>s. s\<lparr>d_watches := (d_watches s)(k := None)\<rparr>)) (\<lambda>_.
     and_then (on_tasks task_error_response (cancel_task (env_ops E) i)) (\<lambda>_.
     ret (JObj [(''task_id'', JStr i)])))))"

definition shorthand_of :: "pr_target \<Rightarrow> bytes" where
  "shorthand_of k = (case k of (h, owner, repo, n) \<Rightarrow> owner @ ''/'' @ repo @ ''#'' @ show_u64 n)"

definition ensure_monitor_pr_task :: "('s, 'b) dispatch_env \<Rightarrow> pr_target \<Rightarrow> ('s, 'b, bytes \<times> bool, bytes) daemon_prog" where
  "ensure_monitor_pr_task E k s =
     (case d_monitors s k of
        Some i \<Rightarrow> (Ok (i, False), s)
      | None \<Rightarrow>
          and_then (on_tasks show_task_error next_id) (\<lambda>i.
          and_then (add_monitor E show_task_error i (fst k) (shorthand_of k)) (\<lambda>_.
          and_then (modify (\<lambda>s. s\<lparr>d_monitors := (d_monitors s)(k \<mapsto> i)\<rparr>)) (\<lambda>_.
          ret (i, True)))) s)"

definition handle_task_log :: "json \<Rightarrow> ('s, 'b, json, ipc_error) daemon_prog" where
  "handle_task_log params =
     query (\<lambda>s. res_bind (str_param params ''task_id'') (\<lambda>i.
       Ok (JObj [(''entries'', JArr (map (\<lambda>l. JObj [(''text'', JStr l)]) (case d_logs s i of Some ls \<Rightarrow> ls | None \<Rightarrow> [])))])))"

definition handle_status :: "('s, 'b, json, ipc_error) daemon_prog" where
  "handle_status = query (\<lambda>s. Ok (JObj [(''tasks'', JNum (int (length (task_list (d_tasks s))))),
     (''sessions'', JNum (int (length (active_sessions (rt (d_world s))))))]))"

definition handle_shutdown :: "('s, 'b, json, ipc_error) daemon_prog" where
  "handle_shutdown = and_then (modify (\<lambda>s. s\<lparr>d_shutdown := True\<rparr>)) (\<lambda>_. ret (JObj [(''ok'', JBool True)]))"

text \<open>Every answer is sent under the same id. \<open>None\<close> is a wait for room in the channel.\<close>

definition handle_approval :: "json \<Rightarrow> ('s, 'b) dispatch_state \<Rightarrow> ((json, ipc_error) result \<times> ('s, 'b) dispatch_state) option" where
  "handle_approval params s = (case Option.bind (json_get params ''approve'') as_bool of
     None \<Rightarrow> Some (Err (bad (- 32602) ''missing params.approve''), s)
   | Some approve \<Rightarrow> map_option (\<lambda>r. case r of
         Ok g \<Rightarrow> (Ok (JObj [(''ok'', JBool True)]), s\<lparr>d_gate := g\<rparr>)
       | Err e \<Rightarrow> (Err (bad (- 1) ''approval channel closed''), s)
       | Panic \<Rightarrow> (Panic, s))
       (respond \<lparr>rs_id = ''a-1'', rs_approve = approve\<rparr> (d_gate s)))"

text \<open>The response carries the number of its request.\<close>

fun respond_with :: "u64 \<Rightarrow> (json, ipc_error) result \<times> 'x \<Rightarrow> (ipc_response, unit) result \<times> 'x" where
  "respond_with n (Ok v, s) = (Ok (ipc_ok n v), s)"
| "respond_with n (Err e, s) = (Ok (ipc_err n (ie_code e) (ie_message e)), s)"
| "respond_with n (Panic, s) = (Panic, s)"

definition handle_method :: "('s, 'b) dispatch_env \<Rightarrow> bytes \<Rightarrow> json \<Rightarrow> ('s, 'b) dispatch_state \<Rightarrow>
    ((json, ipc_error) result \<times> ('s, 'b) dispatch_state) option" where
  "handle_method E m params s =
     (if m = ''send'' then Some (handle_send E params s)
      else if m = ''task/add'' then Some (handle_task_add E params s)
      else if m = ''task/log'' then Some (handle_task_log params s)
      else if m = ''repo/watch'' then Some (handle_repo_watch E params s)
      else if m = ''repo/unwatch'' then Some (handle_repo_unwatch E params s)
      else if m = ''status'' then Some (handle_status s)
      else if m = ''shutdown'' then Some (handle_shutdown s)
      else if m = ''approval_response'' then handle_approval params s
      else if m = ''fs/read'' then Some (handle_fs_read E params s)
      else Some (Err (bad (- 32601) (''unknown method: '' @ m)), s))"

definition dispatch :: "('s, 'b) dispatch_env \<Rightarrow> ipc_request \<Rightarrow> ('s, 'b) dispatch_state \<Rightarrow>
    ((ipc_response, unit) result \<times> ('s, 'b) dispatch_state) option" where
  "dispatch E rq s = map_option (respond_with (rq_num rq)) (handle_method E (rq_method rq) (rq_params rq) s)"

section \<open>Polling all tasks\<close>

definition log_task_message :: "bytes \<Rightarrow> bytes \<Rightarrow> ('s, 'b) dispatch_state \<Rightarrow> ('s, 'b) dispatch_state" where
  "log_task_message i txt s = s\<lparr>d_logs := (d_logs s)(i \<mapsto> (case d_logs s i of Some ls \<Rightarrow> ls | None \<Rightarrow> []) @ [txt])\<rparr>"

fun log_message :: "bytes \<Rightarrow> task_message \<Rightarrow> ('s, 'b) dispatch_state \<Rightarrow> ('s, 'b) dispatch_state" where
  "log_message i (Text txt) s = log_task_message i txt s"
| "log_message i (StatusChange t a b) s = s"

definition poll_one :: "('s, 'b) dispatch_env \<Rightarrow> bytes \<Rightarrow> ('s, 'b, unit, unit) daemon_prog" where
  "poll_one E i s = (case poll_task (env_ops E) i (d_tasks s) (d_world s) of (r, reg, w) \<Rightarrow>
     (let s' = s\<lparr>d_tasks := reg, d_world := w\<rparr> in
      case r of
        None \<Rightarrow> (Ok (), s')
      | Some (Ok msgs) \<Rightarrow> (Ok (), fold (log_message i) msgs s')
      | Some (Err e) \<Rightarrow> (Ok (), log_task_message i (''error: '' @ show_task_error e) s')
      | Some Panic \<Rightarrow> (Panic, s')))"

primrec poll_each :: "('s, 'b) dispatch_env \<Rightarrow> bytes list \<Rightarrow> ('s, 'b, unit, unit) daemon_prog" where
  "poll_each E [] = ret ()"
| "poll_each E (i # is) = and_then (poll_one E i) (\<lambda>_. poll_each E is)"

definition poll_all_tasks :: "('s, 'b) dispatch_env \<Rightarrow> ('s, 'b, unit, unit) daemon_prog" where
  "poll_all_tasks E s = poll_each E (map dyn_id (task_list (d_tasks s))) s"

section \<open>The event coordinator\<close>

definition coordinate :: "('s, 'b) dispatch_env \<Rightarrow> daemon_event \<Rightarrow> ('s, 'b, unit, unit) daemon_prog" where
  "coordinate E ev s = (case pr_target ev of
     None \<Rightarrow> (Ok (), s)
   | Some k \<Rightarrow> (case ensure_monitor_pr_task E k s of
         (Ok (i, fresh), s') \<Rightarrow> (Ok (), if fresh then s'\<lparr>d_world := (d_world s')\<lparr>bus := snd (publish ev (bus (d_world s')))\<rparr>\<rparr> else s')
       | (Err e, s') \<Rightarrow> (Ok (), s')
       | (Panic, s') \<Rightarrow> (Panic, s')))"

text \<open>
  One turn of the coordinator's loop, with its receiver: whether the loop goes on. \<open>select!\<close> takes
  either branch that is ready; \<open>flag\<close> says that it looks at the shutdown flag.
\<close>

definition coordinator_turn :: "('s, 'b) dispatch_env \<Rightarrow> nat \<Rightarrow> bool \<Rightarrow> ('s, 'b, bool, unit) daemon_prog" where
  "coordinator_turn E rx flag s =
     (if flag then (Ok (\<not> d_shutdown s), s)
      else case try_recv rx (bus (d_world s)) of
        (None, b) \<Rightarrow> (Ok True, s)
      | (Some (Lagged n), b) \<Rightarrow> (Ok False, s\<lparr>d_world := (d_world s)\<lparr>bus := b\<rparr>\<rparr>)
      | (Some (Event ev), b) \<Rightarrow> and_then (coordinate E ev) (\<lambda>_. ret True) (s\<lparr>d_world := (d_world s)\<lparr>bus := b\<rparr>\<rparr>))"

end
