(* ===== verification/DispatchProps.thy ===== *)
theory DispatchProps
  imports Dispatch
begin

text \<open>
  What holds of the daemon's shared state however requests, turns of the coordinator and polls
  follow each other, and what the watch requests and the coordinator do.
\<close>

section \<open>What a task is for\<close>

text \<open>The adapter of a task with the repository or the pull request it was made for.\<close>

fun role :: "'w dyn_task \<Rightarrow> 'w repo_host_adapter \<times> (repo_key + pr_ref)" where
  "role (Watch A t) = (A, Inl (w_host t, w_owner t, w_repo t))"
| "role (Monitor A t) = (A, Inr (m_pr t))"

definition role_of :: "'w dyn_task registry_state \<Rightarrow> bytes \<Rightarrow> ('w repo_host_adapter \<times> (repo_key + pr_ref)) option" where
  "role_of reg i = map_option role (om_lookup (tasks reg) i)"

lemma dyn_poll_role: "dyn_poll hash L B t w = (r, t', w') \<Longrightarrow> role t' = role t"
  by (cases t) (auto dest: watch_poll_frame monitor_poll_frame split: prod.splits)

lemma poll_task_role: "poll_task (env_ops E) i reg w = (r, reg', w') \<Longrightarrow> role_of reg' j = role_of reg j"
  by (auto simp: poll_task_def env_ops_def fleet_ops_def role_of_def dest: dyn_poll_role split: option.splits prod.splits)

lemma set_status_role: "role (dyn_set_status st t) = role t"
  by (cases t) simp_all

lemma cancel_task_role: "cancel_task (env_ops E) i reg = (r, reg') \<Longrightarrow> role_of reg' j = role_of reg j"
  by (auto simp: cancel_task_def env_ops_def fleet_ops_def role_of_def set_status_role split: option.splits if_splits)

section \<open>The invariant\<close>

abbreviation tasks_ok :: "('s, 'b) dispatch_env \<Rightarrow> ('s, 'b) daemon_world dyn_task registry_state \<Rightarrow> bool" where
  "tasks_ok E \<equiv> fleet.inv (de_hash E) (de_ledger E) (de_backend E)"

lemmas fleet_rules =
  fleet.add_drawn [of "de_hash E" "de_ledger E" "de_backend E"] fleet.inv_draw [of "de_hash E" "de_ledger E" "de_backend E"]
  fleet.inv_cancel [of "de_hash E" "de_ledger E" "de_backend E"] fleet.inv_poll [of "de_hash E" "de_ledger E" "de_backend E"] for E

text \<open>
  Every task the two maps name is there, with the adapter and the repository or pull request of
  its key; the coordinator's monitors are for what the shorthand of the key parses to.
\<close>

definition indexed :: "('s, 'b) dispatch_env \<Rightarrow> ('s, 'b) dispatch_state \<Rightarrow> bool" where
  "indexed E s \<longleftrightarrow> tasks_ok E (d_tasks s) \<and>
     (\<forall>k i. d_watches s k = Some i \<longrightarrow> role_of (d_tasks s) i = Some (adapter_for E (fst k), Inl k)) \<and>
     (\<forall>k i. d_monitors s k = Some i \<longrightarrow>
        (\<exists>r. role_of (d_tasks s) i = Some (adapter_for E (fst k), Inr r) \<and> (pr_key r = k \<or> pr_parse (shorthand_of k) = Ok r)))"

text \<open>A step that keeps the roles and adds nothing to the maps.\<close>

lemma indexed_frame:
  assumes "indexed E s" "tasks_ok E (d_tasks s')" "\<And>j x. role_of (d_tasks s) j = Some x \<Longrightarrow> role_of (d_tasks s') j = Some x"
    and "d_watches s' \<subseteq>\<^sub>m d_watches s" "d_monitors s' \<subseteq>\<^sub>m d_monitors s"
  shows "indexed E s'"
  using assms unfolding indexed_def map_le_def by (metis domIff option.discI)

lemma indexed_same:
  "indexed E s \<Longrightarrow> d_tasks s' = d_tasks s \<Longrightarrow> d_watches s' = d_watches s \<Longrightarrow> d_monitors s' = d_monitors s \<Longrightarrow> indexed E s'"
  by (simp add: indexed_def)

section \<open>Adding a task\<close>

definition stored :: "bytes \<Rightarrow> ('s, 'b) daemon_world dyn_task \<Rightarrow> ('s, 'b) daemon_world dyn_task registry_state \<Rightarrow>
    ('s, 'b) daemon_world dyn_task registry_state" where
  "stored i t reg = reg\<lparr>tasks := om_insert i t (tasks reg)\<rparr>"

lemma next_id_outcome: "next_id reg = (r, reg') \<Longrightarrow> (r = Panic \<and> reg' = reg) \<or> (\<exists>i. r = Ok i \<and> tasks reg' = tasks reg)"
  by (auto simp: next_id_def split: option.splits)

lemma role_of_stored: "role_of (stored i t reg) = (role_of reg)(i \<mapsto> role t)"
  by (rule ext) (simp add: role_of_def stored_def)

lemma role_of_same: "tasks reg' = tasks reg \<Longrightarrow> role_of reg' = role_of reg"
  by (rule ext) (simp add: role_of_def)

lemma env_ops_id [simp]: "t_id (env_ops E) = dyn_id"
  by (simp add: env_ops_def fleet_ops_def)

lemma store_drawn:
  assumes "tasks_ok E reg" "next_id reg = (Ok i, reg1)" "dyn_id t = i"
  shows "add_task (env_ops E) t reg1 = (Ok i, stored i t reg1)" "tasks_ok E (stored i t reg1)"
    and "role_of reg i = None" "role_of (stored i t reg1) = (role_of reg)(i \<mapsto> role t)"
proof -
  have i: "t_id (fleet_ops (de_hash E) (de_ledger E) (de_backend E)) t = i" using assms(3) by (simp add: fleet_ops_def)
  note d = fleet_rules(1-4) [OF assms(1,2) i, folded stored_def]
  show "add_task (env_ops E) t reg1 = (Ok i, stored i t reg1)" unfolding env_ops_def by (rule d(1))
  show "tasks_ok E (stored i t reg1)" by (rule d(2))
  show "role_of reg i = None" using d(4) by (simp add: role_of_def)
  have "tasks reg1 = tasks reg" using next_id_outcome [OF assms(2)] by simp
  then have "role_of reg1 = role_of reg" by (rule role_of_same)
  then show "role_of (stored i t reg1) = (role_of reg)(i \<mapsto> role t)" by (simp only: role_of_stored)
qed

text \<open>The requests that add a task, given what drawing an id does.\<close>

lemma watch_create_run:
  assumes "tasks_ok E (d_tasks s)" "next_id (d_tasks s) = (r, reg)"
  shows "watch_create E k d s = (case r of
     Ok i \<Rightarrow> (Ok (watching i False), s\<lparr>d_tasks := stored i (Watch (adapter_for E (fst k))
          (watch_with_interval d (repo_watch_new i (fst k) (fst (snd k)) (snd (snd k))))) reg, d_watches := (d_watches s)(k \<mapsto> i)\<rparr>)
   | Err e \<Rightarrow> (Err (task_error_response e), s\<lparr>d_tasks := reg\<rparr>)
   | Panic \<Rightarrow> (Panic, s\<lparr>d_tasks := reg\<rparr>))"
proof (cases r)
  case (Ok i)
  let ?t = "Watch (adapter_for E (fst k)) (watch_with_interval d (repo_watch_new i (fst k) (fst (snd k)) (snd (snd k))))"
  have "dyn_id ?t = i" by (simp add: watch_with_interval_def repo_watch_new_def)
  from store_drawn(1) [OF assms(1) _ this] assms(2) Ok show ?thesis
    by (simp add: watch_create_def on_tasks_def and_then_def)
qed (use assms(2) in \<open>simp_all add: watch_create_def on_tasks_def and_then_def\<close>)

lemma monitor_new_run:
  "monitor_new i ref p b = (Ok t, b') \<Longrightarrow> m_id t = i \<and> pr_parse ref = Ok (m_pr t) \<and> b' = snd (subscribe b) \<and> m_rx t = length (receivers b)"
  by (auto simp: monitor_new_def subscribe_def split: result.splits)

lemma monitor_new_fails: "monitor_new i ref p b = (Err e, b') \<Longrightarrow> b' = b"
  "monitor_new i ref p b = (Panic, b') \<Longrightarrow> b' = b"
  by (auto simp: monitor_new_def split: result.splits prod.splits)

lemma add_monitor_run:
  assumes "tasks_ok E reg" "next_id reg = (Ok i, d_tasks s)"
  shows "add_monitor E f i h ref s = (case monitor_new i ref (runner_new i) (bus (d_world s)) of
     (Ok t, b) \<Rightarrow> (Ok (m_pr t), s\<lparr>d_tasks := stored i (Monitor (adapter_for E h) t) (d_tasks s), d_world := (d_world s)\<lparr>bus := b\<rparr>\<rparr>)
   | (Err e, b) \<Rightarrow> (Err (f e), s)
   | (Panic, b) \<Rightarrow> (Panic, s))"
proof -
  obtain r b where m: "monitor_new i ref (runner_new i) (bus (d_world s)) = (r, b)"
    by (cases "monitor_new i ref (runner_new i) (bus (d_world s))")
  show ?thesis
  proof (cases r)
    case (Ok t)
    have "dyn_id (Monitor (adapter_for E h) t) = i" using monitor_new_run [OF m [unfolded Ok]] by simp
    from store_drawn(1) [OF assms(1,2) this] m Ok show ?thesis
      by (simp add: add_monitor_def on_tasks_def and_then_def)
  next
    case (Err e)
    then show ?thesis using m monitor_new_fails(1) [OF m [unfolded Err]] by (simp add: add_monitor_def)
  next
    case Panic
    then show ?thesis using m monitor_new_fails(2) [OF m [unfolded Panic]] by (simp add: add_monitor_def)
  qed
qed

section \<open>Every operation keeps the invariant\<close>

lemma indexed_draw:
  assumes "indexed E s" "next_id (d_tasks s) = (r, reg)"
  shows "indexed E (s\<lparr>d_tasks := reg\<rparr>)"
proof (rule indexed_frame [OF assms(1)])
  show "tasks_ok E (d_tasks (s\<lparr>d_tasks := reg\<rparr>))"
    using next_id_outcome [OF assms(2)] fleet_rules(5) assms unfolding indexed_def by auto
qed (use next_id_outcome [OF assms(2)] in \<open>auto simp: role_of_def\<close>)

lemma indexed_store:
  assumes "indexed E s" "next_id (d_tasks s) = (Ok i, reg)" "dyn_id t = i" "d_tasks s' = stored i t reg"
    and "d_watches s' = d_watches s \<or> (\<exists>k. d_watches s' = (d_watches s)(k \<mapsto> i) \<and> role t = (adapter_for E (fst k), Inl k))"
    and "d_monitors s' = d_monitors s \<or> (\<exists>k r. d_monitors s' = (d_monitors s)(k \<mapsto> i) \<and>
       role t = (adapter_for E (fst k), Inr r) \<and> (pr_key r = k \<or> pr_parse (shorthand_of k) = Ok r))"
  shows "indexed E s'"
proof -
  have ok: "tasks_ok E (d_tasks s)" using assms(1) by (simp add: indexed_def)
  note st = store_drawn [OF ok assms(2,3)]
  have keep: "role_of (d_tasks s') j = Some x" if "role_of (d_tasks s) j = Some x" for j x
    using that st(3,4) assms(4) by auto
  have new: "role_of (d_tasks s') i = Some (role t)" using st(4) assms(4) by simp
  show ?thesis unfolding indexed_def
  proof (intro conjI allI impI)
    show "tasks_ok E (d_tasks s')" using st(2) assms(4) by simp
    show "role_of (d_tasks s') j = Some (adapter_for E (fst k), Inl k)" if w: "d_watches s' k = Some j" for k j
    proof (cases "d_watches s k = Some j")
      case True
      then show ?thesis using assms(1) keep unfolding indexed_def by blast
    next
      case False
      then show ?thesis using w assms(5) new by (auto split: if_splits)
    qed
    show "\<exists>r. role_of (d_tasks s') j = Some (adapter_for E (fst k), Inr r) \<and> (pr_key r = k \<or> pr_parse (shorthand_of k) = Ok r)"
      if m: "d_monitors s' k = Some j" for k j
    proof (cases "d_monitors s k = Some j")
      case True
      then show ?thesis using assms(1) keep unfolding indexed_def by blast
    next
      case False
      then show ?thesis using m assms(6) new by (auto split: if_splits)
    qed
  qed
qed

lemma indexed_watch_create:
  assumes "indexed E s" "watch_create E k d s = (r, s')"
  shows "indexed E s'"
proof -
  obtain q reg where n: "next_id (d_tasks s) = (q, reg)" by (cases "next_id (d_tasks s)")
  have ok: "tasks_ok E (d_tasks s)" using assms(1) by (simp add: indexed_def)
  note run = watch_create_run [OF ok n, of k d]
  show ?thesis
  proof (cases q)
    case (Ok i)
    let ?t = "Watch (adapter_for E (fst k)) (watch_with_interval d (repo_watch_new i (fst k) (fst (snd k)) (snd (snd k))))"
    have "role ?t = (adapter_for E (fst k), Inl k)" "dyn_id ?t = i" by (simp_all add: watch_with_interval_def repo_watch_new_def)
    with indexed_store [OF assms(1) n [unfolded Ok], of ?t s'] run assms(2) Ok show ?thesis by fastforce
  qed (use run assms indexed_draw [OF assms(1) n] in auto)
qed

text \<open>Drawing an id and adding a monitor under it, with the map updated when that went well.\<close>

lemma indexed_monitor:
  assumes "indexed E s" "next_id (d_tasks s) = (Ok i, reg)"
    and "add_monitor E f i h ref (s\<lparr>d_tasks := reg\<rparr>) = (Ok pr, s1)"
    and "pr_parse ref = Ok pr \<Longrightarrow> fst k = h \<and> (pr_key pr = k \<or> pr_parse (shorthand_of k) = Ok pr)"
  shows "indexed E (s1\<lparr>d_monitors := (d_monitors s1)(k \<mapsto> i)\<rparr>)"
proof -
  have ok: "tasks_ok E (d_tasks s)" using assms(1) by (simp add: indexed_def)
  let ?s = "s\<lparr>d_tasks := reg\<rparr>"
  have n: "next_id (d_tasks s) = (Ok i, d_tasks ?s)" using assms(2) by simp
  obtain t b where m: "monitor_new i ref (runner_new i) (bus (d_world s)) = (Ok t, b)"
    and s1: "s1 = ?s\<lparr>d_tasks := stored i (Monitor (adapter_for E h) t) reg, d_world := (d_world s)\<lparr>bus := b\<rparr>\<rparr>" "pr = m_pr t"
    using assms(3) add_monitor_run [OF ok n, of f h ref] by (auto split: prod.splits result.splits)
  note t = monitor_new_run [OF m]
  let ?s1 = "s1\<lparr>d_monitors := (d_monitors s1)(k \<mapsto> i)\<rparr>"
  have "d_monitors ?s1 = (d_monitors s)(k \<mapsto> i)" "role (Monitor (adapter_for E h) t) = (adapter_for E (fst k), Inr pr)"
    "pr_key pr = k \<or> pr_parse (shorthand_of k) = Ok pr" using assms(4) t s1 by auto
  then show ?thesis using indexed_store [OF assms(1,2), of "Monitor (adapter_for E h) t" ?s1] t s1 by fastforce
qed

lemma add_monitor_fails:
  assumes "tasks_ok E reg" "next_id reg = (Ok i, d_tasks s)" "add_monitor E f i h ref s = (r, s')" "\<not> is_ok r"
  shows "s' = s"
  using assms(3,4) add_monitor_run [OF assms(1,2), of f h ref] by (auto split: prod.splits result.splits)

lemma indexed_ensure:
  assumes "indexed E s" "ensure_monitor_pr_task E k s = (r, s')"
  shows "indexed E s'"
proof (cases "d_monitors s k")
  case None
  obtain q reg where n: "next_id (d_tasks s) = (q, reg)" by (cases "next_id (d_tasks s)")
  have ok: "tasks_ok E (d_tasks s)" using assms(1) by (simp add: indexed_def)
  let ?s = "s\<lparr>d_tasks := reg\<rparr>"
  show ?thesis
  proof (cases q)
    case (Ok i)
    obtain a s1 where a: "add_monitor E show_task_error i (fst k) (shorthand_of k) ?s = (a, s1)"
      by (cases "add_monitor E show_task_error i (fst k) (shorthand_of k) ?s")
    have "next_id (d_tasks s) = (Ok i, d_tasks ?s)" using n Ok by simp
    note stuck = add_monitor_fails [OF ok this a]
    show ?thesis
    proof (cases a)
      case (Ok pr)
      then show ?thesis using None n \<open>q = Ok i\<close> a assms(2) indexed_monitor [OF assms(1) n [unfolded \<open>q = Ok i\<close>] a [unfolded Ok], of k]
        by (simp add: ensure_monitor_pr_task_def on_tasks_def and_then_def)
    qed (use None n \<open>q = Ok i\<close> a assms(2) indexed_draw [OF assms(1) n] stuck in
      \<open>auto simp: ensure_monitor_pr_task_def on_tasks_def and_then_def\<close>)
  qed (use None n assms indexed_draw [OF assms(1) n] in \<open>auto simp: ensure_monitor_pr_task_def on_tasks_def and_then_def\<close>)
qed (use assms in \<open>simp add: ensure_monitor_pr_task_def\<close>)

lemma indexed_task_add:
  assumes "indexed E s" "handle_task_add E params s = (r, s')"
  shows "indexed E s'"
proof (cases "Option.bind (as_str (json_at params ''description'')) extract_pr_ref")
  case None
  then show ?thesis using assms by (auto simp: handle_task_add_def and_then_query str_param_def bind_eq_None_conv split: result.splits)
next
  case (Some ref)
  then obtain desc where d: "as_str (json_at params ''description'') = Some desc" "extract_pr_ref desc = Some ref"
    by (auto simp: bind_eq_Some_conv)
  obtain q reg where n: "next_id (d_tasks s) = (q, reg)" by (cases "next_id (d_tasks s)")
  have ok: "tasks_ok E (d_tasks s)" using assms(1) by (simp add: indexed_def)
  let ?s = "s\<lparr>d_tasks := reg\<rparr>"
  note idle = indexed_draw [OF assms(1) n]
  note step = handle_task_add_def and_then_query str_param_def
  show ?thesis
  proof (cases q)
    case (Ok i)
    show ?thesis
    proof (cases "pr_parse ref")
      case (Ok parsed)
      obtain a s1 where a: "add_monitor E task_error_response i (pr_host parsed) ref ?s = (a, s1)"
        by (cases "add_monitor E task_error_response i (pr_host parsed) ref ?s")
      have "next_id (d_tasks s) = (Ok i, d_tasks ?s)" using n \<open>q = Ok i\<close> by simp
      note stuck = add_monitor_fails [OF ok this a]
      show ?thesis
      proof (cases a)
        case (Ok pr)
        have "indexed E (s1\<lparr>d_monitors := (d_monitors s1)(pr_key pr \<mapsto> i)\<rparr>)"
          using indexed_monitor [OF assms(1) n [unfolded \<open>q = Ok i\<close>] a [unfolded Ok], of "pr_key pr"] \<open>pr_parse ref = Ok parsed\<close>
          by (simp add: pr_key_def)
        then show ?thesis using n \<open>q = Ok i\<close> \<open>pr_parse ref = Ok parsed\<close> a Ok assms(2) d
          by (simp add: step on_tasks_def and_then_def)
      qed (use n \<open>q = Ok i\<close> \<open>pr_parse ref = Ok parsed\<close> a assms(2) d idle stuck in
        \<open>auto simp: step on_tasks_def and_then_def\<close>)
    qed (use n Ok assms(2) d idle in \<open>auto simp: step on_tasks_def and_then_def\<close>)
  qed (use n assms(2) d idle in \<open>auto simp: step on_tasks_def and_then_def\<close>)
qed

lemma handle_send_frame:
  "handle_send E params s = (r, s') \<Longrightarrow> d_tasks s' = d_tasks s \<and> d_watches s' = d_watches s \<and> d_monitors s' = d_monitors s"
  by (auto simp: handle_send_def and_then_def on_rt_def split: result.splits prod.splits option.splits)

lemma indexed_cancel:
  assumes "indexed E s" "cancel_task (env_ops E) i (d_tasks s) = (r, reg)"
  shows "indexed E (s\<lparr>d_tasks := reg\<rparr>)"
proof (rule indexed_frame [OF assms(1)])
  show "tasks_ok E (d_tasks (s\<lparr>d_tasks := reg\<rparr>))"
    using fleet_rules(6) assms unfolding indexed_def env_ops_def by auto
qed (use cancel_task_role [OF assms(2)] in auto)

lemma indexed_unwatch:
  assumes "indexed E s" "handle_repo_unwatch E params s = (r, s')"
  shows "indexed E s'"
proof (cases "repo_params E params")
  case (Ok k)
  show ?thesis
  proof (cases "d_watches s k")
    case (Some i)
    let ?s = "s\<lparr>d_watches := (d_watches s)(k := None)\<rparr>"
    have "indexed E ?s" using assms(1) by (rule indexed_frame) (use assms(1) in \<open>auto simp: indexed_def map_le_def\<close>)
    moreover obtain q reg where c: "cancel_task (env_ops E) i (d_tasks ?s) = (q, reg)" by (cases "cancel_task (env_ops E) i (d_tasks ?s)")
    ultimately have "indexed E (?s\<lparr>d_tasks := reg\<rparr>)" by (rule indexed_cancel)
    then show ?thesis using assms(2) Ok Some c
      by (cases q) (auto simp: handle_repo_unwatch_def and_then_def on_tasks_def)
  qed (use assms Ok in \<open>auto simp: handle_repo_unwatch_def and_then_def\<close>)
qed (use assms in \<open>auto simp: handle_repo_unwatch_def and_then_def\<close>)

lemma indexed_watch:
  assumes "indexed E s" "handle_repo_watch E params s = (r, s')"
  shows "indexed E s'"
  using assms indexed_watch_create [OF assms(1)]
  by (cases "repo_params E params") (auto simp: handle_repo_watch_def and_then_def split: option.splits)

lemma respond_with_state: "respond_with n x = (r, s) \<Longrightarrow> \<exists>q. x = (q, s)"
  by (cases "(n, x)" rule: respond_with.cases) auto

lemma handle_approval_frame:
  assumes "handle_approval params s = Some (r, s')"
  shows "d_tasks s' = d_tasks s \<and> d_watches s' = d_watches s \<and> d_monitors s' = d_monitors s"
proof (cases "Option.bind (json_get params ''approve'') as_bool")
  case (Some a)
  then obtain x where "respond \<lparr>rs_id = ''a-1'', rs_approve = a\<rparr> (d_gate s) = Some x"
    using assms by (auto simp: handle_approval_def)
  then show ?thesis using assms Some by (cases x) (auto simp: handle_approval_def)
qed (use assms in \<open>auto simp: handle_approval_def\<close>)

lemma handle_method_some:
  assumes "handle_method E m params s = Some (r, s')"
  shows "handle_send E params s = (r, s') \<or> handle_task_add E params s = (r, s') \<or> handle_repo_watch E params s = (r, s') \<or>
    handle_repo_unwatch E params s = (r, s') \<or> handle_approval params s = Some (r, s') \<or> handle_shutdown s = (r, s') \<or>
    handle_task_log params s = (r, s') \<or> handle_status s = (r, s') \<or> handle_fs_read E params s = (r, s') \<or> s' = s"
  using assms unfolding handle_method_def
  by (elim if_eqE) (simp_all only: option.inject prod.inject simp_thms)

lemma indexed_handle:
  assumes "indexed E s" "handle_method E m params s = Some (r, s')"
  shows "indexed E s'"
proof -
  have frame: "indexed E s'" if "d_tasks s' = d_tasks s \<and> d_watches s' = d_watches s \<and> d_monitors s' = d_monitors s"
    using that by (intro indexed_same [OF assms(1)]) simp_all
  from handle_method_some [OF assms(2)] show ?thesis
  proof (elim disjE)
    assume "handle_shutdown s = (r, s')"
    then show ?thesis by (intro frame) (auto simp: handle_shutdown_def and_then_def)
  next
    assume "handle_task_log params s = (r, s')"
    then show ?thesis by (intro frame) (auto simp: handle_task_log_def)
  next
    assume "handle_status s = (r, s')"
    then show ?thesis by (intro frame) (auto simp: handle_status_def)
  next
    assume "handle_fs_read E params s = (r, s')"
    then show ?thesis by (intro frame) (auto simp: handle_fs_read_def)
  next
    assume "s' = s"
    then show ?thesis using assms(1) by simp
  qed (rule frame [OF handle_send_frame] frame [OF handle_approval_frame] indexed_task_add [OF assms(1)]
      indexed_watch [OF assms(1)] indexed_unwatch [OF assms(1)], assumption)+
qed

lemma indexed_dispatch:
  assumes "indexed E s" "dispatch E rq s = Some (r, s')"
  shows "indexed E s'"
proof -
  obtain x where x: "handle_method E (rq_method rq) (rq_params rq) s = Some x" "respond_with (rq_num rq) x = (r, s')"
    using assms(2) by (auto simp: dispatch_def)
  from respond_with_state [OF x(2)] obtain q where "x = (q, s')" ..
  with x(1) have "handle_method E (rq_method rq) (rq_params rq) s = Some (q, s')" by simp
  then show ?thesis by (rule indexed_handle [OF assms(1)])
qed

lemma log_frame: "d_tasks (fold (log_message i) msgs s) = d_tasks s \<and> d_watches (fold (log_message i) msgs s) = d_watches s \<and>
    d_monitors (fold (log_message i) msgs s) = d_monitors s"
proof (induction msgs arbitrary: s)
  case (Cons m ms)
  then show ?case by (cases m) (simp_all add: log_task_message_def)
qed simp

lemma indexed_poll_one:
  assumes "indexed E s" "poll_one E i s = (r, s')"
  shows "indexed E s'"
proof -
  obtain q reg w where p: "poll_task (env_ops E) i (d_tasks s) (d_world s) = (q, reg, w)" by (metis prod_cases3)
  let ?s = "s\<lparr>d_tasks := reg, d_world := w\<rparr>"
  have "indexed E ?s"
  proof (rule indexed_frame [OF assms(1)])
    show "tasks_ok E (d_tasks ?s)" using fleet_rules(7) assms(1) p unfolding indexed_def env_ops_def by auto
  qed (use poll_task_role [OF p] in auto)
  moreover have "d_tasks s' = d_tasks ?s \<and> d_watches s' = d_watches ?s \<and> d_monitors s' = d_monitors ?s"
    using assms(2) p by (auto simp: poll_one_def Let_def log_task_message_def log_frame split: option.splits result.splits)
  ultimately show ?thesis using indexed_same by blast
qed

lemma indexed_poll_each: "indexed E s \<Longrightarrow> poll_each E is s = (r, s') \<Longrightarrow> indexed E s'"
proof (induction "is" arbitrary: s)
  case (Cons i "is")
  obtain q s1 where p: "poll_one E i s = (q, s1)" by (cases "poll_one E i s")
  with indexed_poll_one [OF Cons.prems(1) p] Cons show ?case by (cases q) (auto simp: and_then_def)
qed simp

lemma indexed_coordinate:
  assumes "indexed E s" "coordinate E ev s = (r, s')"
  shows "indexed E s'"
proof -
  obtain k where k: "pr_target ev = Some k" by (simp add: pr_target_def)
  obtain q s1 where e: "ensure_monitor_pr_task E k s = (q, s1)" by (cases "ensure_monitor_pr_task E k s")
  have "d_tasks s' = d_tasks s1 \<and> d_watches s' = d_watches s1 \<and> d_monitors s' = d_monitors s1"
    using assms(2) k e by (auto simp: coordinate_def split: result.splits prod.splits)
  then show ?thesis using indexed_ensure [OF assms(1) e] indexed_same by blast
qed

lemma indexed_turn:
  assumes "indexed E s" "coordinator_turn E rx flag s = (r, s')"
  shows "indexed E s'"
proof -
  have bus: "indexed E (s\<lparr>d_world := (d_world s)\<lparr>bus := b\<rparr>\<rparr>)" for b using indexed_same [OF assms(1)] by simp
  show ?thesis using assms bus indexed_coordinate [OF bus]
    by (auto simp: coordinator_turn_def and_then_def split: if_splits option.splits recv.splits prod.splits result.splits)
qed

section \<open>Runs of the daemon\<close>

text \<open>
  Requests, turns of the coordinator and polls in any order; in between, whatever happens to the
  workspace, the gate, the network, the bus and the clock.
\<close>

inductive daemon_step :: "('s, 'b) dispatch_env \<Rightarrow> ('s, 'b) dispatch_state \<Rightarrow> ('s, 'b) dispatch_state \<Rightarrow> bool" for E where
  request: "dispatch E rq s = Some (r, s') \<Longrightarrow> daemon_step E s s'"
| coordinator: "coordinator_turn E rx flag s = (r, s') \<Longrightarrow> daemon_step E s s'"
| polling: "poll_all_tasks E s = (r, s') \<Longrightarrow> daemon_step E s s'"
| outside: "daemon_step E s (s\<lparr>d_fs := f, d_gate := g, d_world := w\<rparr>)"

lemma indexed_reachable: "(daemon_step E)\<^sup>*\<^sup>* (dispatch_new w f pol) s \<Longrightarrow> indexed E s"
proof (induction rule: rtranclp_induct)
  case base
  show ?case using fleet.inv_new by (simp add: indexed_def dispatch_new_def)
next
  case (step s s')
  from step(2) show ?case
  proof cases
    case (request rq r)
    then show ?thesis using indexed_dispatch step.IH by blast
  next
    case (coordinator rx flag r)
    then show ?thesis using indexed_turn step.IH by blast
  next
    case (polling r)
    then show ?thesis using indexed_poll_each step.IH unfolding poll_all_tasks_def by blast
  next
    case (outside f g w)
    then show ?thesis using indexed_same [OF step.IH] by simp
  qed
qed

section \<open>Watch requests and the coordinator\<close>

lemma next_id_room:
  assumes "unat (next_task reg) + 1 < 2 ^ 64"
  shows "\<exists>i reg'. next_id reg = (Ok i, reg')"
  using assms uint_add_bound [of "next_task reg" 1] by (simp add: next_id_def checked_add_def)

text \<open>
  What the shorthand of a key stands for. It has no host, so it is a reference to github.com, and
  it is cut at the first slash: \<open>org/project/repo#1\<close>, from the key of an Azure DevOps pull request
  with the owner \<open>org/project\<close>, has the owner \<open>org\<close> and the repository \<open>project/repo\<close>.
\<close>

definition regular_key :: "pr_target \<Rightarrow> bool" where
  "regular_key k = (case k of (h, owner, repo, n) \<Rightarrow>
     CHR ''#'' \<notin> set owner \<and> CHR ''#'' \<notin> set repo \<and> repo \<noteq> [] \<and> owner \<noteq> [] \<and> visible (hd owner) \<and> hd owner \<noteq> CHR ''/'' \<and> n \<noteq> 0 \<and>
     \<not> starts_with (owner @ ''/'' @ repo) ''https://'' \<and> \<not> starts_with (owner @ ''/'' @ repo) ''http://'')"

definition named_pr :: "pr_target \<Rightarrow> pr_ref" where
  "named_pr k = (case k of (h, owner, repo, n) \<Rightarrow>
     \<lparr>pr_host = github_com, pr_owner = takeWhile (\<lambda>c. c \<noteq> CHR ''/'') owner,
      pr_repo = tl (dropWhile (\<lambda>c. c \<noteq> CHR ''/'') (owner @ ''/'' @ repo)), pr_number = n\<rparr>)"

abbreviation owner_of :: "pr_target \<Rightarrow> bytes" where
  "owner_of k \<equiv> fst (snd k)"

lemma first_slash:
  "takeWhile (\<lambda>c. c \<noteq> CHR ''/'') owner @ ''/'' @ tl (dropWhile (\<lambda>c. c \<noteq> CHR ''/'') (owner @ ''/'' @ repo)) = owner @ ''/'' @ repo"
  "repo \<noteq> [] \<Longrightarrow> tl (dropWhile (\<lambda>c. c \<noteq> CHR ''/'') (owner @ ''/'' @ repo)) \<noteq> []"
  "CHR ''/'' \<notin> set owner \<Longrightarrow> tl (dropWhile (\<lambda>c. c \<noteq> CHR ''/'') (owner @ ''/'' @ repo)) = repo"
  by (induction owner) auto

lemma regular_key_parse:
  assumes "regular_key k"
  shows "pr_parse (shorthand_of k) = Ok (named_pr k)"
proof -
  obtain h owner repo n where k: "k = (h, owner, repo, n)" by (cases k)
  let ?o = "takeWhile (\<lambda>c. c \<noteq> CHR ''/'') owner" and ?r = "tl (dropWhile (\<lambda>c. c \<noteq> CHR ''/'') (owner @ ''/'' @ repo))"
  obtain c os where o: "owner = c # os" using assms by (cases owner) (auto simp: regular_key_def k)
  let ?os = "takeWhile (\<lambda>c. c \<noteq> CHR ''/'') os"
  note s = first_slash(1) [of owner repo]
  have c: "c \<noteq> CHR ''/''" "visible c" "n \<noteq> 0" using assms by (simp_all add: regular_key_def k o)
  have "CHR ''#'' \<notin> set (owner @ ''/'' @ repo)" using assms by (simp add: regular_key_def k)
  then have "CHR ''#'' \<notin> set (?o @ ''/'' @ ?r)" unfolding s .
  then have hash: "CHR ''#'' \<notin> set ?o" "CHR ''#'' \<notin> set ?r" by (simp_all only: set_append Un_iff de_Morgan_disj not_False_eq_True simp_thms)
  have slash: "CHR ''/'' \<notin> set ?o" by (metis (mono_tags, lifting) set_takeWhileD)
  have r: "?r \<noteq> []" using first_slash(2) assms by (simp only: regular_key_def k prod.case simp_thms)
  have "pr_parse (?o @ ''/'' @ ?r @ ''#'' @ show_u64 n) = Ok \<lparr>pr_host = github_com, pr_owner = ?o, pr_repo = ?r, pr_number = n\<rparr>"
    using shorthand [of ?o ?r c ?os n] hash slash r c assms s by (simp add: o regular_key_def k)
  moreover have "(?o @ ''/'' @ ?r) @ ''#'' @ show_u64 n = shorthand_of k"
    unfolding s by (simp add: shorthand_of_def k)
  ultimately show ?thesis by (simp add: named_pr_def k)
qed

text \<open>For a key of github.com without a slash in its owner it is the pull request of the key, for every other one it is not.\<close>

lemma named_pr_own: "regular_key k \<Longrightarrow> pr_key (named_pr k) = k \<longleftrightarrow> fst k = github_com \<and> CHR ''/'' \<notin> set (owner_of k)"
  using first_slash(3) by (auto simp: named_pr_def pr_key_def takeWhile_eq_all_conv split: prod.splits)

lemma fresh_waiting:
  "waiting (fst (subscribe b)) (snd (publish ev (snd (subscribe b)))) = [ev]"
  by (simp add: waiting_def subscribe_def publish_def nth_append CHANNEL_CAPACITY_def)

text \<open>The first event of a pull request makes its monitor; \<open>i\<close> is the id drawn.\<close>

lemma ensure_new:
  assumes "tasks_ok E (d_tasks s)" "d_monitors s k = None" "next_id (d_tasks s) = (Ok i, reg)" "pr_parse (shorthand_of k) = Ok pr"
  shows "\<exists>t. ensure_monitor_pr_task E k s = (Ok (i, True), s\<lparr>d_tasks := stored i (Monitor (adapter_for E (fst k)) t) reg,
      d_world := (d_world s)\<lparr>bus := snd (subscribe (bus (d_world s)))\<rparr>, d_monitors := (d_monitors s)(k \<mapsto> i)\<rparr>) \<and>
    m_pr t = pr \<and> m_rx t = fst (subscribe (bus (d_world s))) \<and> m_id t = i"
proof -
  let ?b = "bus (d_world s)"
  obtain t where m: "monitor_new i (shorthand_of k) (runner_new i) ?b = (Ok t, snd (subscribe ?b))"
    and t: "m_pr t = pr" "m_rx t = fst (subscribe ?b)" "m_id t = i"
    using assms(4) by (auto simp: monitor_new_def subscribe_def)
  have "next_id (d_tasks s) = (Ok i, d_tasks (s\<lparr>d_tasks := reg\<rparr>))" using assms(3) by simp
  from add_monitor_run [OF assms(1) this, of show_task_error "fst k" "shorthand_of k"] m t assms(2,3) show ?thesis
    by (intro exI [of _ t]) (simp add: ensure_monitor_pr_task_def on_tasks_def and_then_def)
qed

section \<open>A daemon for the witnesses\<close>

definition demo_dispatch_env :: "(ledger_handle, nat) dispatch_env" where
  "demo_dispatch_env = \<lparr>de_github = demo_forge, de_registry = registry_empty, de_policy = Ask, de_backend = demo_backend,
     de_ledger = ndjson_ops demo_codec (\<lambda>_. AppendFine) (\<lambda>_. 7) [], de_hash = (\<lambda>_ _. 0), de_debug = (\<lambda>s. s), de_utf8_text = (\<lambda>s. s)\<rparr>"

definition demo_daemon_world :: "(ledger_handle, nat) daemon_world" where
  "demo_daemon_world = \<lparr>http_log = [], rates = (\<lambda>_. rate_limit_new), bus = bus_new, led = \<lparr>lh_ledger = no_ledger, lh_calls = 0\<rparr>,
     mono = 0, rt = router_new 0\<rparr>"

definition demo_daemon :: "(ledger_handle, nat) dispatch_state" where
  "demo_daemon = dispatch_new demo_daemon_world (new \<lparr>secs = 0, nanos = 0\<rparr>) Ask"

lemma demo_start: "(daemon_step demo_dispatch_env)\<^sup>*\<^sup>* (dispatch_new demo_daemon_world (new \<lparr>secs = 0, nanos = 0\<rparr>) Ask) demo_daemon"
  by (simp add: demo_daemon_def)

definition demo_params :: json where
  "demo_params = JObj [(''owner'', JStr ''o''), (''repo'', JStr ''r'')]"

lemma demo_daemon_simps:
  "repo_params demo_dispatch_env demo_params = Ok (github_com, ''o'', ''r'')" "watch_interval demo_params = from_secs 60"
  "adapter_for demo_dispatch_env github_com = demo_forge" "d_watches demo_daemon = Map.empty" "d_monitors demo_daemon = Map.empty"
  "tasks_ok demo_dispatch_env (d_tasks demo_daemon)" "d_tasks demo_daemon = task_registry_new"
  by (simp_all add: repo_params_def str_param_def demo_params_def json_at_def watch_interval_def adapter_for_def demo_dispatch_env_def
     registry_empty_def for_host_def demo_daemon_def dispatch_new_def fleet.inv_new)

lemma demo_next_id: "next_id task_registry_new = (Ok ''t-1'', task_registry_new\<lparr>next_task := 2\<rparr>)"
proof -
  have "show_u64 1 = ''1''" by code_simp
  then show ?thesis by (simp add: next_id_def task_registry_new_def checked_add_def)
qed

definition demo_made :: "(ledger_handle, nat) dispatch_state" where
  "demo_made = demo_daemon\<lparr>d_tasks := stored ''t-1'' (Watch demo_forge (watch_with_interval (from_secs 60) (repo_watch_new ''t-1'' github_com ''o'' ''r'')))
     (task_registry_new\<lparr>next_task := 2\<rparr>), d_watches := [(github_com, ''o'', ''r'') \<mapsto> ''t-1'']\<rparr>"

lemma demo_create: "watch_create demo_dispatch_env (github_com, ''o'', ''r'') (from_secs 60) demo_daemon = (Ok (watching ''t-1'' False), demo_made)"
proof -
  have n: "next_id (d_tasks demo_daemon) = (Ok ''t-1'', task_registry_new\<lparr>next_task := 2\<rparr>)" by (simp add: demo_next_id demo_daemon_simps)
  show ?thesis using watch_create_run [OF demo_daemon_simps(6) n] by (simp add: demo_made_def demo_daemon_simps)
qed

section \<open>Properties\<close>

text \<open>
  C24: invariant. Whatever requests, coordinator turns and polls follow each other, every id in the
  two maps names a task of the registry that is stored under its own id and has the adapter chosen
  for the host of the key. Under a key of the watch map it is a watcher of exactly that repository.
  Under a key of the monitor map it is a monitor of the pull request of the key, or of what the
  key's shorthand parses to: for a regular key the pull request of the same text
  \<open>owner/repo#number\<close> on github.com. So under a regular key of github.com whose owner has no slash
  it is a monitor of exactly that pull request; under a key of another forge it may not be.
\<close>

theorem maps_name_live_tasks:
  assumes "(daemon_step E)\<^sup>*\<^sup>* (dispatch_new w f pol) s"
  shows "(\<forall>k i. d_watches s k = Some i \<longrightarrow> (\<exists>t. om_lookup (tasks (d_tasks s)) i = Some (Watch (adapter_for E (fst k)) t) \<and>
        w_id t = i \<and> (w_host t, w_owner t, w_repo t) = k)) \<and>
    (\<forall>k i. d_monitors s k = Some i \<longrightarrow> (\<exists>t. om_lookup (tasks (d_tasks s)) i = Some (Monitor (adapter_for E (fst k)) t) \<and>
        m_id t = i \<and> (pr_key (m_pr t) = k \<or> pr_parse (shorthand_of k) = Ok (m_pr t)) \<and>
        (regular_key k \<longrightarrow> pr_key (m_pr t) = k \<or> m_pr t = named_pr k) \<and>
        (regular_key k \<and> fst k = github_com \<and> CHR ''/'' \<notin> set (owner_of k) \<longrightarrow> pr_key (m_pr t) = k)))"
proof (intro conjI allI impI)
  note ok = indexed_reachable [OF assms]
  have own: "dyn_id t = i" if "om_lookup (tasks (d_tasks s)) i = Some t" for i t
    using ok that fleet.inv_def [of "de_hash E" "de_ledger E" "de_backend E" "d_tasks s"] by (auto simp: indexed_def fleet_ops_def)
  show "\<exists>t. om_lookup (tasks (d_tasks s)) i = Some (Watch (adapter_for E (fst k)) t) \<and> w_id t = i \<and> (w_host t, w_owner t, w_repo t) = k"
    if "d_watches s k = Some i" for k i
  proof -
    have "role_of (d_tasks s) i = Some (adapter_for E (fst k), Inl k)" using ok that unfolding indexed_def by blast
    then obtain t where t: "om_lookup (tasks (d_tasks s)) i = Some t" "role t = (adapter_for E (fst k), Inl k)"
      by (auto simp: role_of_def)
    then show ?thesis using own [OF t(1)] by (cases t) auto
  qed
  show "\<exists>t. om_lookup (tasks (d_tasks s)) i = Some (Monitor (adapter_for E (fst k)) t) \<and> m_id t = i \<and>
      (pr_key (m_pr t) = k \<or> pr_parse (shorthand_of k) = Ok (m_pr t)) \<and>
      (regular_key k \<longrightarrow> pr_key (m_pr t) = k \<or> m_pr t = named_pr k) \<and>
      (regular_key k \<and> fst k = github_com \<and> CHR ''/'' \<notin> set (owner_of k) \<longrightarrow> pr_key (m_pr t) = k)" if key: "d_monitors s k = Some i" for k i
  proof -
    obtain r where "role_of (d_tasks s) i = Some (adapter_for E (fst k), Inr r)" "pr_key r = k \<or> pr_parse (shorthand_of k) = Ok r"
      using ok key unfolding indexed_def by blast
    then obtain t where t: "om_lookup (tasks (d_tasks s)) i = Some t" "role t = (adapter_for E (fst k), Inr r)"
      and r: "pr_key r = k \<or> pr_parse (shorthand_of k) = Ok r" by (auto simp: role_of_def)
    have "regular_key k \<Longrightarrow> pr_key r = k \<or> r = named_pr k" using r regular_key_parse [of k] by auto
    then show ?thesis using own [OF t(1)] t r named_pr_own [of k] by (cases t) auto
  qed
qed

theorem maps_name_live_tasks_witness:
  "\<exists>s t. (daemon_step demo_dispatch_env)\<^sup>*\<^sup>* demo_daemon s \<and> d_watches s (github_com, ''o'', ''r'') = Some ''t-1'' \<and>
     om_lookup (tasks (d_tasks s)) ''t-1'' = Some (Watch demo_forge t) \<and> w_owner t = ''o''"
proof -
  have "dispatch demo_dispatch_env \<lparr>rq_num = 1, rq_method = ''repo/watch'', rq_params = demo_params\<rparr> demo_daemon =
      Some (Ok (ipc_ok 1 (watching ''t-1'' False)), demo_made)"
    using demo_create by (simp add: dispatch_def handle_method_def handle_repo_watch_def and_then_def demo_daemon_simps)
  then have "daemon_step demo_dispatch_env demo_daemon demo_made" by (rule daemon_step.request)
  then have r: "(daemon_step demo_dispatch_env)\<^sup>*\<^sup>* demo_daemon demo_made" by (rule r_into_rtranclp)
  have k: "d_watches demo_made (github_com, ''o'', ''r'') = Some ''t-1''" by (simp add: demo_made_def)
  from maps_name_live_tasks [OF rtranclp_trans [OF demo_start r]] k
  obtain t where "om_lookup (tasks (d_tasks demo_made)) ''t-1'' = Some (Watch (adapter_for demo_dispatch_env github_com) t)" "w_owner t = ''o''"
    by fastforce
  with r k show ?thesis by (auto simp: demo_daemon_simps)
qed

text \<open>
  C25: safety. The coordinator makes one monitor per pull request: an event of a known one changes
  nothing, and the first event of another one is waiting for the new monitor, so that handling its
  replay changes nothing. What it monitors is the pull request of the same text
  \<open>owner/repo#number\<close> on github.com, so it heeds the event exactly when the host is github.com and
  the owner has no slash: never for a pull request of Azure DevOps or GitHub Enterprise. The key is
  any regular one: names without \<open>#\<close>, an owner that begins with a visible character other than a
  slash, a number that is not zero, and a text that is not a URL.
\<close>

theorem coordinator_monitors_pr:
  assumes "(daemon_step E)\<^sup>*\<^sup>* (dispatch_new w f pol) s" "pr_target ev = Some k" "regular_key k"
    and "unat (next_task (d_tasks s)) + 1 < 2 ^ 64"
  shows "if d_monitors s k \<noteq> None then coordinate E ev s = (Ok (), s)
    else \<exists>i t s'. coordinate E ev s = (Ok (), s') \<and> d_monitors s' = (d_monitors s)(k \<mapsto> i) \<and>
      om_lookup (tasks (d_tasks s)) i = None \<and> tasks (d_tasks s') = om_insert i (Monitor (adapter_for E (fst k)) t) (tasks (d_tasks s)) \<and>
      waiting (m_rx t) (bus (d_world s')) = [ev] \<and> m_pr t = named_pr k \<and>
      (matches t ev \<longleftrightarrow> fst k = github_com \<and> CHR ''/'' \<notin> set (owner_of k)) \<and>
      coordinate E ev s' = (Ok (), s')"
proof (cases "d_monitors s k")
  case (Some i)
  then show ?thesis using assms(2) by (simp add: coordinate_def ensure_monitor_pr_task_def)
next
  case None
  have ok: "tasks_ok E (d_tasks s)" using indexed_reachable [OF assms(1)] by (simp add: indexed_def)
  obtain i reg where n: "next_id (d_tasks s) = (Ok i, reg)" using next_id_room [OF assms(4)] by blast
  obtain t where e: "ensure_monitor_pr_task E k s = (Ok (i, True), s\<lparr>d_tasks := stored i (Monitor (adapter_for E (fst k)) t) reg,
      d_world := (d_world s)\<lparr>bus := snd (subscribe (bus (d_world s)))\<rparr>, d_monitors := (d_monitors s)(k \<mapsto> i)\<rparr>)"
    and t: "m_pr t = named_pr k" "m_rx t = fst (subscribe (bus (d_world s)))"
    using ensure_new [OF ok None n regular_key_parse [OF assms(3)]] by blast
  let ?s = "s\<lparr>d_tasks := stored i (Monitor (adapter_for E (fst k)) t) reg,
      d_world := (d_world s)\<lparr>bus := snd (publish ev (snd (subscribe (bus (d_world s)))))\<rparr>, d_monitors := (d_monitors s)(k \<mapsto> i)\<rparr>"
  have c: "coordinate E ev s = (Ok (), ?s)" using assms(2) e by (simp add: coordinate_def)
  have again: "coordinate E ev ?s = (Ok (), ?s)" using assms(2) by (simp add: coordinate_def ensure_monitor_pr_task_def)
  have reg: "om_lookup (tasks (d_tasks s)) i = None" "tasks reg = tasks (d_tasks s)"
    using fleet.inv_draw [OF ok n] next_id_outcome [OF n] by simp_all
  have "matches t ev \<longleftrightarrow> pr_key (m_pr t) = k" using assms(2) by (auto simp: matches_def pr_key_def)
  then have m: "matches t ev \<longleftrightarrow> fst k = github_com \<and> CHR ''/'' \<notin> set (owner_of k)"
    using named_pr_own [OF assms(3)] by (simp add: t(1))
  have w: "waiting (m_rx t) (bus (d_world ?s)) = [ev]" using fresh_waiting [of "bus (d_world s)" ev] t(2) by simp
  have "coordinate E ev s = (Ok (), ?s) \<and> d_monitors ?s = (d_monitors s)(k \<mapsto> i) \<and> om_lookup (tasks (d_tasks s)) i = None \<and>
      tasks (d_tasks ?s) = om_insert i (Monitor (adapter_for E (fst k)) t) (tasks (d_tasks s)) \<and>
      waiting (m_rx t) (bus (d_world ?s)) = [ev] \<and> m_pr t = named_pr k \<and>
      (matches t ev \<longleftrightarrow> fst k = github_com \<and> CHR ''/'' \<notin> set (owner_of k)) \<and> coordinate E ev ?s = (Ok (), ?s)"
  proof (intro conjI)
    show "tasks (d_tasks ?s) = om_insert i (Monitor (adapter_for E (fst k)) t) (tasks (d_tasks s))"
      using reg(2) by (simp add: stored_def)
  qed (use c reg(1) w m t(1) again in simp_all)
  with None show ?thesis by (simp only: not_False_eq_True if_False simp_thms) blast
qed

theorem coordinator_monitors_pr_witness:
  "(\<exists>s (t :: router_runner monitor_pr). coordinate demo_dispatch_env (PrOpened github_com ''o'' ''r'' 1 ''s'') demo_daemon = (Ok (), s) \<and>
     waiting (m_rx t) (bus (d_world s)) = [PrOpened github_com ''o'' ''r'' 1 ''s''] \<and> matches t (PrOpened github_com ''o'' ''r'' 1 ''s'')) \<and>
   (\<exists>s (t :: router_runner monitor_pr). coordinate demo_dispatch_env (PrOpened azure_devops ''o/p'' ''r'' 1 ''s'') demo_daemon = (Ok (), s) \<and>
     waiting (m_rx t) (bus (d_world s)) = [PrOpened azure_devops ''o/p'' ''r'' 1 ''s''] \<and>
     m_pr t = \<lparr>pr_host = github_com, pr_owner = ''o'', pr_repo = ''p/r'', pr_number = 1\<rparr> \<and>
     \<not> matches t (PrOpened azure_devops ''o/p'' ''r'' 1 ''s''))"
proof -
  let ?ev = "PrOpened github_com ''o'' ''r'' 1 ''s''" and ?az = "PrOpened azure_devops ''o/p'' ''r'' 1 ''s''"
  have room: "unat (next_task (d_tasks demo_daemon)) + 1 < 2 ^ 64" "d_monitors demo_daemon k = None" for k
    by (simp_all add: demo_daemon_simps task_registry_new_def)
  have key: "pr_target ?ev = Some (github_com, ''o'', ''r'', 1)" "regular_key (github_com, ''o'', ''r'', 1)"
    and az: "pr_target ?az = Some (azure_devops, ''o/p'', ''r'', 1)" "regular_key (azure_devops, ''o/p'', ''r'', 1)"
    by (simp_all add: pr_target_def regular_key_def visible_def starts_with_def)
  obtain t :: "router_runner monitor_pr" and s where "coordinate demo_dispatch_env ?ev demo_daemon = (Ok (), s)"
      "waiting (m_rx t) (bus (d_world s)) = [?ev]" "matches t ?ev"
    using coordinator_monitors_pr [OF demo_start key room(1)] room(2) by auto
  moreover obtain t :: "router_runner monitor_pr" and s where "coordinate demo_dispatch_env ?az demo_daemon = (Ok (), s)"
      "waiting (m_rx t) (bus (d_world s)) = [?az]" "m_pr t = named_pr (azure_devops, ''o/p'', ''r'', 1)" "\<not> matches t ?az"
    using coordinator_monitors_pr [OF demo_start az room(1)] room(2) by auto
  moreover have "named_pr (azure_devops, ''o/p'', ''r'', 1) = \<lparr>pr_host = github_com, pr_owner = ''o'', pr_repo = ''p/r'', pr_number = 1\<rparr>"
    by (simp add: named_pr_def)
  ultimately show ?thesis by metis
qed

text \<open>
  A request to watch a repository that is not watched adds one task under a fresh
  id; asked again, it names the same task and changes nothing. Unwatching cancels that task and
  frees the key, keeps every other task and entry, and is then an error.
\<close>

lemma watch_and_unwatch:
  assumes "(daemon_step E)\<^sup>*\<^sup>* (dispatch_new w f pol) s" "repo_params E params = Ok k" "d_watches s k = None"
    and "unat (next_task (d_tasks s)) + 1 < 2 ^ 64"
  shows "\<exists>i t s1 s2. om_lookup (tasks (d_tasks s)) i = None \<and>
    handle_repo_watch E params s = (Ok (watching i False), s1) \<and> tasks (d_tasks s1) = om_insert i t (tasks (d_tasks s)) \<and>
    role t = (adapter_for E (fst k), Inl k) \<and> dyn_interval t = watch_interval params \<and>
    handle_repo_watch E params s1 = (Ok (watching i True), s1) \<and>
    handle_repo_unwatch E params s1 = (Ok (JObj [(''task_id'', JStr i)]), s2) \<and>
    tasks (d_tasks s2) = om_insert i (dyn_set_status Cancelled t) (tasks (d_tasks s)) \<and> d_watches s2 = d_watches s \<and>
    (\<exists>e. handle_repo_unwatch E params s2 = (Err e, s2))"
proof -
  have ok: "tasks_ok E (d_tasks s)" using indexed_reachable [OF assms(1)] by (simp add: indexed_def)
  obtain i reg where n: "next_id (d_tasks s) = (Ok i, reg)" using next_id_room [OF assms(4)] by blast
  have fresh: "om_lookup (tasks (d_tasks s)) i = None" "tasks reg = tasks (d_tasks s)"
    using fleet.inv_draw [OF ok n] next_id_outcome [OF n] by simp_all
  let ?t = "Watch (adapter_for E (fst k)) (watch_with_interval (watch_interval params) (repo_watch_new i (fst k) (fst (snd k)) (snd (snd k))))"
  let ?s1 = "s\<lparr>d_tasks := stored i ?t reg, d_watches := (d_watches s)(k \<mapsto> i)\<rparr>"
  let ?reg = "stored i (dyn_set_status Cancelled ?t) (stored i ?t reg)"
  let ?s2 = "s\<lparr>d_tasks := ?reg, d_watches := (d_watches s)(k := None)\<rparr>"
  have made: "handle_repo_watch E params s = (Ok (watching i False), ?s1)"
    using watch_create_run [OF ok n, of k "watch_interval params"] assms(2,3) by (simp add: handle_repo_watch_def and_then_def)
  have again: "handle_repo_watch E params ?s1 = (Ok (watching i True), ?s1)"
    using assms(2) by (simp add: handle_repo_watch_def and_then_def)
  have t: "dyn_status ?t = Created" "role ?t = (adapter_for E (fst k), Inl k)" "dyn_interval ?t = watch_interval params"
    by (simp_all add: watch_with_interval_def repo_watch_new_def)
  then have c: "cancel_task (env_ops E) i (stored i ?t reg) = (Ok (), ?reg)"
    by (simp add: cancel_task_def stored_def env_ops_def fleet_ops_def del: dyn_status.simps dyn_set_status.simps)
  then have gone: "handle_repo_unwatch E params ?s1 = (Ok (JObj [(''task_id'', JStr i)]), ?s2)"
    using assms(2) by (simp add: handle_repo_unwatch_def and_then_def on_tasks_def del: dyn_set_status.simps)
  have error: "\<exists>e. handle_repo_unwatch E params ?s2 = (Err e, ?s2)"
    using assms(2) by (simp add: handle_repo_unwatch_def and_then_def del: dyn_set_status.simps)
  have last: "tasks (d_tasks ?s2) = om_insert i (dyn_set_status Cancelled ?t) (tasks (d_tasks s))"
    using fresh(2) by (simp add: stored_def om_eq_iff del: dyn_set_status.simps)
  have free: "(d_watches s)(k := None) = d_watches s" using assms(3) by auto
  show ?thesis
    by (rule exI [of _ i], rule exI [of _ ?t], rule exI [of _ ?s1], rule exI [of _ ?s2])
      (intro conjI made again gone error last fresh(1) t(2,3); use fresh(2) free in \<open>simp add: stored_def\<close>)
qed

lemma watch_and_unwatch_witness:
  "\<exists>i s1 s2. handle_repo_watch demo_dispatch_env demo_params demo_daemon = (Ok (watching i False), s1) \<and>
     handle_repo_watch demo_dispatch_env demo_params s1 = (Ok (watching i True), s1) \<and>
     handle_repo_unwatch demo_dispatch_env demo_params s1 = (Ok (JObj [(''task_id'', JStr i)]), s2)"
proof -
  have "unat (next_task (d_tasks demo_daemon)) + 1 < 2 ^ 64" "d_watches demo_daemon (github_com, ''o'', ''r'') = None"
    by (simp_all add: demo_daemon_simps task_registry_new_def)
  from watch_and_unwatch [OF demo_start demo_daemon_simps(1) this(2,1)] show ?thesis by blast
qed

text \<open>
  The two parts of \<open>repo/watch\<close> take the lock of the map one after the other: when two
  requests both look before either inserts, both make a watcher, and the map forgets the first,
  which no request can cancel any more.
\<close>

lemma watch_race:
  assumes "(daemon_step E)\<^sup>*\<^sup>* (dispatch_new w f pol) s" "d_watches s k = None"
    and "watch_create E k c s = (Ok v1, s1)" "watch_create E k d s1 = (Ok v2, s2)"
  shows "\<exists>i j. i \<noteq> j \<and> v1 = watching i False \<and> v2 = watching j False \<and> d_watches s2 = (d_watches s)(k \<mapsto> j) \<and>
    role_of (d_tasks s2) i = Some (adapter_for E (fst k), Inl k) \<and> role_of (d_tasks s2) j = Some (adapter_for E (fst k), Inl k) \<and>
    (\<forall>k'. d_watches s2 k' \<noteq> Some i)"
proof -
  have ix: "indexed E s" using indexed_reachable [OF assms(1)] .
  then have ok: "tasks_ok E (d_tasks s)" by (simp add: indexed_def)
  obtain r reg where n: "next_id (d_tasks s) = (r, reg)" by (cases "next_id (d_tasks s)")
  let ?t = "\<lambda>i e. Watch (adapter_for E (fst k)) (watch_with_interval e (repo_watch_new i (fst k) (fst (snd k)) (snd (snd k))))"
  have t: "role (?t i e) = (adapter_for E (fst k), Inl k)" "dyn_id (?t i e) = i" for i e
    by (simp_all add: watch_with_interval_def repo_watch_new_def)
  from watch_create_run [OF ok n, of k c] assms(3) obtain i where i: "r = Ok i" "v1 = watching i False"
    and s1: "s1 = s\<lparr>d_tasks := stored i (?t i c) reg, d_watches := (d_watches s)(k \<mapsto> i)\<rparr>"
    by (cases r) auto
  note st = store_drawn [OF ok n [unfolded i] t(2)]
  have ok1: "tasks_ok E (d_tasks s1)" using st(2) s1 by simp
  obtain q reg' where m: "next_id (d_tasks s1) = (q, reg')" by (cases "next_id (d_tasks s1)")
  from watch_create_run [OF ok1 m, of k d] assms(4) obtain j where j: "q = Ok j" "v2 = watching j False"
    and s2: "s2 = s1\<lparr>d_tasks := stored j (?t j d) reg', d_watches := (d_watches s1)(k \<mapsto> j)\<rparr>"
    by (cases q) auto
  note st' = store_drawn [OF ok1 m [unfolded j] t(2)]
  have one: "role_of (d_tasks s1) i = Some (adapter_for E (fst k), Inl k)" using st(4) s1 t by simp
  then have ne: "i \<noteq> j" using st'(3) by auto
  have "d_watches s k' \<noteq> Some i" for k' using ix st(3) unfolding indexed_def by fastforce
  then have lost: "d_watches s2 k' \<noteq> Some i" for k' using s1 s2 ne by auto
  show ?thesis using ne i j s1 s2 st'(4) one t lost by (intro exI [of _ i] exI [of _ j]) auto
qed

lemma watch_race_witness:
  "\<exists>i j s1 s2. watch_create demo_dispatch_env (github_com, ''o'', ''r'') (from_secs 60) demo_daemon = (Ok (watching i False), s1) \<and>
     watch_create demo_dispatch_env (github_com, ''o'', ''r'') (from_secs 60) s1 = (Ok (watching j False), s2) \<and> i \<noteq> j"
proof -
  let ?k = "(github_com, ''o'', ''r'')"
  have d: "daemon_step demo_dispatch_env demo_daemon demo_made"
    by (rule daemon_step.request [of _ "\<lparr>rq_num = 1, rq_method = ''repo/watch'', rq_params = demo_params\<rparr>" _ "Ok (ipc_ok 1 (watching ''t-1'' False))"])
      (use demo_create in \<open>simp add: dispatch_def handle_method_def handle_repo_watch_def and_then_def demo_daemon_simps\<close>)
  then have "indexed demo_dispatch_env demo_made" by (intro indexed_reachable [OF rtranclp.rtrancl_into_rtrancl [OF demo_start]])
  then have ok: "tasks_ok demo_dispatch_env (d_tasks demo_made)" by (simp add: indexed_def)
  obtain i reg where n: "next_id (d_tasks demo_made) = (Ok i, reg)"
    using next_id_room [of "d_tasks demo_made"] by (auto simp: demo_made_def stored_def)
  obtain s2 where run: "watch_create demo_dispatch_env ?k (from_secs 60) demo_made = (Ok (watching i False), s2)"
    using watch_create_run [OF ok n, of ?k "from_secs 60"] by simp
  have "d_watches demo_daemon ?k = None" by (simp add: demo_daemon_simps)
  from watch_race [OF demo_start this demo_create run] demo_create run show ?thesis by (auto simp: watching_def)
qed

end
