(* ===== verification/Credentials.thy ===== *)
theory Credentials
  imports Forge
begin

text \<open>
  The credentials the daemon samples when it starts (\<open>crates/devdev-daemon/src/credentials.rs\<close>):
  the providers, and the store that is never changed after. The environment, the commands \<open>gh\<close> and
  \<open>az\<close>, the clock and the lossy decoding of a command's output are outside.
\<close>

section \<open>Tokens\<close>

text \<open>A \<open>RedactedString\<close> shows nothing of its text but the length, and only in \<open>Debug\<close>.\<close>

datatype redacted = Redacted (expose: bytes)

definition debug_redacted :: "redacted \<Rightarrow> bytes" where
  "debug_redacted r = ''RedactedString([redacted; '' @ show_nat (length (expose r)) @ '' bytes])''"

definition show_redacted :: "redacted \<Rightarrow> bytes" where
  "show_redacted r = []"

datatype token_source = EnvVar bytes | GhCli | AzCli | Injected

record credential =
  cr_host :: repo_host_id
  cr_token :: redacted
  cr_source :: token_source
  cr_sampled :: system_time

definition sampled_at_unix :: "credential \<Rightarrow> u64 option" where
  "sampled_at_unix c = (case cr_sampled c of SystemTime s n \<Rightarrow> if 0 \<le> s then Some (word_of_int s) else None)"

text \<open>The hint is one hour later; the addition panics when it does not fit.\<close>

definition expires_at_hint :: "credential \<Rightarrow> (u64 option, 'e) result" where
  "expires_at_hint c = (case sampled_at_unix c of
     None \<Rightarrow> Ok None
   | Some t \<Rightarrow> (case checked_add t 3600 of Some e \<Rightarrow> Ok (Some e) | None \<Rightarrow> Panic))"

section \<open>Providers\<close>

record 'w credential_provider =
  pv_host :: repo_host_id
  pv_fetch :: "('w, credential option, bytes) prog"

text \<open>A command could not be run, did not end in time, or ended, successfully or not, with an output.\<close>

datatype cmd_outcome = SpawnFailed bytes | TimedOut | Exited bool bytes

record os =
  os_env :: "bytes \<Rightarrow> bytes option"
  os_run :: "bytes list \<Rightarrow> nat \<Rightarrow> cmd_outcome"
  os_now :: system_time
  os_lossy :: "bytes \<Rightarrow> bytes"

definition credential_new :: "('x os_scheme) \<Rightarrow> repo_host_id \<Rightarrow> bytes \<Rightarrow> token_source \<Rightarrow> credential" where
  "credential_new w h token src = \<lparr>cr_host = h, cr_token = Redacted token, cr_source = src, cr_sampled = os_now w\<rparr>"

definition env_var_provider :: "repo_host_id \<Rightarrow> bytes \<Rightarrow> 'x os_scheme credential_provider" where
  "env_var_provider h var = \<lparr>pv_host = h, pv_fetch = query (\<lambda>w. case os_env w var of
     Some v \<Rightarrow> if v \<noteq> [] then Ok (Some (credential_new w h v (EnvVar var))) else Ok None
   | None \<Rightarrow> Ok None)\<rparr>"

definition cli_fetch :: "bytes list \<Rightarrow> nat \<Rightarrow> repo_host_id \<Rightarrow> token_source \<Rightarrow> ('x os_scheme, credential option, bytes) prog" where
  "cli_fetch cmd secs h src = query (\<lambda>w. case os_run w cmd secs of
     SpawnFailed e \<Rightarrow> Err e
   | TimedOut \<Rightarrow> Ok None
   | Exited success stdout \<Rightarrow>
       (if \<not> success then Ok None
        else let token = trim (os_lossy w stdout) in
          if token = [] then Ok None else Ok (Some (credential_new w h token src))))"

definition gh_cli_provider :: "repo_host_id \<Rightarrow> 'x os_scheme credential_provider" where
  "gh_cli_provider h = \<lparr>pv_host = h, pv_fetch = cli_fetch [''gh'', ''auth'', ''token''] 5 h GhCli\<rparr>"

definition ADO_RESOURCE_ID :: bytes where
  "ADO_RESOURCE_ID = ''499b84ac-1321-427f-aa17-267ca6975798''"

definition az_cli_provider :: "repo_host_id \<Rightarrow> 'x os_scheme credential_provider" where
  "az_cli_provider h = \<lparr>pv_host = h, pv_fetch = cli_fetch [''az'', ''account'', ''get-access-token'', ''--resource'', ADO_RESOURCE_ID,
     ''--query'', ''accessToken'', ''-o'', ''tsv''] 10 h AzCli\<rparr>"

section \<open>The store\<close>

type_synonym credential_store = "repo_host_id \<Rightarrow> credential option"

definition with_entries :: "credential list \<Rightarrow> credential_store" where
  "with_entries cs = fold (\<lambda>c m. m(cr_host c \<mapsto> c)) cs Map.empty"

definition with_entry :: "('x os_scheme) \<Rightarrow> repo_host_id \<Rightarrow> bytes \<Rightarrow> credential_store" where
  "with_entry w h token = with_entries [credential_new w h token Injected]"

text \<open>A host that has its credential skips its later providers; an error counts as none.\<close>

primrec snapshot_from :: "'w credential_provider list \<Rightarrow> credential_store \<Rightarrow> ('w, credential_store, 'e) prog" where
  "snapshot_from [] m w = (Ok m, w)"
| "snapshot_from (p # ps) m w =
     (if m (pv_host p) \<noteq> None then snapshot_from ps m w
      else (case pv_fetch p w of
         (Ok (Some c), w') \<Rightarrow> snapshot_from ps (m(pv_host p \<mapsto> c)) w'
       | (Ok None, w') \<Rightarrow> snapshot_from ps m w'
       | (Err e, w') \<Rightarrow> snapshot_from ps m w'
       | (Panic, w') \<Rightarrow> (Panic, w')))"

definition snapshot :: "'w credential_provider list \<Rightarrow> ('w, credential_store, 'e) prog" where
  "snapshot ps = snapshot_from ps Map.empty"

section \<open>What a snapshot holds\<close>

text \<open>The credential a provider would give, for providers that only look at the world.\<close>

definition offer :: "'w \<Rightarrow> 'w credential_provider \<Rightarrow> credential option" where
  "offer w p = (case fst (pv_fetch p w) of Ok x \<Rightarrow> x | _ \<Rightarrow> None)"

definition looks_only :: "'w credential_provider \<Rightarrow> bool" where
  "looks_only p \<longleftrightarrow> (\<forall>w. snd (pv_fetch p w) = w \<and> fst (pv_fetch p w) \<noteq> Panic)"

text \<open>The first credential on offer for a host.\<close>

primrec first_offer :: "'w \<Rightarrow> 'w credential_provider list \<Rightarrow> repo_host_id \<Rightarrow> credential option" where
  "first_offer w [] h = None"
| "first_offer w (p # ps) h =
     (if pv_host p = h \<and> offer w p \<noteq> None then offer w p else first_offer w ps h)"

lemma snapshot_from_first:
  assumes "\<forall>p\<in>set ps. looks_only p"
  shows "snapshot_from ps m w = (Ok (\<lambda>h. case m h of Some c \<Rightarrow> Some c | None \<Rightarrow> first_offer w ps h), w)"
  using assms
proof (induction ps arbitrary: m)
  case Nil
  have "(\<lambda>h. case m h of Some c \<Rightarrow> Some c | None \<Rightarrow> first_offer w [] h) = m" by (rule ext) (simp split: option.splits)
  then show ?case by (simp only: snapshot_from.simps)
next
  case (Cons p ps)
  obtain r w' where f: "pv_fetch p w = (r, w')" by (cases "pv_fetch p w")
  have l: "w' = w" "r \<noteq> Panic" using Cons.prems f by (auto simp: looks_only_def dest: spec [of _ w])
  show ?case
  proof (cases "m (pv_host p)")
    case None
    show ?thesis
    proof (cases r)
      case (Ok x)
      then show ?thesis using Cons None f l by (cases x) (auto simp: offer_def split: option.splits)
    next
      case (Err e)
      then show ?thesis using Cons None f l by (auto simp: offer_def split: option.splits)
    qed (use l in simp)
  qed (use Cons in \<open>auto simp: fun_eq_iff split: option.splits\<close>)
qed

lemma builtin_looks_only [simp]:
  "looks_only (env_var_provider h var)" "looks_only (gh_cli_provider h)" "looks_only (az_cli_provider h)"
  by (auto simp: looks_only_def env_var_provider_def gh_cli_provider_def az_cli_provider_def cli_fetch_def Let_def
     split: option.splits cmd_outcome.splits)

section \<open>Properties\<close>

text \<open>
  A snapshot holds for each host the first credential its providers offer, in the
  order given, where a failed provider offers none; nothing else is in it.
\<close>

lemma snapshot_first_offer:
  assumes "\<forall>p\<in>set ps. looks_only p"
  shows "snapshot ps w = (Ok (first_offer w ps), w)"
  using snapshot_from_first [OF assms, of Map.empty w] by (simp add: snapshot_def)

lemma snapshot_first_offer_witness:
  "fst (snapshot [env_var_provider github_com ''GH_TOKEN'', gh_cli_provider github_com]
     \<lparr>os_env = (\<lambda>_. Some []), os_run = (\<lambda>_ _. Exited True ''t ''), os_now = SystemTime 0 0, os_lossy = (\<lambda>s. s)\<rparr>) =
   (Ok [github_com \<mapsto> \<lparr>cr_host = github_com, cr_token = Redacted ''t'', cr_source = GhCli, cr_sampled = SystemTime 0 0\<rparr>] ::
     (credential_store, unit) result)"
proof -
  let ?w = "\<lparr>os_env = (\<lambda>_. Some []), os_run = (\<lambda>_ _. Exited True ''t ''), os_now = SystemTime 0 0, os_lossy = (\<lambda>s. s)\<rparr>"
  let ?ps = "[env_var_provider github_com ''GH_TOKEN'', gh_cli_provider github_com] :: unit os_scheme credential_provider list"
  have t: "trim ''t '' = ''t''" by code_simp
  have "first_offer ?w ?ps = [github_com \<mapsto> \<lparr>cr_host = github_com, cr_token = Redacted ''t'', cr_source = GhCli, cr_sampled = SystemTime 0 0\<rparr>]"
    by (rule ext) (simp add: offer_def env_var_provider_def gh_cli_provider_def cli_fetch_def credential_new_def t Let_def)
  then show ?thesis by (simp add: snapshot_first_offer [of ?ps ?w])
qed

end
