(* ===== verification/Mcp.thy ===== *)
theory Mcp
  imports DispatchProps Credentials MemFsSafety
begin

text \<open>
  The tools the agent may call (\<open>crates/devdev-daemon/src/mcp\<close>): the data of \<open>tools.rs\<close> with the
  JSON their serialisers give, the provider on the daemon's state (\<open>provider.rs\<close>), and the handlers
  that turn its answers into results of a call. The HTTP server that carries them is not modelled;
  the printers of JSON are parameters.
\<close>

section \<open>Data\<close>

datatype mcp_error = Other bytes

definition show_mcp_error :: "mcp_error \<Rightarrow> bytes" where
  "show_mcp_error e = (case e of Other s \<Rightarrow> ''provider error: '' @ s)"

record task_info =
  ti_id :: bytes
  ti_kind :: bytes
  ti_name :: bytes
  ti_status :: bytes

datatype ask_kind = PostReview | PostComment | RequestToken | Question

record ask_request =
  ak_kind :: ask_kind
  ak_summary :: bytes
  ak_payload :: json
  ak_host :: "bytes option"

datatype ask_response = AskApproved "bytes option" "u64 option" json | AskRejected bytes | AskTimedOut

fun ask_action :: "ask_kind \<Rightarrow> bytes" where
  "ask_action PostReview = ''post_review''"
| "ask_action PostComment = ''post_comment''"
| "ask_action RequestToken = ''request_token''"
| "ask_action Question = ''question''"

definition parse_kind :: "bytes \<Rightarrow> ask_kind option" where
  "parse_kind s = find (\<lambda>k. ask_action k = s) [PostReview, PostComment, RequestToken, Question]"

text \<open>The serialisers: absent options are left out, and the outcome is tagged with its status.\<close>

fun ask_response_json :: "ask_response \<Rightarrow> json" where
  "ask_response_json (AskApproved token expires payload) = JObj ([(''status'', JStr ''approved'')] @
     (case token of None \<Rightarrow> [] | Some t \<Rightarrow> [(''token'', JStr t)]) @
     (case expires of None \<Rightarrow> [] | Some e \<Rightarrow> [(''expires_at'', j_u64 e)]) @ [(''payload'', payload)])"
| "ask_response_json (AskRejected reason) = JObj [(''status'', JStr ''rejected''), (''reason'', JStr reason)]"
| "ask_response_json AskTimedOut = JObj [(''status'', JStr ''timeout'')]"

definition task_info_json :: "task_info \<Rightarrow> json" where
  "task_info_json t = JObj [(''id'', JStr (ti_id t)), (''kind'', JStr (ti_kind t)), (''name'', JStr (ti_name t)), (''status'', JStr (ti_status t))]"

text \<open>The arguments of \<open>devdev_ask\<close>: a missing payload is \<open>null\<close>, a missing or \<open>null\<close> host is none.\<close>

definition parse_ask :: "json \<Rightarrow> ask_request option" where
  "parse_ask v =
     Option.bind (Option.bind (Option.bind (json_get v ''kind'') as_str) parse_kind) (\<lambda>kind.
     Option.bind (Option.bind (json_get v ''summary'') as_str) (\<lambda>summary.
     let payload = json_at v ''payload'' in
     (case json_at v ''host'' of
        JNull \<Rightarrow> Some \<lparr>ak_kind = kind, ak_summary = summary, ak_payload = payload, ak_host = None\<rparr>
      | JStr h \<Rightarrow> Some \<lparr>ak_kind = kind, ak_summary = summary, ak_payload = payload, ak_host = Some h\<rparr>
      | _ \<Rightarrow> None)))"

section \<open>The provider\<close>

record tool_provider =
  tp_gate :: bool  \<comment> \<open>whether the gate was wired\<close>
  tp_credentials :: "credential_store option"

definition provider_new :: tool_provider where
  "provider_new = \<lparr>tp_gate = False, tp_credentials = None\<rparr>"

definition with_ask :: "credential_store \<Rightarrow> tool_provider" where
  "with_ask store = \<lparr>tp_gate = True, tp_credentials = Some store\<rparr>"

fun dyn_describe :: "'w dyn_task \<Rightarrow> bytes" where
  "dyn_describe (Watch A t) = watch_describe t"
| "dyn_describe (Monitor A t) = monitor_describe t"

definition tasks_list :: "'w dyn_task registry_state \<Rightarrow> task_info list" where
  "tasks_list reg = map (\<lambda>t. \<lparr>ti_id = dyn_id t, ti_kind = dyn_type t, ti_name = dyn_describe t, ti_status = show_task_status (dyn_status t)\<rparr>)
     (task_list reg)"

definition quoted_slash :: bytes where
  "quoted_slash = [CHR 0x27] @ ''/'' @ [CHR 0x27]"

definition fs_error :: "bytes \<Rightarrow> bytes \<Rightarrow> unit fs_prog \<Rightarrow> (fs, unit, mcp_error) prog" where
  "fs_error what path m s = (case m s of (r, s') \<Rightarrow> (map_err (\<lambda>e. Other (what @ '' '' @ path @ '': '' @ debug_errno e)) r, s'))"

text \<open>Each operation on the workspace takes its samples of the clock.\<close>

definition fs_write :: "bytes \<Rightarrow> bytes \<Rightarrow> (nat \<Rightarrow> timespec) \<Rightarrow> timespec \<Rightarrow> timespec \<Rightarrow> (fs, unit, mcp_error) prog" where
  "fs_write path content clock now1 now2 =
     (if \<not> starts_with path ''/'' then fail (Other (''path must be absolute (start with '' @ quoted_slash @ ''): '' @ path))
      else and_then (case rsplit_once path (CHR ''/'') of
          Some (parent, name) \<Rightarrow> if parent \<noteq> [] then fs_error ''mkdir_p'' parent (mkdir_p parent MODE_755 clock) else ret ()
        | None \<Rightarrow> ret ()) (\<lambda>_.
      fs_error ''write_path'' path (write_path path content now1 now2)))"

section \<open>Asking\<close>

definition ask_details :: "ask_request \<Rightarrow> json" where
  "ask_details q = JObj [(''summary'', JStr (ak_summary q)), (''payload'', ak_payload q)]"

text \<open>Up to the request to the gate.\<close>

definition ask_begin :: "tool_provider \<Rightarrow> ask_request \<Rightarrow> approval_gate \<Rightarrow> (ask_phase \<times> approval_gate, mcp_error) result" where
  "ask_begin P q g =
     (if \<not> tp_gate P then Err (Other ''ask: approval gate not configured'')
      else if tp_credentials P = None then Err (Other ''ask: credential store not configured'')
      else Ok (ask_start (ask_action (ak_kind q)) (ask_details q) g))"

definition needs_token :: "ask_kind \<Rightarrow> bool" where
  "needs_token k \<longleftrightarrow> k = PostReview \<or> k = PostComment \<or> k = RequestToken"

definition asked_host :: "ask_request \<Rightarrow> repo_host_id option" where
  "asked_host q = (case ak_host q of Some h \<Rightarrow> from_browse_host h | None \<Rightarrow> Some github_com)"

text \<open>From the gate's answer to the response; \<open>text\<close> prints JSON on one line.\<close>

definition ask_finish :: "(json \<Rightarrow> bytes) \<Rightarrow> credential_store \<Rightarrow> ask_request \<Rightarrow> (unit, approval_error) result \<Rightarrow>
    (ask_response, mcp_error) result" where
  "ask_finish text store q outcome = (case outcome of
     Ok u \<Rightarrow>
       (if needs_token (ak_kind q) then
          (case asked_host q of
             None \<Rightarrow> Ok (AskRejected (''unknown ask host: '' @ (case ak_host q of Some h \<Rightarrow> h | None \<Rightarrow> [])))
           | Some h \<Rightarrow> (case store h of
               Some c \<Rightarrow> res_bind (expires_at_hint c) (\<lambda>e. Ok (AskApproved (Some (expose (cr_token c))) e (ak_payload q)))
             | None \<Rightarrow> Ok (AskApproved None None (ak_payload q))))
        else Ok (AskApproved None None (ak_payload q)))
   | Err ApprovalRejected \<Rightarrow> Ok (AskRejected ''user rejected'')
   | Err ApprovalTimeout \<Rightarrow> Ok AskTimedOut
   | Err (ApprovalDryRun action details) \<Rightarrow> Ok (AskRejected (''dry-run: '' @ action @ '' '' @ text details))
   | Err ApprovalChannelClosed \<Rightarrow> Err (Other ''ask: approval channel closed'')
   | Panic \<Rightarrow> Panic)"

section \<open>The handlers of the tools\<close>

datatype tool_result = ToolText bytes | InternalError bytes

definition tool_call :: "('a \<Rightarrow> bytes) \<Rightarrow> ('a, mcp_error) result \<Rightarrow> (tool_result, unit) result" where
  "tool_call f r = (case r of Ok x \<Rightarrow> Ok (ToolText (f x)) | Err e \<Rightarrow> Ok (InternalError (show_mcp_error e)) | Panic \<Rightarrow> Panic)"

definition devdev_tasks_list :: "(json \<Rightarrow> bytes) \<Rightarrow> 'w dyn_task registry_state \<Rightarrow> (tool_result, unit) result" where
  "devdev_tasks_list pretty reg = tool_call (\<lambda>ts. pretty (JArr (map task_info_json ts))) (Ok (tasks_list reg))"

definition devdev_fs_write :: "bytes \<Rightarrow> bytes \<Rightarrow> (nat \<Rightarrow> timespec) \<Rightarrow> timespec \<Rightarrow> timespec \<Rightarrow> fs \<Rightarrow> (tool_result, unit) result \<times> fs" where
  "devdev_fs_write path content clock now1 now2 s = (case fs_write path content clock now1 now2 s of
     (r, s') \<Rightarrow> (tool_call (\<lambda>_. ''wrote '' @ path) r, s'))"

definition devdev_ask :: "(json \<Rightarrow> bytes) \<Rightarrow> (json \<Rightarrow> bytes) \<Rightarrow> credential_store \<Rightarrow> ask_request \<Rightarrow> (unit, approval_error) result \<Rightarrow>
    (tool_result, unit) result" where
  "devdev_ask pretty text store q outcome = tool_call (pretty \<circ> ask_response_json) (ask_finish text store q outcome)"

text \<open>A provider that has only the defaults of the trait.\<close>

definition static_fs_write :: "(unit, mcp_error) result" where
  "static_fs_write = Err (Other ''fs_write not supported by this provider'')"

definition static_ask :: "(ask_response, mcp_error) result" where
  "static_ask = Err (Other ''ask not supported by this provider'')"

section \<open>Approvals\<close>

text \<open>What a request can be decided by: the responses queued before it and those sent during it.\<close>

lemma await_response_approved:
  "await_response w g = (AskDone (Ok ()), g') \<Longrightarrow> w \<noteq> AskDone (Ok ()) \<Longrightarrow> \<exists>r \<in> set (ag_responses g). rs_approve r"
  by (auto simp: await_response_def split: list.splits if_splits)

lemma await_response_responses: "await_response w g = (p, g') \<Longrightarrow> set (ag_responses g') \<subseteq> set (ag_responses g)"
  by (auto simp: await_response_def split: list.splits if_splits)

definition undecided :: "ask_phase \<times> approval_gate \<Rightarrow> bool" where
  "undecided s \<longleftrightarrow> fst s \<noteq> AskDone (Ok ()) \<and> (\<forall>r \<in> set (ag_responses (snd s)). \<not> rs_approve r)"

lemma undecided_await:
  assumes "\<forall>r \<in> set (ag_responses g). \<not> rs_approve r" "w \<noteq> AskDone (Ok ())"
  shows "undecided (await_response w g)"
proof -
  obtain p g' where a: "await_response w g = (p, g')" by (cases "await_response w g")
  have "p \<noteq> AskDone (Ok ())" using await_response_approved [of w g g'] a assms by auto
  then show ?thesis using await_response_responses [OF a] assms(1) a by (auto simp: undecided_def)
qed

lemma undecided_poll:
  assumes "undecided (p, g)"
  shows "undecided (ask_poll p g)"
proof (cases p)
  case (SendingRequest q)
  have "undecided (await_response AwaitingResponse (g\<lparr>ag_requests := ag_requests g @ [q]\<rparr>))"
    by (rule undecided_await) (use assms in \<open>simp_all add: undecided_def\<close>)
  then show ?thesis using assms SendingRequest by (simp add: undecided_def)
next
  case AwaitingResponse
  have "undecided (await_response AwaitingResponse g)" by (rule undecided_await) (use assms in \<open>simp_all add: undecided_def\<close>)
  then show ?thesis using AwaitingResponse by simp
qed (use assms in simp)

text \<open>Neither an approval nor the start of another request.\<close>

fun unapproving :: "ask_event \<Rightarrow> bool" where
  "unapproving (Respond r) = (\<not> rs_approve r)"
| "unapproving (StartAsk a d) = False"
| "unapproving _ = True"

lemma undecided_event:
  assumes "undecided s" "unapproving e"
  shows "undecided (gate_event e s)"
proof -
  obtain p g where s: "s = (p, g)" by (cases s)
  show ?thesis
  proof (cases e)
    case (StartAsk a d)
    then show ?thesis using assms(2) by simp
  next
    case PollAsk
    then show ?thesis using undecided_poll assms(1) s by simp
  next
    case ExpireAsk
    then show ?thesis using assms(1) s undecided_await [of g "AskDone (Err ApprovalTimeout)"]
      by (cases p) (auto simp: undecided_def)
  next
    case (Respond r)
    then show ?thesis using assms(1,2) s by (auto simp: undecided_def respond_def)
  next
    case TakeRequest
    then show ?thesis using assms(1) s by (auto simp: undecided_def take_request_def split: list.splits)
  next
    case DropHandle
    then show ?thesis using assms(1) s by (simp add: undecided_def)
  qed
qed

lemma undecided_run: "undecided s \<Longrightarrow> list_all unapproving es \<Longrightarrow> undecided (ask_run es s)"
  by (induction es arbitrary: s) (simp_all add: undecided_event)

lemma undecided_start:
  "ag_policy g \<noteq> AutoApprove \<Longrightarrow> \<forall>r \<in> set (ag_responses g). \<not> rs_approve r \<Longrightarrow> undecided (ask_start a d g)"
  by (cases "ag_policy g") (auto simp: ask_start_def undecided_def split: option.splits)

section \<open>Properties\<close>

text \<open>C26: Unless the gate approves everything, an ask for which no approving response is queued when it starts and
  none is sent while it runs never ends with the gate's approval, whatever polls, timeouts, rejections and reads
  of the handle happen: so what the tool answers carries no token.\<close>

theorem no_token_without_approval:
  assumes "ask_begin P q g = Ok s" and "ag_policy g \<noteq> AutoApprove" and "\<forall>r \<in> set (ag_responses g). \<not> rs_approve r"
    and "list_all unapproving es" and "fst (ask_run es s) = AskDone outcome"
  shows "ask_finish text store q outcome \<noteq> Ok (AskApproved token expires payload)"
proof -
  have "undecided s" using assms(1-3) by (auto simp: ask_begin_def undecided_start split: if_splits)
  from undecided_run [OF this assms(4)] have "outcome \<noteq> Ok ()" using assms(5) by (auto simp: undecided_def)
  then show ?thesis by (cases outcome) (auto simp: ask_finish_def split: approval_error.split)
qed

definition demo_ask :: ask_request where
  "demo_ask = \<lparr>ak_kind = RequestToken, ak_summary = ''s'', ak_payload = JNull, ak_host = None\<rparr>"

theorem no_token_without_approval_witness:
  "ask_finish (\<lambda>_. []) (\<lambda>_. None) demo_ask (Err ApprovalTimeout) \<noteq> Ok (AskApproved None None JNull)"
proof (rule no_token_without_approval)
  let ?g = "approval_channel Ask"
  show "ask_begin (with_ask (\<lambda>_. None)) demo_ask ?g = Ok (ask_start (ask_action (ak_kind demo_ask)) (ask_details demo_ask) ?g)"
    by (simp add: ask_begin_def with_ask_def)
  show "ag_policy ?g \<noteq> AutoApprove" "\<forall>r \<in> set (ag_responses ?g). \<not> rs_approve r" by code_simp+
  show "list_all unapproving [PollAsk, ExpireAsk]" by simp
  show "fst (ask_run [PollAsk, ExpireAsk] (ask_start (ask_action (ak_kind demo_ask)) (ask_details demo_ask) ?g)) = AskDone (Err ApprovalTimeout)"
    by code_simp
qed

text \<open>
  A token comes back exactly when the gate approved, the kind of the ask wants one and
  the store has a credential of the host that was asked for: it is that credential's token, with
  its expiry and the payload of the request.
\<close>

lemma token_of_asked_host:
  "ask_finish text store q outcome = Ok (AskApproved (Some token) expires payload) \<longleftrightarrow>
    outcome = Ok () \<and> needs_token (ak_kind q) \<and> payload = ak_payload q \<and>
    (\<exists>h c. asked_host q = Some h \<and> store h = Some c \<and> expose (cr_token c) = token \<and>
       expires_at_hint c = (Ok expires :: (u64 option, mcp_error) result))"
  by (cases outcome) (auto simp: ask_finish_def split: option.splits approval_error.splits)

text \<open>What \<open>fs_write\<close> leaves in a consistent workspace when it succeeds.\<close>

lemma fs_error_Ok [simp]: "fs_error what path m s = (Ok (), s') \<longleftrightarrow> m s = (Ok (), s')"
proof -
  obtain r q where m: "m s = (r, q)" by (cases "m s")
  show ?thesis by (cases r) (simp_all add: fs_error_def m)
qed

lemma fs_write_run:
  assumes "fs_wf s" "fs_write path content clock now1 now2 s = (Ok (), s')" "length content < 2 ^ 32"
  shows "read_path s' path = Ok content \<and> fs_wf s' \<and> t_grows (tree_of s) (tree_of s') \<and> starts_with path ''/''"
proof -
  have abs: "starts_with path ''/''" using assms(2) by (auto simp: fs_write_def split: if_splits)
  obtain s1 where s1: "fs_wf s1" "t_grows (tree_of s) (tree_of s1)" "write_path path content now1 now2 s1 = (Ok (), s')"
  proof (cases "\<exists>parent name. rsplit_once path (CHR ''/'') = Some (parent, name) \<and> parent \<noteq> []")
    case True
    then obtain parent name where p: "rsplit_once path (CHR ''/'') = Some (parent, name)" "parent \<noteq> []" by blast
    with assms(2) obtain s1 where "mkdir_p parent MODE_755 clock s = (Ok (), s1)" "write_path path content now1 now2 s1 = (Ok (), s')"
      by (auto simp: fs_write_def and_then_Ok split: if_splits)
    then show ?thesis using that mkdir_p_run [OF assms(1)] by blast
  next
    case False
    then have "write_path path content now1 now2 s = (Ok (), s')"
      using assms(2) by (auto simp: fs_write_def and_then_Ok split: if_splits option.splits)
    then show ?thesis using that assms(1) t_grows_refl by blast
  qed
  have "int (length content) \<le> isize_max" using assms(3) by (simp add: isize_max_def)
  from write_path_run [OF s1(1) this s1(3)] obtain i where
    w: "fs_wf s'" "t_node (tree_of s') i = Some (TFile content)" "t_grows (tree_of s1) (tree_of s')" "resolve_follow s' path = Ok i"
    by blast
  from read_path_file [OF w(1,4,2)] assms(3) w s1(2) abs show ?thesis by (auto intro: t_grows_trans)
qed

text \<open>
  C27: round trip. When the agent's tool has written a text of less than 4 GiB to a path of a
  consistent workspace, parent directories included, the daemon's \<open>fs/read\<close> of that path answers
  with exactly that text; no name of the workspace is lost.
\<close>

theorem agent_write_visible:
  assumes "fs_wf (d_fs d)" "devdev_fs_write path content clock now1 now2 (d_fs d) = (Ok (ToolText msg), s')"
    and "utf8_valid content" "length content < 2 ^ 32"
  shows "dispatch E \<lparr>rq_num = n, rq_method = ''fs/read'', rq_params = JObj [(''path'', JStr path)]\<rparr> (d\<lparr>d_fs := s'\<rparr>) =
      Some (Ok (ipc_ok n (JObj [(''content'', JStr content)])), d\<lparr>d_fs := s'\<rparr>) \<and>
    fs_wf s' \<and> t_grows (tree_of (d_fs d)) (tree_of s')"
proof -
  obtain r where r: "fs_write path content clock now1 now2 (d_fs d) = (r, s')" "tool_call (\<lambda>_. ''wrote '' @ path) r = Ok (ToolText msg)"
    using assms(2) by (auto simp: devdev_fs_write_def split: prod.splits)
  then have "r = Ok ()" by (cases r) (simp_all add: tool_call_def)
  from fs_write_run [OF assms(1) r(1) [unfolded this] assms(4)]
  show ?thesis using assms(3) by (simp add: dispatch_def handle_method_def handle_fs_read_def str_param_def json_at_def)
qed

lemma demo_daemon_fs: "d_fs demo_daemon = new \<lparr>secs = 0, nanos = 0\<rparr>"
  by (simp add: demo_daemon_def dispatch_new_def)

lemma demo_daemon_wf: "fs_wf (d_fs demo_daemon)"
  by (simp_all add: demo_daemon_def dispatch_new_def new_def with_limit_wf)

theorem agent_write_visible_witness:
  "\<exists>d :: (ledger_handle, nat) dispatch_state. dispatch demo_dispatch_env
     \<lparr>rq_num = 1, rq_method = ''fs/read'', rq_params = JObj [(''path'', JStr ''/h'')]\<rparr> d = Some (Ok (ipc_ok 1 (JObj [(''content'', JStr ''hi'')])), d)"
proof -
  let ?t = "\<lparr>secs = 0, nanos = 0\<rparr> :: timespec"
  obtain s' where w: "devdev_fs_write ''/h'' ''hi'' (\<lambda>_. ?t) ?t ?t (d_fs demo_daemon) = (fst (devdev_fs_write ''/h'' ''hi'' (\<lambda>_. ?t) ?t ?t (new ?t)), s')"
    by (metis demo_daemon_fs prod.collapse)
  have "fst (devdev_fs_write ''/h'' ''hi'' (\<lambda>_. ?t) ?t ?t (new ?t)) = Ok (ToolText ''wrote /h'')" by code_simp
  with w have "devdev_fs_write ''/h'' ''hi'' (\<lambda>_. ?t) ?t ?t (d_fs demo_daemon) = (Ok (ToolText ''wrote /h''), s')" by simp
  moreover have "utf8_valid ''hi''" by code_simp
  ultimately show ?thesis using agent_write_visible [of demo_daemon "''/h''" "''hi''" "\<lambda>_. ?t" ?t ?t "''wrote /h''" s' demo_dispatch_env 1, OF demo_daemon_wf]
    by (simp add: demo_daemon_fs) blast
qed

end
