(* ===== verification/Rpc.thy ===== *)
theory Rpc
  imports Json
begin

text \<open>
  JSON-RPC messages with their derived serialisers (\<open>crates/devdev-acp/src/protocol.rs\<close>), the
  framing of one message per line (\<open>ndjson.rs\<close>, \<open>transport.rs\<close>), and the choice of an
  authentication method (\<open>auth.rs\<close>). The parser and printer of JSON text are parameters.
\<close>

section \<open>Derived serialisers\<close>

text \<open>
  The members of a struct of the given field names: of an object, where a field may not come
  twice, or of an array, in the order of the fields.
\<close>

definition members :: "bytes list \<Rightarrow> json \<Rightarrow> (bytes \<times> json) list option" where
  "members names v = (case v of
     JObj ms \<Rightarrow> if distinct (filter (\<lambda>k. k \<in> set names) (map fst ms)) then Some ms else None
   | JArr xs \<Rightarrow> if length xs \<le> length names then Some (zip names xs) else None
   | _ \<Rightarrow> None)"

definition field :: "(bytes \<times> json) list \<Rightarrow> bytes \<Rightarrow> (json \<Rightarrow> 'a option) \<Rightarrow> 'a option" where
  "field ms k dec = Option.bind (map_of ms k) dec"

text \<open>An \<open>Option\<close> with \<open>default\<close>: absent and \<open>null\<close> are \<open>None\<close>.\<close>

definition opt_field :: "(bytes \<times> json) list \<Rightarrow> bytes \<Rightarrow> (json \<Rightarrow> 'a option) \<Rightarrow> 'a option option" where
  "opt_field ms k dec = (case map_of ms k of None \<Rightarrow> Some None | Some v \<Rightarrow> if v = JNull then Some None else map_option Some (dec v))"

definition opt_member :: "bytes \<Rightarrow> ('a \<Rightarrow> json) \<Rightarrow> 'a option \<Rightarrow> (bytes \<times> json) list" where
  "opt_member k enc x = (case x of None \<Rightarrow> [] | Some y \<Rightarrow> [(k, enc y)])"

lemma opt_member_simps [simp]: "opt_member k enc None = []" "opt_member k enc (Some y) = [(k, enc y)]"
  by (simp_all add: opt_member_def)

text \<open>Signed 32-bit numbers.\<close>

definition j_i32 :: "i32 \<Rightarrow> json" where
  "j_i32 n = JNum (sint n)"

fun as_i32 :: "json \<Rightarrow> i32 option" where
  "as_i32 (JNum n) = (if - (2 ^ 31) \<le> n \<and> n < 2 ^ 31 then Some (word_of_int n) else None)"
| "as_i32 _ = None"

lemma as_i32_j_i32 [simp]: "as_i32 (j_i32 n) = Some n"
  using sint_ge [of n] sint_lt [of n] by (simp add: j_i32_def)

lemma j_i32_not_null [simp]: "j_i32 n \<noteq> JNull" by (simp add: j_i32_def)
lemma j_u64_not_null [simp]: "j_u64 n \<noteq> JNull" by (simp add: j_u64_def)

text \<open>A serialiser and its reader, on the values that read back.\<close>

locale json_codec =
  fixes enc :: "'a \<Rightarrow> json" and dec :: "json \<Rightarrow> 'a option" and ok :: "'a \<Rightarrow> bool"
  assumes dec_enc: "ok x \<Longrightarrow> dec (enc x) = Some x"
begin

lemma inj_on_ok: "inj_on enc (Collect ok)"
  by (rule inj_onI) (metis dec_enc mem_Collect_eq option.inject)

end

section \<open>Messages\<close>

datatype request_id = IdNumber u64 | IdString bytes

text \<open>Ids are keys of a map; numbers come before strings.\<close>

instantiation request_id :: linorder
begin

fun less_eq_request_id :: "request_id \<Rightarrow> request_id \<Rightarrow> bool" where
  "less_eq_request_id (IdNumber a) (IdNumber b) = (a \<le> b)"
| "less_eq_request_id (IdNumber a) (IdString b) = True"
| "less_eq_request_id (IdString a) (IdNumber b) = False"
| "less_eq_request_id (IdString a) (IdString b) = (a \<le> b)"

definition less_request_id :: "request_id \<Rightarrow> request_id \<Rightarrow> bool" where
  "less_request_id a b \<longleftrightarrow> a \<le> b \<and> \<not> b \<le> a"

instance
proof
  fix a b c :: request_id
  show "(a < b) = (a \<le> b \<and> \<not> b \<le> a)" by (simp add: less_request_id_def)
  show "a \<le> a" by (cases a) simp_all
  show "a \<le> b \<Longrightarrow> b \<le> c \<Longrightarrow> a \<le> c" by (cases a; cases b; cases c) auto
  show "a \<le> b \<Longrightarrow> b \<le> a \<Longrightarrow> a = b" by (cases a; cases b) auto
  show "a \<le> b \<or> b \<le> a" by (cases a; cases b) auto
qed

end

record rpc_error =
  re_code :: i32
  re_message :: bytes
  re_data :: "json option"

record rpc_request =
  rq_version :: bytes
  rq_ident :: request_id
  rq_name :: bytes
  rq_args :: "json option"

record rpc_response =
  rs_version :: bytes
  rs_ident :: request_id
  rs_result :: "json option"
  rs_error :: "rpc_error option"

record rpc_notification =
  nt_version :: bytes
  nt_name :: bytes
  nt_args :: "json option"

datatype message = MRequest rpc_request | MResponse rpc_response | MNotification rpc_notification

definition request_new :: "request_id \<Rightarrow> bytes \<Rightarrow> json option \<Rightarrow> rpc_request" where
  "request_new i m ps = \<lparr>rq_version = ''2.0'', rq_ident = i, rq_name = m, rq_args = ps\<rparr>"

definition response_success :: "request_id \<Rightarrow> json \<Rightarrow> rpc_response" where
  "response_success i v = \<lparr>rs_version = ''2.0'', rs_ident = i, rs_result = Some v, rs_error = None\<rparr>"

definition response_error :: "request_id \<Rightarrow> rpc_error \<Rightarrow> rpc_response" where
  "response_error i e = \<lparr>rs_version = ''2.0'', rs_ident = i, rs_result = None, rs_error = Some e\<rparr>"

definition notification_new :: "bytes \<Rightarrow> json option \<Rightarrow> rpc_notification" where
  "notification_new m ps = \<lparr>nt_version = ''2.0'', nt_name = m, nt_args = ps\<rparr>"

definition INTERNAL_ERROR :: i32 where "INTERNAL_ERROR = - 32603"
definition METHOD_NOT_FOUND :: i32 where "METHOD_NOT_FOUND = - 32601"
definition INVALID_PARAMS :: i32 where "INVALID_PARAMS = - 32602"

subsection \<open>Serialisation\<close>

fun id_json :: "request_id \<Rightarrow> json" where
  "id_json (IdNumber n) = j_u64 n"
| "id_json (IdString s) = JStr s"

definition error_json :: "rpc_error \<Rightarrow> json" where
  "error_json e = JObj ([(''code'', j_i32 (re_code e)), (''message'', JStr (re_message e))] @ opt_member ''data'' (\<lambda>v. v) (re_data e))"

fun message_json :: "message \<Rightarrow> json" where
  "message_json (MRequest q) = JObj ([(''jsonrpc'', JStr (rq_version q)), (''id'', id_json (rq_ident q)), (''method'', JStr (rq_name q))] @
     opt_member ''params'' (\<lambda>v. v) (rq_args q))"
| "message_json (MResponse r) = JObj ([(''jsonrpc'', JStr (rs_version r)), (''id'', id_json (rs_ident r))] @
     opt_member ''result'' (\<lambda>v. v) (rs_result r) @ opt_member ''error'' error_json (rs_error r))"
| "message_json (MNotification n) = JObj ([(''jsonrpc'', JStr (nt_version n)), (''method'', JStr (nt_name n))] @
     opt_member ''params'' (\<lambda>v. v) (nt_args n))"

subsection \<open>Deserialisation\<close>

text \<open>An untagged enum is the first variant that fits.\<close>

definition id_of_json :: "json \<Rightarrow> request_id option" where
  "id_of_json v = (case as_u64 v of Some n \<Rightarrow> Some (IdNumber n) | None \<Rightarrow> map_option IdString (as_str v))"

definition error_of_json :: "json \<Rightarrow> rpc_error option" where
  "error_of_json v =
     Option.bind (members [''code'', ''message'', ''data''] v) (\<lambda>ms.
     Option.bind (field ms ''code'' as_i32) (\<lambda>code.
     Option.bind (field ms ''message'' as_str) (\<lambda>msg.
     Option.bind (opt_field ms ''data'' Some) (\<lambda>data.
     Some \<lparr>re_code = code, re_message = msg, re_data = data\<rparr>))))"

definition request_of_json :: "json \<Rightarrow> rpc_request option" where
  "request_of_json v =
     Option.bind (members [''jsonrpc'', ''id'', ''method'', ''params''] v) (\<lambda>ms.
     Option.bind (field ms ''jsonrpc'' as_str) (\<lambda>ver.
     Option.bind (field ms ''id'' id_of_json) (\<lambda>i.
     Option.bind (field ms ''method'' as_str) (\<lambda>m.
     Option.bind (opt_field ms ''params'' Some) (\<lambda>ps.
     Some \<lparr>rq_version = ver, rq_ident = i, rq_name = m, rq_args = ps\<rparr>)))))"

definition response_of_json :: "json \<Rightarrow> rpc_response option" where
  "response_of_json v =
     Option.bind (members [''jsonrpc'', ''id'', ''result'', ''error''] v) (\<lambda>ms.
     Option.bind (field ms ''jsonrpc'' as_str) (\<lambda>ver.
     Option.bind (field ms ''id'' id_of_json) (\<lambda>i.
     Option.bind (opt_field ms ''result'' Some) (\<lambda>res.
     Option.bind (opt_field ms ''error'' error_of_json) (\<lambda>err.
     Some \<lparr>rs_version = ver, rs_ident = i, rs_result = res, rs_error = err\<rparr>)))))"

definition notification_of_json :: "json \<Rightarrow> rpc_notification option" where
  "notification_of_json v =
     Option.bind (members [''jsonrpc'', ''method'', ''params''] v) (\<lambda>ms.
     Option.bind (field ms ''jsonrpc'' as_str) (\<lambda>ver.
     Option.bind (field ms ''method'' as_str) (\<lambda>m.
     Option.bind (opt_field ms ''params'' Some) (\<lambda>ps.
     Some \<lparr>nt_version = ver, nt_name = m, nt_args = ps\<rparr>))))"

definition message_of_json :: "json \<Rightarrow> message option" where
  "message_of_json v = (case request_of_json v of Some q \<Rightarrow> Some (MRequest q)
     | None \<Rightarrow> (case response_of_json v of Some r \<Rightarrow> Some (MResponse r)
     | None \<Rightarrow> map_option MNotification (notification_of_json v)))"

section \<open>One message per line\<close>

text \<open>\<open>read_line\<close>: up to the first line feed and with it, or to the end.\<close>

fun read_line :: "bytes \<Rightarrow> bytes \<times> bytes" where
  "read_line [] = ([], [])"
| "read_line (c # cs) = (if c = CHR 0x0A then ([c], cs) else (case read_line cs of (l, r) \<Rightarrow> (c # l, r)))"

lemma read_line_rest: "read_line s = (l, r) \<Longrightarrow> l @ r = s"
  by (induction s arbitrary: l) (auto split: if_splits prod.splits)

text \<open>The next message, none at the end, or an error; and the bytes not read.\<close>

type_synonym json_parser = "bytes \<Rightarrow> json option"

function recv_message :: "json_parser \<Rightarrow> bytes \<Rightarrow> (message option, unit) result \<times> bytes" where
  "recv_message parse s = (case read_line s of (line, rest) \<Rightarrow>
     (if line = [] then (Ok None, rest)
      else if \<not> utf8_valid line then (Err (), rest)
      else let t = trim line in
        if t = [] then recv_message parse rest
        else (case Option.bind (parse t) message_of_json of
            None \<Rightarrow> (Err (), rest)
          | Some m \<Rightarrow> (Ok (Some m), rest))))"
  by pat_completeness auto

termination
proof (relation "measure (\<lambda>(parse, s). length s)", simp)
  fix s line rest
  assume "(line, rest) = read_line s" "line \<noteq> []"
  then show "((parse, rest), (parse, s)) \<in> measure (\<lambda>(parse, s). length s)" for parse :: json_parser
    using read_line_rest [of s line rest] by (cases line) auto
qed

declare recv_message.simps [simp del]

definition send_message :: "(json \<Rightarrow> bytes) \<Rightarrow> message \<Rightarrow> bytes" where
  "send_message print m = print (message_json m) @ [CHR 0x0A]"

section \<open>Authentication\<close>

definition TOKEN_ENV_VARS :: "bytes list" where
  "TOKEN_ENV_VARS = [''GH_TOKEN'', ''GITHUB_TOKEN'', ''COPILOT_GITHUB_TOKEN'']"

definition find_env_token :: "(bytes \<Rightarrow> bytes option) \<Rightarrow> (bytes \<times> bytes) option" where
  "find_env_token env = map_option (\<lambda>name. (name, the (env name)))
     (find (\<lambda>name. env name \<noteq> None \<and> env name \<noteq> Some []) TOKEN_ENV_VARS)"

datatype auth_strategy = EnvToken bytes | AuthMethod bytes | NoStrategy

definition choose_strategy :: "(bytes \<Rightarrow> bytes option) \<Rightarrow> bytes list \<Rightarrow> auth_strategy" where
  "choose_strategy env advertised = (case find_env_token env of
     Some (name, _) \<Rightarrow> EnvToken name
   | None \<Rightarrow> (case advertised of m # _ \<Rightarrow> AuthMethod m | [] \<Rightarrow> NoStrategy))"

section \<open>Round trips\<close>

text \<open>
  A present \<open>null\<close> reads back as absent: what a message is on the other side, and the messages that
  stay as they are.
\<close>

definition drop_null :: "json option \<Rightarrow> json option" where
  "drop_null v = (if v = Some JNull then None else v)"

fun read_back :: "message \<Rightarrow> message" where
  "read_back (MRequest q) = MRequest (q\<lparr>rq_args := drop_null (rq_args q)\<rparr>)"
| "read_back (MResponse r) = MResponse (r\<lparr>rs_result := drop_null (rs_result r),
     rs_error := map_option (\<lambda>e. e\<lparr>re_data := drop_null (re_data e)\<rparr>) (rs_error r)\<rparr>)"
| "read_back (MNotification n) = MNotification (n\<lparr>nt_args := drop_null (nt_args n)\<rparr>)"

fun plain_message :: "message \<Rightarrow> bool" where
  "plain_message (MRequest q) = (rq_args q \<noteq> Some JNull)"
| "plain_message (MResponse r) = (rs_result r \<noteq> Some JNull \<and> (\<forall>e. rs_error r = Some e \<longrightarrow> re_data e \<noteq> Some JNull))"
| "plain_message (MNotification n) = (nt_args n \<noteq> Some JNull)"

lemma drop_null_plain: "v \<noteq> Some JNull \<Longrightarrow> drop_null v = v" by (simp add: drop_null_def)

lemma read_back_plain: "plain_message m \<Longrightarrow> read_back m = m"
proof (cases m)
  case (MResponse r)
  then show "plain_message m \<Longrightarrow> ?thesis" by (cases "rs_error r") (simp_all add: drop_null_plain)
qed (simp_all add: drop_null_plain)

lemma id_json_back [simp]: "id_of_json (id_json i) = Some i"
  by (cases i) (simp_all add: id_of_json_def)

lemma error_json_read: "error_of_json (error_json e) = Some (e\<lparr>re_data := drop_null (re_data e)\<rparr>)"
  by (cases "re_data e") (simp_all add: error_json_def error_of_json_def members_def field_def opt_field_def drop_null_def)

lemma error_json_back: "re_data e \<noteq> Some JNull \<Longrightarrow> error_of_json (error_json e) = Some e"
  by (simp add: error_json_read drop_null_plain)

lemma error_json_not_null [simp]: "error_json e \<noteq> JNull" by (simp add: error_json_def)

lemma message_json_read: "message_of_json (message_json m) = Some (read_back m)"
proof (cases m)
  case (MRequest q)
  then show ?thesis
    by (cases "rq_args q") (simp_all add: message_of_json_def request_of_json_def members_def field_def opt_field_def drop_null_def)
next
  case (MResponse r)
  then show ?thesis
    by (cases "rs_result r"; cases "rs_error r")
      (simp_all add: message_of_json_def request_of_json_def response_of_json_def members_def field_def opt_field_def drop_null_def
        error_json_read)
next
  case (MNotification n)
  then show ?thesis
    by (cases "nt_args n")
      (simp_all add: message_of_json_def request_of_json_def response_of_json_def notification_of_json_def
        members_def field_def opt_field_def drop_null_def)
qed

lemma message_json_back: "plain_message m \<Longrightarrow> message_of_json (message_json m) = Some m"
  by (simp add: message_json_read read_back_plain)

interpretation messages: json_codec message_json message_of_json plain_message
  by unfold_locales (rule message_json_back)

interpretation rpc_errors: json_codec error_json error_of_json "\<lambda>e. re_data e \<noteq> Some JNull"
  by unfold_locales (rule error_json_back)

text \<open>The loop that reads until the end or the first error: what it read, and whether it was the end.\<close>

lemma recv_message_shorter: "recv_message parse s = (Ok (Some m), rest) \<Longrightarrow> length rest < length s"
proof (induction parse s rule: recv_message.induct)
  case (1 parse s)
  obtain line r where l: "read_line s = (line, r)" by (cases "read_line s")
  have len: "line \<noteq> [] \<Longrightarrow> length r < length s" using read_line_rest [OF l] by (cases line) auto
  show ?case
  proof (cases "line \<noteq> [] \<and> utf8_valid line \<and> trim line = []")
    case True
    with 1(1) [OF l [symmetric]] 1(2) len l show ?thesis by (force simp: recv_message.simps [of parse s])
  next
    case False
    with 1(2) len l show ?thesis by (auto simp: recv_message.simps [of parse s] Let_def split: if_splits option.splits)
  qed
qed

function recv_all :: "json_parser \<Rightarrow> bytes \<Rightarrow> message list \<times> bool" where
  "recv_all parse s = (case recv_message parse s of
     (Ok (Some m), rest) \<Rightarrow> (case recv_all parse rest of (ms, clean) \<Rightarrow> (m # ms, clean))
   | (Ok None, rest) \<Rightarrow> ([], True)
   | (Err e, rest) \<Rightarrow> ([], False)
   | (Panic, rest) \<Rightarrow> ([], False))"
  by pat_completeness auto

termination
proof (relation "measure (\<lambda>(parse, s). length s)", simp)
  fix parse :: json_parser and s rest x m
  fix r :: "(message option, unit) result"
  assume "(r, rest) = recv_message parse s" "r = Ok x" "x = Some m"
  then show "((parse, rest), (parse, s)) \<in> measure (\<lambda>(parse, s). length s)"
    using recv_message_shorter [of parse s m rest] by simp
qed

declare recv_all.simps [simp del]

text \<open>What the libraries promise of the text of a message: it is one visible line that parses back.\<close>

definition faithful_text :: "(json \<Rightarrow> bytes) \<Rightarrow> json_parser \<Rightarrow> message \<Rightarrow> bool" where
  "faithful_text print parse m \<longleftrightarrow> (let t = print (message_json m) in
     parse t = Some (message_json m) \<and> t \<noteq> [] \<and> visible (hd t) \<and> visible (last t) \<and> CHR 0x0A \<notin> set t \<and> utf8_valid (t @ [CHR 0x0A]))"

lemma read_line_append: "CHR 0x0A \<notin> set t \<Longrightarrow> read_line (t @ CHR 0x0A # rest) = (t @ [CHR 0x0A], rest)"
  by (induction t) auto

lemma recv_sent:
  assumes "faithful_text print parse m"
  shows "recv_message parse (send_message print m @ rest) = (Ok (Some (read_back m)), rest)"
proof -
  let ?t = "print (message_json m)"
  obtain c cs where t: "?t = c # cs" using assms by (cases ?t) (simp_all add: faithful_text_def Let_def)
  have f: "parse ?t = Some (message_json m)" "visible c" "visible (last (c # cs))" "CHR 0x0A \<notin> set ?t" "utf8_valid (?t @ [CHR 0x0A])"
    using assms t by (simp_all add: faithful_text_def Let_def)
  have tr: "trim (?t @ [CHR 0x0A]) = ?t" "?t \<noteq> []" using trim_line [OF f(2,3)] t by simp_all
  have "send_message print m @ rest = ?t @ CHR 0x0A # rest" by (simp add: send_message_def)
  with f(1,5) tr read_line_append [OF f(4), of rest] message_json_read show ?thesis
    by (simp add: recv_message.simps [of parse "?t @ CHR 0x0A # rest"] Let_def)
qed

section \<open>Properties\<close>

text \<open>
  C28: round trip. What one side writes the other reads: all messages sent one after the other come
  out of the stream in the same order, and then the end, for libraries that print each message as
  one line that parses back. Each is unchanged but that a \<open>params\<close>, \<open>result\<close> or error \<open>data\<close> that
  is \<open>null\<close> comes out as absent; in particular a message without such a \<open>null\<close> is unchanged.
\<close>

theorem stream_roundtrip:
  assumes "\<forall>m \<in> set ms. faithful_text print parse m"
  shows "recv_all parse (concat (map (send_message print) ms)) = (map read_back ms, True) \<and>
    (\<forall>m \<in> set ms. plain_message m \<longrightarrow> read_back m = m)"
proof
  show "recv_all parse (concat (map (send_message print) ms)) = (map read_back ms, True)"
    using assms
  proof (induction ms)
    case Nil
    then show ?case by (simp add: recv_all.simps [of parse "[]"] recv_message.simps [of parse "[]"])
  next
    case (Cons m ms)
    then have "recv_message parse (send_message print m @ concat (map (send_message print) ms)) =
        (Ok (Some (read_back m)), concat (map (send_message print) ms))"
      by (intro recv_sent) simp_all
    with Cons show ?case
      by (simp add: recv_all.simps [of parse "send_message print m @ concat (map (send_message print) ms)"])
  qed
qed (simp add: read_back_plain)

text \<open>A request and the reply \<open>null\<close> to another, with the text that \<open>serde_json\<close> prints of them.\<close>

definition demo_request :: message where
  "demo_request = MRequest (request_new (IdNumber 1) ''initialize'' None)"

definition demo_reply :: message where
  "demo_reply = MResponse (response_success (IdNumber 2) JNull)"

definition quoted :: "bytes \<Rightarrow> bytes" where
  "quoted s = map (\<lambda>c. if c = CHR ''|'' then CHR 0x22 else c) s"

definition demo_print :: "json \<Rightarrow> bytes" where
  "demo_print v = quoted (if v = message_json demo_request then ''{|jsonrpc|:|2.0|,|id|:1,|method|:|initialize|}''
     else ''{|jsonrpc|:|2.0|,|id|:2,|result|:null}'')"

definition demo_parse :: json_parser where
  "demo_parse t = find (\<lambda>v. demo_print v = t) [message_json demo_request, message_json demo_reply]"

theorem stream_roundtrip_witness:
  "recv_all demo_parse (concat (map (send_message demo_print) [demo_request, demo_reply])) =
     ([demo_request, MResponse \<lparr>rs_version = ''2.0'', rs_ident = IdNumber 2, rs_result = None, rs_error = None\<rparr>], True)"
proof -
  have u: "utf8_valid (quoted ''{|jsonrpc|:|2.0|,|id|:1,|method|:|initialize|}'' @ [CHR 0x0A])"
    "utf8_valid (quoted ''{|jsonrpc|:|2.0|,|id|:2,|result|:null}'' @ [CHR 0x0A])" by code_simp+
  have ne: "message_json demo_reply \<noteq> message_json demo_request"
    by (simp add: demo_reply_def demo_request_def request_new_def response_success_def)
  have "\<forall>m \<in> set [demo_request, demo_reply]. faithful_text demo_print demo_parse m"
    using u ne by (simp add: faithful_text_def Let_def demo_parse_def demo_print_def) (simp add: quoted_def visible_def)
  from stream_roundtrip [OF this] show ?thesis
    by (simp add: demo_request_def demo_reply_def request_new_def response_success_def drop_null_def)
qed

end
