(* ===== verification/AcpTypes.thy ===== *)
theory AcpTypes
  imports Rpc
begin

text \<open>
  The parameters and results of the agent protocol with their derived serialisers
  (\<open>crates/devdev-acp/src/types.rs\<close>). Every type comes with the JSON it is written as, the reading
  of JSON, and the fact that reading undoes writing; the locale \<open>json_codec\<close> carries that fact to
  lists and to the messages of the client.
\<close>

section \<open>Derived serialisers\<close>

definition dec_list :: "(json \<Rightarrow> 'a option) \<Rightarrow> json \<Rightarrow> 'a list option" where
  "dec_list dec v = Option.bind (as_array v) (\<lambda>xs. those (map dec xs))"

text \<open>A \<open>Vec\<close> that is left out when it is empty, and a field with a default.\<close>

definition vec_member :: "bytes \<Rightarrow> ('a \<Rightarrow> json) \<Rightarrow> 'a list \<Rightarrow> (bytes \<times> json) list" where
  "vec_member k enc xs = (if xs = [] then [] else [(k, JArr (map enc xs))])"

lemma vec_member_simps [simp]: "vec_member k enc [] = []" "vec_member k enc (x # xs) = [(k, JArr (map enc (x # xs)))]"
  by (simp_all add: vec_member_def)

definition default_field :: "'a \<Rightarrow> (bytes \<times> json) list \<Rightarrow> bytes \<Rightarrow> (json \<Rightarrow> 'a option) \<Rightarrow> 'a option" where
  "default_field d ms k dec = (case map_of ms k of None \<Rightarrow> Some d | Some v \<Rightarrow> dec v)"

definition j_word :: "'a::len word \<Rightarrow> json" where
  "j_word n = JNum (uint n)"

fun as_word :: "json \<Rightarrow> 'a::len word option" where
  "as_word (JNum n) = (if 0 \<le> n \<and> n < 2 ^ LENGTH('a) then Some (word_of_int n) else None)"
| "as_word _ = None"

lemma as_word_j_word [simp]: "as_word (j_word n) = Some n"
  using uint_bounded [of n] by (simp add: j_word_def)

lemma j_word_not_null [simp]: "j_word n \<noteq> JNull" by (simp add: j_word_def)

text \<open>A unit variant is its name, or an object of its name with \<open>null\<close>.\<close>

definition unit_variant :: "json \<Rightarrow> bytes option" where
  "unit_variant v = (case v of JStr s \<Rightarrow> Some s | JObj [(k, c)] \<Rightarrow> if c = JNull then Some k else None | _ \<Rightarrow> None)"

text \<open>
  An internally tagged enum: the tag, and the rest of the object, or of the array whose first
  element is the tag.
\<close>

definition tagged :: "bytes \<Rightarrow> json \<Rightarrow> (bytes \<times> json) option" where
  "tagged k v = (case v of
     JObj ms \<Rightarrow> (if length (filter (\<lambda>m. fst m = k) ms) = 1
        then map_option (\<lambda>t. (t, JObj (filter (\<lambda>m. fst m \<noteq> k) ms))) (Option.bind (map_of ms k) as_str) else None)
   | JArr (t # xs) \<Rightarrow> map_option (\<lambda>t. (t, JArr xs)) (as_str t)
   | _ \<Rightarrow> None)"

definition with_tag :: "bytes \<Rightarrow> bytes \<Rightarrow> json \<Rightarrow> json" where
  "with_tag k t v = (case v of JObj ms \<Rightarrow> JObj ((k, JStr t) # ms) | _ \<Rightarrow> v)"

lemma filter_no_key: "k \<notin> fst ` set ms \<Longrightarrow> filter (\<lambda>m. fst m = k) ms = [] \<and> filter (\<lambda>m. fst m \<noteq> k) ms = ms"
  by (induction ms) auto

lemma tagged_with_tag: "k \<notin> fst ` set ms \<Longrightarrow> tagged k (with_tag k t (JObj ms)) = Some (t, JObj ms)"
  using filter_no_key [of k ms] by (simp add: tagged_def with_tag_def)

lemma those_map: "(\<And>x. x \<in> set xs \<Longrightarrow> dec (enc x) = Some x) \<Longrightarrow> those (map (dec \<circ> enc) xs) = Some xs"
  by (induction xs) simp_all

text \<open>The elements of a list read back when each does.\<close>

context json_codec
begin

lemma list_back: "\<forall>x \<in> set xs. ok x \<Longrightarrow> dec_list dec (JArr (map enc xs)) = Some xs"
  using those_map [of xs dec enc] dec_enc by (simp add: dec_list_def)

end

lemma list_codec: "(\<And>x. dec (enc x) = Some x) \<Longrightarrow> dec_list dec (JArr (map enc xs)) = Some xs"
  by (rule json_codec.list_back [where ok = "\<lambda>_. True"]) (simp_all add: json_codec_def)

lemma list_codec_Cons: "(\<And>x. dec (enc x) = Some x) \<Longrightarrow> dec_list dec (JArr (enc x # map enc xs)) = Some (x # xs)"
  using list_codec [of dec enc "x # xs"] by simp

lemmas codec_simps = members_def field_def opt_field_def default_field_def list_codec list_codec_Cons

section \<open>Initialisation\<close>

record fs_capabilities =
  fc_read_text_file :: bool
  fc_write_text_file :: bool

definition fs_capabilities_json :: "fs_capabilities \<Rightarrow> json" where
  "fs_capabilities_json x = JObj [(''readTextFile'', JBool (fc_read_text_file x)), (''writeTextFile'', JBool (fc_write_text_file x))]"

definition fs_capabilities_of_json :: "json \<Rightarrow> fs_capabilities option" where
  "fs_capabilities_of_json v =
     Option.bind (members [''readTextFile'', ''writeTextFile''] v) (\<lambda>ms.
     Option.bind (field ms ''readTextFile'' as_bool) (\<lambda>f_read_text_file.
     Option.bind (field ms ''writeTextFile'' as_bool) (\<lambda>f_write_text_file.
     Some \<lparr>fc_read_text_file = f_read_text_file, fc_write_text_file = f_write_text_file\<rparr>)))"

lemma fs_capabilities_back [simp]: "fs_capabilities_of_json (fs_capabilities_json x) = Some x"
  by (simp add: fs_capabilities_json_def fs_capabilities_of_json_def codec_simps)

lemma fs_capabilities_not_null [simp]: "fs_capabilities_json x \<noteq> JNull" by (simp add: fs_capabilities_json_def)

record client_capabilities =
  cc_fs :: "fs_capabilities option"
  cc_terminal :: "bool option"

definition client_capabilities_json :: "client_capabilities \<Rightarrow> json" where
  "client_capabilities_json x = JObj (opt_member ''fs'' fs_capabilities_json (cc_fs x) @ opt_member ''terminal'' JBool (cc_terminal x))"

definition client_capabilities_of_json :: "json \<Rightarrow> client_capabilities option" where
  "client_capabilities_of_json v =
     Option.bind (members [''fs'', ''terminal''] v) (\<lambda>ms.
     Option.bind (opt_field ms ''fs'' fs_capabilities_of_json) (\<lambda>f_fs.
     Option.bind (opt_field ms ''terminal'' as_bool) (\<lambda>f_terminal.
     Some \<lparr>cc_fs = f_fs, cc_terminal = f_terminal\<rparr>)))"

lemma client_capabilities_back [simp]: "client_capabilities_of_json (client_capabilities_json x) = Some x"
  by (cases "cc_fs x"; cases "cc_terminal x"; simp add: client_capabilities_json_def client_capabilities_of_json_def codec_simps)

lemma client_capabilities_not_null [simp]: "client_capabilities_json x \<noteq> JNull" by (simp add: client_capabilities_json_def)

record client_info =
  ci_name :: bytes
  ci_version :: bytes

definition client_info_json :: "client_info \<Rightarrow> json" where
  "client_info_json x = JObj [(''name'', JStr (ci_name x)), (''version'', JStr (ci_version x))]"

definition client_info_of_json :: "json \<Rightarrow> client_info option" where
  "client_info_of_json v =
     Option.bind (members [''name'', ''version''] v) (\<lambda>ms.
     Option.bind (field ms ''name'' as_str) (\<lambda>f_name.
     Option.bind (field ms ''version'' as_str) (\<lambda>f_version.
     Some \<lparr>ci_name = f_name, ci_version = f_version\<rparr>)))"

lemma client_info_back [simp]: "client_info_of_json (client_info_json x) = Some x"
  by (simp add: client_info_json_def client_info_of_json_def codec_simps)

lemma client_info_not_null [simp]: "client_info_json x \<noteq> JNull" by (simp add: client_info_json_def)

record initialize_params =
  ip_protocol_version :: u16
  ip_client_capabilities :: client_capabilities
  ip_client_info :: client_info

definition initialize_params_json :: "initialize_params \<Rightarrow> json" where
  "initialize_params_json x = JObj [(''protocolVersion'', j_word (ip_protocol_version x)), (''clientCapabilities'', client_capabilities_json (ip_client_capabilities x)), (''clientInfo'', client_info_json (ip_client_info x))]"

definition initialize_params_of_json :: "json \<Rightarrow> initialize_params option" where
  "initialize_params_of_json v =
     Option.bind (members [''protocolVersion'', ''clientCapabilities'', ''clientInfo''] v) (\<lambda>ms.
     Option.bind (field ms ''protocolVersion'' as_word) (\<lambda>f_protocol_version.
     Option.bind (field ms ''clientCapabilities'' client_capabilities_of_json) (\<lambda>f_client_capabilities.
     Option.bind (field ms ''clientInfo'' client_info_of_json) (\<lambda>f_client_info.
     Some \<lparr>ip_protocol_version = f_protocol_version, ip_client_capabilities = f_client_capabilities, ip_client_info = f_client_info\<rparr>))))"

lemma initialize_params_back [simp]: "initialize_params_of_json (initialize_params_json x) = Some x"
  by (simp add: initialize_params_json_def initialize_params_of_json_def codec_simps)

lemma initialize_params_not_null [simp]: "initialize_params_json x \<noteq> JNull" by (simp add: initialize_params_json_def)

record agent_info =
  ai_name :: bytes
  ai_version :: bytes

definition agent_info_json :: "agent_info \<Rightarrow> json" where
  "agent_info_json x = JObj [(''name'', JStr (ai_name x)), (''version'', JStr (ai_version x))]"

definition agent_info_of_json :: "json \<Rightarrow> agent_info option" where
  "agent_info_of_json v =
     Option.bind (members [''name'', ''version''] v) (\<lambda>ms.
     Option.bind (field ms ''name'' as_str) (\<lambda>f_name.
     Option.bind (field ms ''version'' as_str) (\<lambda>f_version.
     Some \<lparr>ai_name = f_name, ai_version = f_version\<rparr>)))"

lemma agent_info_back [simp]: "agent_info_of_json (agent_info_json x) = Some x"
  by (simp add: agent_info_json_def agent_info_of_json_def codec_simps)

lemma agent_info_not_null [simp]: "agent_info_json x \<noteq> JNull" by (simp add: agent_info_json_def)

record agent_capabilities =
  acap_streaming :: "bool option"

definition agent_capabilities_json :: "agent_capabilities \<Rightarrow> json" where
  "agent_capabilities_json x = JObj (opt_member ''streaming'' JBool (acap_streaming x))"

definition agent_capabilities_of_json :: "json \<Rightarrow> agent_capabilities option" where
  "agent_capabilities_of_json v =
     Option.bind (members [''streaming''] v) (\<lambda>ms.
     Option.bind (opt_field ms ''streaming'' as_bool) (\<lambda>f_streaming.
     Some \<lparr>acap_streaming = f_streaming\<rparr>))"

lemma agent_capabilities_back [simp]: "agent_capabilities_of_json (agent_capabilities_json x) = Some x"
  by (cases "acap_streaming x"; simp add: agent_capabilities_json_def agent_capabilities_of_json_def codec_simps)

lemma agent_capabilities_not_null [simp]: "agent_capabilities_json x \<noteq> JNull" by (simp add: agent_capabilities_json_def)

record auth_method =
  am_id :: bytes
  am_name :: "bytes option"
  am_description :: "bytes option"

definition auth_method_json :: "auth_method \<Rightarrow> json" where
  "auth_method_json x = JObj ([(''id'', JStr (am_id x))] @ opt_member ''name'' JStr (am_name x) @ opt_member ''description'' JStr (am_description x))"

definition auth_method_of_json :: "json \<Rightarrow> auth_method option" where
  "auth_method_of_json v =
     Option.bind (members [''id'', ''name'', ''description''] v) (\<lambda>ms.
     Option.bind (field ms ''id'' as_str) (\<lambda>f_id.
     Option.bind (opt_field ms ''name'' as_str) (\<lambda>f_name.
     Option.bind (opt_field ms ''description'' as_str) (\<lambda>f_description.
     Some \<lparr>am_id = f_id, am_name = f_name, am_description = f_description\<rparr>))))"

lemma auth_method_back [simp]: "auth_method_of_json (auth_method_json x) = Some x"
  by (cases "am_name x"; cases "am_description x"; simp add: auth_method_json_def auth_method_of_json_def codec_simps)

lemma auth_method_not_null [simp]: "auth_method_json x \<noteq> JNull" by (simp add: auth_method_json_def)

record initialize_result =
  ir_protocol_version :: u16
  ir_agent_info :: agent_info
  ir_agent_capabilities :: agent_capabilities
  ir_auth_methods :: "auth_method list"

definition initialize_result_json :: "initialize_result \<Rightarrow> json" where
  "initialize_result_json x = JObj [(''protocolVersion'', j_word (ir_protocol_version x)), (''agentInfo'', agent_info_json (ir_agent_info x)), (''agentCapabilities'', agent_capabilities_json (ir_agent_capabilities x)), (''authMethods'', JArr (map auth_method_json (ir_auth_methods x)))]"

definition initialize_result_of_json :: "json \<Rightarrow> initialize_result option" where
  "initialize_result_of_json v =
     Option.bind (members [''protocolVersion'', ''agentInfo'', ''agentCapabilities'', ''authMethods''] v) (\<lambda>ms.
     Option.bind (field ms ''protocolVersion'' as_word) (\<lambda>f_protocol_version.
     Option.bind (field ms ''agentInfo'' agent_info_of_json) (\<lambda>f_agent_info.
     Option.bind (field ms ''agentCapabilities'' agent_capabilities_of_json) (\<lambda>f_agent_capabilities.
     Option.bind (field ms ''authMethods'' (dec_list auth_method_of_json)) (\<lambda>f_auth_methods.
     Some \<lparr>ir_protocol_version = f_protocol_version, ir_agent_info = f_agent_info, ir_agent_capabilities = f_agent_capabilities, ir_auth_methods = f_auth_methods\<rparr>)))))"

lemma initialize_result_back [simp]: "initialize_result_of_json (initialize_result_json x) = Some x"
  by (simp add: initialize_result_json_def initialize_result_of_json_def codec_simps)

lemma initialize_result_not_null [simp]: "initialize_result_json x \<noteq> JNull" by (simp add: initialize_result_json_def)

record authenticate_params =
  ap_method_id :: bytes
  ap_token :: "bytes option"

definition authenticate_params_json :: "authenticate_params \<Rightarrow> json" where
  "authenticate_params_json x = JObj ([(''methodId'', JStr (ap_method_id x))] @ opt_member ''token'' JStr (ap_token x))"

definition authenticate_params_of_json :: "json \<Rightarrow> authenticate_params option" where
  "authenticate_params_of_json v =
     Option.bind (members [''methodId'', ''token''] v) (\<lambda>ms.
     Option.bind (field ms ''methodId'' as_str) (\<lambda>f_method_id.
     Option.bind (opt_field ms ''token'' as_str) (\<lambda>f_token.
     Some \<lparr>ap_method_id = f_method_id, ap_token = f_token\<rparr>)))"

lemma authenticate_params_back [simp]: "authenticate_params_of_json (authenticate_params_json x) = Some x"
  by (cases "ap_token x"; simp add: authenticate_params_json_def authenticate_params_of_json_def codec_simps)

lemma authenticate_params_not_null [simp]: "authenticate_params_json x \<noteq> JNull" by (simp add: authenticate_params_json_def)

record authenticate_result =
  ar_success :: bool

definition authenticate_result_json :: "authenticate_result \<Rightarrow> json" where
  "authenticate_result_json x = JObj [(''success'', JBool (ar_success x))]"

definition authenticate_result_of_json :: "json \<Rightarrow> authenticate_result option" where
  "authenticate_result_of_json v =
     Option.bind (members [''success''] v) (\<lambda>ms.
     Option.bind (default_field False ms ''success'' as_bool) (\<lambda>f_success.
     Some \<lparr>ar_success = f_success\<rparr>))"

lemma authenticate_result_back [simp]: "authenticate_result_of_json (authenticate_result_json x) = Some x"
  by (simp add: authenticate_result_json_def authenticate_result_of_json_def codec_simps)

lemma authenticate_result_not_null [simp]: "authenticate_result_json x \<noteq> JNull" by (simp add: authenticate_result_json_def)

section \<open>Sessions\<close>

record mcp_header =
  mh_name :: bytes
  mh_value :: bytes

definition mcp_header_json :: "mcp_header \<Rightarrow> json" where
  "mcp_header_json x = JObj [(''name'', JStr (mh_name x)), (''value'', JStr (mh_value x))]"

definition mcp_header_of_json :: "json \<Rightarrow> mcp_header option" where
  "mcp_header_of_json v =
     Option.bind (members [''name'', ''value''] v) (\<lambda>ms.
     Option.bind (field ms ''name'' as_str) (\<lambda>f_name.
     Option.bind (field ms ''value'' as_str) (\<lambda>f_value.
     Some \<lparr>mh_name = f_name, mh_value = f_value\<rparr>)))"

lemma mcp_header_back [simp]: "mcp_header_of_json (mcp_header_json x) = Some x"
  by (simp add: mcp_header_json_def mcp_header_of_json_def codec_simps)

lemma mcp_header_not_null [simp]: "mcp_header_json x \<noteq> JNull" by (simp add: mcp_header_json_def)

text \<open>The server descriptor is tagged by its \<open>type\<close>; the structs are the fields of its variants.\<close>

record mcp_http =
  mp_name :: bytes
  mp_url :: bytes
  mp_headers :: "mcp_header list"

definition mcp_http_json :: "mcp_http \<Rightarrow> json" where
  "mcp_http_json x = JObj ([(''name'', JStr (mp_name x)), (''url'', JStr (mp_url x))] @ vec_member ''headers'' mcp_header_json (mp_headers x))"

definition mcp_http_of_json :: "json \<Rightarrow> mcp_http option" where
  "mcp_http_of_json v =
     Option.bind (members [''name'', ''url'', ''headers''] v) (\<lambda>ms.
     Option.bind (field ms ''name'' as_str) (\<lambda>f_name.
     Option.bind (field ms ''url'' as_str) (\<lambda>f_url.
     Option.bind (default_field [] ms ''headers'' (dec_list mcp_header_of_json)) (\<lambda>f_headers.
     Some \<lparr>mp_name = f_name, mp_url = f_url, mp_headers = f_headers\<rparr>))))"

lemma mcp_http_back [simp]: "mcp_http_of_json (mcp_http_json x) = Some x"
  by (cases "mp_headers x"; simp add: mcp_http_json_def mcp_http_of_json_def codec_simps)

lemma mcp_http_not_null [simp]: "mcp_http_json x \<noteq> JNull" by (simp add: mcp_http_json_def)

record mcp_stdio =
  ms_name :: bytes
  ms_command :: bytes
  ms_args :: "bytes list"
  ms_env :: "mcp_header list"

definition mcp_stdio_json :: "mcp_stdio \<Rightarrow> json" where
  "mcp_stdio_json x = JObj ([(''name'', JStr (ms_name x)), (''command'', JStr (ms_command x))] @ vec_member ''args'' JStr (ms_args x) @ vec_member ''env'' mcp_header_json (ms_env x))"

definition mcp_stdio_of_json :: "json \<Rightarrow> mcp_stdio option" where
  "mcp_stdio_of_json v =
     Option.bind (members [''name'', ''command'', ''args'', ''env''] v) (\<lambda>ms.
     Option.bind (field ms ''name'' as_str) (\<lambda>f_name.
     Option.bind (field ms ''command'' as_str) (\<lambda>f_command.
     Option.bind (default_field [] ms ''args'' (dec_list as_str)) (\<lambda>f_args.
     Option.bind (default_field [] ms ''env'' (dec_list mcp_header_of_json)) (\<lambda>f_env.
     Some \<lparr>ms_name = f_name, ms_command = f_command, ms_args = f_args, ms_env = f_env\<rparr>)))))"

lemma mcp_stdio_back [simp]: "mcp_stdio_of_json (mcp_stdio_json x) = Some x"
  by (cases "ms_args x"; cases "ms_env x"; simp add: mcp_stdio_json_def mcp_stdio_of_json_def codec_simps)

lemma mcp_stdio_not_null [simp]: "mcp_stdio_json x \<noteq> JNull" by (simp add: mcp_stdio_json_def)

datatype mcp_server_config = McpHttp mcp_http | McpSse mcp_http | McpStdio mcp_stdio

fun mcp_server_config_json :: "mcp_server_config \<Rightarrow> json" where
  "mcp_server_config_json (McpHttp c) = with_tag ''type'' ''http'' (mcp_http_json c)"
| "mcp_server_config_json (McpSse c) = with_tag ''type'' ''sse'' (mcp_http_json c)"
| "mcp_server_config_json (McpStdio c) = with_tag ''type'' ''stdio'' (mcp_stdio_json c)"

definition mcp_server_config_of_json :: "json \<Rightarrow> mcp_server_config option" where
  "mcp_server_config_of_json v = Option.bind (tagged ''type'' v) (\<lambda>(t, c).
     if t = ''http'' then map_option McpHttp (mcp_http_of_json c)
     else if t = ''sse'' then map_option McpSse (mcp_http_of_json c)
     else if t = ''stdio'' then map_option McpStdio (mcp_stdio_of_json c)
     else None)"

lemma tagged_mcp:
  "tagged ''type'' (with_tag ''type'' t (mcp_http_json c)) = Some (t, mcp_http_json c)"
  "tagged ''type'' (with_tag ''type'' t (mcp_stdio_json d)) = Some (t, mcp_stdio_json d)"
  unfolding mcp_http_json_def mcp_stdio_json_def
  by (rule tagged_with_tag; auto simp: vec_member_def)+

lemma mcp_server_config_back [simp]: "mcp_server_config_of_json (mcp_server_config_json x) = Some x"
  by (cases x) (simp_all add: mcp_server_config_of_json_def tagged_mcp)

record new_session_params =
  ns_cwd :: bytes
  ns_mcp_servers :: "mcp_server_config list"

definition new_session_params_json :: "new_session_params \<Rightarrow> json" where
  "new_session_params_json x = JObj [(''cwd'', JStr (ns_cwd x)), (''mcpServers'', JArr (map mcp_server_config_json (ns_mcp_servers x)))]"

definition new_session_params_of_json :: "json \<Rightarrow> new_session_params option" where
  "new_session_params_of_json v =
     Option.bind (members [''cwd'', ''mcpServers''] v) (\<lambda>ms.
     Option.bind (field ms ''cwd'' as_str) (\<lambda>f_cwd.
     Option.bind (default_field [] ms ''mcpServers'' (dec_list mcp_server_config_of_json)) (\<lambda>f_mcp_servers.
     Some \<lparr>ns_cwd = f_cwd, ns_mcp_servers = f_mcp_servers\<rparr>)))"

lemma new_session_params_back [simp]: "new_session_params_of_json (new_session_params_json x) = Some x"
  by (simp add: new_session_params_json_def new_session_params_of_json_def codec_simps)

lemma new_session_params_not_null [simp]: "new_session_params_json x \<noteq> JNull" by (simp add: new_session_params_json_def)

record new_session_result =
  nr_session_id :: bytes

definition new_session_result_json :: "new_session_result \<Rightarrow> json" where
  "new_session_result_json x = JObj [(''sessionId'', JStr (nr_session_id x))]"

definition new_session_result_of_json :: "json \<Rightarrow> new_session_result option" where
  "new_session_result_of_json v =
     Option.bind (members [''sessionId''] v) (\<lambda>ms.
     Option.bind (field ms ''sessionId'' as_str) (\<lambda>f_session_id.
     Some \<lparr>nr_session_id = f_session_id\<rparr>))"

lemma new_session_result_back [simp]: "new_session_result_of_json (new_session_result_json x) = Some x"
  by (simp add: new_session_result_json_def new_session_result_of_json_def codec_simps)

lemma new_session_result_not_null [simp]: "new_session_result_json x \<noteq> JNull" by (simp add: new_session_result_json_def)

record resource =
  re_uri :: bytes
  re_content :: "bytes option"

definition resource_json :: "resource \<Rightarrow> json" where
  "resource_json x = JObj ([(''uri'', JStr (re_uri x))] @ opt_member ''content'' JStr (re_content x))"

definition resource_of_json :: "json \<Rightarrow> resource option" where
  "resource_of_json v =
     Option.bind (members [''uri'', ''content''] v) (\<lambda>ms.
     Option.bind (field ms ''uri'' as_str) (\<lambda>f_uri.
     Option.bind (opt_field ms ''content'' as_str) (\<lambda>f_content.
     Some \<lparr>re_uri = f_uri, re_content = f_content\<rparr>)))"

lemma resource_back [simp]: "resource_of_json (resource_json x) = Some x"
  by (cases "re_content x"; simp add: resource_json_def resource_of_json_def codec_simps)

lemma resource_not_null [simp]: "resource_json x \<noteq> JNull" by (simp add: resource_json_def)

datatype prompt_content = TextContent bytes | ResourceContent resource

fun prompt_content_json :: "prompt_content \<Rightarrow> json" where
  "prompt_content_json (TextContent s) = with_tag ''type'' ''text'' (JObj [(''text'', JStr s)])"
| "prompt_content_json (ResourceContent r) = with_tag ''type'' ''resource'' (JObj [(''resource'', resource_json r)])"

definition prompt_content_of_json :: "json \<Rightarrow> prompt_content option" where
  "prompt_content_of_json v = Option.bind (tagged ''type'' v) (\<lambda>(t, c).
     if t = ''text'' then Option.bind (members [''text''] c) (\<lambda>ms. map_option TextContent (field ms ''text'' as_str))
     else if t = ''resource'' then Option.bind (members [''resource''] c) (\<lambda>ms. map_option ResourceContent (field ms ''resource'' resource_of_json))
     else None)"

lemma prompt_content_back [simp]: "prompt_content_of_json (prompt_content_json x) = Some x"
  by (cases x) (simp_all add: prompt_content_of_json_def tagged_with_tag codec_simps)

record prompt_params =
  pp_session_id :: bytes
  pp_prompt :: "prompt_content list"

definition prompt_params_json :: "prompt_params \<Rightarrow> json" where
  "prompt_params_json x = JObj [(''sessionId'', JStr (pp_session_id x)), (''prompt'', JArr (map prompt_content_json (pp_prompt x)))]"

definition prompt_params_of_json :: "json \<Rightarrow> prompt_params option" where
  "prompt_params_of_json v =
     Option.bind (members [''sessionId'', ''prompt''] v) (\<lambda>ms.
     Option.bind (field ms ''sessionId'' as_str) (\<lambda>f_session_id.
     Option.bind (field ms ''prompt'' (dec_list prompt_content_of_json)) (\<lambda>f_prompt.
     Some \<lparr>pp_session_id = f_session_id, pp_prompt = f_prompt\<rparr>)))"

lemma prompt_params_back [simp]: "prompt_params_of_json (prompt_params_json x) = Some x"
  by (simp add: prompt_params_json_def prompt_params_of_json_def codec_simps)

lemma prompt_params_not_null [simp]: "prompt_params_json x \<noteq> JNull" by (simp add: prompt_params_json_def)

text \<open>Reading also takes the snake case forms.\<close>

datatype stop_reason_kind = EndTurn | MaxTokens | MaxTurnRequests | Refusal | StopCancelled

fun stop_reason_kind_text :: "stop_reason_kind \<Rightarrow> bytes" where
  "stop_reason_kind_text EndTurn = ''endTurn''"
| "stop_reason_kind_text MaxTokens = ''maxTokens''"
| "stop_reason_kind_text MaxTurnRequests = ''maxTurnRequests''"
| "stop_reason_kind_text Refusal = ''refusal''"
| "stop_reason_kind_text StopCancelled = ''cancelled''"

definition stop_reason_kind_json :: "stop_reason_kind \<Rightarrow> json" where
  "stop_reason_kind_json x = JStr (stop_reason_kind_text x)"

definition stop_reason_kind_of_json :: "json \<Rightarrow> stop_reason_kind option" where
  "stop_reason_kind_of_json v = Option.bind (unit_variant v) (map_of [(''endTurn'', EndTurn), (''maxTokens'', MaxTokens), (''maxTurnRequests'', MaxTurnRequests), (''refusal'', Refusal), (''cancelled'', StopCancelled), (''end_turn'', EndTurn), (''max_tokens'', MaxTokens), (''max_turn_requests'', MaxTurnRequests)])"

lemma stop_reason_kind_back [simp]: "stop_reason_kind_of_json (stop_reason_kind_json x) = Some x"
  by (cases x) (simp_all add: stop_reason_kind_of_json_def stop_reason_kind_json_def unit_variant_def)

lemma stop_reason_kind_not_null [simp]: "stop_reason_kind_json x \<noteq> JNull" by (simp add: stop_reason_kind_json_def)

record prompt_result =
  pr_stop_reason :: stop_reason_kind

definition prompt_result_json :: "prompt_result \<Rightarrow> json" where
  "prompt_result_json x = JObj [(''stopReason'', stop_reason_kind_json (pr_stop_reason x))]"

definition prompt_result_of_json :: "json \<Rightarrow> prompt_result option" where
  "prompt_result_of_json v =
     Option.bind (members [''stopReason''] v) (\<lambda>ms.
     Option.bind (field ms ''stopReason'' stop_reason_kind_of_json) (\<lambda>f_stop_reason.
     Some \<lparr>pr_stop_reason = f_stop_reason\<rparr>))"

lemma prompt_result_back [simp]: "prompt_result_of_json (prompt_result_json x) = Some x"
  by (simp add: prompt_result_json_def prompt_result_of_json_def codec_simps)

lemma prompt_result_not_null [simp]: "prompt_result_json x \<noteq> JNull" by (simp add: prompt_result_json_def)

record load_session_params =
  ls_session_id :: bytes

definition load_session_params_json :: "load_session_params \<Rightarrow> json" where
  "load_session_params_json x = JObj [(''sessionId'', JStr (ls_session_id x))]"

definition load_session_params_of_json :: "json \<Rightarrow> load_session_params option" where
  "load_session_params_of_json v =
     Option.bind (members [''sessionId''] v) (\<lambda>ms.
     Option.bind (field ms ''sessionId'' as_str) (\<lambda>f_session_id.
     Some \<lparr>ls_session_id = f_session_id\<rparr>))"

lemma load_session_params_back [simp]: "load_session_params_of_json (load_session_params_json x) = Some x"
  by (simp add: load_session_params_json_def load_session_params_of_json_def codec_simps)

lemma load_session_params_not_null [simp]: "load_session_params_json x \<noteq> JNull" by (simp add: load_session_params_json_def)

record session_summary =
  su_session_id :: bytes
  su_title :: "bytes option"

definition session_summary_json :: "session_summary \<Rightarrow> json" where
  "session_summary_json x = JObj ([(''sessionId'', JStr (su_session_id x))] @ opt_member ''title'' JStr (su_title x))"

definition session_summary_of_json :: "json \<Rightarrow> session_summary option" where
  "session_summary_of_json v =
     Option.bind (members [''sessionId'', ''title''] v) (\<lambda>ms.
     Option.bind (field ms ''sessionId'' as_str) (\<lambda>f_session_id.
     Option.bind (opt_field ms ''title'' as_str) (\<lambda>f_title.
     Some \<lparr>su_session_id = f_session_id, su_title = f_title\<rparr>)))"

lemma session_summary_back [simp]: "session_summary_of_json (session_summary_json x) = Some x"
  by (cases "su_title x"; simp add: session_summary_json_def session_summary_of_json_def codec_simps)

lemma session_summary_not_null [simp]: "session_summary_json x \<noteq> JNull" by (simp add: session_summary_json_def)

record list_sessions_result =
  lr_sessions :: "session_summary list"

definition list_sessions_result_json :: "list_sessions_result \<Rightarrow> json" where
  "list_sessions_result_json x = JObj [(''sessions'', JArr (map session_summary_json (lr_sessions x)))]"

definition list_sessions_result_of_json :: "json \<Rightarrow> list_sessions_result option" where
  "list_sessions_result_of_json v =
     Option.bind (members [''sessions''] v) (\<lambda>ms.
     Option.bind (field ms ''sessions'' (dec_list session_summary_of_json)) (\<lambda>f_sessions.
     Some \<lparr>lr_sessions = f_sessions\<rparr>))"

lemma list_sessions_result_back [simp]: "list_sessions_result_of_json (list_sessions_result_json x) = Some x"
  by (simp add: list_sessions_result_json_def list_sessions_result_of_json_def codec_simps)

lemma list_sessions_result_not_null [simp]: "list_sessions_result_json x \<noteq> JNull" by (simp add: list_sessions_result_json_def)

record set_mode_params =
  sm_session_id :: bytes
  sm_mode :: bytes

definition set_mode_params_json :: "set_mode_params \<Rightarrow> json" where
  "set_mode_params_json x = JObj [(''sessionId'', JStr (sm_session_id x)), (''mode'', JStr (sm_mode x))]"

definition set_mode_params_of_json :: "json \<Rightarrow> set_mode_params option" where
  "set_mode_params_of_json v =
     Option.bind (members [''sessionId'', ''mode''] v) (\<lambda>ms.
     Option.bind (field ms ''sessionId'' as_str) (\<lambda>f_session_id.
     Option.bind (field ms ''mode'' as_str) (\<lambda>f_mode.
     Some \<lparr>sm_session_id = f_session_id, sm_mode = f_mode\<rparr>)))"

lemma set_mode_params_back [simp]: "set_mode_params_of_json (set_mode_params_json x) = Some x"
  by (simp add: set_mode_params_json_def set_mode_params_of_json_def codec_simps)

lemma set_mode_params_not_null [simp]: "set_mode_params_json x \<noteq> JNull" by (simp add: set_mode_params_json_def)

record cancel_params =
  cp_session_id :: bytes

definition cancel_params_json :: "cancel_params \<Rightarrow> json" where
  "cancel_params_json x = JObj [(''sessionId'', JStr (cp_session_id x))]"

definition cancel_params_of_json :: "json \<Rightarrow> cancel_params option" where
  "cancel_params_of_json v =
     Option.bind (members [''sessionId''] v) (\<lambda>ms.
     Option.bind (field ms ''sessionId'' as_str) (\<lambda>f_session_id.
     Some \<lparr>cp_session_id = f_session_id\<rparr>))"

lemma cancel_params_back [simp]: "cancel_params_of_json (cancel_params_json x) = Some x"
  by (simp add: cancel_params_json_def cancel_params_of_json_def codec_simps)

lemma cancel_params_not_null [simp]: "cancel_params_json x \<noteq> JNull" by (simp add: cancel_params_json_def)

section \<open>Permissions\<close>

datatype tool_call_kind = KindRead | KindEdit | KindDelete | KindMove | KindSearch | KindExecute | KindThink | KindFetch | KindOther

fun tool_call_kind_text :: "tool_call_kind \<Rightarrow> bytes" where
  "tool_call_kind_text KindRead = ''read''"
| "tool_call_kind_text KindEdit = ''edit''"
| "tool_call_kind_text KindDelete = ''delete''"
| "tool_call_kind_text KindMove = ''move''"
| "tool_call_kind_text KindSearch = ''search''"
| "tool_call_kind_text KindExecute = ''execute''"
| "tool_call_kind_text KindThink = ''think''"
| "tool_call_kind_text KindFetch = ''fetch''"
| "tool_call_kind_text KindOther = ''other''"

definition tool_call_kind_json :: "tool_call_kind \<Rightarrow> json" where
  "tool_call_kind_json x = JStr (tool_call_kind_text x)"

definition tool_call_kind_of_json :: "json \<Rightarrow> tool_call_kind option" where
  "tool_call_kind_of_json v = Option.bind (unit_variant v) (map_of [(''read'', KindRead), (''edit'', KindEdit), (''delete'', KindDelete), (''move'', KindMove), (''search'', KindSearch), (''execute'', KindExecute), (''think'', KindThink), (''fetch'', KindFetch), (''other'', KindOther)])"

lemma tool_call_kind_back [simp]: "tool_call_kind_of_json (tool_call_kind_json x) = Some x"
  by (cases x) (simp_all add: tool_call_kind_of_json_def tool_call_kind_json_def unit_variant_def)

lemma tool_call_kind_not_null [simp]: "tool_call_kind_json x \<noteq> JNull" by (simp add: tool_call_kind_json_def)

record tool_call_info =
  ti_tool_call_id :: bytes
  ti_title :: bytes
  ti_kind :: "tool_call_kind option"

definition tool_call_info_json :: "tool_call_info \<Rightarrow> json" where
  "tool_call_info_json x = JObj ([(''toolCallId'', JStr (ti_tool_call_id x)), (''title'', JStr (ti_title x))] @ opt_member ''kind'' tool_call_kind_json (ti_kind x))"

definition tool_call_info_of_json :: "json \<Rightarrow> tool_call_info option" where
  "tool_call_info_of_json v =
     Option.bind (members [''toolCallId'', ''title'', ''kind''] v) (\<lambda>ms.
     Option.bind (field ms ''toolCallId'' as_str) (\<lambda>f_tool_call_id.
     Option.bind (field ms ''title'' as_str) (\<lambda>f_title.
     Option.bind (opt_field ms ''kind'' tool_call_kind_of_json) (\<lambda>f_kind.
     Some \<lparr>ti_tool_call_id = f_tool_call_id, ti_title = f_title, ti_kind = f_kind\<rparr>))))"

lemma tool_call_info_back [simp]: "tool_call_info_of_json (tool_call_info_json x) = Some x"
  by (cases "ti_kind x"; simp add: tool_call_info_json_def tool_call_info_of_json_def codec_simps)

lemma tool_call_info_not_null [simp]: "tool_call_info_json x \<noteq> JNull" by (simp add: tool_call_info_json_def)

datatype permission_kind = AllowOnce | AllowAlways | RejectOnce | RejectAlways

fun permission_kind_text :: "permission_kind \<Rightarrow> bytes" where
  "permission_kind_text AllowOnce = ''allowOnce''"
| "permission_kind_text AllowAlways = ''allowAlways''"
| "permission_kind_text RejectOnce = ''rejectOnce''"
| "permission_kind_text RejectAlways = ''rejectAlways''"

definition permission_kind_json :: "permission_kind \<Rightarrow> json" where
  "permission_kind_json x = JStr (permission_kind_text x)"

definition permission_kind_of_json :: "json \<Rightarrow> permission_kind option" where
  "permission_kind_of_json v = Option.bind (unit_variant v) (map_of [(''allowOnce'', AllowOnce), (''allowAlways'', AllowAlways), (''rejectOnce'', RejectOnce), (''rejectAlways'', RejectAlways)])"

lemma permission_kind_back [simp]: "permission_kind_of_json (permission_kind_json x) = Some x"
  by (cases x) (simp_all add: permission_kind_of_json_def permission_kind_json_def unit_variant_def)

lemma permission_kind_not_null [simp]: "permission_kind_json x \<noteq> JNull" by (simp add: permission_kind_json_def)

record permission_option =
  po_option_id :: bytes
  po_kind :: permission_kind
  po_name :: bytes

definition permission_option_json :: "permission_option \<Rightarrow> json" where
  "permission_option_json x = JObj [(''optionId'', JStr (po_option_id x)), (''kind'', permission_kind_json (po_kind x)), (''name'', JStr (po_name x))]"

definition permission_option_of_json :: "json \<Rightarrow> permission_option option" where
  "permission_option_of_json v =
     Option.bind (members [''optionId'', ''kind'', ''name''] v) (\<lambda>ms.
     Option.bind (field ms ''optionId'' as_str) (\<lambda>f_option_id.
     Option.bind (field ms ''kind'' permission_kind_of_json) (\<lambda>f_kind.
     Option.bind (field ms ''name'' as_str) (\<lambda>f_name.
     Some \<lparr>po_option_id = f_option_id, po_kind = f_kind, po_name = f_name\<rparr>))))"

lemma permission_option_back [simp]: "permission_option_of_json (permission_option_json x) = Some x"
  by (simp add: permission_option_json_def permission_option_of_json_def codec_simps)

lemma permission_option_not_null [simp]: "permission_option_json x \<noteq> JNull" by (simp add: permission_option_json_def)

record permission_request_params =
  pq_session_id :: bytes
  pq_tool_call :: tool_call_info
  pq_options :: "permission_option list"

definition permission_request_params_json :: "permission_request_params \<Rightarrow> json" where
  "permission_request_params_json x = JObj [(''sessionId'', JStr (pq_session_id x)), (''toolCall'', tool_call_info_json (pq_tool_call x)), (''options'', JArr (map permission_option_json (pq_options x)))]"

definition permission_request_params_of_json :: "json \<Rightarrow> permission_request_params option" where
  "permission_request_params_of_json v =
     Option.bind (members [''sessionId'', ''toolCall'', ''options''] v) (\<lambda>ms.
     Option.bind (field ms ''sessionId'' as_str) (\<lambda>f_session_id.
     Option.bind (field ms ''toolCall'' tool_call_info_of_json) (\<lambda>f_tool_call.
     Option.bind (field ms ''options'' (dec_list permission_option_of_json)) (\<lambda>f_options.
     Some \<lparr>pq_session_id = f_session_id, pq_tool_call = f_tool_call, pq_options = f_options\<rparr>))))"

lemma permission_request_params_back [simp]: "permission_request_params_of_json (permission_request_params_json x) = Some x"
  by (simp add: permission_request_params_json_def permission_request_params_of_json_def codec_simps)

lemma permission_request_params_not_null [simp]: "permission_request_params_json x \<noteq> JNull" by (simp add: permission_request_params_json_def)

datatype permission_outcome = Selected bytes | OutcomeCancelled

fun permission_outcome_json :: "permission_outcome \<Rightarrow> json" where
  "permission_outcome_json (Selected i) = with_tag ''type'' ''selected'' (JObj [(''optionId'', JStr i)])"
| "permission_outcome_json OutcomeCancelled = with_tag ''type'' ''cancelled'' (JObj [])"

text \<open>A unit variant takes any rest of an object, and of an array only the empty one.\<close>

definition permission_outcome_of_json :: "json \<Rightarrow> permission_outcome option" where
  "permission_outcome_of_json v = Option.bind (tagged ''type'' v) (\<lambda>(t, c).
     if t = ''selected'' then Option.bind (members [''optionId''] c) (\<lambda>ms. map_option Selected (field ms ''optionId'' as_str))
     else if t = ''cancelled'' then (case c of JArr (x # xs) \<Rightarrow> None | _ \<Rightarrow> Some OutcomeCancelled)
     else None)"

lemma permission_outcome_back [simp]: "permission_outcome_of_json (permission_outcome_json x) = Some x"
  by (cases x) (simp_all add: permission_outcome_of_json_def tagged_with_tag codec_simps)

record permission_response =
  pn_outcome :: permission_outcome

definition permission_response_json :: "permission_response \<Rightarrow> json" where
  "permission_response_json x = JObj [(''outcome'', permission_outcome_json (pn_outcome x))]"

definition permission_response_of_json :: "json \<Rightarrow> permission_response option" where
  "permission_response_of_json v =
     Option.bind (members [''outcome''] v) (\<lambda>ms.
     Option.bind (field ms ''outcome'' permission_outcome_of_json) (\<lambda>f_outcome.
     Some \<lparr>pn_outcome = f_outcome\<rparr>))"

lemma permission_response_back [simp]: "permission_response_of_json (permission_response_json x) = Some x"
  by (simp add: permission_response_json_def permission_response_of_json_def codec_simps)

lemma permission_response_not_null [simp]: "permission_response_json x \<noteq> JNull" by (simp add: permission_response_json_def)

section \<open>Terminals and files\<close>

record env_var =
  ev_name :: bytes
  ev_value :: bytes

definition env_var_json :: "env_var \<Rightarrow> json" where
  "env_var_json x = JObj [(''name'', JStr (ev_name x)), (''value'', JStr (ev_value x))]"

definition env_var_of_json :: "json \<Rightarrow> env_var option" where
  "env_var_of_json v =
     Option.bind (members [''name'', ''value''] v) (\<lambda>ms.
     Option.bind (field ms ''name'' as_str) (\<lambda>f_name.
     Option.bind (field ms ''value'' as_str) (\<lambda>f_value.
     Some \<lparr>ev_name = f_name, ev_value = f_value\<rparr>)))"

lemma env_var_back [simp]: "env_var_of_json (env_var_json x) = Some x"
  by (simp add: env_var_json_def env_var_of_json_def codec_simps)

lemma env_var_not_null [simp]: "env_var_json x \<noteq> JNull" by (simp add: env_var_json_def)

record create_terminal_params =
  ct_session_id :: bytes
  ct_command :: bytes
  ct_args :: "bytes list"
  ct_cwd :: "bytes option"
  ct_env :: "env_var list"
  ct_output_byte_limit :: "u64 option"

definition create_terminal_params_json :: "create_terminal_params \<Rightarrow> json" where
  "create_terminal_params_json x = JObj ([(''sessionId'', JStr (ct_session_id x)), (''command'', JStr (ct_command x))] @ vec_member ''args'' JStr (ct_args x) @ opt_member ''cwd'' JStr (ct_cwd x) @ vec_member ''env'' env_var_json (ct_env x) @ opt_member ''outputByteLimit'' j_u64 (ct_output_byte_limit x))"

definition create_terminal_params_of_json :: "json \<Rightarrow> create_terminal_params option" where
  "create_terminal_params_of_json v =
     Option.bind (members [''sessionId'', ''command'', ''args'', ''cwd'', ''env'', ''outputByteLimit''] v) (\<lambda>ms.
     Option.bind (field ms ''sessionId'' as_str) (\<lambda>f_session_id.
     Option.bind (field ms ''command'' as_str) (\<lambda>f_command.
     Option.bind (default_field [] ms ''args'' (dec_list as_str)) (\<lambda>f_args.
     Option.bind (opt_field ms ''cwd'' as_str) (\<lambda>f_cwd.
     Option.bind (default_field [] ms ''env'' (dec_list env_var_of_json)) (\<lambda>f_env.
     Option.bind (opt_field ms ''outputByteLimit'' as_u64) (\<lambda>f_output_byte_limit.
     Some \<lparr>ct_session_id = f_session_id, ct_command = f_command, ct_args = f_args, ct_cwd = f_cwd, ct_env = f_env, ct_output_byte_limit = f_output_byte_limit\<rparr>)))))))"

lemma create_terminal_params_back [simp]: "create_terminal_params_of_json (create_terminal_params_json x) = Some x"
  by (cases "ct_args x"; cases "ct_cwd x"; cases "ct_env x"; cases "ct_output_byte_limit x"; simp add: create_terminal_params_json_def create_terminal_params_of_json_def codec_simps)

lemma create_terminal_params_not_null [simp]: "create_terminal_params_json x \<noteq> JNull" by (simp add: create_terminal_params_json_def)

record create_terminal_result =
  cr_terminal_id :: bytes

definition create_terminal_result_json :: "create_terminal_result \<Rightarrow> json" where
  "create_terminal_result_json x = JObj [(''terminalId'', JStr (cr_terminal_id x))]"

definition create_terminal_result_of_json :: "json \<Rightarrow> create_terminal_result option" where
  "create_terminal_result_of_json v =
     Option.bind (members [''terminalId''] v) (\<lambda>ms.
     Option.bind (field ms ''terminalId'' as_str) (\<lambda>f_terminal_id.
     Some \<lparr>cr_terminal_id = f_terminal_id\<rparr>))"

lemma create_terminal_result_back [simp]: "create_terminal_result_of_json (create_terminal_result_json x) = Some x"
  by (simp add: create_terminal_result_json_def create_terminal_result_of_json_def codec_simps)

lemma create_terminal_result_not_null [simp]: "create_terminal_result_json x \<noteq> JNull" by (simp add: create_terminal_result_json_def)

text \<open>\<open>TerminalOutputParams\<close>, \<open>WaitForExitParams\<close>, \<open>KillTerminalParams\<close> and \<open>ReleaseTerminalParams\<close> have the same fields.\<close>

record terminal_ref =
  tr_session_id :: bytes
  tr_terminal_id :: bytes

definition terminal_ref_json :: "terminal_ref \<Rightarrow> json" where
  "terminal_ref_json x = JObj [(''sessionId'', JStr (tr_session_id x)), (''terminalId'', JStr (tr_terminal_id x))]"

definition terminal_ref_of_json :: "json \<Rightarrow> terminal_ref option" where
  "terminal_ref_of_json v =
     Option.bind (members [''sessionId'', ''terminalId''] v) (\<lambda>ms.
     Option.bind (field ms ''sessionId'' as_str) (\<lambda>f_session_id.
     Option.bind (field ms ''terminalId'' as_str) (\<lambda>f_terminal_id.
     Some \<lparr>tr_session_id = f_session_id, tr_terminal_id = f_terminal_id\<rparr>)))"

lemma terminal_ref_back [simp]: "terminal_ref_of_json (terminal_ref_json x) = Some x"
  by (simp add: terminal_ref_json_def terminal_ref_of_json_def codec_simps)

lemma terminal_ref_not_null [simp]: "terminal_ref_json x \<noteq> JNull" by (simp add: terminal_ref_json_def)

record terminal_output_result =
  to_output :: bytes
  to_truncated :: bool

definition terminal_output_result_json :: "terminal_output_result \<Rightarrow> json" where
  "terminal_output_result_json x = JObj [(''output'', JStr (to_output x)), (''truncated'', JBool (to_truncated x))]"

definition terminal_output_result_of_json :: "json \<Rightarrow> terminal_output_result option" where
  "terminal_output_result_of_json v =
     Option.bind (members [''output'', ''truncated''] v) (\<lambda>ms.
     Option.bind (field ms ''output'' as_str) (\<lambda>f_output.
     Option.bind (field ms ''truncated'' as_bool) (\<lambda>f_truncated.
     Some \<lparr>to_output = f_output, to_truncated = f_truncated\<rparr>)))"

lemma terminal_output_result_back [simp]: "terminal_output_result_of_json (terminal_output_result_json x) = Some x"
  by (simp add: terminal_output_result_json_def terminal_output_result_of_json_def codec_simps)

lemma terminal_output_result_not_null [simp]: "terminal_output_result_json x \<noteq> JNull" by (simp add: terminal_output_result_json_def)

record wait_for_exit_result =
  we_exit_code :: i32

definition wait_for_exit_result_json :: "wait_for_exit_result \<Rightarrow> json" where
  "wait_for_exit_result_json x = JObj [(''exitCode'', j_i32 (we_exit_code x))]"

definition wait_for_exit_result_of_json :: "json \<Rightarrow> wait_for_exit_result option" where
  "wait_for_exit_result_of_json v =
     Option.bind (members [''exitCode''] v) (\<lambda>ms.
     Option.bind (field ms ''exitCode'' as_i32) (\<lambda>f_exit_code.
     Some \<lparr>we_exit_code = f_exit_code\<rparr>))"

lemma wait_for_exit_result_back [simp]: "wait_for_exit_result_of_json (wait_for_exit_result_json x) = Some x"
  by (simp add: wait_for_exit_result_json_def wait_for_exit_result_of_json_def codec_simps)

lemma wait_for_exit_result_not_null [simp]: "wait_for_exit_result_json x \<noteq> JNull" by (simp add: wait_for_exit_result_json_def)

record read_text_file_params =
  rf_session_id :: bytes
  rf_path :: bytes
  rf_line :: "u32 option"
  rf_limit :: "u32 option"

definition read_text_file_params_json :: "read_text_file_params \<Rightarrow> json" where
  "read_text_file_params_json x = JObj ([(''sessionId'', JStr (rf_session_id x)), (''path'', JStr (rf_path x))] @ opt_member ''line'' j_word (rf_line x) @ opt_member ''limit'' j_word (rf_limit x))"

definition read_text_file_params_of_json :: "json \<Rightarrow> read_text_file_params option" where
  "read_text_file_params_of_json v =
     Option.bind (members [''sessionId'', ''path'', ''line'', ''limit''] v) (\<lambda>ms.
     Option.bind (field ms ''sessionId'' as_str) (\<lambda>f_session_id.
     Option.bind (field ms ''path'' as_str) (\<lambda>f_path.
     Option.bind (opt_field ms ''line'' as_word) (\<lambda>f_line.
     Option.bind (opt_field ms ''limit'' as_word) (\<lambda>f_limit.
     Some \<lparr>rf_session_id = f_session_id, rf_path = f_path, rf_line = f_line, rf_limit = f_limit\<rparr>)))))"

lemma read_text_file_params_back [simp]: "read_text_file_params_of_json (read_text_file_params_json x) = Some x"
  by (cases "rf_line x"; cases "rf_limit x"; simp add: read_text_file_params_json_def read_text_file_params_of_json_def codec_simps)

lemma read_text_file_params_not_null [simp]: "read_text_file_params_json x \<noteq> JNull" by (simp add: read_text_file_params_json_def)

record read_text_file_result =
  rr_content :: bytes
  rr_truncated :: bool

definition read_text_file_result_json :: "read_text_file_result \<Rightarrow> json" where
  "read_text_file_result_json x = JObj [(''content'', JStr (rr_content x)), (''truncated'', JBool (rr_truncated x))]"

definition read_text_file_result_of_json :: "json \<Rightarrow> read_text_file_result option" where
  "read_text_file_result_of_json v =
     Option.bind (members [''content'', ''truncated''] v) (\<lambda>ms.
     Option.bind (field ms ''content'' as_str) (\<lambda>f_content.
     Option.bind (field ms ''truncated'' as_bool) (\<lambda>f_truncated.
     Some \<lparr>rr_content = f_content, rr_truncated = f_truncated\<rparr>)))"

lemma read_text_file_result_back [simp]: "read_text_file_result_of_json (read_text_file_result_json x) = Some x"
  by (simp add: read_text_file_result_json_def read_text_file_result_of_json_def codec_simps)

lemma read_text_file_result_not_null [simp]: "read_text_file_result_json x \<noteq> JNull" by (simp add: read_text_file_result_json_def)

record write_text_file_params =
  wf_session_id :: bytes
  wf_path :: bytes
  wf_content :: bytes

definition write_text_file_params_json :: "write_text_file_params \<Rightarrow> json" where
  "write_text_file_params_json x = JObj [(''sessionId'', JStr (wf_session_id x)), (''path'', JStr (wf_path x)), (''content'', JStr (wf_content x))]"

definition write_text_file_params_of_json :: "json \<Rightarrow> write_text_file_params option" where
  "write_text_file_params_of_json v =
     Option.bind (members [''sessionId'', ''path'', ''content''] v) (\<lambda>ms.
     Option.bind (field ms ''sessionId'' as_str) (\<lambda>f_session_id.
     Option.bind (field ms ''path'' as_str) (\<lambda>f_path.
     Option.bind (field ms ''content'' as_str) (\<lambda>f_content.
     Some \<lparr>wf_session_id = f_session_id, wf_path = f_path, wf_content = f_content\<rparr>))))"

lemma write_text_file_params_back [simp]: "write_text_file_params_of_json (write_text_file_params_json x) = Some x"
  by (simp add: write_text_file_params_json_def write_text_file_params_of_json_def codec_simps)

lemma write_text_file_params_not_null [simp]: "write_text_file_params_json x \<noteq> JNull" by (simp add: write_text_file_params_json_def)

section \<open>Session updates\<close>

record content_block =
  cb_text :: bytes

definition content_block_json :: "content_block \<Rightarrow> json" where
  "content_block_json x = JObj [(''text'', JStr (cb_text x))]"

definition content_block_of_json :: "json \<Rightarrow> content_block option" where
  "content_block_of_json v =
     Option.bind (members [''text''] v) (\<lambda>ms.
     Option.bind (field ms ''text'' as_str) (\<lambda>f_text.
     Some \<lparr>cb_text = f_text\<rparr>))"

lemma content_block_back [simp]: "content_block_of_json (content_block_json x) = Some x"
  by (simp add: content_block_json_def content_block_of_json_def codec_simps)

lemma content_block_not_null [simp]: "content_block_json x \<noteq> JNull" by (simp add: content_block_json_def)

datatype tool_call_status = StatusPending | InProgress | StatusCompleted | StatusFailed

fun tool_call_status_text :: "tool_call_status \<Rightarrow> bytes" where
  "tool_call_status_text StatusPending = ''pending''"
| "tool_call_status_text InProgress = ''inProgress''"
| "tool_call_status_text StatusCompleted = ''completed''"
| "tool_call_status_text StatusFailed = ''failed''"

definition tool_call_status_json :: "tool_call_status \<Rightarrow> json" where
  "tool_call_status_json x = JStr (tool_call_status_text x)"

definition tool_call_status_of_json :: "json \<Rightarrow> tool_call_status option" where
  "tool_call_status_of_json v = Option.bind (unit_variant v) (map_of [(''pending'', StatusPending), (''inProgress'', InProgress), (''completed'', StatusCompleted), (''failed'', StatusFailed)])"

lemma tool_call_status_back [simp]: "tool_call_status_of_json (tool_call_status_json x) = Some x"
  by (cases x) (simp_all add: tool_call_status_of_json_def tool_call_status_json_def unit_variant_def)

lemma tool_call_status_not_null [simp]: "tool_call_status_json x \<noteq> JNull" by (simp add: tool_call_status_json_def)

record tool_call =
  tc_tool_call_id :: bytes
  tc_title :: bytes
  tc_kind :: tool_call_kind
  tc_status :: "tool_call_status option"
  tc_raw_input :: "json option"

definition tool_call_json :: "tool_call \<Rightarrow> json" where
  "tool_call_json x = JObj ([(''toolCallId'', JStr (tc_tool_call_id x)), (''title'', JStr (tc_title x)), (''kind'', tool_call_kind_json (tc_kind x))] @ opt_member ''status'' tool_call_status_json (tc_status x) @ opt_member ''rawInput'' (\<lambda>v. v) (tc_raw_input x))"

definition tool_call_of_json :: "json \<Rightarrow> tool_call option" where
  "tool_call_of_json v =
     Option.bind (members [''toolCallId'', ''title'', ''kind'', ''status'', ''rawInput''] v) (\<lambda>ms.
     Option.bind (field ms ''toolCallId'' as_str) (\<lambda>f_tool_call_id.
     Option.bind (field ms ''title'' as_str) (\<lambda>f_title.
     Option.bind (field ms ''kind'' tool_call_kind_of_json) (\<lambda>f_kind.
     Option.bind (opt_field ms ''status'' tool_call_status_of_json) (\<lambda>f_status.
     Option.bind (opt_field ms ''rawInput'' Some) (\<lambda>f_raw_input.
     Some \<lparr>tc_tool_call_id = f_tool_call_id, tc_title = f_title, tc_kind = f_kind, tc_status = f_status, tc_raw_input = f_raw_input\<rparr>))))))"

lemma tool_call_back [simp]: "tc_raw_input x \<noteq> Some JNull \<Longrightarrow> tool_call_of_json (tool_call_json x) = Some x"
  by (cases "tc_status x"; cases "tc_raw_input x"; simp add: tool_call_json_def tool_call_of_json_def codec_simps)

lemma tool_call_not_null [simp]: "tool_call_json x \<noteq> JNull" by (simp add: tool_call_json_def)

record tool_call_update =
  tu_tool_call_id :: bytes
  tu_status :: "tool_call_status option"
  tu_output :: "bytes option"

definition tool_call_update_json :: "tool_call_update \<Rightarrow> json" where
  "tool_call_update_json x = JObj ([(''toolCallId'', JStr (tu_tool_call_id x))] @ opt_member ''status'' tool_call_status_json (tu_status x) @ opt_member ''output'' JStr (tu_output x))"

definition tool_call_update_of_json :: "json \<Rightarrow> tool_call_update option" where
  "tool_call_update_of_json v =
     Option.bind (members [''toolCallId'', ''status'', ''output''] v) (\<lambda>ms.
     Option.bind (field ms ''toolCallId'' as_str) (\<lambda>f_tool_call_id.
     Option.bind (opt_field ms ''status'' tool_call_status_of_json) (\<lambda>f_status.
     Option.bind (opt_field ms ''output'' as_str) (\<lambda>f_output.
     Some \<lparr>tu_tool_call_id = f_tool_call_id, tu_status = f_status, tu_output = f_output\<rparr>))))"

lemma tool_call_update_back [simp]: "tool_call_update_of_json (tool_call_update_json x) = Some x"
  by (cases "tu_status x"; cases "tu_output x"; simp add: tool_call_update_json_def tool_call_update_of_json_def codec_simps)

lemma tool_call_update_not_null [simp]: "tool_call_update_json x \<noteq> JNull" by (simp add: tool_call_update_json_def)

record plan_entry =
  pe_title :: bytes
  pe_status :: bytes

definition plan_entry_json :: "plan_entry \<Rightarrow> json" where
  "plan_entry_json x = JObj [(''title'', JStr (pe_title x)), (''status'', JStr (pe_status x))]"

definition plan_entry_of_json :: "json \<Rightarrow> plan_entry option" where
  "plan_entry_of_json v =
     Option.bind (members [''title'', ''status''] v) (\<lambda>ms.
     Option.bind (field ms ''title'' as_str) (\<lambda>f_title.
     Option.bind (field ms ''status'' as_str) (\<lambda>f_status.
     Some \<lparr>pe_title = f_title, pe_status = f_status\<rparr>)))"

lemma plan_entry_back [simp]: "plan_entry_of_json (plan_entry_json x) = Some x"
  by (simp add: plan_entry_json_def plan_entry_of_json_def codec_simps)

lemma plan_entry_not_null [simp]: "plan_entry_json x \<noteq> JNull" by (simp add: plan_entry_json_def)

datatype session_update = AgentMessageChunk content_block | AgentThoughtChunk content_block
  | ToolCall tool_call | ToolCallUpdate tool_call_update | Plan "plan_entry list"

fun session_update_json :: "session_update \<Rightarrow> json" where
  "session_update_json (AgentMessageChunk c) = with_tag ''sessionUpdate'' ''agent_message_chunk'' (JObj [(''content'', content_block_json c)])"
| "session_update_json (AgentThoughtChunk c) = with_tag ''sessionUpdate'' ''agent_thought_chunk'' (JObj [(''content'', content_block_json c)])"
| "session_update_json (ToolCall c) = with_tag ''sessionUpdate'' ''tool_call'' (tool_call_json c)"
| "session_update_json (ToolCallUpdate c) = with_tag ''sessionUpdate'' ''tool_call_update'' (tool_call_update_json c)"
| "session_update_json (Plan es) = with_tag ''sessionUpdate'' ''plan'' (JObj [(''entries'', JArr (map plan_entry_json es))])"

definition session_update_of_json :: "json \<Rightarrow> session_update option" where
  "session_update_of_json v = Option.bind (tagged ''sessionUpdate'' v) (\<lambda>(t, c).
     if t = ''agent_message_chunk'' then Option.bind (members [''content''] c) (\<lambda>ms. map_option AgentMessageChunk (field ms ''content'' content_block_of_json))
     else if t = ''agent_thought_chunk'' then Option.bind (members [''content''] c) (\<lambda>ms. map_option AgentThoughtChunk (field ms ''content'' content_block_of_json))
     else if t = ''tool_call'' then map_option ToolCall (tool_call_of_json c)
     else if t = ''tool_call_update'' then map_option ToolCallUpdate (tool_call_update_of_json c)
     else if t = ''plan'' then Option.bind (members [''entries''] c) (\<lambda>ms. map_option Plan (field ms ''entries'' (dec_list plan_entry_of_json)))
     else None)"

text \<open>A present \<open>null\<close> input of a tool reads back as absent.\<close>

fun plain_update :: "session_update \<Rightarrow> bool" where
  "plain_update (ToolCall c) = (tc_raw_input c \<noteq> Some JNull)"
| "plain_update _ = True"

lemma tagged_update:
  "tagged ''sessionUpdate'' (with_tag ''sessionUpdate'' t (tool_call_json c)) = Some (t, tool_call_json c)"
  "tagged ''sessionUpdate'' (with_tag ''sessionUpdate'' t (tool_call_update_json d)) = Some (t, tool_call_update_json d)"
  unfolding tool_call_json_def tool_call_update_json_def
  by (rule tagged_with_tag; auto simp: opt_member_def split: option.splits)+

lemma session_update_back: "plain_update x \<Longrightarrow> session_update_of_json (session_update_json x) = Some x"
  by (cases x) (simp_all add: session_update_of_json_def tagged_with_tag tagged_update codec_simps)

record session_update_params =
  sp_session_id :: bytes
  sp_update :: session_update

definition session_update_params_json :: "session_update_params \<Rightarrow> json" where
  "session_update_params_json x = JObj [(''sessionId'', JStr (sp_session_id x)), (''update'', session_update_json (sp_update x))]"

definition session_update_params_of_json :: "json \<Rightarrow> session_update_params option" where
  "session_update_params_of_json v =
     Option.bind (members [''sessionId'', ''update''] v) (\<lambda>ms.
     Option.bind (field ms ''sessionId'' as_str) (\<lambda>i.
     Option.bind (field ms ''update'' session_update_of_json) (\<lambda>u.
     Some \<lparr>sp_session_id = i, sp_update = u\<rparr>)))"

lemma session_update_params_back:
  "plain_update (sp_update x) \<Longrightarrow> session_update_params_of_json (session_update_params_json x) = Some x"
  by (simp add: session_update_params_of_json_def session_update_params_json_def session_update_back codec_simps)

interpretation session_updates: json_codec session_update_params_json session_update_params_of_json "\<lambda>x. plain_update (sp_update x)"
  by unfold_locales (rule session_update_params_back)

end
