(* ===== verification/AcpClient.thy ===== *)
theory AcpClient
  imports AcpTypes Tasks
begin

text \<open>
  The client of the agent protocol (\<open>crates/devdev-acp/src/client.rs\<close>): the map of pending calls,
  the bounded channel to the writer, the reader that hands responses out and the tasks that answer
  the agent's own requests. A call that is awaited is a phase that polling or its timer drives;
  each call has its oneshot channel under the number of the call.
\<close>

section \<open>Configuration and errors\<close>

definition DEFAULT_IDLE_TIMEOUT :: duration where "DEFAULT_IDLE_TIMEOUT = from_secs 60"
definition DEFAULT_REQUEST_TIMEOUT :: duration where "DEFAULT_REQUEST_TIMEOUT = from_secs 30"
definition DEFAULT_MAX_PENDING :: nat where "DEFAULT_MAX_PENDING = 1024"
definition DEFAULT_MAX_INFLIGHT_HANDLERS :: nat where "DEFAULT_MAX_INFLIGHT_HANDLERS = 256"
definition OUTGOING_CAPACITY :: nat where "OUTGOING_CAPACITY = 64"

definition AGENT_DISCONNECTED_SENTINEL :: bytes where
  "AGENT_DISCONNECTED_SENTINEL = ''__devdev_agent_disconnected__''"

record acp_config =
  cf_idle_timeout :: duration
  cf_request_timeout :: duration
  cf_client_name :: bytes
  cf_client_version :: bytes
  cf_protocol_version :: u16
  cf_max_pending :: nat
  cf_max_handlers :: nat
  cf_env_overrides :: "(bytes \<times> bytes) list"

definition default_config :: "bytes \<Rightarrow> acp_config" where
  "default_config version = \<lparr>cf_idle_timeout = DEFAULT_IDLE_TIMEOUT, cf_request_timeout = DEFAULT_REQUEST_TIMEOUT,
     cf_client_name = ''devdev'', cf_client_version = version, cf_protocol_version = 1,
     cf_max_pending = DEFAULT_MAX_PENDING, cf_max_handlers = DEFAULT_MAX_INFLIGHT_HANDLERS, cf_env_overrides = []\<rparr>"

datatype acp_error = AcpSpawn | AcpCrashed "i32 option" | AcpBrokenPipe | AcpDisconnected | AcpTimeout | AcpTransport
  | AcpRpc i32 bytes "json option" | AcpMalformed bytes | AcpShutdown | AcpNoAuth | AcpBackpressure nat

definition acp_of_rpc :: "rpc_error \<Rightarrow> acp_error" where
  "acp_of_rpc e = AcpRpc (re_code e) (re_message e) (re_data e)"

section \<open>The client\<close>

datatype oneshot = Unsent | Delivered rpc_response | Dropped

record acp =
  ac_next :: u64
  ac_pending :: "(request_id, nat) omap"
  ac_slots :: "oneshot list"
  ac_outgoing :: "message list"
  ac_writer :: bool  \<comment> \<open>the task that receives from the channel runs\<close>
  ac_reader :: bool
  ac_permits :: bool  \<comment> \<open>the semaphore of the handlers is open\<close>
  ac_handlers :: "message list"  \<comment> \<open>what the spawned tasks handle\<close>

definition connect_transport :: acp where
  "connect_transport = \<lparr>ac_next = 1, ac_pending = om_empty, ac_slots = [], ac_outgoing = [], ac_writer = True, ac_reader = True,
     ac_permits = True, ac_handlers = []\<rparr>"

text \<open>A sender that is replaced or taken out of the map is dropped.\<close>

definition drop_sender :: "request_id \<Rightarrow> acp \<Rightarrow> acp" where
  "drop_sender i s = (case om_lookup (ac_pending s) i of None \<Rightarrow> s | Some n \<Rightarrow> s\<lparr>ac_slots := (ac_slots s)[n := Dropped]\<rparr>)"

definition register :: "request_id \<Rightarrow> nat \<Rightarrow> acp \<Rightarrow> acp" where
  "register i n s = (let s = drop_sender i s in s\<lparr>ac_pending := om_insert i n (ac_pending s)\<rparr>)"

definition unregister :: "request_id \<Rightarrow> acp \<Rightarrow> acp" where
  "unregister i s = (let s = drop_sender i s in s\<lparr>ac_pending := om_remove i (ac_pending s)\<rparr>)"

section \<open>A call\<close>

datatype call_phase = CallSending rpc_request | CallWaiting request_id | CallDone "(json, acp_error) result"

text \<open>From the response to the result; reading the result as its type comes after.\<close>

definition finish_call :: "rpc_response \<Rightarrow> (json, acp_error) result" where
  "finish_call r = (case rs_error r of
     Some e \<Rightarrow> (if re_code e = INTERNAL_ERROR \<and> re_message e = AGENT_DISCONNECTED_SENTINEL then Err AcpDisconnected
       else Err (acp_of_rpc e))
   | None \<Rightarrow> Ok (case rs_result r of Some v \<Rightarrow> v | None \<Rightarrow> JNull))"

text \<open>The channel of the call is made before the map is found full.\<close>

definition call_start :: "acp_config \<Rightarrow> bytes \<Rightarrow> json option \<Rightarrow> acp \<Rightarrow> call_phase \<times> acp" where
  "call_start cf meth params s =
     (let i = IdNumber (ac_next s); n = length (ac_slots s); s = s\<lparr>ac_next := ac_next s + 1\<rparr> in
      if cf_max_pending cf \<le> om_len (ac_pending s)
      then (CallDone (Err (AcpBackpressure (cf_max_pending cf))), s\<lparr>ac_slots := ac_slots s @ [Dropped]\<rparr>)
      else (CallSending (request_new i meth params), register i n (s\<lparr>ac_slots := ac_slots s @ [Unsent]\<rparr>)))"

definition await_oneshot :: "nat \<Rightarrow> request_id \<Rightarrow> acp \<Rightarrow> call_phase" where
  "await_oneshot n i s = (case ac_slots s ! n of
     Delivered r \<Rightarrow> CallDone (finish_call r)
   | Dropped \<Rightarrow> CallDone (Err AcpBrokenPipe)
   | Unsent \<Rightarrow> CallWaiting i)"

fun call_poll :: "nat \<Rightarrow> call_phase \<Rightarrow> acp \<Rightarrow> call_phase \<times> acp" where
  "call_poll n (CallSending q) s =
     (if \<not> ac_writer s then (CallDone (Err AcpBrokenPipe), unregister (rq_ident q) s)
      else if length (ac_outgoing s) < OUTGOING_CAPACITY
      then (await_oneshot n (rq_ident q) s, s\<lparr>ac_outgoing := ac_outgoing s @ [MRequest q]\<rparr>)
      else (CallSending q, s))"
| "call_poll n (CallWaiting i) s = (await_oneshot n i s, s)"
| "call_poll n (CallDone r) s = (CallDone r, s)"

text \<open>The timer covers the wait for the response only, and looks at the channel once more.\<close>

fun call_expire :: "nat \<Rightarrow> call_phase \<Rightarrow> acp \<Rightarrow> call_phase \<times> acp" where
  "call_expire n (CallWaiting i) s =
     (if ac_slots s ! n = Unsent then (CallDone (Err AcpTimeout), unregister i s) else (await_oneshot n i s, s))"
| "call_expire n p s = (p, s)"

section \<open>The reader\<close>

fun dispatch_incoming :: "message \<Rightarrow> acp \<Rightarrow> acp" where
  "dispatch_incoming (MResponse r) s = (case om_lookup (ac_pending s) (rs_ident r) of
     Some n \<Rightarrow> s\<lparr>ac_pending := om_remove (rs_ident r) (ac_pending s), ac_slots := (ac_slots s)[n := Delivered r]\<rparr>
   | None \<Rightarrow> s)"
| "dispatch_incoming m s = s\<lparr>ac_handlers := ac_handlers s @ [m]\<rparr>"

definition disconnected :: rpc_response where
  "disconnected = \<lparr>rs_version = ''2.0'', rs_ident = IdNumber 0, rs_result = None,
     rs_error = Some \<lparr>re_code = INTERNAL_ERROR, re_message = AGENT_DISCONNECTED_SENTINEL, re_data = None\<rparr>\<rparr>"

text \<open>At the end of the stream or an error every pending call is told, and the task ends.\<close>

definition reader_end :: "acp \<Rightarrow> acp" where
  "reader_end s = s\<lparr>ac_slots := fold (\<lambda>n slots. slots[n := Delivered disconnected]) (map snd (om_entries (ac_pending s))) (ac_slots s),
     ac_pending := om_empty, ac_reader := False\<rparr>"

section \<open>Requests of the agent\<close>

record 'w acp_handler =
  ah_permission :: "permission_request_params \<Rightarrow> ('w, permission_response, rpc_error) prog"
  ah_terminal_create :: "create_terminal_params \<Rightarrow> ('w, create_terminal_result, rpc_error) prog"
  ah_terminal_output :: "terminal_ref \<Rightarrow> ('w, terminal_output_result, rpc_error) prog"
  ah_terminal_wait :: "terminal_ref \<Rightarrow> ('w, wait_for_exit_result, rpc_error) prog"
  ah_terminal_kill :: "terminal_ref \<Rightarrow> ('w, unit, rpc_error) prog"
  ah_terminal_release :: "terminal_ref \<Rightarrow> ('w, unit, rpc_error) prog"
  ah_fs_read :: "read_text_file_params \<Rightarrow> ('w, read_text_file_result, rpc_error) prog"
  ah_fs_write :: "write_text_file_params \<Rightarrow> ('w, unit, rpc_error) prog"
  ah_session_update :: "session_update_params \<Rightarrow> 'w \<Rightarrow> 'w"

text \<open>\<open>why\<close> is the text of the error of \<open>serde_json\<close> on the parameters.\<close>

definition parse_params :: "(json \<Rightarrow> bytes) \<Rightarrow> (json \<Rightarrow> 'p option) \<Rightarrow> json option \<Rightarrow> ('p, rpc_error) result" where
  "parse_params why dec ps = (let v = (case ps of Some v \<Rightarrow> v | None \<Rightarrow> JNull) in
     ok_or (dec v) \<lparr>re_code = INVALID_PARAMS, re_message = ''invalid params: '' @ why v, re_data = None\<rparr>)"

definition serve :: "(json \<Rightarrow> bytes) \<Rightarrow> (json \<Rightarrow> 'p option) \<Rightarrow> ('a \<Rightarrow> json) \<Rightarrow> ('p \<Rightarrow> ('w, 'a, rpc_error) prog) \<Rightarrow> json option \<Rightarrow>
    ('w, json, rpc_error) prog" where
  "serve why dec enc f ps = and_then (query (\<lambda>_. parse_params why dec ps)) (\<lambda>p. and_then (f p) (\<lambda>x. ret (enc x)))"

definition no_json :: "unit \<Rightarrow> json" where "no_json u = JNull"

definition handle_agent_request :: "(json \<Rightarrow> bytes) \<Rightarrow> 'w acp_handler \<Rightarrow> rpc_request \<Rightarrow> ('w, json, rpc_error) prog" where
  "handle_agent_request why H q =
     (let m = rq_name q; ps = rq_args q in
      if m = ''session/request_permission'' then serve why permission_request_params_of_json permission_response_json (ah_permission H) ps
      else if m = ''terminal/create'' then serve why create_terminal_params_of_json create_terminal_result_json (ah_terminal_create H) ps
      else if m = ''terminal/output'' then serve why terminal_ref_of_json terminal_output_result_json (ah_terminal_output H) ps
      else if m = ''terminal/wait_for_exit'' then serve why terminal_ref_of_json wait_for_exit_result_json (ah_terminal_wait H) ps
      else if m = ''terminal/kill'' then serve why terminal_ref_of_json no_json (ah_terminal_kill H) ps
      else if m = ''terminal/release'' then serve why terminal_ref_of_json no_json (ah_terminal_release H) ps
      else if m = ''fs/read_text_file'' then serve why read_text_file_params_of_json read_text_file_result_json (ah_fs_read H) ps
      else if m = ''fs/write_text_file'' then serve why write_text_file_params_of_json no_json (ah_fs_write H) ps
      else fail \<lparr>re_code = METHOD_NOT_FOUND, re_message = ''method not found: '' @ m, re_data = None\<rparr>)"

definition handle_notification :: "'w acp_handler \<Rightarrow> rpc_notification \<Rightarrow> 'w \<Rightarrow> 'w" where
  "handle_notification H n w =
     (if nt_name n = ''session/update''
      then (case session_update_params_of_json (case nt_args n of Some v \<Rightarrow> v | None \<Rightarrow> JNull) of
          Some p \<Rightarrow> ah_session_update H p w
        | None \<Rightarrow> w)
      else w)"

text \<open>The reply to a request carries its id.\<close>

fun agent_reply :: "request_id \<Rightarrow> (json, rpc_error) result \<Rightarrow> message option" where
  "agent_reply i (Ok v) = Some (MResponse (response_success i v))"
| "agent_reply i (Err e) = Some (MResponse (response_error i e))"
| "agent_reply i Panic = None"

section \<open>The calls of the protocol\<close>

definition initialize_call :: "acp_config \<Rightarrow> bytes \<times> json option" where
  "initialize_call cf = (''initialize'', Some (initialize_params_json \<lparr>ip_protocol_version = cf_protocol_version cf,
     ip_client_capabilities = \<lparr>cc_fs = Some \<lparr>fc_read_text_file = True, fc_write_text_file = True\<rparr>, cc_terminal = Some True\<rparr>,
     ip_client_info = \<lparr>ci_name = cf_client_name cf, ci_version = cf_client_version cf\<rparr>\<rparr>))"

text \<open>A strategy that needs no request, the request to send, or an error.\<close>

definition authenticate_call :: "(bytes \<Rightarrow> bytes option) \<Rightarrow> bytes list \<Rightarrow> (auth_strategy + bytes \<times> json option, acp_error) result" where
  "authenticate_call env advertised = (case choose_strategy env advertised of
     EnvToken name \<Rightarrow> Ok (Inl (EnvToken name))
   | AuthMethod m \<Rightarrow> Ok (Inr (''authenticate'', Some (authenticate_params_json
        \<lparr>ap_method_id = m, ap_token = map_option snd (find_env_token env)\<rparr>)))
   | NoStrategy \<Rightarrow> Err AcpNoAuth)"

definition new_session_call :: "new_session_params \<Rightarrow> bytes \<times> json option" where
  "new_session_call p = (''session/new'', Some (new_session_params_json p))"

definition prompt_call :: "prompt_params \<Rightarrow> bytes \<times> json option" where
  "prompt_call p = (''session/prompt'', Some (prompt_params_json p))"

definition cancel_call :: "bytes \<Rightarrow> bytes \<times> json option" where
  "cancel_call sid = (''session/cancel'', Some (cancel_params_json \<lparr>cp_session_id = sid\<rparr>))"

text \<open>The result of a call read as its type.\<close>

definition typed :: "(json \<Rightarrow> bytes) \<Rightarrow> (json \<Rightarrow> 'a option) \<Rightarrow> (json, acp_error) result \<Rightarrow> ('a, acp_error) result" where
  "typed why dec r = res_bind r (\<lambda>v. ok_or (dec v) (AcpMalformed (''deserialize result: '' @ why v)))"

text \<open>An agent without \<open>session/cancel\<close> is no error.\<close>

fun cancel_result :: "(json, acp_error) result \<Rightarrow> (unit, acp_error) result" where
  "cancel_result (Ok v) = Ok ()"
| "cancel_result (Err (AcpRpc code msg data)) = (if code = METHOD_NOT_FOUND then Ok () else Err (AcpRpc code msg data))"
| "cancel_result (Err e) = Err e"
| "cancel_result Panic = Panic"

text \<open>Shutdown ends both tasks; it tells no pending call.\<close>

definition shutdown :: "acp \<Rightarrow> acp" where
  "shutdown s = s\<lparr>ac_permits := False, ac_writer := False, ac_reader := False\<rparr>"

end
