(* ===== verification/AcpProps.thy ===== *)
theory AcpProps
  imports AcpClient
begin

text \<open>
  Runs of the agent client: calls start, are polled and time out, messages come in, the writer
  takes messages or fails, handlers reply, the stream ends and the client shuts down, in any order.
  Every finished call was answered under its own id, or failed on this side; the end of the stream
  reaches every call that waits.
\<close>

section \<open>Runs\<close>

datatype client_event = StartCall bytes "json option" | PollCall nat | ExpireCall nat | Incoming message | ReaderEnd
  | WriterSends | WriterFails | HandlerDone nat "(json, rpc_error) result" | HandlerDropped nat | ShutDown

text \<open>A handler that is done enqueues its reply, when the channel has room.\<close>

definition without :: "nat \<Rightarrow> 'a list \<Rightarrow> 'a list" where
  "without k xs = take k xs @ drop (Suc k) xs"

definition handler_done :: "nat \<Rightarrow> (json, rpc_error) result \<Rightarrow> acp \<Rightarrow> acp" where
  "handler_done k r s =
     (if length (ac_handlers s) \<le> k then s
      else let s' = s\<lparr>ac_handlers := without k (ac_handlers s)\<rparr> in
        (case ac_handlers s ! k of
           MRequest q \<Rightarrow> (case agent_reply (rq_ident q) r of
               None \<Rightarrow> s'
             | Some m \<Rightarrow> (if \<not> ac_writer s then s'
                 else if length (ac_outgoing s) < OUTGOING_CAPACITY then s'\<lparr>ac_outgoing := ac_outgoing s @ [m]\<rparr> else s))
         | _ \<Rightarrow> s'))"

fun client_step :: "acp_config \<Rightarrow> client_event \<Rightarrow> acp \<times> call_phase list \<Rightarrow> acp \<times> call_phase list" where
  "client_step cf (StartCall m ps) (s, calls) = (case call_start cf m ps s of (p, s') \<Rightarrow> (s', calls @ [p]))"
| "client_step cf (PollCall n) (s, calls) =
     (if n < length calls then (case call_poll n (calls ! n) s of (p, s') \<Rightarrow> (s', calls[n := p])) else (s, calls))"
| "client_step cf (ExpireCall n) (s, calls) =
     (if n < length calls then (case call_expire n (calls ! n) s of (p, s') \<Rightarrow> (s', calls[n := p])) else (s, calls))"
| "client_step cf (Incoming m) (s, calls) = (if ac_reader s then dispatch_incoming m s else s, calls)"
| "client_step cf ReaderEnd (s, calls) = (if ac_reader s then reader_end s else s, calls)"
| "client_step cf WriterSends (s, calls) = (if ac_writer s then s\<lparr>ac_outgoing := tl (ac_outgoing s)\<rparr> else s, calls)"
| "client_step cf WriterFails (s, calls) = (s\<lparr>ac_writer := False\<rparr>, calls)"
| "client_step cf (HandlerDone k r) (s, calls) = (handler_done k r s, calls)"
| "client_step cf (HandlerDropped k) (s, calls) = (if ac_permits s then s else s\<lparr>ac_handlers := without k (ac_handlers s)\<rparr>, calls)"
| "client_step cf ShutDown (s, calls) = (shutdown s, calls)"

primrec client_run :: "acp_config \<Rightarrow> client_event list \<Rightarrow> acp \<times> call_phase list \<Rightarrow> acp \<times> call_phase list" where
  "client_run cf [] x = x"
| "client_run cf (e # es) x = client_run cf es (client_step cf e x)"

lemma client_run_append: "client_run cf (es @ es') x = client_run cf es' (client_run cf es x)"
  by (induction es arbitrary: x) simp_all

section \<open>The invariant\<close>

text \<open>The id of the call with number \<open>n\<close>.\<close>

definition own :: "nat \<Rightarrow> request_id" where
  "own n = IdNumber (of_nat (Suc n))"

definition local_failure :: "(json, acp_error) result \<Rightarrow> bool" where
  "local_failure res \<longleftrightarrow> res = Err AcpBrokenPipe \<or> res = Err AcpDisconnected \<or> res = Err AcpTimeout \<or> (\<exists>k. res = Err (AcpBackpressure k))"

fun phase_ok :: "rpc_response set \<Rightarrow> nat \<Rightarrow> call_phase \<Rightarrow> bool" where
  "phase_ok R n (CallSending q) \<longleftrightarrow> rq_ident q = own n"
| "phase_ok R n (CallWaiting i) \<longleftrightarrow> i = own n"
| "phase_ok R n (CallDone res) \<longleftrightarrow> local_failure res \<or> (\<exists>r \<in> R. rs_ident r = own n \<and> res = finish_call r)"

text \<open>The slot of a call holds nothing but the sentinel or a response under its id that came in.\<close>

definition slot_ok :: "rpc_response set \<Rightarrow> nat \<Rightarrow> oneshot \<Rightarrow> bool" where
  "slot_ok R n x \<longleftrightarrow> (\<forall>r. x = Delivered r \<longrightarrow> r = disconnected \<or> r \<in> R \<and> rs_ident r = own n)"

lemma slot_ok_simps [simp]: "slot_ok R n Unsent" "slot_ok R n Dropped" "slot_ok R n (Delivered disconnected)"
  "slot_ok R n (Delivered r) \<longleftrightarrow> r = disconnected \<or> r \<in> R \<and> rs_ident r = own n"
  by (auto simp: slot_ok_def)

definition pending_ok :: "acp \<Rightarrow> bool" where
  "pending_ok s \<longleftrightarrow> (\<forall>i n. om_lookup (ac_pending s) i = Some n \<longrightarrow> n < length (ac_slots s) \<and> i = own n)"

definition slots_ok :: "rpc_response set \<Rightarrow> acp \<Rightarrow> bool" where
  "slots_ok R s \<longleftrightarrow> (\<forall>n < length (ac_slots s). slot_ok R n (ac_slots s ! n))"

text \<open>While the reader runs, a call whose slot is empty and that is not over is in the map.\<close>

fun over :: "call_phase \<Rightarrow> bool" where
  "over (CallDone r) = True"
| "over _ = False"

definition reachable_ok :: "rpc_response set \<Rightarrow> acp \<times> call_phase list \<Rightarrow> bool" where
  "reachable_ok R x \<longleftrightarrow> (case x of (s, calls) \<Rightarrow>
     length (ac_slots s) = length calls \<and> ac_next s = of_nat (Suc (length calls)) \<and> pending_ok s \<and> slots_ok R s \<and>
     (\<forall>n < length calls. phase_ok R n (calls ! n)) \<and>
     (ac_reader s \<longrightarrow> (\<forall>n < length calls. ac_slots s ! n = Unsent \<and> \<not> over (calls ! n) \<longrightarrow> om_lookup (ac_pending s) (own n) = Some n)))"

lemma finish_disconnected [simp]: "finish_call disconnected = Err AcpDisconnected"
  by (simp add: finish_call_def disconnected_def)

lemma await_ok:
  assumes "slots_ok R s" "n < length (ac_slots s)" "i = own n"
  shows "phase_ok R n (await_oneshot n i s)"
proof (cases "ac_slots s ! n")
  case (Delivered r)
  from assms have "slot_ok R n (ac_slots s ! n)" by (simp add: slots_ok_def)
  with Delivered show ?thesis by (auto simp: await_oneshot_def local_failure_def)
qed (use assms in \<open>simp_all add: await_oneshot_def local_failure_def\<close>)

lemma drop_sender_fields [simp]:
  "ac_next (drop_sender i s) = ac_next s" "ac_pending (drop_sender i s) = ac_pending s" "ac_reader (drop_sender i s) = ac_reader s"
  "length (ac_slots (drop_sender i s)) = length (ac_slots s)"
  by (simp_all add: drop_sender_def split: option.splits)

lemma drop_sender_slot:
  "n < length (ac_slots s) \<Longrightarrow> ac_slots (drop_sender i s) ! n = (if om_lookup (ac_pending s) i = Some n then Dropped else ac_slots s ! n)"
  by (auto simp: drop_sender_def nth_list_update split: option.splits)

lemma unregister_fields [simp]:
  "ac_next (unregister i s) = ac_next s" "ac_reader (unregister i s) = ac_reader s" "length (ac_slots (unregister i s)) = length (ac_slots s)"
  "om_lookup (ac_pending (unregister i s)) = (om_lookup (ac_pending s))(i := None)"
  by (simp_all add: unregister_def Let_def)

lemma unregister_slot:
  "n < length (ac_slots s) \<Longrightarrow> ac_slots (unregister i s) ! n = (if om_lookup (ac_pending s) i = Some n then Dropped else ac_slots s ! n)"
  by (simp add: unregister_def Let_def drop_sender_slot)

lemma fold_deliver:
  "length (fold (\<lambda>n slots. slots[n := x]) ns slots) = length slots"
  "m < length slots \<Longrightarrow> fold (\<lambda>n slots. slots[n := x]) ns slots ! m = (if m \<in> set ns then x else slots ! m)"
  by (induction ns arbitrary: slots) auto

lemma reader_end_fields [simp]:
  "ac_next (reader_end s) = ac_next s" "ac_reader (reader_end s) = False" "ac_pending (reader_end s) = om_empty"
  "length (ac_slots (reader_end s)) = length (ac_slots s)"
  by (simp_all add: reader_end_def fold_deliver)

lemma reader_end_slot:
  "n < length (ac_slots s) \<Longrightarrow> ac_slots (reader_end s) ! n =
     (if \<exists>i. om_lookup (ac_pending s) i = Some n then Delivered disconnected else ac_slots s ! n)"
proof -
  assume n: "n < length (ac_slots s)"
  have "n \<in> snd ` set (om_entries (ac_pending s)) \<longleftrightarrow> (\<exists>i. om_lookup (ac_pending s) i = Some n)"
    by (force simp: om_lookup_entries)
  then show ?thesis using n by (simp add: reader_end_def fold_deliver)
qed


section \<open>Preservation\<close>

lemma reachable_okI:
  assumes "length (ac_slots s) = length calls" "ac_next s = of_nat (Suc (length calls))" "pending_ok s" "slots_ok R s"
    and "\<And>n. n < length calls \<Longrightarrow> phase_ok R n (calls ! n)"
    and "\<And>n. ac_reader s \<Longrightarrow> n < length calls \<Longrightarrow> ac_slots s ! n = Unsent \<Longrightarrow> \<not> over (calls ! n) \<Longrightarrow> om_lookup (ac_pending s) (own n) = Some n"
  shows "reachable_ok R (s, calls)"
  using assms by (simp add: reachable_ok_def)

lemma reachable_okD:
  assumes "reachable_ok R (s, calls)"
  shows "length (ac_slots s) = length calls" "ac_next s = of_nat (Suc (length calls))" "pending_ok s" "slots_ok R s"
    and "\<And>n. n < length calls \<Longrightarrow> phase_ok R n (calls ! n)"
    and "\<And>n. ac_reader s \<Longrightarrow> n < length calls \<Longrightarrow> ac_slots s ! n = Unsent \<Longrightarrow> \<not> over (calls ! n) \<Longrightarrow> om_lookup (ac_pending s) (own n) = Some n"
  using assms by (simp_all add: reachable_ok_def)

text \<open>What touches neither the map nor the slots, and starts no reader, keeps it.\<close>

lemma reachable_ok_cong:
  assumes "reachable_ok R (s, calls)" "ac_next s' = ac_next s" "ac_pending s' = ac_pending s" "ac_slots s' = ac_slots s"
    "ac_reader s' \<Longrightarrow> ac_reader s"
  shows "reachable_ok R (s', calls)"
  using assms by (auto simp: reachable_ok_def pending_ok_def slots_ok_def)

text \<open>Phase \<open>n\<close> moves on, the state stays.\<close>

lemma reachable_ok_phase:
  assumes "reachable_ok R (s, calls)" "phase_ok R n p" "over (calls ! n) \<Longrightarrow> over p"
  shows "reachable_ok R (s, calls[n := p])"
proof (rule reachable_okI)
  note d = reachable_okD [OF assms(1)]
  fix k assume k: "k < length (calls[n := p])"
  show "phase_ok R k (calls[n := p] ! k)" using d(5) [of k] assms(2) k by (cases "k = n") simp_all
  assume "ac_reader s" "ac_slots s ! k = Unsent" "\<not> over (calls[n := p] ! k)"
  then show "om_lookup (ac_pending s) (own k) = Some k" using d(6) [of k] assms(3) k by (cases "k = n") auto
qed (use reachable_okD [OF assms(1)] in simp_all)

lemma reachable_ok_unregister:
  assumes ok: "reachable_ok R (s, calls)" and p: "phase_ok R n (CallDone res)"
  shows "reachable_ok R (unregister (own n) s, calls[n := CallDone res])"
proof (rule reachable_okI)
  note d = reachable_okD [OF ok]
  show "pending_ok (unregister (own n) s)" using d(3) by (auto simp: pending_ok_def)
  show "slots_ok R (unregister (own n) s)" using d(4) by (auto simp: slots_ok_def unregister_slot)
  fix m assume m: "m < length (calls[n := CallDone res])"
  show "phase_ok R m (calls[n := CallDone res] ! m)" using d(5) [of m] p m by (cases "m = n") auto
  assume r: "ac_reader (unregister (own n) s)" and u: "ac_slots (unregister (own n) s) ! m = Unsent"
    and o: "\<not> over (calls[n := CallDone res] ! m)"
  from u have s: "ac_slots s ! m = Unsent" "om_lookup (ac_pending s) (own n) \<noteq> Some m"
    using m d(1) by (auto simp: unregister_slot split: if_splits)
  from o m have "m \<noteq> n" "\<not> over (calls ! m)" by (cases "m = n"; simp)+
  with d(6) [of m] r s m have "om_lookup (ac_pending s) (own m) = Some m" by simp
  then show "om_lookup (ac_pending (unregister (own n) s)) (own m) = Some m" using s(2) by auto
qed (use reachable_okD [OF ok] in simp_all)

lemma reachable_ok_start:
  assumes ok: "reachable_ok R (s, calls)" and st: "call_start cf m ps s = (p, s')"
  shows "reachable_ok R (s', calls @ [p])"
proof -
  note d = reachable_okD [OF ok]
  let ?n = "length calls"
  have i: "IdNumber (ac_next s) = own ?n" by (simp add: own_def d(2))
  show ?thesis
  proof (cases "cf_max_pending cf \<le> om_len (ac_pending s)")
    case True
    with st have p: "p = CallDone (Err (AcpBackpressure (cf_max_pending cf)))"
      and s': "s' = s\<lparr>ac_next := ac_next s + 1, ac_slots := ac_slots s @ [Dropped]\<rparr>"
      by (auto simp: call_start_def Let_def)
    show ?thesis unfolding p s' using d
      by (intro reachable_okI) (auto simp: pending_ok_def slots_ok_def nth_append local_failure_def less_Suc_eq)
  next
    case False
    let ?t = "s\<lparr>ac_next := ac_next s + 1, ac_slots := ac_slots s @ [Unsent]\<rparr>"
    from False st have p: "p = CallSending (request_new (own ?n) m ps)" and s': "s' = register (own ?n) ?n ?t"
      by (auto simp: call_start_def Let_def i d(1))
    have f: "length (ac_slots s') = Suc ?n" "ac_next s' = ac_next s + 1" "ac_reader s' = ac_reader s"
      "om_lookup (ac_pending s') = (om_lookup (ac_pending s))(own ?n \<mapsto> ?n)"
      unfolding s' by (simp_all add: register_def Let_def d(1))
    have slot: "ac_slots s' ! k = (if om_lookup (ac_pending s) (own ?n) = Some k then Dropped else if k = ?n then Unsent else ac_slots s ! k)"
      if "k < Suc ?n" for k
      using that unfolding s' by (simp add: register_def Let_def drop_sender_slot d(1) nth_append)
    show ?thesis unfolding p
    proof (rule reachable_okI)
      show "pending_ok s'" using d(1,3) f by (auto simp: pending_ok_def less_Suc_eq)
      show "slots_ok R s'" using d(1,4) by (auto simp: slots_ok_def f(1) slot less_Suc_eq)
      fix k assume k: "k < length (calls @ [CallSending (request_new (own ?n) m ps)])"
      then show "phase_ok R k ((calls @ [CallSending (request_new (own ?n) m ps)]) ! k)"
        using d(5) by (auto simp: nth_append request_new_def less_Suc_eq)
      assume r: "ac_reader s'" and u: "ac_slots s' ! k = Unsent" and o: "\<not> over ((calls @ [CallSending (request_new (own ?n) m ps)]) ! k)"
      show "om_lookup (ac_pending s') (own k) = Some k"
      proof (cases "k = ?n")
        case False
        with k u o have "ac_slots s ! k = Unsent" "om_lookup (ac_pending s) (own ?n) \<noteq> Some k" "\<not> over (calls ! k)"
          by (auto simp: slot nth_append split: if_splits)
        with d(6) [of k] r k False show ?thesis by (auto simp: f)
      qed (simp add: f)
    qed (use d f in simp_all)
  qed
qed

lemma reachable_ok_poll:
  assumes ok: "reachable_ok R (s, calls)" and n: "n < length calls" and st: "call_poll n (calls ! n) s = (p, s')"
  shows "reachable_ok R (s', calls[n := p])"
proof -
  note d = reachable_okD [OF ok]
  have a: "phase_ok R n (await_oneshot n (own n) s)" using await_ok d(1,4) n by simp
  show ?thesis
  proof (cases "calls ! n")
    case (CallSending q)
    with d(5) [OF n] have q: "rq_ident q = own n" by simp
    consider "\<not> ac_writer s" | "ac_writer s" "length (ac_outgoing s) < OUTGOING_CAPACITY"
      | "ac_writer s" "\<not> length (ac_outgoing s) < OUTGOING_CAPACITY" by blast
    then show ?thesis
    proof cases
      case 1
      then show ?thesis using st CallSending q reachable_ok_unregister [OF ok, of n "Err AcpBrokenPipe"]
        by (auto simp: local_failure_def)
    next
      case 2
      then have "reachable_ok R (s, calls[n := p])" "s' = s\<lparr>ac_outgoing := ac_outgoing s @ [MRequest q]\<rparr>"
        using st CallSending q a reachable_ok_phase [OF ok, of n p] by auto
      then show ?thesis by (auto intro: reachable_ok_cong)
    next
      case 3
      then show ?thesis using st CallSending ok list_update_id [of calls n] by auto
    qed
  next
    case (CallWaiting i)
    with d(5) [OF n] have "i = own n" by simp
    then show ?thesis using st CallWaiting a reachable_ok_phase [OF ok, of n p] by auto
  next
    case (CallDone r)
    then show ?thesis using st ok list_update_id [of calls n] by auto
  qed
qed

lemma reachable_ok_expire:
  assumes ok: "reachable_ok R (s, calls)" and n: "n < length calls" and st: "call_expire n (calls ! n) s = (p, s')"
  shows "reachable_ok R (s', calls[n := p])"
proof -
  note d = reachable_okD [OF ok]
  have a: "phase_ok R n (await_oneshot n (own n) s)" using await_ok d(1,4) n by simp
  show ?thesis
  proof (cases "calls ! n")
    case (CallWaiting i)
    with d(5) [OF n] have "i = own n" by simp
    then show ?thesis using st CallWaiting a reachable_ok_phase [OF ok, of n p] reachable_ok_unregister [OF ok, of n "Err AcpTimeout"]
      by (auto simp: local_failure_def split: if_splits)
  qed (use st ok list_update_id [of calls n] in auto)
qed

lemma reachable_ok_response:
  assumes ok: "reachable_ok R (s, calls)" and r: "r \<in> R"
  shows "reachable_ok R (dispatch_incoming (MResponse r) s, calls)"
proof (cases "om_lookup (ac_pending s) (rs_ident r)")
  case (Some n)
  note d = reachable_okD [OF ok]
  from Some d(3) have n: "n < length (ac_slots s)" "rs_ident r = own n" by (auto simp: pending_ok_def)
  show ?thesis
  proof (rule reachable_okI)
    show "pending_ok (dispatch_incoming (MResponse r) s)" using d(3) Some by (auto simp: pending_ok_def)
    show "slots_ok R (dispatch_incoming (MResponse r) s)" using d(4) Some n r by (auto simp: slots_ok_def nth_list_update)
    fix k assume k: "k < length calls"
    assume "ac_reader (dispatch_incoming (MResponse r) s)" "ac_slots (dispatch_incoming (MResponse r) s) ! k = Unsent" "\<not> over (calls ! k)"
    with d(1) d(6) [of k] k Some have "k \<noteq> n" "om_lookup (ac_pending s) (own k) = Some k"
      by (cases "k = n"; simp)+
    with Some show "om_lookup (ac_pending (dispatch_incoming (MResponse r) s)) (own k) = Some k" by auto
  qed (use d Some in simp_all)
qed (use ok in simp)

lemma reachable_ok_reader_end:
  assumes ok: "reachable_ok R (s, calls)"
  shows "reachable_ok R (reader_end s, calls)"
proof -
  note d = reachable_okD [OF ok]
  have "pending_ok (reader_end s)" by (simp add: pending_ok_def)
  moreover have "slots_ok R (reader_end s)" using d(4) by (auto simp: slots_ok_def reader_end_slot)
  ultimately show ?thesis using d by (intro reachable_okI) auto
qed

definition came_in :: "client_event list \<Rightarrow> rpc_response set" where
  "came_in es = {r. Incoming (MResponse r) \<in> set es}"

lemma reachable_ok_step:
  assumes "reachable_ok R (s, calls)" "\<And>r. e = Incoming (MResponse r) \<Longrightarrow> r \<in> R"
  shows "reachable_ok R (client_step cf e (s, calls))"
proof (cases e)
  case (StartCall m ps)
  then show ?thesis using assms(1) by (auto intro: reachable_ok_start split: prod.split)
next
  case (PollCall n)
  then show ?thesis using assms(1) by (auto intro: reachable_ok_poll split: prod.split)
next
  case (ExpireCall n)
  then show ?thesis using assms(1) by (auto intro: reachable_ok_expire split: prod.split)
next
  case (Incoming m)
  then show ?thesis using assms reachable_ok_response
    by (cases m) (auto intro: reachable_ok_cong)
next
  case (HandlerDone k r)
  then show ?thesis using assms(1)
    by (auto simp: handler_done_def Let_def intro: reachable_ok_cong split: message.split option.split)
qed (use assms(1) in \<open>auto simp: shutdown_def intro: reachable_ok_cong reachable_ok_reader_end\<close>)

lemma reachable_ok_run:
  assumes "reachable_ok R x" "came_in es \<subseteq> R"
  shows "reachable_ok R (client_run cf es x)"
  using assms
proof (induction es arbitrary: x)
  case (Cons e es)
  obtain s calls where x: "x = (s, calls)" by (cases x)
  have "reachable_ok R (client_step cf e x)"
    using Cons.prems unfolding x by (intro reachable_ok_step) (auto simp: came_in_def)
  moreover have "came_in es \<subseteq> R" using Cons.prems(2) by (auto simp: came_in_def)
  ultimately show ?case by (simp add: Cons.IH)
qed simp

lemma reachable_ok_init: "reachable_ok R (connect_transport, [])"
  by (simp add: reachable_ok_def connect_transport_def pending_ok_def slots_ok_def)


section \<open>A call that has been told\<close>

text \<open>The slot of the call is filled and nobody else can fill it again.\<close>

definition told :: "nat \<Rightarrow> rpc_response \<Rightarrow> acp \<times> call_phase list \<Rightarrow> bool" where
  "told n r x \<longleftrightarrow> (case x of (s, calls) \<Rightarrow> n < length calls \<and> ac_slots s ! n = Delivered r \<and> (\<forall>i. om_lookup (ac_pending s) i \<noteq> Some n) \<and>
     ((\<exists>i. calls ! n = CallWaiting i) \<or> calls ! n = CallDone (finish_call r)))"

lemma told_cong:
  assumes "told n r (s, calls)" "ac_pending s' = ac_pending s" "ac_slots s' = ac_slots s"
  shows "told n r (s', calls)"
  using assms by (auto simp: told_def)

lemma await_told: "ac_slots s ! n = Delivered r \<Longrightarrow> await_oneshot n i s = CallDone (finish_call r)"
  by (simp add: await_oneshot_def)

lemma told_unregister: "told n r (s, calls) \<Longrightarrow> length (ac_slots s) = length calls \<Longrightarrow> told n r (unregister i s, calls)"
  by (auto simp: told_def unregister_slot)

text \<open>Another call may move on as it likes; the call itself can only take the response.\<close>

lemma told_poll:
  assumes t: "told n r (s, calls)" and l: "length (ac_slots s) = length calls" and st: "call_poll m (calls ! m) s = (p, s')"
  shows "told n r (s', calls[m := p])"
proof (cases "m = n")
  case True
  with t st show ?thesis by (auto simp: told_def await_told)
next
  case False
  have "told n r (s', calls)"
  proof (cases "calls ! m")
    case (CallSending q)
    with t l st show ?thesis by (auto intro: told_unregister told_cong split: if_splits)
  qed (use t st in auto)
  with False show ?thesis by (auto simp: told_def)
qed

lemma told_expire:
  assumes t: "told n r (s, calls)" and l: "length (ac_slots s) = length calls" and st: "call_expire m (calls ! m) s = (p, s')"
  shows "told n r (s', calls[m := p])"
proof (cases "m = n")
  case True
  with t st show ?thesis by (auto simp: told_def await_told)
next
  case False
  have "told n r (s', calls)" using t l st by (cases "calls ! m") (auto intro: told_unregister split: if_splits)
  with False show ?thesis by (auto simp: told_def)
qed

lemma told_start:
  assumes t: "told n r (s, calls)" and l: "length (ac_slots s) = length calls" and st: "call_start cf m ps s = (p, s')"
  shows "told n r (s', calls @ [p])"
  using assms by (auto simp: told_def call_start_def register_def Let_def nth_append drop_sender_slot split: if_splits)

lemma told_step:
  assumes ok: "reachable_ok R (s, calls)" and t: "told n r (s, calls)"
  shows "told n r (client_step cf e (s, calls))"
proof -
  note l = reachable_okD(1) [OF ok]
  show ?thesis
  proof (cases e)
    case (StartCall m ps)
    then show ?thesis using t l by (auto intro: told_start split: prod.split)
  next
    case (PollCall m)
    then show ?thesis using t l by (auto intro: told_poll split: prod.split)
  next
    case (ExpireCall m)
    then show ?thesis using t l by (auto intro: told_expire split: prod.split)
  next
    case (Incoming m)
    show ?thesis
    proof (cases m)
      case (MResponse r')
      have "k \<noteq> n" if "om_lookup (ac_pending s) i = Some k" for i k using t that by (auto simp: told_def)
      then show ?thesis using Incoming MResponse t l by (auto simp: told_def split: option.split)
    qed (use Incoming t in \<open>auto intro: told_cong\<close>)
  next
    case ReaderEnd
    then show ?thesis using t l by (auto simp: told_def reader_end_slot)
  next
    case (HandlerDone k r')
    then show ?thesis using t
      by (auto simp: handler_done_def Let_def intro: told_cong split: message.split option.split)
  qed (use t in \<open>auto simp: shutdown_def intro: told_cong\<close>)
qed

lemma told_run:
  assumes "reachable_ok R x" "came_in es \<subseteq> R" "told n r x"
  shows "told n r (client_run cf es x)"
  using assms
proof (induction es arbitrary: x)
  case (Cons e es)
  obtain s calls where x: "x = (s, calls)" by (cases x)
  have es: "came_in es \<subseteq> R" using Cons.prems(2) by (auto simp: came_in_def)
  have "reachable_ok R (client_step cf e x)"
    using Cons.prems(1,2) unfolding x by (intro reachable_ok_step) (auto simp: came_in_def)
  moreover have "told n r (client_step cf e x)" using Cons.prems(1,3) unfolding x by (rule told_step)
  ultimately show ?case using es by (simp add: Cons.IH)
qed simp

lemma told_polled:
  assumes "told n r (s, calls)"
  shows "snd (client_run cf [PollCall n] (s, calls)) ! n = CallDone (finish_call r)"
  using assms by (auto simp: told_def await_told)

text \<open>What tells call \<open>n\<close>: a response under its id, or the end of the stream.\<close>

definition tells :: "nat \<Rightarrow> client_event \<Rightarrow> rpc_response \<Rightarrow> bool" where
  "tells n e r \<longleftrightarrow> e = Incoming (MResponse r) \<and> rs_ident r = own n \<or> e = ReaderEnd \<and> r = disconnected"

lemma told_by:
  assumes ok: "reachable_ok R (s, calls)" and "ac_reader s" "n < length calls" "calls ! n = CallWaiting i" "ac_slots s ! n = Unsent"
    and e: "tells n e r"
  shows "told n r (client_step cf e (s, calls))"
proof -
  note d = reachable_okD [OF ok]
  have p: "om_lookup (ac_pending s) (own n) = Some n" using d(6) [of n] assms by simp
  have n: "om_lookup (ac_pending s) j \<noteq> Some n" if "j \<noteq> own n" for j using d(3) that unfolding pending_ok_def by blast
  from e show ?thesis unfolding tells_def
  proof (elim disjE conjE)
    assume "e = Incoming (MResponse r)" "rs_ident r = own n"
    then show ?thesis using p n assms(2-4) d(1) by (auto simp: told_def)
  next
    assume "e = ReaderEnd" "r = disconnected"
    then show ?thesis using p assms(2-4) d(1) by (auto simp: told_def reader_end_slot)
  qed
qed

section \<open>A call that starts too late\<close>

text \<open>Without a reader the slot of a call stays empty until the call ends itself.\<close>

definition untold :: "nat \<Rightarrow> acp \<times> call_phase list \<Rightarrow> bool" where
  "untold n x \<longleftrightarrow> (case x of (s, calls) \<Rightarrow> \<not> ac_reader s \<and> n < length calls \<and> (\<forall>r. ac_slots s ! n \<noteq> Delivered r) \<and>
     (\<forall>res. calls ! n = CallDone res \<longrightarrow> res = Err AcpBrokenPipe \<or> (\<exists>k. res = Err (AcpBackpressure k))))"

lemma untold_cong:
  assumes "untold n (s, calls)" "ac_slots s' = ac_slots s" "ac_reader s' \<Longrightarrow> ac_reader s"
  shows "untold n (s', calls)"
  using assms by (auto simp: untold_def)

lemma untold_unregister: "untold n (s, calls) \<Longrightarrow> length (ac_slots s) = length calls \<Longrightarrow> untold n (unregister i s, calls)"
  by (auto simp: untold_def unregister_slot)

lemma untold_phase:
  assumes "untold n (s, calls)" "m = n \<Longrightarrow> \<forall>res. p = CallDone res \<longrightarrow> res = Err AcpBrokenPipe \<or> (\<exists>k. res = Err (AcpBackpressure k))"
  shows "untold n (s, calls[m := p])"
  using assms by (cases "m = n") (auto simp: untold_def)

lemma await_untold: "\<forall>r. ac_slots s ! n \<noteq> Delivered r \<Longrightarrow> await_oneshot n i s = CallDone res \<Longrightarrow> res = Err AcpBrokenPipe"
  by (auto simp: await_oneshot_def split: oneshot.splits)

lemma untold_poll:
  assumes u: "untold n (s, calls)" and l: "length (ac_slots s) = length calls" and st: "call_poll m (calls ! m) s = (p, s')"
  shows "untold n (s', calls[m := p])"
proof (rule untold_phase)
  show "untold n (s', calls)"
  proof (cases "calls ! m")
    case (CallSending q)
    with u l st show ?thesis by (auto intro: untold_unregister untold_cong split: if_splits)
  qed (use u st in auto)
  show "\<forall>res. p = CallDone res \<longrightarrow> res = Err AcpBrokenPipe \<or> (\<exists>k. res = Err (AcpBackpressure k))" if "m = n"
    using u st that by (cases "calls ! n") (auto simp: untold_def await_untold split: if_splits)
qed

lemma untold_expire:
  assumes u: "untold n (s, calls)" and l: "length (ac_slots s) = length calls" and st: "call_expire m (calls ! m) s = (p, s')" and m: "m \<noteq> n"
  shows "untold n (s', calls[m := p])"
proof (rule untold_phase)
  show "untold n (s', calls)" using u l st by (cases "calls ! m") (auto intro: untold_unregister split: if_splits)
qed (use m in simp)

lemma untold_start:
  assumes u: "untold n (s, calls)" and l: "length (ac_slots s) = length calls" and st: "call_start cf m ps s = (p, s')"
  shows "untold n (s', calls @ [p])"
  using assms by (auto simp: untold_def call_start_def register_def Let_def nth_append drop_sender_slot split: if_splits)

lemma untold_step:
  assumes ok: "reachable_ok R (s, calls)" and u: "untold n (s, calls)" and e: "e \<noteq> ExpireCall n"
  shows "untold n (client_step cf e (s, calls))"
proof -
  note l = reachable_okD(1) [OF ok]
  show ?thesis
  proof (cases e)
    case (StartCall m ps)
    then show ?thesis using u l by (auto intro: untold_start split: prod.split)
  next
    case (PollCall m)
    then show ?thesis using u l by (auto intro: untold_poll split: prod.split)
  next
    case (ExpireCall m)
    then show ?thesis using u l e by (auto intro: untold_expire split: prod.split)
  next
    case (Incoming m)
    then show ?thesis using u by (simp add: untold_def)
  next
    case ReaderEnd
    then show ?thesis using u by (simp add: untold_def)
  next
    case (HandlerDone k r')
    then show ?thesis using u
      by (auto simp: handler_done_def Let_def intro: untold_cong split: message.split option.split)
  qed (use u in \<open>auto simp: shutdown_def intro: untold_cong\<close>)
qed

lemma untold_run:
  assumes "reachable_ok R x" "came_in es \<subseteq> R" "untold n x" "ExpireCall n \<notin> set es"
  shows "untold n (client_run cf es x)"
  using assms
proof (induction es arbitrary: x)
  case (Cons e es)
  obtain s calls where x: "x = (s, calls)" by (cases x)
  have es: "came_in es \<subseteq> R" using Cons.prems(2) by (auto simp: came_in_def)
  have "reachable_ok R (client_step cf e x)"
    using Cons.prems(1,2) unfolding x by (intro reachable_ok_step) (auto simp: came_in_def)
  moreover have "untold n (client_step cf e x)" using Cons.prems(1,3,4) unfolding x by (intro untold_step) auto
  ultimately show ?case using es Cons.prems(4) by (simp add: Cons.IH)
qed simp

lemma untold_starts:
  assumes ok: "reachable_ok R (s, calls)" and r: "\<not> ac_reader s"
  shows "untold (length calls) (client_step cf (StartCall m ps) (s, calls))"
  using reachable_okD(1) [OF ok] r
  by (auto simp: untold_def call_start_def register_def Let_def nth_append drop_sender_slot split: if_splits)

section \<open>Properties\<close>

text \<open>A client that has just connected, after some events.\<close>

abbreviation client_after :: "acp_config \<Rightarrow> client_event list \<Rightarrow> acp \<times> call_phase list" where
  "client_after cf es \<equiv> client_run cf es (connect_transport, [])"

lemma client_after_ok: "came_in es \<subseteq> R \<Longrightarrow> reachable_ok R (client_after cf es)"
  by (intro reachable_ok_run reachable_ok_init)

text \<open>C29: In every run of the agent client, with calls, polls, timeouts, messages, failures of the writer, replies
  of handlers and the end of the stream in any order, a call that is over either failed on this side (a broken
  pipe, a disconnect, its timeout, too many pending calls) or returned what a response that came in under its own
  id says: no call ever gets the answer of another.\<close>

theorem answered_under_own_id:
  assumes "client_run cf es (connect_transport, []) = (s, calls)" and "n < length calls" and "calls ! n = CallDone res"
  shows "local_failure res \<or> (\<exists>r. Incoming (MResponse r) \<in> set es \<and> rs_ident r = IdNumber (of_nat (Suc n)) \<and> res = finish_call r)"
  using reachable_okD(5) [OF client_after_ok [OF subset_refl, of es cf, unfolded assms(1)] assms(2)] assms(3)
  by (auto simp: came_in_def own_def)

definition sample_answer :: "nat \<Rightarrow> bytes \<Rightarrow> rpc_response" where
  "sample_answer n v = \<lparr>rs_version = ''2.0'', rs_ident = IdNumber (of_nat (Suc n)), rs_result = Some (JStr v), rs_error = None\<rparr>"

definition sample_config :: acp_config where
  "sample_config = \<lparr>cf_idle_timeout = 1, cf_request_timeout = 1, cf_client_name = [], cf_client_version = [], cf_protocol_version = 1,
     cf_max_pending = 2, cf_max_handlers = 2, cf_env_overrides = []\<rparr>"

text \<open>Two calls, answered in the other order.\<close>

definition sample_calls :: "client_event list" where
  "sample_calls = [StartCall ''initialize'' None, StartCall ''session/new'' None, PollCall 0, PollCall 1, WriterSends]"

lemma answered_under_own_id_witness:
  "local_failure (Ok (JStr ''one'')) \<or>
     (\<exists>r. Incoming (MResponse r) \<in> set (sample_calls @ [Incoming (MResponse (sample_answer 1 ''two'')), Incoming (MResponse (sample_answer 0 ''one'')), PollCall 0])
        \<and> rs_ident r = IdNumber (of_nat (Suc 0)) \<and> Ok (JStr ''one'') = finish_call r)"
proof -
  let ?es = "sample_calls @ [Incoming (MResponse (sample_answer 1 ''two'')), Incoming (MResponse (sample_answer 0 ''one'')), PollCall 0]"
  have "snd (client_run sample_config ?es (connect_transport, [])) ! 0 = CallDone (Ok (JStr ''one''))"
    "0 < length (snd (client_run sample_config ?es (connect_transport, [])))"
    by code_simp+
  then show ?thesis
    using answered_under_own_id [of sample_config ?es _ _ 0 "Ok (JStr ''one'')", OF surjective_pairing] by blast
qed

text \<open>C30: While the reader runs, a call that waits without an answer learns of the first thing that can tell it, a
  response under its id or the end of the stream, and keeps it: whatever happens afterwards, other messages under the
  same id, timers that fire, a shutdown, the poll that follows returns the call with exactly that answer (for the end
  of the stream: disconnected).\<close>

theorem waiting_call_is_told:
  assumes "client_run cf es (connect_transport, []) = (s, calls)" and "ac_reader s" and "n < length calls"
    and "calls ! n = CallWaiting i" and "ac_slots s ! n = Unsent"
    and "e = Incoming (MResponse r) \<and> rs_ident r = IdNumber (of_nat (Suc n)) \<or> e = ReaderEnd \<and> r = disconnected"
  shows "snd (client_run cf (es @ e # es' @ [PollCall n]) (connect_transport, [])) ! n = CallDone (finish_call r)"
proof -
  let ?R = "came_in (es @ e # es')"
  have "reachable_ok ?R (s, calls)" using client_after_ok [of es ?R cf] by (auto simp: came_in_def assms(1))
  moreover have "tells n e r" using assms(6) by (simp add: tells_def own_def)
  ultimately have t: "told n r (client_step cf e (s, calls))" using assms(2-5) by (intro told_by)
  have "reachable_ok ?R (client_after cf (es @ [e]))" by (rule client_after_ok) (auto simp: came_in_def)
  then have "told n r (client_run cf es' (client_step cf e (s, calls)))"
    using t by (intro told_run) (auto simp: came_in_def client_run_append assms(1))
  then show ?thesis
    using told_polled by (cases "client_run cf es' (client_step cf e (s, calls))") (simp add: client_run_append assms(1))
qed

lemma waiting_call_is_told_witness:
  "snd (client_run sample_config (sample_calls @ ReaderEnd # [ExpireCall 1, ShutDown] @ [PollCall 1]) (connect_transport, [])) ! 1
     = CallDone (finish_call disconnected)"
proof -
  let ?x = "client_run sample_config sample_calls (connect_transport, [])"
  have "ac_reader (fst ?x)" "1 < length (snd ?x)" "snd ?x ! 1 = CallWaiting (IdNumber 2)" "ac_slots (fst ?x) ! 1 = Unsent"
    by code_simp+
  then show ?thesis by (intro waiting_call_is_told [OF surjective_pairing]) simp_all
qed

text \<open>A call that starts after the reader is gone is never told: it is accepted into the map, and until its own
  timer fires no run of events lets it return anything but a broken pipe (the writer is gone too) or backpressure.
  So with a live writer such a call always takes its full timeout.\<close>

lemma late_call_only_times_out:
  assumes "client_run cf es (connect_transport, []) = (s, calls)" and "\<not> ac_reader s" and "ExpireCall (length calls) \<notin> set es'"
    and "snd (client_run cf (es @ StartCall m ps # es') (connect_transport, [])) ! length calls = CallDone res"
  shows "res = Err AcpBrokenPipe \<or> (\<exists>k. res = Err (AcpBackpressure k))"
proof -
  let ?R = "came_in (es @ StartCall m ps # es')"
  have "reachable_ok ?R (s, calls)" using client_after_ok [of es ?R cf] by (auto simp: came_in_def assms(1))
  then have "untold (length calls) (client_step cf (StartCall m ps) (s, calls))" using assms(2) by (rule untold_starts)
  moreover have "reachable_ok ?R (client_after cf (es @ [StartCall m ps]))" by (rule client_after_ok) (auto simp: came_in_def)
  ultimately have "untold (length calls) (client_run cf es' (client_step cf (StartCall m ps) (s, calls)))"
    using assms(3) by (intro untold_run) (auto simp: came_in_def client_run_append assms(1) simp del: client_step.simps)
  then show ?thesis using assms(4)
    by (cases "client_run cf es' (client_step cf (StartCall m ps) (s, calls))")
      (simp add: client_run_append assms(1) untold_def del: client_step.simps)
qed

lemma late_call_only_times_out_witness:
  "Err AcpBrokenPipe = (Err AcpBrokenPipe :: (json, acp_error) result) \<or>
     (\<exists>k. Err AcpBrokenPipe = (Err (AcpBackpressure k) :: (json, acp_error) result))"
proof (rule late_call_only_times_out [OF surjective_pairing])
  let ?x = "client_run sample_config [ReaderEnd] (connect_transport, [])"
  show "\<not> ac_reader (fst ?x)" by code_simp
  have l: "length (snd ?x) = 0" by code_simp
  show "ExpireCall (length (snd ?x)) \<notin> set [Incoming (MResponse (sample_answer 0 [])), WriterFails, PollCall 0]" by simp
  show "snd (client_run sample_config ([ReaderEnd] @ StartCall ''session/new'' None #
      [Incoming (MResponse (sample_answer 0 [])), WriterFails, PollCall 0]) (connect_transport, [])) ! length (snd ?x) = CallDone (Err AcpBrokenPipe)"
    unfolding l by code_simp
qed

end
