(* ===== verification/AgentBackend.thy ===== *)
theory AgentBackend
  imports AcpClient Router "HOL-Library.Sublist"
begin

text \<open>
  The session backend on the agent (\<open>crates/devdev-cli/src/acp_backend.rs\<close>): one subprocess started
  on first use, the handler that routes the agent's updates to the prompt that waits for them, and
  the endpoint of the daemon's tools with its bearer token (\<open>crates/devdev-daemon/src/mcp/http.rs\<close>).
\<close>

section \<open>The endpoint of the tools\<close>

record mcp_endpoint =
  me_url :: bytes
  me_bearer :: bytes

definition hex_byte :: "char \<Rightarrow> bytes" where
  "hex_byte c = (let n = of_char c :: nat in [''0123456789abcdef'' ! (n div 16), ''0123456789abcdef'' ! (n mod 16)])"

text \<open>\<open>random\<close> is what the random source filled the array with.\<close>

definition generate_bearer :: "bytes \<Rightarrow> bytes" where
  "generate_bearer random = concat (map hex_byte random)"

definition mcp_start :: "bytes \<Rightarrow> bytes \<Rightarrow> mcp_endpoint" where
  "mcp_start random addr = \<lparr>me_url = ''http://'' @ addr @ ''/mcp'', me_bearer = generate_bearer random\<rparr>"

datatype 'r http_reply = Served 'r | Unauthorized | NotFound

text \<open>\<open>HeaderValue::to_str\<close> takes visible ASCII and tabs only.\<close>

definition header_text :: "bytes \<Rightarrow> bytes option" where
  "header_text v = (if list_all (\<lambda>c. (32 \<le> (of_char c :: nat) \<and> of_char c < (127 :: nat)) \<or> of_char c = (9 :: nat)) v then Some v else None)"

definition bearer_auth :: "bytes \<Rightarrow> bytes option \<Rightarrow> 'r \<Rightarrow> 'r http_reply" where
  "bearer_auth expected authorization served =
     (if Option.bind authorization header_text = Some (''Bearer '' @ expected) then Served served else Unauthorized)"

text \<open>The tools are nested under their path; everything else is not found, without asking who it is.\<close>

definition mcp_app :: "bytes \<Rightarrow> bytes \<Rightarrow> bytes option \<Rightarrow> 'r \<Rightarrow> 'r http_reply" where
  "mcp_app expected uri_path authorization served =
     (if uri_path = ''/mcp'' \<or> starts_with uri_path ''/mcp/'' then bearer_auth expected authorization served else NotFound)"

definition mcp_servers_for :: "mcp_endpoint option \<Rightarrow> mcp_server_config list" where
  "mcp_servers_for ep = (case ep of
     Some ep \<Rightarrow> [McpHttp \<lparr>mp_name = ''devdev'', mp_url = me_url ep,
       mp_headers = [\<lparr>mh_name = ''Authorization'', mh_value = ''Bearer '' @ me_bearer ep\<rparr>]\<rparr>]
   | None \<Rightarrow> [])"

section \<open>The handler\<close>

text \<open>
  A prompt that waits for its turn to end owns a channel: the queue of what it has not received yet,
  and the text received so far. The senders map a session to the channel of a prompt by its number.
\<close>

datatype response_chunk = TextChunk bytes | DoneChunk bytes

record prompt_run =
  pt_session :: bytes
  pt_queue :: "response_chunk list"
  pt_text :: bytes
  pt_open :: bool

record router_handler =
  rh_senders :: "(bytes, nat) omap"
  rh_prompts :: "prompt_run list"

definition CHUNK_CAPACITY :: nat where "CHUNK_CAPACITY = 64"

definition handler_new :: router_handler where
  "handler_new = \<lparr>rh_senders = om_empty, rh_prompts = []\<rparr>"

definition rh_register :: "bytes \<Rightarrow> nat \<Rightarrow> router_handler \<Rightarrow> router_handler" where
  "rh_register sid n h = h\<lparr>rh_senders := om_insert sid n (rh_senders h)\<rparr>"

definition rh_unregister :: "bytes \<Rightarrow> router_handler \<Rightarrow> router_handler" where
  "rh_unregister sid h = h\<lparr>rh_senders := om_remove sid (rh_senders h)\<rparr>"

definition map_prompt :: "nat \<Rightarrow> (prompt_run \<Rightarrow> prompt_run) \<Rightarrow> router_handler \<Rightarrow> router_handler" where
  "map_prompt n f h = h\<lparr>rh_prompts := (rh_prompts h)[n := f (rh_prompts h ! n)]\<rparr>"

text \<open>A full channel and one whose receiver is gone lose the chunk.\<close>

definition try_send :: "nat \<Rightarrow> response_chunk \<Rightarrow> router_handler \<Rightarrow> router_handler" where
  "try_send n c h = map_prompt n (\<lambda>p. if pt_open p \<and> length (pt_queue p) < CHUNK_CAPACITY
     then p\<lparr>pt_queue := pt_queue p @ [c]\<rparr> else p) h"

fun update_text :: "session_update \<Rightarrow> bytes option" where
  "update_text (AgentMessageChunk c) = Some (cb_text c)"
| "update_text _ = None"

definition on_session_update :: "session_update_params \<Rightarrow> router_handler \<Rightarrow> router_handler" where
  "on_session_update p h = (case update_text (sp_update p) of
     None \<Rightarrow> h
   | Some t \<Rightarrow> if t = [] then h
       else (case om_lookup (rh_senders h) (sp_session_id p) of
          Some n \<Rightarrow> try_send n (TextChunk t) h
        | None \<Rightarrow> h))"

definition not_supported :: "bytes \<Rightarrow> rpc_error" where
  "not_supported m = \<lparr>re_code = METHOD_NOT_FOUND, re_message = m @ '' not supported by devdev session router backend'', re_data = None\<rparr>"

definition router_acp_handler :: "router_handler acp_handler" where
  "router_acp_handler = \<lparr>
     ah_permission = (\<lambda>_. fail (not_supported ''session/request_permission'')),
     ah_terminal_create = (\<lambda>_. fail (not_supported ''terminal/create'')),
     ah_terminal_output = (\<lambda>_. fail (not_supported ''terminal/output'')),
     ah_terminal_wait = (\<lambda>_. fail (not_supported ''terminal/wait_for_exit'')),
     ah_terminal_kill = (\<lambda>_. fail (not_supported ''terminal/kill'')),
     ah_terminal_release = (\<lambda>_. fail (not_supported ''terminal/release'')),
     ah_fs_read = (\<lambda>_. fail (not_supported ''fs/read_text_file'')),
     ah_fs_write = (\<lambda>_. fail (not_supported ''fs/write_text_file'')),
     ah_session_update = on_session_update\<rparr>"

section \<open>A prompt\<close>

fun chunk_text :: "response_chunk \<Rightarrow> bytes" where
  "chunk_text (TextChunk t) = t"
| "chunk_text (DoneChunk r) = []"

definition prompt_begin :: "bytes \<Rightarrow> router_handler \<Rightarrow> router_handler" where
  "prompt_begin sid h = rh_register sid (length (rh_prompts h))
     (h\<lparr>rh_prompts := rh_prompts h @ [\<lparr>pt_session = sid, pt_queue = [], pt_text = [], pt_open = True\<rparr>]\<rparr>)"

text \<open>
  The select loop takes one chunk; after the turn what is left is drained and the sender goes. Both
  are one step here: a chunk that comes in between goes into a channel that nobody reads any more, as
  one does that comes after.
\<close>

definition take_chunk :: "prompt_run \<Rightarrow> prompt_run" where
  "take_chunk p = (case pt_queue p of [] \<Rightarrow> p | c # cs \<Rightarrow> p\<lparr>pt_queue := cs, pt_text := pt_text p @ chunk_text c\<rparr>)"

definition prompt_recv :: "nat \<Rightarrow> router_handler \<Rightarrow> router_handler" where
  "prompt_recv n h = map_prompt n (\<lambda>p. if pt_open p then take_chunk p else p) h"

definition drain_chunks :: "prompt_run \<Rightarrow> prompt_run" where
  "drain_chunks p = p\<lparr>pt_queue := [], pt_text := pt_text p @ concat (map chunk_text (pt_queue p)), pt_open := False\<rparr>"

definition prompt_finish :: "nat \<Rightarrow> router_handler \<Rightarrow> router_handler" where
  "prompt_finish n h = (if pt_open (rh_prompts h ! n)
     then rh_unregister (pt_session (rh_prompts h ! n)) (map_prompt n drain_chunks h) else h)"

text \<open>What happens at the handler while a prompt waits: updates, and other prompts and their ends.\<close>

datatype turn_event = Update session_update_params | Recv nat | Begin bytes | Finish nat | Unregister bytes

fun turn_step :: "turn_event \<Rightarrow> router_handler \<Rightarrow> router_handler" where
  "turn_step (Update p) h = on_session_update p h"
| "turn_step (Recv n) h = (if n < length (rh_prompts h) then prompt_recv n h else h)"
| "turn_step (Begin sid) h = prompt_begin sid h"
| "turn_step (Finish n) h = (if n < length (rh_prompts h) then prompt_finish n h else h)"
| "turn_step (Unregister sid) h = rh_unregister sid h"

section \<open>The backend\<close>

text \<open>
  The agent as a parameter: starting it, a call within a time, and a turn, which ends with a result
  and with what the handler saw meanwhile. \<open>show_acp\<close> is the text of an error and \<open>why\<close> that of a
  value that is not of its type.
\<close>

record 'w acp_world =
  aw_connect :: "bytes \<times> bytes list \<Rightarrow> acp_config \<Rightarrow> ('w, unit, acp_error) prog"
  aw_call :: "duration \<Rightarrow> bytes \<times> json option \<Rightarrow> ('w, json, acp_error) prog"
  aw_turn :: "duration \<Rightarrow> bytes \<times> json option \<Rightarrow> 'w \<Rightarrow> ((json, acp_error) result \<times> turn_event list) \<times> 'w"
  aw_env :: "bytes \<Rightarrow> bytes option"
  aw_config :: acp_config  \<comment> \<open>the defaults with the overrides of the environment\<close>
  aw_prepare :: "bytes \<Rightarrow> bytes list \<Rightarrow> bytes \<times> bytes list"
  aw_show :: "acp_error \<Rightarrow> bytes"
  aw_why :: "json \<Rightarrow> bytes"

record 'w acp_backend =
  bk_program :: bytes
  bk_args :: "bytes list"
  bk_endpoint :: "mcp_endpoint option"
  bk_started :: bool
  bk_handler :: router_handler
  bk_world :: 'w

definition backend_new :: "bytes \<Rightarrow> bytes list \<Rightarrow> mcp_endpoint option \<Rightarrow> 'w \<Rightarrow> 'w acp_backend" where
  "backend_new program args ep w = \<lparr>bk_program = program, bk_args = args, bk_endpoint = ep, bk_started = False,
     bk_handler = handler_new, bk_world = w\<rparr>"

definition acp_to_router :: "(acp_error \<Rightarrow> bytes) \<Rightarrow> acp_error \<Rightarrow> router_error" where
  "acp_to_router show_acp e = (case e of
     AcpCrashed c \<Rightarrow> SubprocessCrashed
   | AcpDisconnected \<Rightarrow> SubprocessCrashed
   | AcpBrokenPipe \<Rightarrow> SubprocessCrashed
   | other \<Rightarrow> Backend (show_acp other))"

definition on_agent :: "'w acp_world \<Rightarrow> ('w, 'a, acp_error) prog \<Rightarrow> ('w acp_backend, 'a, router_error) prog" where
  "on_agent W m b = (case m (bk_world b) of (r, w) \<Rightarrow> (map_err (acp_to_router (aw_show W)) r, b\<lparr>bk_world := w\<rparr>))"

definition typed_call :: "'w acp_world \<Rightarrow> (json \<Rightarrow> 'a option) \<Rightarrow> bytes \<times> json option \<Rightarrow> ('w, 'a, acp_error) prog" where
  "typed_call W dec q w = (case aw_call W (cf_request_timeout (aw_config W)) q w of (r, w') \<Rightarrow> (typed (aw_why W) dec r, w'))"

definition authenticate :: "'w acp_world \<Rightarrow> bytes list \<Rightarrow> ('w, unit, acp_error) prog" where
  "authenticate W methods = (case authenticate_call (aw_env W) methods of
     Ok (Inl strat) \<Rightarrow> ret ()
   | Ok (Inr q) \<Rightarrow> and_then (typed_call W authenticate_result_of_json q) (\<lambda>_. ret ())
   | Err e \<Rightarrow> fail e
   | Panic \<Rightarrow> panic)"

text \<open>No method that fits is no error.\<close>

definition no_auth_is_fine :: "('w, unit, acp_error) prog \<Rightarrow> ('w, unit, acp_error) prog" where
  "no_auth_is_fine m w = (case m w of (Err AcpNoAuth, w') \<Rightarrow> (Ok (), w') | x \<Rightarrow> x)"

definition agent_start :: "'w acp_world \<Rightarrow> bytes \<Rightarrow> bytes list \<Rightarrow> ('w, unit, acp_error) prog" where
  "agent_start W program args =
     and_then (aw_connect W (aw_prepare W program args) ((aw_config W)\<lparr>cf_idle_timeout := from_secs 300\<rparr>)) (\<lambda>_.
     and_then (typed_call W initialize_result_of_json (initialize_call (aw_config W))) (\<lambda>init.
     let methods = map am_id (ir_auth_methods init) in
     if methods \<noteq> [] then no_auth_is_fine (authenticate W methods) else ret ()))"

text \<open>The cell is set by the first start that succeeds, and never taken back.\<close>

definition ensure_started :: "'w acp_world \<Rightarrow> ('w acp_backend, unit, router_error) prog" where
  "ensure_started W b = (if bk_started b then (Ok (), b)
     else and_then (on_agent W (agent_start W (bk_program b) (bk_args b))) (\<lambda>_.
       modify (\<lambda>b. b\<lparr>bk_started := True, bk_handler := handler_new\<rparr>)) b)"

definition backend_create_session :: "'w acp_world \<Rightarrow> bytes \<Rightarrow> ('w acp_backend, bytes, router_error) prog" where
  "backend_create_session W cwd =
     and_then (ensure_started W) (\<lambda>_ b.
     and_then (on_agent W (typed_call W new_session_result_of_json
         (new_session_call \<lparr>ns_cwd = cwd, ns_mcp_servers = mcp_servers_for (bk_endpoint b)\<rparr>))) (\<lambda>r. ret (nr_session_id r)) b)"

definition prompt_of :: "bytes \<Rightarrow> bytes \<Rightarrow> bytes \<times> json option" where
  "prompt_of sid t = prompt_call \<lparr>pp_session_id = sid, pp_prompt = [TextContent t]\<rparr>"

definition turn_events :: "turn_event list \<Rightarrow> router_handler \<Rightarrow> router_handler" where
  "turn_events es h = fold turn_step es h"

definition backend_send_prompt :: "'w acp_world \<Rightarrow> bytes \<Rightarrow> bytes \<Rightarrow> ('w acp_backend, agent_response, router_error) prog" where
  "backend_send_prompt W sid t =
     and_then (ensure_started W) (\<lambda>_ b.
       (let n = length (rh_prompts (bk_handler b));
            h = prompt_begin sid (bk_handler b) in
        case aw_turn W (from_secs 300) (prompt_of sid t) (bk_world b) of ((r, es), w) \<Rightarrow>
          (let h = prompt_finish n (turn_events es h) in
           (map_err (acp_to_router (aw_show W)) (res_bind (typed (aw_why W) prompt_result_of_json r) (\<lambda>pr.
              Ok \<lparr>resp_body = pt_text (rh_prompts h ! n), stop_reason = stop_reason_kind_text (pr_stop_reason pr)\<rparr>)),
            b\<lparr>bk_handler := h, bk_world := w\<rparr>))))"

text \<open>
  The streaming form leaves the chunks to the caller, who receives from the channel at his own pace.
  The last chunk waits for room, so it is never lost.
\<close>

definition close_stream :: "nat \<Rightarrow> bytes \<Rightarrow> (prompt_result, acp_error) result \<Rightarrow> router_handler \<Rightarrow> router_handler" where
  "close_stream n sid r h = (let h = rh_unregister sid h in
     case r of Ok pr \<Rightarrow> map_prompt n (\<lambda>p. p\<lparr>pt_queue := pt_queue p @ [DoneChunk (stop_reason_kind_text (pr_stop_reason pr))]\<rparr>) h | _ \<Rightarrow> h)"

definition backend_send_streaming :: "'w acp_world \<Rightarrow> bytes \<Rightarrow> bytes \<Rightarrow> ('w acp_backend, unit, router_error) prog" where
  "backend_send_streaming W sid t =
     and_then (ensure_started W) (\<lambda>_ b.
       (let n = length (rh_prompts (bk_handler b));
            h = prompt_begin sid (bk_handler b) in
        case aw_turn W (from_secs 300) (prompt_of sid t) (bk_world b) of ((r, es), w) \<Rightarrow>
          (let res = typed (aw_why W) prompt_result_of_json r in
           (map_err (acp_to_router (aw_show W)) (res_bind res (\<lambda>_. Ok ())),
            b\<lparr>bk_handler := close_stream n sid res (turn_events es h), bk_world := w\<rparr>))))"

text \<open>The cancel is best effort: its result is dropped.\<close>

definition backend_destroy_session :: "'w acp_world \<Rightarrow> bytes \<Rightarrow> ('w acp_backend, unit, router_error) prog" where
  "backend_destroy_session W sid b =
     (if bk_started b then
        (case aw_call W (cf_request_timeout (aw_config W)) (cancel_call sid) (bk_world b) of
           (Panic, w) \<Rightarrow> (Panic, b\<lparr>bk_handler := rh_unregister sid (bk_handler b), bk_world := w\<rparr>)
         | (_, w) \<Rightarrow> (Ok (), b\<lparr>bk_handler := rh_unregister sid (bk_handler b), bk_world := w\<rparr>))
      else (Ok (), b))"

definition acp_session_backend :: "'w acp_world \<Rightarrow> 'w acp_backend session_backend" where
  "acp_session_backend W = \<lparr>sb_create_session = backend_create_session W, sb_send_prompt = backend_send_prompt W,
     sb_destroy_session = backend_destroy_session W\<rparr>"

section \<open>The bearer token\<close>

definition session_header :: "mcp_endpoint \<Rightarrow> bytes option" where
  "session_header ep = (case mcp_servers_for (Some ep) of
     [McpHttp c] \<Rightarrow> (case mp_headers c of [h] \<Rightarrow> if mh_name h = ''Authorization'' then Some (mh_value h) else None | _ \<Rightarrow> None)
   | _ \<Rightarrow> None)"

lemma session_header_bearer: "session_header ep = Some (''Bearer '' @ me_bearer ep)"
  by (simp add: session_header_def mcp_servers_for_def)

lemma of_char_256: "(of_char c :: nat) < 256"
  using nat_of_char_less_256 by simp

lemma hex_digits: "n < 16 \<Longrightarrow> ''0123456789abcdef'' ! n \<in> set ''0123456789abcdef''"
  by (rule nth_mem) simp

lemma hex_digits_inj: "m < 16 \<Longrightarrow> n < 16 \<Longrightarrow> ''0123456789abcdef'' ! m = ''0123456789abcdef'' ! n \<Longrightarrow> m = n"
  using nth_eq_iff_index_eq [of "''0123456789abcdef''" m n] by simp

lemma hex_byte_inj: "hex_byte c = hex_byte d \<Longrightarrow> c = d"
proof -
  assume h: "hex_byte c = hex_byte d"
  let ?m = "of_char c :: nat" and ?n = "of_char d :: nat"
  have "?m div 16 < 16" "?n div 16 < 16" using of_char_256 [of c] of_char_256 [of d] by presburger+
  with h have "?m div 16 = ?n div 16" "?m mod 16 = ?n mod 16"
    by (auto simp: hex_byte_def Let_def dest: hex_digits_inj [rotated 2])
  then have "?m = ?n" by (metis div_mult_mod_eq)
  then show "c = d" by simp
qed

lemma hex_byte_chars: "set (hex_byte c) \<subseteq> set ''0123456789abcdef''"
proof -
  have "(of_char c :: nat) div 16 < 16" using of_char_256 [of c] by presburger
  then show ?thesis using hex_digits [of "of_char c div 16"] hex_digits [of "of_char c mod 16"] by (simp add: hex_byte_def Let_def)
qed

lemma hex_byte_length: "length (hex_byte c) = 2"
  by (simp add: hex_byte_def Let_def)

lemma generate_bearer_inj: "length r = length r' \<Longrightarrow> generate_bearer r = generate_bearer r' \<longleftrightarrow> r = r'"
proof (induction r r' rule: list_induct2)
  case (Cons c cs d ds)
  have "generate_bearer (c # cs) = generate_bearer (d # ds) \<longleftrightarrow> hex_byte c = hex_byte d \<and> generate_bearer cs = generate_bearer ds"
    using hex_byte_length by (simp add: generate_bearer_def append_eq_append_conv)
  then show ?case using Cons hex_byte_inj by auto
qed simp

lemma generate_bearer_length: "length (generate_bearer r) = 2 * length r"
  by (induction r) (simp_all add: generate_bearer_def hex_byte_length)

lemma header_text_bearer: "header_text (''Bearer '' @ generate_bearer r) = Some (''Bearer '' @ generate_bearer r)"
proof -
  let ?ok = "\<lambda>c. (32 \<le> (of_char c :: nat) \<and> of_char c < (127 :: nat)) \<or> of_char c = (9 :: nat)"
  have "list_all ?ok ''Bearer ''" "list_all ?ok ''0123456789abcdef''" by simp_all
  moreover have "set (generate_bearer r) \<subseteq> set ''0123456789abcdef''"
    using hex_byte_chars by (auto simp only: generate_bearer_def set_concat set_map)
  ultimately have "list_all ?ok (''Bearer '' @ generate_bearer r)" unfolding list_all_iff set_append by blast
  then show ?thesis unfolding header_text_def by (simp only: if_True)
qed

text \<open>C37: The tools of the daemon answer exactly the requests under their path that carry the header which the backend
  puts into the session it creates; the token has 64 characters and a header made from other random bytes, such as that
  of an earlier daemon, is refused.\<close>

theorem tools_need_session_header:
  assumes "length random = 32" and "length random' = 32"
  shows "(mcp_app (me_bearer (mcp_start random addr)) uri_path h r = Served r \<longleftrightarrow>
      (uri_path = ''/mcp'' \<or> starts_with uri_path ''/mcp/'') \<and> h = session_header (mcp_start random addr)) \<and>
    (mcp_app (me_bearer (mcp_start random addr)) ''/mcp'' (session_header (mcp_start random' addr')) r = Served r \<longleftrightarrow> random' = random) \<and>
    length (me_bearer (mcp_start random addr)) = 64"
proof -
  have b: "me_bearer (mcp_start x y) = generate_bearer x" for x y by (simp add: mcp_start_def)
  have "Option.bind h header_text = Some (''Bearer '' @ generate_bearer random) \<longleftrightarrow> h = Some (''Bearer '' @ generate_bearer random)" for h
    using header_text_bearer [of random] by (cases h) (auto simp: header_text_def split: if_splits)
  then have s: "mcp_app (generate_bearer random) p h r = Served r \<longleftrightarrow>
      (p = ''/mcp'' \<or> starts_with p ''/mcp/'') \<and> h = Some (''Bearer '' @ generate_bearer random)" for p h
    by (simp add: mcp_app_def bearer_auth_def)
  have "Some (''Bearer '' @ generate_bearer random') = Some (''Bearer '' @ generate_bearer random) \<longleftrightarrow> random' = random"
    using generate_bearer_inj [of random' random] assms by simp
  then show ?thesis unfolding b s session_header_bearer using assms(1) by (simp add: generate_bearer_length)
qed

theorem tools_need_session_header_witness:
  "mcp_app (me_bearer (mcp_start (replicate 32 CHR ''a'') ''127.0.0.1:1'')) ''/mcp'' (session_header (mcp_start (replicate 32 CHR ''a'') ''127.0.0.1:1'')) () = Served ()"
  using tools_need_session_header [of "replicate 32 CHR ''a''" "replicate 32 CHR ''a''" "''127.0.0.1:1''" "''/mcp''" "None" "()" "''127.0.0.1:1''"]
  by simp

section \<open>The reply to a prompt\<close>

text \<open>Every sender leads to a channel of its session.\<close>

definition handler_ok :: "router_handler \<Rightarrow> bool" where
  "handler_ok h \<longleftrightarrow> (\<forall>sid n. om_lookup (rh_senders h) sid = Some n \<longrightarrow>
     n < length (rh_prompts h) \<and> pt_session (rh_prompts h ! n) = sid)"

definition idle :: "bytes \<Rightarrow> router_handler \<Rightarrow> bool" where
  "idle sid h \<longleftrightarrow> (\<forall>p \<in> set (rh_prompts h). pt_session p = sid \<longrightarrow> \<not> pt_open p)"

text \<open>Prompt \<open>n\<close> is the one that receives for the session.\<close>

definition receiving :: "bytes \<Rightarrow> nat \<Rightarrow> router_handler \<Rightarrow> bool" where
  "receiving sid n h \<longleftrightarrow> n < length (rh_prompts h) \<and> pt_session (rh_prompts h ! n) = sid \<and> pt_open (rh_prompts h ! n) \<and>
     om_lookup (rh_senders h) sid = Some n \<and>
     (\<forall>m < length (rh_prompts h). m \<noteq> n \<longrightarrow> pt_session (rh_prompts h ! m) = sid \<longrightarrow> \<not> pt_open (rh_prompts h ! m))"

definition collected :: "nat \<Rightarrow> router_handler \<Rightarrow> bytes" where
  "collected n h = pt_text (rh_prompts h ! n) @ concat (map chunk_text (pt_queue (rh_prompts h ! n)))"

definition roomy :: "nat \<Rightarrow> router_handler \<Rightarrow> bool" where
  "roomy n h \<longleftrightarrow> length (pt_queue (rh_prompts h ! n)) < CHUNK_CAPACITY"

fun chunk_of :: "bytes \<Rightarrow> turn_event \<Rightarrow> bytes option" where
  "chunk_of sid (Update p) = (if sp_session_id p = sid \<and> update_text (sp_update p) \<noteq> Some [] then update_text (sp_update p) else None)"
| "chunk_of sid _ = None"

definition chunks :: "bytes \<Rightarrow> turn_event list \<Rightarrow> bytes list" where
  "chunks sid es = List.map_filter (chunk_of sid) es"

text \<open>An event that leaves the session to prompt \<open>n\<close>.\<close>

definition own_turn :: "bytes \<Rightarrow> nat \<Rightarrow> turn_event \<Rightarrow> bool" where
  "own_turn sid n e \<longleftrightarrow> e \<noteq> Begin sid \<and> e \<noteq> Unregister sid \<and> e \<noteq> Finish n"

lemma map_prompt_fields [simp]:
  "rh_senders (map_prompt n f h) = rh_senders h" "length (rh_prompts (map_prompt n f h)) = length (rh_prompts h)"
  by (simp_all add: map_prompt_def)

lemma map_prompt_nth: "m < length (rh_prompts h) \<Longrightarrow> rh_prompts (map_prompt n f h) ! m = (if m = n then f (rh_prompts h ! n) else rh_prompts h ! m)"
  by (simp add: map_prompt_def nth_list_update)

lemma register_fields [simp]:
  "rh_prompts (rh_register sid n h) = rh_prompts h" "rh_prompts (rh_unregister sid h) = rh_prompts h"
  "rh_senders (rh_register sid n h) = om_insert sid n (rh_senders h)" "rh_senders (rh_unregister sid h) = om_remove sid (rh_senders h)"
  by (simp_all add: rh_register_def rh_unregister_def)

lemma begin_receiving: "handler_ok h \<Longrightarrow> idle sid h \<Longrightarrow> receiving sid (length (rh_prompts h)) (prompt_begin sid h)"
  by (auto simp: receiving_def prompt_begin_def idle_def nth_append)

lemma on_session_update_chunk:
  "on_session_update p h = (case chunk_of (sp_session_id p) (Update p) of
     None \<Rightarrow> h
   | Some t \<Rightarrow> (case om_lookup (rh_senders h) (sp_session_id p) of Some m \<Rightarrow> try_send m (TextChunk t) h | None \<Rightarrow> h))"
  by (simp add: on_session_update_def split: option.splits)

lemma handler_ok_map: "handler_ok h \<Longrightarrow> (\<And>p. pt_session (f p) = pt_session p) \<Longrightarrow> handler_ok (map_prompt n f h)"
  by (auto simp: handler_ok_def map_prompt_nth)

lemma handler_ok_unregister: "handler_ok h \<Longrightarrow> handler_ok (rh_unregister sid h)"
  by (simp add: handler_ok_def)

text \<open>A channel that changes keeps its session, and is not opened again.\<close>

lemma prompt_fields [simp]:
  "pt_session (take_chunk p) = pt_session p" "pt_open (take_chunk p) = pt_open p"
  "pt_session (drain_chunks p) = pt_session p" "\<not> pt_open (drain_chunks p)"
  by (simp_all add: take_chunk_def drain_chunks_def split: list.splits)

lemma finish_ok: "handler_ok h \<Longrightarrow> handler_ok (prompt_finish n h)"
  by (simp add: prompt_finish_def handler_ok_unregister handler_ok_map)

lemma step_ok: "handler_ok h \<Longrightarrow> handler_ok (turn_step e h)"
proof (cases e)
  case (Begin sid)
  assume "handler_ok h"
  with Begin show ?thesis by (fastforce simp: handler_ok_def prompt_begin_def nth_append less_Suc_eq split: if_splits)
qed (auto simp: on_session_update_chunk try_send_def prompt_recv_def handler_ok_map finish_ok handler_ok_unregister split: option.splits)

lemma receiving_map:
  assumes "receiving sid n h" "\<And>p. pt_session (f p) = pt_session p" "\<And>p. pt_open (f p) \<Longrightarrow> pt_open p"
    and "m = n \<Longrightarrow> pt_open (f (rh_prompts h ! n))" "m < length (rh_prompts h)"
  shows "receiving sid n (map_prompt m f h)"
  using assms by (auto simp: receiving_def map_prompt_nth)

lemma receiving_unregister: "receiving sid n h \<Longrightarrow> sid' \<noteq> sid \<Longrightarrow> receiving sid n (rh_unregister sid' h)"
  by (simp add: receiving_def)

lemma finish_receiving:
  assumes "receiving sid n h" "m \<noteq> n" "m < length (rh_prompts h)"
  shows "receiving sid n (prompt_finish m h)"
proof (cases "pt_open (rh_prompts h ! m)")
  case True
  then have "pt_session (rh_prompts h ! m) \<noteq> sid" using assms by (auto simp: receiving_def)
  moreover have "receiving sid n (map_prompt m drain_chunks h)" by (rule receiving_map) (use assms in simp_all)
  ultimately show ?thesis using True by (simp add: prompt_finish_def receiving_unregister)
qed (use assms in \<open>simp add: prompt_finish_def\<close>)

lemma step_receiving:
  assumes "handler_ok h" "receiving sid n h" "own_turn sid n e"
  shows "receiving sid n (turn_step e h)"
proof (cases e)
  case (Update p)
  have "m < length (rh_prompts h)" if "om_lookup (rh_senders h) (sp_session_id p) = Some m" for m
    using that assms(1) by (simp add: handler_ok_def)
  then show ?thesis using Update assms(2)
    by (auto simp: on_session_update_chunk try_send_def intro!: receiving_map split: option.splits if_splits) (simp add: receiving_def)+
next
  case (Recv m)
  then show ?thesis using assms(2) by (auto simp: prompt_recv_def intro!: receiving_map split: if_splits) (simp add: receiving_def)
next
  case (Begin sid')
  then have "sid' \<noteq> sid" using assms(3) by (simp add: own_turn_def)
  then show ?thesis using Begin assms(2) by (auto simp: receiving_def prompt_begin_def nth_append)
next
  case (Finish m)
  then show ?thesis using assms(2,3) by (simp add: own_turn_def finish_receiving)
next
  case (Unregister sid')
  then show ?thesis using assms(2,3) by (simp add: own_turn_def receiving_unregister)
qed

lemma collected_map: "n < length (rh_prompts h) \<Longrightarrow> collected n (map_prompt m f h) =
    (if m = n then pt_text (f (rh_prompts h ! n)) @ concat (map chunk_text (pt_queue (f (rh_prompts h ! n)))) else collected n h)"
  by (simp add: collected_def map_prompt_nth)

lemma step_collected:
  assumes "handler_ok h" "receiving sid n h" "own_turn sid n e"
  shows "collected n (turn_step e h) = collected n h @ (case chunk_of sid e of Some t \<Rightarrow> if roomy n h then t else [] | None \<Rightarrow> [])"
proof -
  have n: "n < length (rh_prompts h)" "om_lookup (rh_senders h) sid = Some n" "pt_open (rh_prompts h ! n)" "pt_session (rh_prompts h ! n) = sid"
    using assms(2) by (simp_all add: receiving_def)
  show ?thesis
  proof (cases e)
    case (Update p)
    show ?thesis
    proof (cases "sp_session_id p = sid")
      case True
      then show ?thesis using Update n
        by (cases "chunk_of sid e"; cases "roomy n h")
          (simp_all add: on_session_update_chunk try_send_def collected_map, simp_all add: roomy_def collected_def)
    next
      case False
      then have "om_lookup (rh_senders h) (sp_session_id p) \<noteq> Some n" using assms(1) n(4) by (auto simp: handler_ok_def)
      then show ?thesis using Update n False
        by (auto simp: on_session_update_chunk try_send_def collected_map split: option.splits)
    qed
  next
    case (Recv m)
    have "pt_text (take_chunk p) @ concat (map chunk_text (pt_queue (take_chunk p))) = pt_text p @ concat (map chunk_text (pt_queue p))" for p
      by (simp add: take_chunk_def split: list.splits)
    then show ?thesis using Recv n by (simp add: prompt_recv_def collected_map) (simp add: collected_def)
  next
    case (Begin sid')
    then show ?thesis using n by (simp add: prompt_begin_def collected_def nth_append)
  next
    case (Finish m)
    then have "m \<noteq> n" using assms(3) by (simp add: own_turn_def)
    moreover have "collected n (rh_unregister s h') = collected n h'" for s h' by (simp add: collected_def)
    ultimately show ?thesis using Finish n by (simp add: prompt_finish_def collected_map)
  next
    case (Unregister sid')
    then show ?thesis by (simp add: collected_def)
  qed
qed

lemma turn_run:
  assumes "handler_ok h" "receiving sid n h" "\<forall>e \<in> set es. own_turn sid n e"
  shows "handler_ok (turn_events es h) \<and> receiving sid n (turn_events es h) \<and>
    (\<exists>ts. subseq ts (chunks sid es) \<and> collected n (turn_events es h) = collected n h @ concat ts \<and>
      ((\<forall>k < length es. roomy n (turn_events (take k es) h)) \<longrightarrow> ts = chunks sid es))"
  using assms(3)
proof (induction es rule: rev_induct)
  case Nil
  then show ?case using assms(1,2) by (simp add: turn_events_def chunks_def map_filter_def)
next
  case (snoc e es)
  let ?h = "turn_events es h"
  from snoc obtain ts where ih: "handler_ok ?h" "receiving sid n ?h" "subseq ts (chunks sid es)" "collected n ?h = collected n h @ concat ts"
    "(\<forall>k < length es. roomy n (turn_events (take k es) h)) \<longrightarrow> ts = chunks sid es" by auto
  have e: "own_turn sid n e" "turn_events (es @ [e]) h = turn_step e ?h" using snoc.prems by (simp_all add: turn_events_def)
  let ?new = "case chunk_of sid e of Some t \<Rightarrow> if roomy n ?h then [t] else [] | None \<Rightarrow> []"
  have c: "chunks sid (es @ [e]) = chunks sid es @ (case chunk_of sid e of Some t \<Rightarrow> [t] | None \<Rightarrow> [])"
    by (simp add: chunks_def map_filter_def split: option.splits)
  have "subseq (ts @ ?new) (chunks sid (es @ [e]))" unfolding c by (rule list_emb_append_mono [OF ih(3)]) (simp split: option.splits)
  moreover have "collected n (turn_step e ?h) = collected n h @ concat (ts @ ?new)"
    using step_collected [OF ih(1,2) e(1)] ih(4) by (simp split: option.splits)
  moreover have "ts @ ?new = chunks sid (es @ [e])" if "\<forall>k < length (es @ [e]). roomy n (turn_events (take k (es @ [e])) h)"
  proof -
    have "roomy n ?h" using that [rule_format, of "length es"] by simp
    moreover have "roomy n (turn_events (take k es) h)" if "k < length es" for k
      using \<open>\<forall>k < length (es @ [e]). roomy n (turn_events (take k (es @ [e])) h)\<close> [rule_format, of k] that by simp
    ultimately show ?thesis using ih(5) c by (simp split: option.splits)
  qed
  ultimately show ?case unfolding e(2) using step_ok [OF ih(1)] step_receiving [OF ih(1,2) e(1)] by blast
qed

lemma finish_text:
  assumes "receiving sid n h"
  shows "pt_text (rh_prompts (prompt_finish n h) ! n) = collected n h" "idle sid (prompt_finish n h)"
  using assms by (auto simp: receiving_def prompt_finish_def map_prompt_nth drain_chunks_def collected_def idle_def in_set_conv_nth split: if_splits)

text \<open>C35: The answer to a prompt consists of texts that the agent sent for that session during the turn, in the order in
  which the handler took them and each at most once, and of all of them when the channel never fills up; updates of other
  sessions, and prompts on them that begin and end meanwhile, leave no trace. This holds as long as no second prompt runs
  on the session, and the next prompt finds the handler in order again.\<close>

theorem answer_is_own_chunks:
  assumes "bk_started b" and "handler_ok (bk_handler b)" and "idle sid (bk_handler b)" and "n = length (rh_prompts (bk_handler b))"
    and "aw_turn W (from_secs 300) (prompt_of sid t) (bk_world b) = ((r, es), w)" and "\<forall>e \<in> set es. own_turn sid n e"
  shows "\<exists>ts b'. backend_send_prompt W sid t b =
      (map_err (acp_to_router (aw_show W)) (res_bind (typed (aw_why W) prompt_result_of_json r) (\<lambda>pr.
         Ok \<lparr>resp_body = concat ts, stop_reason = stop_reason_kind_text (pr_stop_reason pr)\<rparr>)), b') \<and>
    subseq ts (chunks sid es) \<and>
    ((\<forall>k < length es. roomy n (turn_events (take k es) (prompt_begin sid (bk_handler b)))) \<longrightarrow> ts = chunks sid es) \<and>
    handler_ok (bk_handler b') \<and> idle sid (bk_handler b')"
proof -
  let ?h = "prompt_begin sid (bk_handler b)"
  have ok: "handler_ok ?h" using step_ok [OF assms(2), of "Begin sid"] by simp
  have rc: "receiving sid n ?h" using begin_receiving [OF assms(2,3)] assms(4) by simp
  have new: "collected n ?h = []" using assms(4) by (simp add: collected_def prompt_begin_def)
  from turn_run [OF ok rc assms(6)] obtain ts where ts: "handler_ok (turn_events es ?h)" "receiving sid n (turn_events es ?h)"
    "subseq ts (chunks sid es)" "collected n (turn_events es ?h) = concat ts"
    "(\<forall>k < length es. roomy n (turn_events (take k es) ?h)) \<longrightarrow> ts = chunks sid es" using new by auto
  note f = finish_text [OF ts(2)] finish_ok [OF ts(1), of n]
  show ?thesis
    by (rule exI [of _ ts], rule exI [of _ "b\<lparr>bk_handler := prompt_finish n (turn_events es ?h), bk_world := w\<rparr>"])
      (use assms(1,4,5) ts(3,4,5) f in \<open>simp add: backend_send_prompt_def and_then_def ensure_started_def Let_def\<close>)
qed

text \<open>Two chunks for the session around one for another.\<close>

definition demo_chunk :: "bytes \<Rightarrow> bytes \<Rightarrow> turn_event" where
  "demo_chunk sid t = Update \<lparr>sp_session_id = sid, sp_update = AgentMessageChunk \<lparr>cb_text = t\<rparr>\<rparr>"

definition demo_world :: "unit acp_world" where
  "demo_world = \<lparr>aw_connect = (\<lambda>_ _. ret ()), aw_call = (\<lambda>_ _. fail AcpBrokenPipe),
     aw_turn = (\<lambda>_ _ w. ((Ok (prompt_result_json \<lparr>pr_stop_reason = EndTurn\<rparr>), [demo_chunk ''s'' ''a'', demo_chunk ''x'' ''-'', Recv 0, demo_chunk ''s'' ''b'']), w)),
     aw_env = (\<lambda>_. None), aw_config = default_config ''0'', aw_prepare = Pair, aw_show = (\<lambda>_. []), aw_why = (\<lambda>_. [])\<rparr>"

definition demo_backend_state :: "unit acp_backend" where
  "demo_backend_state = (backend_new ''copilot'' [] None ())\<lparr>bk_started := True\<rparr>"

theorem answer_is_own_chunks_witness:
  "\<exists>b'. backend_send_prompt demo_world ''s'' ''hi'' demo_backend_state = (Ok \<lparr>resp_body = ''ab'', stop_reason = ''endTurn''\<rparr>, b') \<and>
     handler_ok (bk_handler b') \<and> idle ''s'' (bk_handler b')"
proof -
  let ?es = "[demo_chunk ''s'' ''a'', demo_chunk ''x'' ''-'', Recv 0, demo_chunk ''s'' ''b'']"
  have s: "bk_started demo_backend_state" "bk_handler demo_backend_state = handler_new" by (simp_all add: demo_backend_state_def backend_new_def)
  have h: "handler_ok handler_new" "idle ''s'' handler_new" by (simp_all add: handler_ok_def idle_def handler_new_def)
  have t: "aw_turn demo_world (from_secs 300) (prompt_of ''s'' ''hi'') (bk_world demo_backend_state) =
      ((Ok (prompt_result_json \<lparr>pr_stop_reason = EndTurn\<rparr>), ?es), ())" by (simp add: demo_world_def)
  have o: "\<forall>e \<in> set ?es. own_turn ''s'' 0 e" by (simp add: own_turn_def demo_chunk_def)
  have c: "chunks ''s'' ?es = [''a'', ''b'']" by (simp add: chunks_def map_filter_def demo_chunk_def)
  have k: "roomy 0 (turn_events (take k ?es) (prompt_begin ''s'' handler_new))" if "k < 4" for k
  proof -
    have "k = 0 \<or> k = 1 \<or> k = 2 \<or> k = 3" using that by arith
    then show ?thesis
      by (auto simp: roomy_def turn_events_def demo_chunk_def on_session_update_def prompt_begin_def handler_new_def try_send_def
          map_prompt_def prompt_recv_def take_chunk_def CHUNK_CAPACITY_def rh_register_def)
  qed
  show ?thesis using answer_is_own_chunks [of demo_backend_state "''s''" 0 demo_world "''hi''", OF _ _ _ _ t o] s h c k
    by (auto simp: handler_new_def typed_def demo_world_def)
qed

text \<open>
  A second prompt on the same session takes the first one's place: what the agent says for the first
  goes to the second, and the end of the first cuts the second off.
\<close>

lemma second_prompt_displaces:
  "map pt_text (rh_prompts (turn_events [Begin ''s'', Begin ''s'', demo_chunk ''s'' ''a'', Finish 0, demo_chunk ''s'' ''b'', Finish 1] handler_new)) = [[], ''a'']"
  by (simp add: turn_events_def demo_chunk_def on_session_update_def prompt_begin_def handler_new_def try_send_def map_prompt_def
      prompt_finish_def drain_chunks_def CHUNK_CAPACITY_def rh_register_def rh_unregister_def)

text \<open>An update that is handled after the response of its turn is lost.\<close>

lemma late_chunk_is_lost: "prompt_finish n h = h' \<Longrightarrow> receiving sid n h \<Longrightarrow>
  turn_step (Update \<lparr>sp_session_id = sid, sp_update = AgentMessageChunk \<lparr>cb_text = t\<rparr>\<rparr>) h' = h'"
  by (auto simp: receiving_def prompt_finish_def on_session_update_def)

text \<open>A notification of the protocol reaches the handler as the update it carries.\<close>

lemma notification_reaches_handler:
  assumes "plain_update (sp_update p)"
  shows "handle_notification router_acp_handler (notification_new ''session/update'' (Some (session_update_params_json p))) h = on_session_update p h"
  using session_update_params_back [OF assms]
  by (simp add: handle_notification_def notification_new_def router_acp_handler_def)

section \<open>When the agent is gone\<close>

text \<open>
  An agent that is gone fails every call and every turn, and stays gone; for a backend that was
  started with it every session and every prompt fails, for good.
\<close>

definition agent_fails :: "('w \<Rightarrow> bool) \<Rightarrow> 'w acp_world \<Rightarrow> bool" where
  "agent_fails gone W \<longleftrightarrow> (\<forall>d q w. gone w \<longrightarrow> (\<exists>e w'. aw_call W d q w = (Err e, w') \<and> gone w') \<and>
     (\<exists>e es w'. aw_turn W d q w = ((Err e, es), w') \<and> gone w'))"

definition dead :: "('w \<Rightarrow> bool) \<Rightarrow> 'w acp_backend \<Rightarrow> bool" where
  "dead gone b \<longleftrightarrow> bk_started b \<and> gone (bk_world b)"

lemma dead_backend:
  assumes "agent_fails gone W" "dead gone b"
  shows "\<exists>e b'. sb_create_session (acp_session_backend W) cwd b = (Err e, b') \<and> dead gone b'"
    and "\<exists>e b'. sb_send_prompt (acp_session_backend W) sid t b = (Err e, b') \<and> dead gone b'"
    and "\<exists>b'. sb_destroy_session (acp_session_backend W) sid b = (Ok (), b') \<and> dead gone b'"
proof -
  have b: "bk_started b" "gone (bk_world b)" using assms(2) by (simp_all add: dead_def)
  have call: "\<exists>e w'. aw_call W d q (bk_world b) = (Err e, w') \<and> gone w'" for d q
    using assms(1) b(2) unfolding agent_fails_def by blast
  have turn: "\<exists>e es w'. aw_turn W d q (bk_world b) = ((Err e, es), w') \<and> gone w'" for d q
    using assms(1) b(2) unfolding agent_fails_def by blast
  note run = acp_session_backend_def and_then_def ensure_started_def on_agent_def typed_call_def typed_def dead_def b(1)
  show "\<exists>e b'. sb_create_session (acp_session_backend W) cwd b = (Err e, b') \<and> dead gone b'"
    using call [of "cf_request_timeout (aw_config W)" "new_session_call \<lparr>ns_cwd = cwd, ns_mcp_servers = mcp_servers_for (bk_endpoint b)\<rparr>"]
    by (auto simp: run backend_create_session_def)
  show "\<exists>e b'. sb_send_prompt (acp_session_backend W) sid t b = (Err e, b') \<and> dead gone b'"
    using turn [of "from_secs 300" "prompt_of sid t"] by (auto simp: run backend_send_prompt_def Let_def)
  show "\<exists>b'. sb_destroy_session (acp_session_backend W) sid b = (Ok (), b') \<and> dead gone b'"
    using call [of "cf_request_timeout (aw_config W)" "cancel_call sid"] by (auto simp: run backend_destroy_session_def)
qed

text \<open>Whatever the daemon asks of the router, in any order.\<close>

inductive router_step :: "'b session_backend \<Rightarrow> 'b router \<Rightarrow> 'b router \<Rightarrow> bool" for B where
  create: "create_session B task c s = (r, s') \<Longrightarrow> router_step B s s'"
| interactive: "create_interactive_session B s = (r, s') \<Longrightarrow> router_step B s s'"
| prompt: "handle_send_prompt B h t s = (r, s') \<Longrightarrow> router_step B s s'"
| destroy: "destroy_session B task s = (r, s') \<Longrightarrow> router_step B s s'"
| recovery: "recover B s = (r, s') \<Longrightarrow> router_step B s s'"

text \<open>No operation makes a session.\<close>

definition fewer_sessions :: "'b router \<Rightarrow> 'b router \<Rightarrow> bool" where
  "fewer_sessions s' s \<longleftrightarrow> interactive_session s' = interactive_session s \<and>
     (\<forall>k st. om_lookup (sessions s') k = Some st \<longrightarrow> om_lookup (sessions s) k = Some st)"

lemma fewer_trans: "fewer_sessions s2 s1 \<Longrightarrow> fewer_sessions s1 s \<Longrightarrow> fewer_sessions s2 s"
  by (simp add: fewer_sessions_def)

lemma dead_router:
  assumes "agent_fails gone W" "dead gone (backend s)"
  shows "\<exists>e s'. create_session (acp_session_backend W) task c s = (Err e, s') \<and> dead gone (backend s') \<and> sessions s' = sessions s \<and> fewer_sessions s' s"
    and "\<exists>e s'. create_interactive_session (acp_session_backend W) s = (Err e, s') \<and> dead gone (backend s') \<and> sessions s' = sessions s \<and> fewer_sessions s' s"
    and "\<exists>e s'. handle_send_prompt (acp_session_backend W) h t s = (Err e, s') \<and> dead gone (backend s') \<and> sessions s' = sessions s \<and> fewer_sessions s' s"
    and "\<exists>r s'. destroy_session (acp_session_backend W) task s = (r, s') \<and> dead gone (backend s') \<and> fewer_sessions s' s"
    and "\<exists>r s'. recover (acp_session_backend W) s = (r, s') \<and> dead gone (backend s') \<and> sessions s' = om_empty \<and> fewer_sessions s' s \<and>
      (if om_entries (sessions s) = [] then r = Ok () else \<exists>e. r = Err e)"
proof -
  note b = dead_backend [OF assms]
  note run = and_then_def on_backend_def fewer_sessions_def
  show "\<exists>e s'. create_session (acp_session_backend W) task c s = (Err e, s') \<and> dead gone (backend s') \<and> sessions s' = sessions s \<and> fewer_sessions s' s"
    using b(1) [of "''/''"] assms(2) by (auto simp: create_session_def run)
  show "\<exists>e s'. create_interactive_session (acp_session_backend W) s = (Err e, s') \<and> dead gone (backend s') \<and> sessions s' = sessions s \<and> fewer_sessions s' s"
    using b(1) [of "''/''"] by (auto simp: create_interactive_session_def run)
  show "\<exists>e s'. handle_send_prompt (acp_session_backend W) h t s = (Err e, s') \<and> dead gone (backend s') \<and> sessions s' = sessions s \<and> fewer_sessions s' s"
    using b(2) [of "sh_session_id h" t] by (auto simp: handle_send_prompt_def run)
  show "\<exists>r s'. destroy_session (acp_session_backend W) task s = (r, s') \<and> dead gone (backend s') \<and> fewer_sessions s' s"
  proof (cases "om_lookup (sessions s) task")
    case (Some st)
    then show ?thesis using b(3) [of "ss_session_id st"] by (auto simp: destroy_session_def run split: if_splits)
  qed (use assms(2) in \<open>simp add: destroy_session_def fewer_sessions_def\<close>)
  show "\<exists>r s'. recover (acp_session_backend W) s = (r, s') \<and> dead gone (backend s') \<and> sessions s' = om_empty \<and> fewer_sessions s' s \<and>
      (if om_entries (sessions s) = [] then r = Ok () else \<exists>e. r = Err e)"
    using b(1) [of "''/''"] assms(2) by (cases "om_entries (sessions s)") (auto simp: recover_def run)
qed

lemma dead_step:
  assumes "agent_fails gone W" "router_step (acp_session_backend W) s s'" "dead gone (backend s)"
  shows "dead gone (backend s') \<and> fewer_sessions s' s"
  using assms(2)
proof cases
  case (create task c r)
  then show ?thesis using dead_router(1) [OF assms(1,3), of task c] by auto
next
  case (interactive r)
  then show ?thesis using dead_router(2) [OF assms(1,3)] by auto
next
  case (prompt h t r)
  then show ?thesis using dead_router(3) [OF assms(1,3), of h t] by auto
next
  case (destroy task r)
  then show ?thesis using dead_router(4) [OF assms(1,3), of task] by auto
next
  case (recovery r)
  then show ?thesis using dead_router(5) [OF assms(1,3)] by auto
qed

lemma dead_run:
  assumes "agent_fails gone W" "(router_step (acp_session_backend W))\<^sup>*\<^sup>* s s'" "dead gone (backend s)"
  shows "dead gone (backend s') \<and> fewer_sessions s' s"
  using assms(2)
proof (induction rule: rtranclp_induct)
  case base
  then show ?case using assms(3) by (simp add: fewer_sessions_def)
next
  case (step s1 s2)
  then show ?case using dead_step [OF assms(1) step(2)] fewer_trans by blast
qed

text \<open>
  C36: Once the agent of a started backend is gone, so that every call and turn fails and it stays
  gone, the backend never starts another one, whether or not one could be started. However the
  router is used from then on, in every later state the start is skipped, every new session, of a
  task or interactive, and every prompt is an error, and no session was added. A recovery then
  leaves no session at all: it fails when there was one to recover, and succeeds, with nothing to
  do, when there was none.
\<close>

theorem dead_agent_is_never_replaced:
  assumes "agent_fails gone W" and "bk_started (backend s)" and "gone (bk_world (backend s))"
    and "(router_step (acp_session_backend W))\<^sup>*\<^sup>* s s'"
  shows "ensure_started W (backend s') = (Ok (), backend s') \<and> gone (bk_world (backend s')) \<and>
    (\<forall>task c. \<exists>e s''. create_session (acp_session_backend W) task c s' = (Err e, s'') \<and> sessions s'' = sessions s') \<and>
    (\<exists>e s''. create_interactive_session (acp_session_backend W) s' = (Err e, s'')) \<and>
    (\<forall>h t. \<exists>e s''. handle_send_prompt (acp_session_backend W) h t s' = (Err e, s'')) \<and>
    interactive_session s' = interactive_session s \<and>
    (\<forall>k st. om_lookup (sessions s') k = Some st \<longrightarrow> om_lookup (sessions s) k = Some st) \<and>
    (\<exists>r s''. recover (acp_session_backend W) s' = (r, s'') \<and> sessions s'' = om_empty \<and>
      (if om_entries (sessions s') = [] then r = Ok () else \<exists>e. r = Err e))"
proof -
  have "dead gone (backend s)" using assms(2,3) by (simp add: dead_def)
  note d = dead_run [OF assms(1,4) this]
  note r = dead_router [OF assms(1) conjunct1 [OF d]]
  have started: "ensure_started W (backend s') = (Ok (), backend s')" "gone (bk_world (backend s'))"
    using d by (simp_all add: dead_def ensure_started_def)
  have "interactive_session s' = interactive_session s \<and>
      (\<forall>k st. om_lookup (sessions s') k = Some st \<longrightarrow> om_lookup (sessions s) k = Some st)"
    using d by (simp add: fewer_sessions_def)
  then show ?thesis using started r(1,2,3) r(5) by meson
qed

text \<open>An agent that dies and that a start would replace, and a router with the session of one task.\<close>

definition demo_hello :: initialize_result where
  "demo_hello = \<lparr>ir_protocol_version = 1, ir_agent_info = \<lparr>ai_name = ''a'', ai_version = ''1''\<rparr>,
     ir_agent_capabilities = \<lparr>acap_streaming = None\<rparr>, ir_auth_methods = []\<rparr>"

definition demo_mortal :: "bool acp_world" where
  "demo_mortal = \<lparr>aw_connect = (\<lambda>_ _ alive. (Ok (), True)),
     aw_call = (\<lambda>_ q alive. (if alive then Ok (initialize_result_json demo_hello) else Err AcpBrokenPipe, alive)),
     aw_turn = (\<lambda>_ _ alive. ((Err AcpBrokenPipe, []), alive)),
     aw_env = (\<lambda>_. None), aw_config = default_config ''0'', aw_prepare = Pair, aw_show = (\<lambda>_. []), aw_why = (\<lambda>_. [])\<rparr>"

definition demo_orphan :: "bool acp_backend router" where
  "demo_orphan = (router_new ((backend_new ''copilot'' [] None False)\<lparr>bk_started := True\<rparr>))\<lparr>sessions := om_insert ''t-1''
     \<lparr>ss_session_id = ''s'', ss_task_id = ''t-1'', ss_context = default_context\<rparr> om_empty\<rparr>"

theorem dead_agent_is_never_replaced_witness:
  "agent_start demo_mortal ''copilot'' [] False = (Ok (), True) \<and>
   (\<exists>e s1 s2. recover (acp_session_backend demo_mortal) demo_orphan = (Err e, s1) \<and>
     recover (acp_session_backend demo_mortal) s1 = (Ok (), s2) \<and> sessions s2 = om_empty \<and>
     (\<exists>e s3. create_session (acp_session_backend demo_mortal) ''t-1'' default_context s2 = (Err e, s3)))"
proof
  show "agent_start demo_mortal ''copilot'' [] False = (Ok (), True)"
    by (simp add: agent_start_def and_then_def demo_mortal_def typed_call_def typed_def) (simp add: demo_hello_def)
  let ?B = "acp_session_backend demo_mortal"
  have o: "bk_started (backend demo_orphan)" "\<not> bk_world (backend demo_orphan)" "sessions demo_orphan \<noteq> om_empty"
    by (simp_all add: demo_orphan_def router_new_def backend_new_def flip: om_entries_eq_Nil)
  have g: "agent_fails Not demo_mortal" by (simp add: agent_fails_def demo_mortal_def)
  note * = dead_agent_is_never_replaced [of Not, OF g o(1) o(2)]
  obtain e s1 where s1: "recover ?B demo_orphan = (Err e, s1)" "sessions s1 = om_empty"
    using * [OF rtranclp.rtrancl_refl] o(3) by auto
  have r1: "(router_step ?B)\<^sup>*\<^sup>* demo_orphan s1" using router_step.recovery [OF s1(1)] by (rule r_into_rtranclp)
  obtain s2 where s2: "recover ?B s1 = (Ok (), s2)" "sessions s2 = om_empty" using * [OF r1] s1(2) by auto
  have "(router_step ?B)\<^sup>*\<^sup>* demo_orphan s2" using r1 router_step.recovery [OF s2(1)] by (rule rtranclp.rtrancl_into_rtrancl)
  from * [OF this] s1(1) s2
  show "\<exists>e s1 s2. recover ?B demo_orphan = (Err e, s1) \<and> recover ?B s1 = (Ok (), s2) \<and> sessions s2 = om_empty \<and>
     (\<exists>e s3. create_session ?B ''t-1'' default_context s2 = (Err e, s3))" by blast
qed

end
