(* ===== verification/StdPath.thy ===== *)
theory StdPath
  imports RustStr
begin

text \<open>
  Paths of Rust's standard library on Unix, up to the equality of \<open>Path\<close>: the list of their
  components. Repeated separators and inner dots make no difference.
\<close>

datatype component = RootDir | CurDir | ParentDir | Normal bytes

type_synonym path = "component list"

definition piece :: "bytes \<Rightarrow> component option" where
  "piece p = (if p = [] \<or> p = ''.'' then None else Some (if p = ''..'' then ParentDir else Normal p))"

text \<open>\<open>Path::components\<close>: a dot counts only at the beginning of a relative path.\<close>

definition path_of :: "bytes \<Rightarrow> path" where
  "path_of s = (let ps = split_on (CHR ''/'') s in
     (if starts_with s ''/'' then [RootDir] else if hd ps = ''.'' then [CurDir] else []) @ List.map_filter piece ps)"

definition relative :: "path \<Rightarrow> bool" where
  "relative p \<longleftrightarrow> RootDir \<notin> set p"

text \<open>\<open>Path::join\<close>: an absolute path replaces the one it is joined to.\<close>

definition path_push :: "path \<Rightarrow> path \<Rightarrow> path" where
  "path_push p q = (case q of
     RootDir # _ \<Rightarrow> q
   | CurDir # r \<Rightarrow> if p = [] then q else p @ r
   | _ \<Rightarrow> p @ q)"

text \<open>\<open>Path::parent\<close>: none of the root and of the empty path.\<close>

definition parent_dir :: "path \<Rightarrow> path option" where
  "parent_dir p = (if p = [] \<or> last p = RootDir then None else Some (butlast p))"

definition file_name :: "path \<Rightarrow> bytes option" where
  "file_name p = (if p = [] then None else (case last p of Normal n \<Rightarrow> Some n | _ \<Rightarrow> None))"

text \<open>A name that begins with its only dot has no extension.\<close>

definition split_at_dot :: "bytes \<Rightarrow> bytes \<times> bytes option" where
  "split_at_dot n = (case rsplit_once n (CHR ''.'') of
     Some (before, after) \<Rightarrow> if before = [] then (n, None) else (before, Some after)
   | None \<Rightarrow> (n, None))"

definition file_stem :: "path \<Rightarrow> bytes option" where
  "file_stem p = map_option (\<lambda>n. fst (split_at_dot n)) (file_name p)"

definition extension :: "path \<Rightarrow> bytes option" where
  "extension p = Option.bind (file_name p) (\<lambda>n. snd (split_at_dot n))"

text \<open>The text of a directory joined with a name.\<close>

definition path_join :: "bytes \<Rightarrow> bytes \<Rightarrow> bytes" where
  "path_join dir name = (if dir = [] \<or> last dir = CHR ''/'' then dir @ name else dir @ CHR ''/'' # name)"

section \<open>Facts\<close>

lemma piece_relative: "piece p \<noteq> Some RootDir" "piece p \<noteq> Some CurDir"
  by (simp_all add: piece_def)

lemma pieces_relative: "RootDir \<notin> set (List.map_filter piece ps)" "CurDir \<notin> set (List.map_filter piece ps)"
  by (auto simp: map_filter_def piece_def)

lemma path_of_relative: "\<not> starts_with s ''/'' \<Longrightarrow> relative (path_of s)"
  by (simp add: relative_def path_of_def Let_def pieces_relative)

text \<open>A path that is not absolute is joined below.\<close>

lemma path_push_below:
  assumes "relative q"
  shows "\<exists>r. path_push p q = p @ r \<and> (p \<noteq> [] \<longrightarrow> CurDir \<notin> set (tl q) \<longrightarrow> CurDir \<notin> set r)"
proof (cases q)
  case (Cons c r)
  then show ?thesis using assms by (cases c) (auto simp: path_push_def relative_def)
qed (simp add: path_push_def)

lemma path_push_names [simp]: "path_push p (Normal n # q) = p @ Normal n # q"
  by (simp add: path_push_def)

lemma parent_dir_shorter: "parent_dir p = Some q \<Longrightarrow> length q < length p"
  by (auto simp: parent_dir_def split: if_splits)

lemma file_name_snoc [simp]: "file_name (p @ [Normal n]) = Some n"
  by (simp add: file_name_def)

lemma split_at_dot_ext:
  assumes "b \<noteq> []" "CHR ''.'' \<notin> set e"
  shows "split_at_dot (b @ CHR ''.'' # e) = (b, Some e)"
  using assms rsplit_once_Some [of "b @ CHR ''.'' # e" "CHR ''.''" b e] by (simp add: split_at_dot_def)

end
