(* ===== verification/Exec.thy ===== *)
theory Exec
  imports StdPath
begin

text \<open>
  Commands in the mounted workspace (\<open>crates/devdev-workspace/src/exec.rs\<close>) and the search for the
  agent's program (\<open>crates/devdev-cli/src/agent_command.rs\<close>). What the operating system does is a
  parameter: the reads of the terminal, the polls of the child, the clock.
\<close>

section \<open>The workspace\<close>

datatype exec_error = NotMounted | SpawnInvalid | SpawnFailed | ExecIo | ExecTimeout

record 'f workspace =
  ws_fs :: 'f
  ws_driver :: "path option"  \<comment> \<open>where the driver is mounted\<close>
  ws_tempdir :: "path option"

definition workspace_from_fs :: "'f \<Rightarrow> 'f workspace" where
  "workspace_from_fs fs = \<lparr>ws_fs = fs, ws_driver = None, ws_tempdir = None\<rparr>"

definition mount_point :: "'f workspace \<Rightarrow> path option" where
  "mount_point w = ws_driver w"

text \<open>A temporary directory and the mount on it, both of which may fail.\<close>

definition mount_workspace :: "(path, 'e) result \<Rightarrow> (path \<Rightarrow> (unit, 'e) result) \<Rightarrow> ('f workspace, path, 'e) prog" where
  "mount_workspace tempdir fuse =
     and_then (query (\<lambda>_. tempdir)) (\<lambda>mp. and_then (query (\<lambda>_. fuse mp)) (\<lambda>_.
     and_then (modify (\<lambda>w. w\<lparr>ws_driver := Some mp, ws_tempdir := Some mp\<rparr>)) (\<lambda>_. ret mp)))"

section \<open>Environment and directory\<close>

definition curated_env :: "bytes option \<Rightarrow> (bytes \<times> bytes) list" where
  "curated_env host_path =
     [(''HOME'', ''/home/agent''), (''CARGO_HOME'', ''/home/agent/.cargo''), (''USER'', ''agent''), (''LOGNAME'', ''agent''),
      (''SHELL'', ''/bin/sh''), (''TERM'', ''dumb''), (''GIT_TERMINAL_PROMPT'', ''0''), (''GIT_PAGER'', ''cat''), (''PAGER'', ''cat'')] @
     (case host_path of Some p \<Rightarrow> [(''PATH'', p)] | None \<Rightarrow> [])"

text \<open>All slashes at the beginning are stripped.\<close>

definition join_mount :: "path \<Rightarrow> bytes \<Rightarrow> path" where
  "join_mount mount cwd = (let tail = dropWhile (\<lambda>c. c = CHR ''/'') cwd in
     if tail = [] then mount else path_push mount (path_of tail))"

section \<open>A run\<close>

text \<open>The reader sends each chunk; the stream ends with an empty read or an error, or goes on.\<close>

fun reader_sends :: "(bytes, unit) result list \<Rightarrow> bytes list \<times> bool" where
  "reader_sends [] = ([], False)"
| "reader_sends (Ok d # rs) = (if d = [] then ([], True) else (case reader_sends rs of (cs, e) \<Rightarrow> (d # cs, e)))"
| "reader_sends (_ # rs) = ([], True)"

text \<open>
  One turn of the loop: how many chunks the reader has sent by then, how the child is, and the time
  in milliseconds.
\<close>

record poll_turn =
  pl_sent :: nat
  pl_wait :: "(i32 option, unit) result"
  pl_now :: nat

text \<open>
  The loop over the turns that happen: the exit code and whether the time ran out, with the number
  of chunks taken; \<open>None\<close> when it still runs after them.
\<close>

fun wait_loop :: "bytes list \<Rightarrow> nat \<Rightarrow> poll_turn list \<Rightarrow> nat \<Rightarrow> bytes \<Rightarrow> ((i32 \<times> bool, exec_error) result \<times> nat \<times> bytes) option" where
  "wait_loop sent deadline [] k out = None"
| "wait_loop sent deadline (t # ts) k out =
     (let k' = max k (pl_sent t); out = out @ concat (drop k (take k' sent)) in
      case pl_wait t of
        Ok (Some code) \<Rightarrow> Some (Ok (code, False), k', out)
      | Ok None \<Rightarrow> if deadline \<le> pl_now t then Some (Ok (- 1, True), k', out) else wait_loop sent deadline ts k' out
      | _ \<Rightarrow> Some (Err ExecIo, k', out))"

text \<open>After the loop the reader is joined, which waits for the end of the stream.\<close>

definition exec_with_timeout :: "'f workspace \<Rightarrow> bytes \<Rightarrow> (path \<Rightarrow> (unit, unit) result) \<Rightarrow> (bytes, unit) result list \<Rightarrow> poll_turn list \<Rightarrow>
    nat \<Rightarrow> bytes \<Rightarrow> ((i32, exec_error) result \<times> bytes) option" where
  "exec_with_timeout w cwd spawn reads turns deadline out =
     (case ws_driver w of
        None \<Rightarrow> Some (Err NotMounted, out)
      | Some mount \<Rightarrow>
          if cwd = [] \<or> hd cwd \<noteq> CHR ''/'' then Some (Err SpawnInvalid, out)
          else (case spawn (join_mount mount cwd) of
              Ok u \<Rightarrow> (let (sent, ended) = reader_sends reads in
                (case wait_loop sent deadline turns 0 out of
                   None \<Rightarrow> None
                 | Some (Ok (code, timed_out), k, out) \<Rightarrow>
                     if \<not> ended then None
                     else Some (if timed_out then Err ExecTimeout else Ok code, out @ concat (drop k sent))
                 | Some (Err e, k, out) \<Rightarrow> Some (Err e, out)
                 | Some (Panic, k, out) \<Rightarrow> Some (Panic, out)))
            | _ \<Rightarrow> Some (Err SpawnFailed, out)))"

definition DEFAULT_EXEC_TIMEOUT :: nat where "DEFAULT_EXEC_TIMEOUT = 120000"

definition workspace_exec :: "'f workspace \<Rightarrow> bytes \<Rightarrow> (path \<Rightarrow> (unit, unit) result) \<Rightarrow> (bytes, unit) result list \<Rightarrow> poll_turn list \<Rightarrow>
    bytes \<Rightarrow> ((i32, exec_error) result \<times> bytes) option" where
  "workspace_exec w cwd spawn reads turns out = exec_with_timeout w cwd spawn reads turns DEFAULT_EXEC_TIMEOUT out"

section \<open>The agent's program\<close>

text \<open>
  On hosts other than Windows a bare name is searched for as it is written, and no launcher is
  rewritten. \<open>split_paths\<close> cuts at colons; \<open>lossy\<close> replaces what is not UTF-8.
\<close>

definition resolve_on_path :: "(bytes \<Rightarrow> bool) \<Rightarrow> (bytes \<Rightarrow> bytes) \<Rightarrow> bytes option \<Rightarrow> bytes \<Rightarrow> bytes option" where
  "resolve_on_path is_file lossy path_var program =
     (if CHR ''/'' \<in> set program \<or> CHR 0x5C \<in> set program \<or> extension (path_of program) \<noteq> None
      then (if is_file program then Some (lossy program) else None)
      else Option.bind path_var (\<lambda>v.
        map_option lossy (find is_file (map (\<lambda>dir. path_join dir program) (split_on (CHR '':'') v)))))"

definition prepare :: "(bytes \<Rightarrow> bool) \<Rightarrow> (bytes \<Rightarrow> bytes) \<Rightarrow> bytes option \<Rightarrow> bytes \<Rightarrow> bytes list \<Rightarrow> bytes \<times> bytes list" where
  "prepare is_file lossy path_var program args =
     (case resolve_on_path is_file lossy path_var program of Some p \<Rightarrow> p | None \<Rightarrow> program, args)"

section \<open>Facts\<close>

lemma drop_take_drop: "k \<le> k' \<Longrightarrow> drop k (take k' xs) @ drop k' xs = drop k xs"
  by (metis append_take_drop_id drop_drop drop_take le_add_diff_inverse2 add.commute)

text \<open>What the loop has put out and what it has left are what it was given.\<close>

lemma wait_loop_output:
  "wait_loop sent deadline ts k out = Some (r, k', out') \<Longrightarrow> out' @ concat (drop k' sent) = out @ concat (drop k sent)"
proof (induction ts arbitrary: k out)
  case (Cons t ts)
  let ?k = "max k (pl_sent t)"
  have d: "concat (drop k (take ?k sent)) @ concat (drop ?k sent) = concat (drop k sent)"
    using drop_take_drop [of k ?k sent] by (metis concat_append max.cobounded1)
  show ?case using Cons d by (fastforce simp: Let_def split: result.splits option.splits if_splits)
qed simp

text \<open>
  The clock moves at least ten milliseconds a turn, as each one ends in a sleep.
\<close>

fun paced :: "nat \<Rightarrow> poll_turn list \<Rightarrow> bool" where
  "paced t [] = True"
| "paced t (x # xs) = (t \<le> pl_now x \<and> paced (pl_now x + 10) xs)"

lemma wait_loop_ends:
  "paced t turns \<Longrightarrow> deadline + 10 \<le> t + 10 * length turns \<Longrightarrow> turns \<noteq> [] \<Longrightarrow> wait_loop sent deadline turns k out \<noteq> None"
proof (induction turns arbitrary: t k out)
  case (Cons x xs)
  show ?case
  proof (cases xs)
    case Nil
    then show ?thesis using Cons.prems by (auto simp: Let_def split: result.splits option.splits)
  next
    case (Cons y ys)
    have "deadline + 10 \<le> pl_now x + 10 + 10 * length xs" using Cons.prems by simp
    then have "wait_loop sent deadline xs k' out' \<noteq> None" for k' out' using Cons.IH [of "pl_now x + 10"] Cons.prems \<open>xs = y # ys\<close> by simp
    then show ?thesis by (simp add: Let_def split: result.splits option.splits)
  qed
qed simp

text \<open>A result is what the child said, or says that the time was over.\<close>

definition outcome_of :: "nat \<Rightarrow> poll_turn list \<Rightarrow> (i32, exec_error) result \<Rightarrow> bool" where
  "outcome_of deadline turns r \<longleftrightarrow> (case r of
     Ok code \<Rightarrow> \<exists>t \<in> set turns. pl_wait t = Ok (Some code)
   | Err e \<Rightarrow> e = ExecTimeout \<and> (\<exists>t \<in> set turns. pl_wait t = Ok None \<and> deadline \<le> pl_now t)
   | Panic \<Rightarrow> False)"

lemma wait_loop_outcome:
  assumes "wait_loop sent deadline turns k out = Some (r, k', out')" and "\<forall>t \<in> set turns. is_ok (pl_wait t)"
  shows "\<exists>code timed_out. r = Ok (code, timed_out) \<and> outcome_of deadline turns (if timed_out then Err ExecTimeout else Ok code)"
  using assms
proof (induction turns arbitrary: k out)
  case (Cons t ts)
  show ?case
  proof (cases "pl_wait t")
    case (Ok c)
    show ?thesis
    proof (cases "c = None \<and> pl_now t < deadline")
      case True
      then have "wait_loop sent deadline ts (max k (pl_sent t)) (out @ concat (drop k (take (max k (pl_sent t)) sent))) = Some (r, k', out')"
        using Ok Cons.prems(1) by (simp add: Let_def)
      from Cons.IH [OF this] Cons.prems(2) show ?thesis by (fastforce simp: outcome_of_def split: if_splits)
    next
      case False
      then show ?thesis using Ok Cons.prems(1) by (cases c) (auto simp: Let_def outcome_of_def)
    qed
  qed (use Cons.prems(2) in simp_all)
qed simp

section \<open>Properties\<close>

text \<open>C38: A command in a mounted workspace is done after at most one poll per ten milliseconds of its time and one more,
  if its terminal closes: it then ends with the exit code that the child gave, or with a timeout when the time was over,
  and in both cases the whole output of the terminal has been appended in order. If the terminal stays open, as when
  a process left behind by the child keeps it, the call does not return at all, whatever its timeout.\<close>

theorem exec_ends_with_its_terminal:
  assumes "ws_driver w = Some mount" and "cwd = CHR ''/'' # rest" and "spawn (join_mount mount cwd) = Ok ()"
    and "reader_sends reads = (sent, ended)" and "\<forall>t \<in> set turns. is_ok (pl_wait t)"
    and "paced 0 turns" and "deadline + 10 \<le> 10 * length turns"
  shows "if ended then \<exists>r. exec_with_timeout w cwd spawn reads turns deadline out = Some (r, out @ concat sent) \<and> outcome_of deadline turns r
    else exec_with_timeout w cwd spawn reads turns deadline out = None"
proof -
  have "turns \<noteq> []" using assms(7) by auto
  then obtain r k out' where l: "wait_loop sent deadline turns 0 out = Some (r, k, out')"
    using wait_loop_ends [OF assms(6), of deadline sent 0 out] assms(7) by auto
  obtain code timed_out where r: "r = Ok (code, timed_out)" "outcome_of deadline turns (if timed_out then Err ExecTimeout else Ok code)"
    using wait_loop_outcome [OF l assms(5)] by blast
  show ?thesis using wait_loop_output [OF l] l r assms(1-4) by (simp add: exec_with_timeout_def)
qed

theorem exec_ends_with_its_terminal_witness:
  "\<exists>r. exec_with_timeout \<lparr>ws_fs = (), ws_driver = Some [RootDir], ws_tempdir = None\<rparr> ''/'' (\<lambda>_. Ok ()) [Ok ''out'', Ok []]
      [\<lparr>pl_sent = 0, pl_wait = Ok None, pl_now = 0\<rparr>, \<lparr>pl_sent = 0, pl_wait = Ok (Some 0), pl_now = 12\<rparr>] 10 [] = Some (r, ''out'') \<and>
    outcome_of 10 [\<lparr>pl_sent = 0, pl_wait = Ok None, pl_now = 0\<rparr>, \<lparr>pl_sent = 0, pl_wait = Ok (Some 0), pl_now = 12\<rparr>] r"
  using exec_ends_with_its_terminal [of "\<lparr>ws_fs = (), ws_driver = Some [RootDir], ws_tempdir = None\<rparr>" "[RootDir]" "''/''" "[]" "\<lambda>_. Ok ()" "[Ok ''out'', Ok []]" "[''out'']" True
      "[\<lparr>pl_sent = 0, pl_wait = Ok None, pl_now = 0\<rparr>, \<lparr>pl_sent = 0, pl_wait = Ok (Some 0), pl_now = 12\<rparr>]" 10 "[]"]
  by simp

text \<open>
  The directory of a command is the mount with the pieces of the given path after it, never another
  absolute path; but the pieces may climb above the mount.
\<close>

lemma join_mount_below: "\<exists>r. join_mount mount cwd = mount @ r \<and> relative r"
proof -
  let ?t = "dropWhile (\<lambda>c. c = CHR ''/'') cwd"
  have "relative (path_of ?t)" if "?t \<noteq> []"
    using that hd_dropWhile [of "\<lambda>c. c = CHR ''/''" cwd] by (intro path_of_relative) (cases ?t; simp add: starts_with_def)
  then show ?thesis
    by (cases "path_of ?t"; cases "hd (path_of ?t)") (auto simp: join_mount_def path_push_def relative_def Let_def)
qed

lemma join_mount_climbs: "join_mount mount ''/../etc'' = mount @ [ParentDir, Normal ''etc'']"
  by (simp add: join_mount_def path_of_def piece_def starts_with_def map_filter_def path_push_def)

text \<open>The variables of a command, whatever those of the daemon are.\<close>

lemma curated_env_variables:
  "map fst (curated_env p) = [''HOME'', ''CARGO_HOME'', ''USER'', ''LOGNAME'', ''SHELL'', ''TERM'', ''GIT_TERMINAL_PROMPT'', ''GIT_PAGER'', ''PAGER''] @
     (if p = None then [] else [''PATH''])"
  by (simp add: curated_env_def split: option.splits)

text \<open>A program that is found is a file; one that is not is left as it was named.\<close>

lemma prepare_is_file:
  "prepare is_file (\<lambda>s. s) path_var program args = (p, args') \<Longrightarrow> args' = args \<and> (p = program \<or> is_file p)"
  by (auto simp: prepare_def resolve_on_path_def find_Some_iff bind_eq_Some_conv split: option.splits if_splits)

end
