(* ===== verification/Prefs.thy ===== *)
theory Prefs
  imports StdPath
begin

text \<open>
  Discovery of preference files (\<open>crates/devdev-cli/src/preferences.rs\<close>) and the choice of the file
  that \<open>devdev preferences edit\<close> opens (\<open>daemon_cli.rs\<close>). The file system of the host is a parameter
  that does not change while it is searched.
\<close>

section \<open>Data\<close>

datatype preference_layer = Repo | Parent | Home

record preference_file =
  pf_path :: path
  pf_title :: bytes
  pf_body :: bytes
  pf_layer :: preference_layer

datatype preference_error = ReadDir path | ReadFile path

text \<open>
  What the host answers. Entries of a directory that cannot be read are \<open>None\<close>, and so are a
  directory and a file that cannot be.
\<close>

record host_files =
  hf_is_dir :: "path \<Rightarrow> bool"
  hf_is_file :: "path \<Rightarrow> bool"
  hf_entries :: "path \<Rightarrow> bytes option list option"
  hf_read :: "path \<Rightarrow> bytes option"

section \<open>Loading a directory\<close>

definition extract_title :: "bytes \<Rightarrow> bytes option" where
  "extract_title body = map_option (\<lambda>l. trim (drop 2 l)) (find (\<lambda>l. starts_with l ''# '') (lines body))"

text \<open>\<open>read_to_string\<close> refuses a file that is not UTF-8.\<close>

definition load_file :: "host_files \<Rightarrow> preference_layer \<Rightarrow> path \<Rightarrow> (preference_file, preference_error) result" where
  "load_file H layer p = (case hf_read H p of
     None \<Rightarrow> Err (ReadFile p)
   | Some body \<Rightarrow> if \<not> utf8_valid body then Err (ReadFile p)
       else Ok \<lparr>pf_path = p,
         pf_title = (case extract_title body of Some t \<Rightarrow> t
           | None \<Rightarrow> (case file_stem p of Some s \<Rightarrow> if utf8_valid s then s else ''preference'' | None \<Rightarrow> ''preference'')),
         pf_body = body, pf_layer = layer\<rparr>)"

primrec load_files :: "host_files \<Rightarrow> preference_layer \<Rightarrow> path list \<Rightarrow> (preference_file list, preference_error) result" where
  "load_files H layer [] = Ok []"
| "load_files H layer (p # ps) =
     res_bind (load_file H layer p) (\<lambda>f. res_bind (load_files H layer ps) (\<lambda>fs. Ok (f # fs)))"

text \<open>The names of one directory order its paths.\<close>

definition md_files :: "path \<Rightarrow> bytes option list \<Rightarrow> path list" where
  "md_files dir es = map (\<lambda>n. path_push dir [Normal n])
     (sort (filter (\<lambda>n. extension (path_push dir [Normal n]) = Some ''md'') (List.map_filter id es)))"

definition load_dir :: "host_files \<Rightarrow> path \<Rightarrow> preference_layer \<Rightarrow> (preference_file list, preference_error) result" where
  "load_dir H dir layer = res_bind (ok_or (hf_entries H dir) (ReadDir dir)) (\<lambda>es. load_files H layer (md_files dir es))"

section \<open>Discovery\<close>

primrec push_new :: "preference_file list \<Rightarrow> bytes set \<times> preference_file list \<Rightarrow> bytes set \<times> preference_file list" where
  "push_new [] st = st"
| "push_new (f # fs) st = push_new fs
     (if pf_title f \<in> fst st then st else (insert (pf_title f) (fst st), snd st @ [f]))"

definition visit_dir :: "host_files \<Rightarrow> preference_layer \<Rightarrow> path \<Rightarrow> bytes set \<times> preference_file list \<Rightarrow>
    (bytes set \<times> preference_file list, preference_error) result" where
  "visit_dir H layer dir st =
     (let prefs = path_push dir [Normal ''.devdev''] in
      if hf_is_dir H prefs then res_bind (load_dir H prefs layer) (\<lambda>fs. Ok (push_new fs st)) else Ok st)"

function walk_up :: "host_files \<Rightarrow> path option \<Rightarrow> preference_layer \<Rightarrow> path \<Rightarrow> bytes set \<times> preference_file list \<Rightarrow>
    (bytes set \<times> preference_file list, preference_error) result" where
  "walk_up H home layer dir st = res_bind (visit_dir H layer dir st) (\<lambda>st.
     (case parent_dir dir of
        None \<Rightarrow> Ok st
      | Some next \<Rightarrow> if home = Some next then Ok st else walk_up H home Parent next st))"
  by pat_completeness auto

termination
  by (relation "measure (\<lambda>(H, home, layer, dir, st). length dir)") (auto dest: parent_dir_shorter)

declare walk_up.simps [simp del]

definition discover :: "host_files \<Rightarrow> path \<Rightarrow> path option \<Rightarrow> (preference_file list, preference_error) result" where
  "discover H start home = res_bind (walk_up H home Repo start ({}, [])) (\<lambda>st.
     (case home of
        None \<Rightarrow> Ok (snd st)
      | Some h \<Rightarrow> res_bind (visit_dir H Home h st) (\<lambda>st. Ok (snd st))))"

section \<open>The file to edit\<close>

text \<open>\<open>env\<close> gives the variables that are set and are text.\<close>

definition home_dir :: "(bytes \<Rightarrow> bytes option) \<Rightarrow> path option" where
  "home_dir env = (case env ''HOME'' of
     Some (c # cs) \<Rightarrow> Some (path_of (c # cs))
   | _ \<Rightarrow> (case env ''USERPROFILE'' of Some (c # cs) \<Rightarrow> Some (path_of (c # cs)) | _ \<Rightarrow> None))"

definition is_ascii_alphanumeric :: "nat \<Rightarrow> bool" where
  "is_ascii_alphanumeric c \<longleftrightarrow> 48 \<le> c \<and> c \<le> 57 \<or> 65 \<le> c \<and> c \<le> 90 \<or> 97 \<le> c \<and> c \<le> 122"

definition safe_name :: "bytes \<Rightarrow> bytes" where
  "safe_name name = (case utf8_decode name of
     Some cs \<Rightarrow> map (\<lambda>c. if is_ascii_alphanumeric c then char_of c else CHR ''-'') cs
   | None \<Rightarrow> [])"

text \<open>\<open>lower\<close> is \<open>str::to_lowercase\<close>, which follows the tables of Unicode.\<close>

definition edit_matches :: "(bytes \<Rightarrow> bytes) \<Rightarrow> bytes \<Rightarrow> preference_file \<Rightarrow> bool" where
  "edit_matches lower name f \<longleftrightarrow> lower (pf_title f) = lower name \<or>
     (case file_stem (pf_path f) of Some s \<Rightarrow> utf8_valid s \<and> lower s = lower name | None \<Rightarrow> False)"

definition edit_target :: "(bytes \<Rightarrow> bytes) \<Rightarrow> path \<Rightarrow> bytes \<Rightarrow> preference_file list \<Rightarrow> path" where
  "edit_target lower workdir name fs = (case find (edit_matches lower name) fs of
     Some f \<Rightarrow> pf_path f
   | None \<Rightarrow> path_push (path_push workdir [Normal ''.devdev'']) [Normal (safe_name name @ ''.md'')])"

definition preferences_edit :: "(bytes \<Rightarrow> bytes) \<Rightarrow> host_files \<Rightarrow> (bytes \<Rightarrow> bytes option) \<Rightarrow> path \<Rightarrow> bytes \<Rightarrow> (path, preference_error) result" where
  "preferences_edit lower H env workdir name =
     res_bind (discover H workdir (home_dir env)) (\<lambda>fs. Ok (edit_target lower workdir name fs))"

section \<open>The reference\<close>

text \<open>The directories in the order of their priority, and all their files in that order.\<close>

function ancestors :: "path option \<Rightarrow> path \<Rightarrow> path list" where
  "ancestors home dir = (case parent_dir dir of
     None \<Rightarrow> []
   | Some next \<Rightarrow> if home = Some next then [] else next # ancestors home next)"
  by pat_completeness auto

termination
  by (relation "measure (\<lambda>(home, dir). length dir)") (auto dest: parent_dir_shorter)

declare ancestors.simps [simp del]

definition layers :: "path \<Rightarrow> path option \<Rightarrow> (preference_layer \<times> path) list" where
  "layers start home = (Repo, start) # map (Pair Parent) (ancestors home start) @ map (Pair Home) (case home of None \<Rightarrow> [] | Some h \<Rightarrow> [h])"

definition layer_files :: "host_files \<Rightarrow> preference_layer \<times> path \<Rightarrow> (preference_file list, preference_error) result" where
  "layer_files H x = (let prefs = path_push (snd x) [Normal ''.devdev''] in
     if hf_is_dir H prefs then load_dir H prefs (fst x) else Ok [])"

primrec gather :: "host_files \<Rightarrow> (preference_layer \<times> path) list \<Rightarrow> (preference_file list, preference_error) result" where
  "gather H [] = Ok []"
| "gather H (x # xs) = res_bind (layer_files H x) (\<lambda>fs. res_bind (gather H xs) (\<lambda>gs. Ok (fs @ gs)))"

text \<open>The first file of each title that is not in \<open>S\<close>.\<close>

primrec fresh :: "bytes set \<Rightarrow> preference_file list \<Rightarrow> preference_file list" where
  "fresh S [] = []"
| "fresh S (f # fs) = (if pf_title f \<in> S then fresh S fs else f # fresh (insert (pf_title f) S) fs)"

fun layer_rank :: "preference_layer \<Rightarrow> nat" where
  "layer_rank Repo = 0"
| "layer_rank Parent = 1"
| "layer_rank Home = 2"

section \<open>Facts\<close>

lemma push_new_append: "push_new (xs @ ys) st = push_new ys (push_new xs st)"
  by (induction xs arbitrary: st) simp_all

lemma push_new_fresh: "push_new fs (S, out) = (S \<union> pf_title ` set fs, out @ fresh S fs)"
  by (induction fs arbitrary: S out) (auto simp: insert_absorb)

lemma fresh_append: "fresh S (xs @ ys) = fresh S xs @ fresh (S \<union> pf_title ` set xs) ys"
  by (induction xs arbitrary: S) (auto simp: insert_absorb)

lemma visit_dir_gather: "visit_dir H layer dir st = res_bind (layer_files H (layer, dir)) (\<lambda>fs. Ok (push_new fs st))"
  by (simp add: visit_dir_def layer_files_def Let_def)

lemma walk_up_gather:
  "walk_up H home layer dir st = res_bind (gather H ((layer, dir) # map (Pair Parent) (ancestors home dir))) (\<lambda>all. Ok (push_new all st))"
proof (induction H home layer dir st rule: walk_up.induct)
  case (1 H home layer dir st)
  show ?case
  proof (cases "layer_files H (layer, dir)")
    case (Ok fs)
    show ?thesis
    proof (cases "parent_dir dir")
      case None
      then show ?thesis using Ok by (simp add: walk_up.simps [of H home layer dir] ancestors.simps [of home dir] visit_dir_gather)
    next
      case (Some up)
      have "home \<noteq> Some up \<Longrightarrow> walk_up H home Parent up st' =
          res_bind (gather H ((Parent, up) # map (Pair Parent) (ancestors home up))) (\<lambda>all. Ok (push_new all st'))" for st'
        using 1 Some by simp
      then show ?thesis using Ok Some
        by (cases "layer_files H (Parent, up)"; cases "gather H (map (Pair Parent) (ancestors home up))")
          (simp_all add: walk_up.simps [of H home layer dir] ancestors.simps [of home dir] visit_dir_gather push_new_append)
    qed
  qed (simp_all add: walk_up.simps [of H home layer dir] visit_dir_gather)
qed

lemma gather_append: "gather H (xs @ ys) = res_bind (gather H xs) (\<lambda>fs. res_bind (gather H ys) (\<lambda>gs. Ok (fs @ gs)))"
proof (induction xs)
  case Nil
  then show ?case by (cases "gather H ys") simp_all
next
  case (Cons x xs)
  then show ?case by (cases "layer_files H x"; cases "gather H xs"; cases "gather H ys") simp_all
qed

lemma discover_gather: "discover H start home = res_bind (gather H (layers start home)) (\<lambda>all. Ok (fresh {} all))"
proof -
  let ?ds = "(Repo, start) # map (Pair Parent) (ancestors home start)"
  have l: "layers start home = ?ds @ map (Pair Home) (case home of None \<Rightarrow> [] | Some h \<Rightarrow> [h])"
    by (simp add: layers_def)
  show ?thesis
  proof (cases "gather H ?ds")
    case (Ok fs)
    show ?thesis unfolding l gather_append discover_def walk_up_gather Ok
      by (cases home; cases "layer_files H (Home, the home)")
        (simp_all add: visit_dir_gather push_new_fresh fresh_append)
  qed (simp_all only: l gather_append discover_def walk_up_gather res_bind.simps)
qed

lemma find_fresh: "find (\<lambda>f. pf_title f = t) (fresh S fs) = (if t \<in> S then None else find (\<lambda>f. pf_title f = t) fs)"
  by (induction fs arbitrary: S) auto

lemma fresh_titles: "distinct (map pf_title (fresh S fs)) \<and> S \<inter> pf_title ` set (fresh S fs) = {}"
proof (induction fs arbitrary: S)
  case (Cons f fs)
  show ?case using Cons [of S] Cons [of "insert (pf_title f) S"] by auto
qed simp

lemma fresh_subset: "set (fresh S fs) \<subseteq> set fs"
  by (induction fs arbitrary: S) auto

lemma fresh_sorted: "sorted_wrt P fs \<Longrightarrow> sorted_wrt P (fresh S fs)"
proof (induction fs arbitrary: S)
  case (Cons f fs)
  then show ?case using fresh_subset [of _ fs] by fastforce
qed simp

lemma load_files_layer: "load_files H layer ps = Ok fs \<Longrightarrow> \<forall>f \<in> set fs. pf_layer f = layer"
  by (induction ps arbitrary: fs) (auto simp: load_file_def split: option.splits if_splits)

lemma layer_files_layer: "layer_files H x = Ok fs \<Longrightarrow> \<forall>f \<in> set fs. pf_layer f = fst x"
  by (auto simp: layer_files_def load_dir_def Let_def dest: load_files_layer split: if_splits)

lemma gather_layers: "gather H xs = Ok fs \<Longrightarrow> pf_layer ` set fs \<subseteq> fst ` set xs"
  by (induction xs arbitrary: fs) (fastforce dest: layer_files_layer)+

lemma gather_sorted:
  "gather H xs = Ok fs \<Longrightarrow> sorted_wrt (\<lambda>x y. layer_rank (fst x) \<le> layer_rank (fst y)) xs \<Longrightarrow>
   sorted_wrt (\<lambda>f g. layer_rank (pf_layer f) \<le> layer_rank (pf_layer g)) fs"
proof (induction xs arbitrary: fs)
  case (Cons x xs)
  from Cons.prems(1) obtain as bs where a: "layer_files H x = Ok as" "gather H xs = Ok bs" "fs = as @ bs" by auto
  have "sorted_wrt (\<lambda>f g. layer_rank (pf_layer f) \<le> layer_rank (pf_layer g)) as"
    using layer_files_layer [OF a(1)] by (auto intro: sorted_wrt_mono_rel [of _ "\<lambda>_ _. True"] simp: sorted_wrt_iff_nth_less)
  moreover have "layer_rank (fst x) \<le> layer_rank (pf_layer g)" if "g \<in> set bs" for g
    using gather_layers [OF a(2)] that Cons.prems(2) by fastforce
  ultimately show ?case using Cons.IH [OF a(2)] Cons.prems(2) a(3) layer_files_layer [OF a(1)] by (auto simp: sorted_wrt_append)
qed simp

lemma layers_sorted: "sorted_wrt (\<lambda>x y. layer_rank (fst x) \<le> layer_rank (fst y)) (layers start home)"
  by (auto simp: layers_def sorted_wrt_append sorted_wrt_map split: option.splits)

section \<open>Properties\<close>

text \<open>C40: Discovery answers with the first file of every title: a lookup by title in its answer finds what a lookup in
  all files of all layers finds, the start directory before its ancestors, those up to the home directory, and the home
  directory last; no title is there twice and the layers come in the order of their priority.\<close>

theorem discover_first_of_title:
  assumes "discover H start home = Ok fs"
  shows "(\<exists>all. gather H (layers start home) = Ok all \<and>
      (\<forall>t. find (\<lambda>f. pf_title f = t) fs = find (\<lambda>f. pf_title f = t) all)) \<and>
    distinct (map pf_title fs) \<and> sorted_wrt (\<lambda>f g. layer_rank (pf_layer f) \<le> layer_rank (pf_layer g)) fs"
proof -
  obtain all where a: "gather H (layers start home) = Ok all" "fs = fresh {} all" using assms by (auto simp: discover_gather)
  have "sorted_wrt (\<lambda>f g. layer_rank (pf_layer f) \<le> layer_rank (pf_layer g)) fs"
    using fresh_sorted [OF gather_sorted [OF a(1) layers_sorted]] a(2) by simp
  then show ?thesis using a fresh_titles find_fresh [of _ "{}"] by simp
qed

text \<open>A repository below a home directory; both have a file of the same title.\<close>

definition demo_host :: host_files where
  "demo_host = \<lparr>hf_is_dir = (\<lambda>p. p \<noteq> []), hf_is_file = (\<lambda>p. True),
     hf_entries = (\<lambda>p. Some [Some ''b.md'', None, Some ''a.txt'']), hf_read = (\<lambda>p. Some ''# T'')\<rparr>"

theorem discover_first_of_title_witness:
  "discover demo_host [RootDir, Normal ''h'', Normal ''r''] (Some [RootDir, Normal ''h'']) =
     Ok [\<lparr>pf_path = [RootDir, Normal ''h'', Normal ''r'', Normal ''.devdev'', Normal ''b.md''], pf_title = ''T'', pf_body = ''# T'', pf_layer = Repo\<rparr>] \<and>
   distinct (map pf_title [\<lparr>pf_path = [RootDir, Normal ''h'', Normal ''r'', Normal ''.devdev'', Normal ''b.md''], pf_title = ''T'', pf_body = ''# T'', pf_layer = Repo\<rparr>])"
proof -
  have x: "trim ''T'' = ''T''" "lines ''# T'' = [''# T'']" "utf8_valid ''# T''" by code_simp+
  have e: "extension (ds @ [Normal ''b.md'']) = Some ''md''" "extension (ds @ [Normal ''a.txt'']) = Some ''txt''" for ds
    using split_at_dot_ext [of "''b''" "''md''"] split_at_dot_ext [of "''a''" "''txt''"] by (simp_all add: extension_def)
  have l: "load_dir demo_host ds layer = Ok [\<lparr>pf_path = ds @ [Normal ''b.md''], pf_title = ''T'', pf_body = ''# T'', pf_layer = layer\<rparr>]" for ds layer
    by (simp add: load_dir_def md_files_def map_filter_def demo_host_def e load_file_def extract_title_def x starts_with_def)
  have hd_host: "hf_is_dir demo_host (c # ds)" for c ds by (simp add: demo_host_def)
  have d: "discover demo_host [RootDir, Normal ''h'', Normal ''r''] (Some [RootDir, Normal ''h'']) =
     Ok [\<lparr>pf_path = [RootDir, Normal ''h'', Normal ''r'', Normal ''.devdev'', Normal ''b.md''], pf_title = ''T'', pf_body = ''# T'', pf_layer = Repo\<rparr>]"
    by (simp add: discover_gather layers_def ancestors.simps parent_dir_def layer_files_def l hd_host)
  with discover_first_of_title [OF d] show ?thesis by simp
qed

text \<open>One file that is not text makes the whole discovery fail.\<close>

lemma one_bad_file_fails:
  assumes "hf_is_dir H (start @ [Normal ''.devdev''])" "hf_entries H (start @ [Normal ''.devdev'']) = Some [Some ''a.md'']"
    and "hf_read H (start @ [Normal ''.devdev'', Normal ''a.md'']) = Some body" "\<not> utf8_valid body"
  shows "discover H start home = Err (ReadFile (start @ [Normal ''.devdev'', Normal ''a.md'']))"
proof -
  have "extension (ds @ [Normal ''a.md'']) = Some ''md''" for ds
    using split_at_dot_ext [of "''a''" "''md''"] by (simp add: extension_def)
  from this [of "start @ [Normal ''.devdev'']"] assms show ?thesis
    by (simp add: discover_gather layers_def layer_files_def load_dir_def md_files_def map_filter_def load_file_def)
qed

text \<open>
  A name that no preference has becomes a file of the start directory: one component of letters,
  digits and dashes, which discovery will list unless the name is empty.
\<close>

lemma safe_name_chars: "c \<in> set (safe_name name) \<Longrightarrow> c = CHR ''-'' \<or> (\<exists>n. is_ascii_alphanumeric n \<and> c = char_of n)"
  by (auto simp: safe_name_def split: option.splits if_splits)

lemma edit_creates_below:
  assumes "find (edit_matches lower name) fs = None"
  shows "edit_target lower workdir name fs = workdir @ [Normal ''.devdev'', Normal (safe_name name @ ''.md'')] \<and>
    CHR ''/'' \<notin> set (safe_name name) \<and> CHR ''.'' \<notin> set (safe_name name) \<and>
    (extension (edit_target lower workdir name fs) = Some ''md'' \<longleftrightarrow> safe_name name \<noteq> [])"
proof -
  have c: "is_ascii_alphanumeric n \<Longrightarrow> char_of n \<noteq> CHR ''/'' \<and> char_of n \<noteq> CHR ''.''" for n
  proof -
    assume n: "is_ascii_alphanumeric n"
    then have "n < 256" by (auto simp: is_ascii_alphanumeric_def)
    from of_char_small [OF this] have "char_of n = c' \<Longrightarrow> n = of_char c'" for c' by metis
    from this [of "CHR ''/''"] this [of "CHR ''.''"] n show ?thesis by (auto simp: is_ascii_alphanumeric_def)
  qed
  then have s: "CHR ''/'' \<notin> set (safe_name name)" "CHR ''.'' \<notin> set (safe_name name)" using safe_name_chars [of _ name] by fastforce+
  have t: "edit_target lower workdir name fs = (workdir @ [Normal ''.devdev'']) @ [Normal (safe_name name @ ''.md'')]"
    using assms by (simp add: edit_target_def)
  have "split_at_dot ''.md'' = (''.md'', None)" by code_simp
  with s t split_at_dot_ext [of "safe_name name" "''md''"] show ?thesis
    by (cases "safe_name name = []") (simp_all add: extension_def del: append_assoc)
qed

end
