(* ===== verification/IpcServer.thy ===== *)
theory IpcServer
  imports DispatchProps Rpc
begin

text \<open>
  One connection to the daemon: the lines of \<open>crates/devdev-daemon/src/ipc.rs\<close>, the loop of
  \<open>server.rs\<close> that answers them and the client's side of a request. The two directions of the socket
  are byte strings; the parser and printer of JSON text are parameters.
\<close>

section \<open>The structs as JSON\<close>

definition ipc_request_json :: "ipc_request \<Rightarrow> json" where
  "ipc_request_json q = JObj [(''id'', j_u64 (rq_num q)), (''method'', JStr (rq_method q)), (''params'', rq_params q)]"

definition ipc_request_of_json :: "json \<Rightarrow> ipc_request option" where
  "ipc_request_of_json v =
     Option.bind (members [''id'', ''method'', ''params''] v) (\<lambda>ms.
     Option.bind (field ms ''id'' as_u64) (\<lambda>n.
     Option.bind (field ms ''method'' as_str) (\<lambda>m.
     Some \<lparr>rq_num = n, rq_method = m, rq_params = (case map_of ms ''params'' of Some p \<Rightarrow> p | None \<Rightarrow> JNull)\<rparr>)))"

text \<open>A code is an \<open>i32\<close>.\<close>

fun as_code :: "json \<Rightarrow> int option" where
  "as_code (JNum n) = (if - (2 ^ 31) \<le> n \<and> n < 2 ^ 31 then Some n else None)"
| "as_code _ = None"

definition ipc_error_json :: "ipc_error \<Rightarrow> json" where
  "ipc_error_json e = JObj [(''code'', JNum (ie_code e)), (''message'', JStr (ie_message e))]"

definition ipc_error_of_json :: "json \<Rightarrow> ipc_error option" where
  "ipc_error_of_json v =
     Option.bind (members [''code'', ''message''] v) (\<lambda>ms.
     Option.bind (field ms ''code'' as_code) (\<lambda>c.
     Option.bind (field ms ''message'' as_str) (\<lambda>m. Some \<lparr>ie_code = c, ie_message = m\<rparr>)))"

definition ipc_response_json :: "ipc_response \<Rightarrow> json" where
  "ipc_response_json r = JObj ([(''id'', j_u64 (rp_num r))] @
     opt_member ''result'' (\<lambda>v. v) (rp_result r) @ opt_member ''error'' ipc_error_json (rp_error r))"

definition ipc_response_of_json :: "json \<Rightarrow> ipc_response option" where
  "ipc_response_of_json v =
     Option.bind (members [''id'', ''result'', ''error''] v) (\<lambda>ms.
     Option.bind (field ms ''id'' as_u64) (\<lambda>n.
     Option.bind (opt_field ms ''result'' Some) (\<lambda>res.
     Option.bind (opt_field ms ''error'' ipc_error_of_json) (\<lambda>err.
     Some \<lparr>rp_num = n, rp_result = res, rp_error = err\<rparr>))))"

section \<open>Lines\<close>

text \<open>Unlike the reader of the agent protocol this one takes a blank line for a bad request.\<close>

definition read_json_line :: "json_parser \<Rightarrow> (json \<Rightarrow> 'a option) \<Rightarrow> bytes \<Rightarrow> ('a option, unit) result \<times> bytes" where
  "read_json_line parse dec s = (case read_line s of (line, rest) \<Rightarrow>
     (if line = [] then (Ok None, rest)
      else if \<not> utf8_valid line then (Err (), rest)
      else (map_err (\<lambda>_. ()) (ok_or (map_option Some (Option.bind (parse (trim line)) dec)) ()), rest)))"

definition read_request :: "json_parser \<Rightarrow> bytes \<Rightarrow> (ipc_request option, unit) result \<times> bytes" where
  "read_request parse = read_json_line parse ipc_request_of_json"

definition write_response :: "(json \<Rightarrow> bytes) \<Rightarrow> ipc_response \<Rightarrow> bytes" where
  "write_response print r = print (ipc_response_json r) @ [CHR 0x0A]"

lemma read_json_line_shorter: "read_json_line parse dec s = (Ok (Some x), rest) \<Longrightarrow> length rest < length s"
proof -
  assume a: "read_json_line parse dec s = (Ok (Some x), rest)"
  obtain line r where l: "read_line s = (line, r)" by (cases "read_line s")
  with a have "line \<noteq> []" "r = rest" by (auto simp: read_json_line_def split: if_splits)
  with read_line_rest [OF l] show ?thesis by (cases line) auto
qed

section \<open>The server\<close>

text \<open>
  What a connection does with all that the peer sends: what it writes, whether the task ended with
  the connection closed (and not in a panic or in a request that waits), and the daemon after it.
  \<open>room\<close> is the number of responses that can be written before the peer is gone.
\<close>

function handle_connection :: "json_parser \<Rightarrow> (json \<Rightarrow> bytes) \<Rightarrow> ('s, 'b) dispatch_env \<Rightarrow> nat \<Rightarrow> bytes \<Rightarrow> ('s, 'b) dispatch_state \<Rightarrow>
    bytes \<times> bool \<times> ('s, 'b) dispatch_state" where
  "handle_connection parse print E room s d = (case read_request parse s of
     (Ok (Some q), rest) \<Rightarrow> (case dispatch E q d of
        None \<Rightarrow> ([], False, d)
      | Some (Ok r, d') \<Rightarrow> (if room = 0 then ([], True, d')
          else (case handle_connection parse print E (room - 1) rest d' of (out, x) \<Rightarrow> (write_response print r @ out, x)))
      | Some (_, d') \<Rightarrow> ([], False, d'))
   | (_, rest) \<Rightarrow> ([], True, d))"
  by pat_completeness auto

termination
proof (relation "measure (\<lambda>(parse, print, E, room, s, d). length s)", simp)
  fix parse :: json_parser and print E room s and d :: "('s, 'b) dispatch_state" and p rest x q y r d'
  assume "(p, rest) = read_request parse s" "p = Ok x" "x = Some q"
  then show "((parse, print, E, room - 1, rest, d'), (parse, print, E, room, s, d)) \<in> measure (\<lambda>(parse, print, E, room, s, d). length s)"
    using read_json_line_shorter [of parse ipc_request_of_json s q rest] by (simp add: read_request_def)
qed

declare handle_connection.simps [simp del]

section \<open>The client\<close>

record ipc_client =
  ic_next :: u64
  ic_received :: bytes  \<comment> \<open>what the server has sent and the client has not read\<close>
  ic_sent :: bytes

definition client_connect :: ipc_client where
  "client_connect = \<lparr>ic_next = 1, ic_received = [], ic_sent = []\<rparr>"

text \<open>The two halves of \<open>IpcClient::request\<close>, around the wait for the answer.\<close>

definition client_send :: "(json \<Rightarrow> bytes) \<Rightarrow> bytes \<Rightarrow> json \<Rightarrow> ipc_client \<Rightarrow> (u64, unit) result \<times> ipc_client" where
  "client_send print m ps c =
     (if ic_next c = - 1 then (Panic, c)
      else (Ok (ic_next c), c\<lparr>ic_next := ic_next c + 1,
        ic_sent := ic_sent c @ print (ipc_request_json \<lparr>rq_num = ic_next c, rq_method = m, rq_params = ps\<rparr>) @ [CHR 0x0A]\<rparr>))"

definition client_receive :: "json_parser \<Rightarrow> u64 \<Rightarrow> ipc_client \<Rightarrow> (ipc_response, unit) result \<times> ipc_client" where
  "client_receive parse n c = (case read_json_line parse ipc_response_of_json (ic_received c) of
     (r, rest) \<Rightarrow> ((case r of Ok None \<Rightarrow> Ok (ipc_err n (- 1) ''connection closed'') | Ok (Some x) \<Rightarrow> Ok x | Err e \<Rightarrow> Err e | Panic \<Rightarrow> Panic),
       c\<lparr>ic_received := rest\<rparr>))"

section \<open>Round trips\<close>

lemma ipc_request_back: "ipc_request_of_json (ipc_request_json q) = Some q"
  by (simp add: ipc_request_of_json_def ipc_request_json_def members_def field_def)

text \<open>A result of \<open>null\<close> reads back as none; a code fits an \<open>i32\<close>.\<close>

definition plain_response :: "ipc_response \<Rightarrow> bool" where
  "plain_response r \<longleftrightarrow> rp_result r \<noteq> Some JNull \<and> (\<forall>e. rp_error r = Some e \<longrightarrow> - (2 ^ 31) \<le> ie_code e \<and> ie_code e < 2 ^ 31)"

lemma ipc_response_back: "plain_response r \<Longrightarrow> ipc_response_of_json (ipc_response_json r) = Some r"
  by (cases "rp_result r"; cases "rp_error r")
    (simp_all add: plain_response_def ipc_response_of_json_def ipc_response_json_def ipc_error_json_def ipc_error_of_json_def members_def field_def opt_field_def)

text \<open>What the libraries promise of a text of JSON: it is one visible line that parses back.\<close>

definition json_line :: "(json \<Rightarrow> bytes) \<Rightarrow> json_parser \<Rightarrow> json \<Rightarrow> bool" where
  "json_line print parse v \<longleftrightarrow> (let t = print v in
     parse t = Some v \<and> t \<noteq> [] \<and> visible (hd t) \<and> visible (last t) \<and> CHR 0x0A \<notin> set t \<and> utf8_valid (t @ [CHR 0x0A]))"

lemma read_json_line_back:
  assumes "json_line print parse v"
  shows "read_json_line parse dec (print v @ CHR 0x0A # rest) = (map_err (\<lambda>_. ()) (ok_or (map_option Some (dec v)) ()), rest)"
proof -
  obtain c cs where t: "print v = c # cs" using assms by (cases "print v") (simp_all add: json_line_def Let_def)
  have f: "parse (print v) = Some v" "visible c" "visible (last (c # cs))" "CHR 0x0A \<notin> set (print v)" "utf8_valid (print v @ [CHR 0x0A])"
    using assms t by (simp_all add: json_line_def Let_def)
  have "trim (print v @ [CHR 0x0A]) = print v" using trim_line [OF f(2,3)] t by simp
  with f(1,5) read_line_append [OF f(4), of rest] show ?thesis by (simp add: read_json_line_def)
qed

text \<open>Whatever reads back as JSON reads back as a line.\<close>

context json_codec
begin

lemma line_back:
  assumes "json_line print parse (enc x)" "ok x"
  shows "read_json_line parse dec (print (enc x) @ CHR 0x0A # rest) = (Ok (Some x), rest)"
  using read_json_line_back [OF assms(1), of dec rest] dec_enc [OF assms(2)] by simp

end

interpretation ipc_requests: json_codec ipc_request_json ipc_request_of_json "\<lambda>_. True"
  by unfold_locales (rule ipc_request_back)

interpretation ipc_responses: json_codec ipc_response_json ipc_response_of_json plain_response
  by unfold_locales (rule ipc_response_back)

section \<open>Conversations\<close>

text \<open>The requests answered one after the other, as long as each one is answered.\<close>

primrec dispatch_all :: "('s, 'b) dispatch_env \<Rightarrow> ipc_request list \<Rightarrow> ('s, 'b) dispatch_state \<Rightarrow> (ipc_response list \<times> ('s, 'b) dispatch_state) option" where
  "dispatch_all E [] d = Some ([], d)"
| "dispatch_all E (q # qs) d = (case dispatch E q d of
     Some (Ok r, d') \<Rightarrow> map_option (\<lambda>(rs, x). (r # rs, x)) (dispatch_all E qs d')
   | _ \<Rightarrow> None)"

primrec receive_all :: "json_parser \<Rightarrow> u64 list \<Rightarrow> ipc_client \<Rightarrow> (ipc_response, unit) result list \<times> ipc_client" where
  "receive_all parse [] c = ([], c)"
| "receive_all parse (n # ns) c = (case client_receive parse n c of (r, c') \<Rightarrow> (case receive_all parse ns c' of (rs, c'') \<Rightarrow> (r # rs, c'')))"

definition request_line :: "(json \<Rightarrow> bytes) \<Rightarrow> ipc_request \<Rightarrow> bytes" where
  "request_line print q = print (ipc_request_json q) @ [CHR 0x0A]"

lemma dispatch_number: "dispatch E q d = Some (Ok r, d') \<Longrightarrow> rp_num r = rq_num q"
proof -
  have "respond_with n x = (Ok r, d') \<Longrightarrow> rp_num r = n" for n and x :: "(json, ipc_error) result \<times> ('a, 'b) dispatch_state"
    by (cases x; cases "fst x") (auto simp: ipc_ok_def ipc_err_def)
  then show "dispatch E q d = Some (Ok r, d') \<Longrightarrow> rp_num r = rq_num q" by (auto simp: dispatch_def)
qed

lemma serve_all:
  assumes "dispatch_all E qs d = Some (rs, d')" "\<forall>q \<in> set qs. json_line print parse (ipc_request_json q)" "length qs \<le> room"
  shows "handle_connection parse print E room (concat (map (request_line print) qs)) d = (concat (map (write_response print) rs), True, d')"
  using assms
proof (induction qs arbitrary: room d rs)
  case Nil
  then show ?case
    by (simp add: handle_connection.simps [of parse print E room "[]"] read_request_def read_json_line_def)
next
  case (Cons q qs)
  from Cons.prems(1) obtain r d1 rs1 where r: "dispatch E q d = Some (Ok r, d1)" "dispatch_all E qs d1 = Some (rs1, d')" "rs = r # rs1"
    by (auto split: option.splits prod.splits result.splits)
  have "read_request parse (request_line print q @ concat (map (request_line print) qs)) = (Ok (Some q), concat (map (request_line print) qs))"
    using ipc_requests.line_back [of print parse q "concat (map (request_line print) qs)"] Cons.prems(2)
    by (simp add: read_request_def request_line_def)
  with Cons.IH [OF r(2), of "room - 1"] Cons.prems(2,3) r(1,3) show ?case
    by (simp add: handle_connection.simps [of parse print E room "request_line print q @ concat (map (request_line print) qs)"])
qed

lemma receive_back:
  assumes "\<forall>r \<in> set rs. json_line print parse (ipc_response_json r) \<and> plain_response r" "length ns = length rs"
    and "ic_received c = concat (map (write_response print) rs)"
  shows "receive_all parse ns c = (map Ok rs, c\<lparr>ic_received := []\<rparr>)"
  using assms
proof (induction rs arbitrary: ns c)
  case (Cons r rs)
  then obtain n ns' where ns: "ns = n # ns'" "length ns' = length rs" by (cases ns) auto
  have "ic_received c = print (ipc_response_json r) @ CHR 0x0A # concat (map (write_response print) rs)"
    using Cons.prems(3) write_response_def [of print r] by simp
  with ipc_responses.line_back [of print parse r "concat (map (write_response print) rs)"] Cons.prems(1)
  have "client_receive parse n c = (Ok r, c\<lparr>ic_received := concat (map (write_response print) rs)\<rparr>)"
    by (simp add: client_receive_def)
  with Cons.IH [OF _ ns(2), of "c\<lparr>ic_received := concat (map (write_response print) rs)\<rparr>"] Cons.prems(1) ns(1) show ?case by simp
qed simp

section \<open>Properties\<close>

text \<open>C32: What a client asks over a connection is what the dispatcher answers: the requests sent down one connection
  are dispatched one after the other in the order they were sent, each in the state the one before left, the
  connection then closes cleanly, and the client reads back exactly those responses in order, each with the number
  of its request; for libraries that print each struct as one line that parses back.\<close>

theorem conversation_is_dispatch:
  assumes "dispatch_all E qs d = Some (rs, d')" and "length qs \<le> room"
    and "\<forall>q \<in> set qs. json_line print parse (ipc_request_json q)"
    and "\<forall>r \<in> set rs. json_line print parse (ipc_response_json r) \<and> plain_response r"
  shows "\<exists>out. handle_connection parse print E room (concat (map (request_line print) qs)) d = (out, True, d') \<and>
    receive_all parse (map rq_num qs) (c\<lparr>ic_received := out\<rparr>) = (map Ok rs, c\<lparr>ic_received := []\<rparr>) \<and> map rp_num rs = map rq_num qs"
proof -
  have n: "dispatch_all E qs d = Some (rs, d') \<Longrightarrow> map rp_num rs = map rq_num qs" for d
    by (induction qs arbitrary: d rs) (auto split: option.splits prod.splits result.splits dest: dispatch_number)
  from n [OF assms(1)] have len: "length (map rq_num qs) = length rs" by (metis length_map)
  let ?c = "c\<lparr>ic_received := concat (map (write_response print) rs)\<rparr>"
  have "receive_all parse (map rq_num qs) ?c = (map Ok rs, ?c\<lparr>ic_received := []\<rparr>)"
    using receive_back [OF assms(4) len, of ?c] by simp
  then show ?thesis using serve_all [OF assms(1,3,2)] n [OF assms(1)] by simp
qed

definition bye :: ipc_request where
  "bye = \<lparr>rq_num = 1, rq_method = ''shutdown'', rq_params = JNull\<rparr>"

definition bye_print :: "json \<Rightarrow> bytes" where
  "bye_print v = (if json_get v ''method'' = None then ''r'' else ''q'')"

definition bye_parse :: json_parser where
  "bye_parse t = Some (if t = ''q'' then ipc_request_json bye else ipc_response_json (ipc_ok 1 (JObj [(''ok'', JBool True)])))"

theorem conversation_is_dispatch_witness:
  "\<exists>out. handle_connection bye_parse bye_print demo_dispatch_env 1 (concat (map (request_line bye_print) [bye])) demo_daemon =
      (out, True, demo_daemon\<lparr>d_shutdown := True\<rparr>) \<and>
    receive_all bye_parse (map rq_num [bye]) (client_connect\<lparr>ic_received := out\<rparr>) =
      (map Ok [ipc_ok 1 (JObj [(''ok'', JBool True)])], client_connect\<lparr>ic_received := []\<rparr>) \<and>
    map rp_num [ipc_ok 1 (JObj [(''ok'', JBool True)])] = map rq_num [bye]"
proof (rule conversation_is_dispatch)
  show "dispatch_all demo_dispatch_env [bye] demo_daemon = Some ([ipc_ok 1 (JObj [(''ok'', JBool True)])], demo_daemon\<lparr>d_shutdown := True\<rparr>)"
    by (simp add: bye_def dispatch_def handle_method_def handle_shutdown_def and_then_def)
  have u: "utf8_valid (''q'' @ [CHR 0x0A])" "utf8_valid (''r'' @ [CHR 0x0A])" by code_simp+
  then show "\<forall>q \<in> set [bye]. json_line bye_print bye_parse (ipc_request_json q)"
    by (simp add: json_line_def bye_print_def bye_parse_def ipc_request_json_def bye_def visible_def)
  show "\<forall>r \<in> set [ipc_ok 1 (JObj [(''ok'', JBool True)])]. json_line bye_print bye_parse (ipc_response_json r) \<and> plain_response r"
    using u by (simp add: json_line_def bye_print_def bye_parse_def ipc_response_json_def ipc_ok_def visible_def plain_response_def)
qed simp

end
