(* ===== verification/DaemonLife.thy ===== *)
theory DaemonLife
  imports MemFsSnapshot StdPath
begin

text \<open>
  Start, stop and checkpoints of the daemon (\<open>crates/devdev-daemon/src/lib.rs\<close>), its pid file
  (\<open>pid.rs\<close>), the atomic write (\<open>checkpoint.rs\<close>) and the port file (\<open>ipc.rs\<close>), on a machine whose file
  operations may fail or be cut short by a kill at any of them.
\<close>

section \<open>The machine\<close>

text \<open>
  What happens to a file operation: it works, it fails, or the process is killed during it. A write
  that fails or is killed may have stored a first part of its data; a rename or a removal that
  fails has done nothing, and a kill comes before or after it.
\<close>

datatype fault = Fine | Fails "nat option" | Killed "nat option"

type_synonym files = "bytes \<Rightarrow> bytes option"

record machine =
  mc_files :: files
  mc_faults :: "fault list"  \<comment> \<open>of the next operations; all is fine after them\<close>

datatype daemon_error = AlreadyRunning u32 | CheckpointError bytes | IpcFailure bytes | IoFailure | VfsFailure errno

type_synonym 'a machine_prog = "(machine, 'a, daemon_error) prog"

text \<open>A process that is killed does not return.\<close>

definition file_op :: "(files \<Rightarrow> ('a, daemon_error) result \<times> files) \<Rightarrow> (bool \<Rightarrow> nat \<Rightarrow> files \<Rightarrow> files) \<Rightarrow> 'a machine_prog" where
  "file_op f part s = (case mc_faults s of
     [] \<Rightarrow> (case f (mc_files s) of (r, m) \<Rightarrow> (r, s\<lparr>mc_files := m\<rparr>))
   | x # xs \<Rightarrow> (case x of
        Fine \<Rightarrow> (case f (mc_files s) of (r, m) \<Rightarrow> (r, s\<lparr>mc_files := m, mc_faults := xs\<rparr>))
      | Fails None \<Rightarrow> (Err IoFailure, s\<lparr>mc_faults := xs\<rparr>)
      | Fails (Some n) \<Rightarrow> (Err IoFailure, s\<lparr>mc_files := part False n (mc_files s), mc_faults := xs\<rparr>)
      | Killed None \<Rightarrow> (Panic, s\<lparr>mc_faults := xs\<rparr>)
      | Killed (Some n) \<Rightarrow> (Panic, s\<lparr>mc_files := part True n (mc_files s), mc_faults := xs\<rparr>)))"

definition file_write :: "bytes \<Rightarrow> bytes \<Rightarrow> unit machine_prog" where
  "file_write path data = file_op (\<lambda>m. (Ok (), m(path \<mapsto> data))) (\<lambda>killed n m. m(path \<mapsto> take n data))"

definition file_read :: "bytes \<Rightarrow> bytes machine_prog" where
  "file_read path = file_op (\<lambda>m. (ok_or (m path) IoFailure, m)) (\<lambda>killed n m. m)"

definition file_read_to_string :: "bytes \<Rightarrow> bytes machine_prog" where
  "file_read_to_string path = and_then (file_read path) (\<lambda>t. if utf8_valid t then ret t else fail IoFailure)"

definition moved :: "bytes \<Rightarrow> bytes \<Rightarrow> files \<Rightarrow> files" where
  "moved a b m = (case m a of None \<Rightarrow> m | Some c \<Rightarrow> m(a := None, b \<mapsto> c))"

definition file_rename :: "bytes \<Rightarrow> bytes \<Rightarrow> unit machine_prog" where
  "file_rename a b = file_op (\<lambda>m. (if m a = None then Err IoFailure else Ok (), moved a b m))
     (\<lambda>killed n m. if killed then moved a b m else m)"

definition file_remove :: "bytes \<Rightarrow> unit machine_prog" where
  "file_remove path = file_op (\<lambda>m. (if m path = None then Err IoFailure else Ok (), m(path := None)))
     (\<lambda>killed n m. if killed then m(path := None) else m)"

text \<open>A file whose metadata cannot be read does not exist.\<close>

definition file_exists :: "bytes \<Rightarrow> bool machine_prog" where
  "file_exists path s = (case file_op (\<lambda>m. (Ok (m path \<noteq> None), m)) (\<lambda>killed n m. m) s of
     (Err e, s') \<Rightarrow> (Ok False, s') | x \<Rightarrow> x)"

definition create_dir_all :: "bytes \<Rightarrow> unit machine_prog" where
  "create_dir_all dir = file_op (\<lambda>m. (Ok (), m)) (\<lambda>killed n m. m)"

section \<open>Paths\<close>

text \<open>\<open>Path::with_extension\<close> on a path that ends with a file name; a leading dot is no extension.\<close>

definition with_extension :: "bytes \<Rightarrow> bytes \<Rightarrow> bytes" where
  "with_extension path ext =
     (let (dir, name) = (case rsplit_once path (CHR ''/'') of Some (d, n) \<Rightarrow> (d @ ''/'', n) | None \<Rightarrow> ([], path));
          stem = (case rsplit_once name (CHR ''.'') of Some (b, a) \<Rightarrow> if b = [] then name else b | None \<Rightarrow> name)
      in dir @ stem @ CHR ''.'' # ext)"

definition PID_FILENAME :: bytes where "PID_FILENAME = ''daemon.pid''"

section \<open>The pid file\<close>

definition parse_u32 :: "bytes \<Rightarrow> u32 option" where
  "parse_u32 s = map_option of_nat (parse_nat_below (2 ^ 32) s)"

definition parse_u16 :: "bytes \<Rightarrow> u16 option" where
  "parse_u16 s = map_option of_nat (parse_nat_below (2 ^ 16) s)"

definition write_pid :: "u32 \<Rightarrow> bytes \<Rightarrow> unit machine_prog" where
  "write_pid pid dir = file_write (path_join dir PID_FILENAME) (show_nat (unat pid))"

text \<open>A file that holds no number counts as no pid.\<close>

definition read_pid :: "bytes \<Rightarrow> u32 option machine_prog" where
  "read_pid dir = and_then (file_exists (path_join dir PID_FILENAME)) (\<lambda>there.
     if \<not> there then ret None
     else and_then (file_read_to_string (path_join dir PID_FILENAME)) (\<lambda>t. ret (parse_u32 (trim t))))"

definition remove_pid :: "bytes \<Rightarrow> unit machine_prog" where
  "remove_pid dir = and_then (file_exists (path_join dir PID_FILENAME)) (\<lambda>there.
     if there then file_remove (path_join dir PID_FILENAME) else ret ())"

section \<open>The port file\<close>

definition write_port_file :: "u16 \<Rightarrow> bytes \<Rightarrow> unit machine_prog" where
  "write_port_file port dir = file_write (path_join dir ''daemon.port'') (show_nat (unat port))"

definition read_port :: "bytes \<Rightarrow> u16 option machine_prog" where
  "read_port dir = and_then (file_exists (path_join dir ''daemon.port'')) (\<lambda>there.
     if \<not> there then ret None
     else and_then (file_read_to_string (path_join dir ''daemon.port'')) (\<lambda>t. ret (parse_u16 (trim t))))"

section \<open>The daemon\<close>

definition atomic_write :: "bytes \<Rightarrow> bytes \<Rightarrow> unit machine_prog" where
  "atomic_write target data = (let tmp = with_extension target ''tmp'' in
     and_then (file_write tmp data) (\<lambda>_. and_then (file_rename tmp target) (\<lambda>_. ret ())))"

record daemon_config =
  dc_data_dir :: bytes
  dc_checkpoint_on_stop :: bool
  dc_foreground :: bool

text \<open>\<open>env\<close> gives the variables that are set and are text.\<close>

definition dirs_or_home :: "(bytes \<Rightarrow> bytes option) \<Rightarrow> bytes" where
  "dirs_or_home env = (case env ''HOME'' of Some h \<Rightarrow> h
     | None \<Rightarrow> (case env ''USERPROFILE'' of Some h \<Rightarrow> h | None \<Rightarrow> ''.''))"

definition default_data_dir :: "(bytes \<Rightarrow> bytes option) \<Rightarrow> bytes" where
  "default_data_dir env = (case env ''DEVDEV_HOME'' of Some v \<Rightarrow> v | None \<Rightarrow> path_join (dirs_or_home env) ''.devdev'')"

definition default_daemon_config :: "(bytes \<Rightarrow> bytes option) \<Rightarrow> daemon_config" where
  "default_daemon_config env = \<lparr>dc_data_dir = default_data_dir env, dc_checkpoint_on_stop = True, dc_foreground = False\<rparr>"

record daemon =
  dm_config :: daemon_config
  dm_fs :: fs

definition CHECKPOINT :: bytes where "CHECKPOINT = ''checkpoint.bin''"

text \<open>The guard, the filesystem, and the claim of the pid file.\<close>

definition start_guard :: "(u32 \<Rightarrow> bool) \<Rightarrow> bytes \<Rightarrow> unit machine_prog" where
  "start_guard is_alive dir = and_then (read_pid dir) (\<lambda>q. case q of
     Some pid \<Rightarrow> (if is_alive pid then fail (AlreadyRunning pid) else remove_pid dir)
   | None \<Rightarrow> ret ())"

definition start_fs :: "(bytes \<Rightarrow> snapshot option) \<Rightarrow> timespec \<Rightarrow> bytes \<Rightarrow> bool \<Rightarrow> fs machine_prog" where
  "start_fs dec now dir from_checkpoint =
     (if from_checkpoint then
        and_then (file_exists (path_join dir CHECKPOINT)) (\<lambda>there.
        if there then and_then (file_read (path_join dir CHECKPOINT)) (\<lambda>data.
          query (\<lambda>_. map_err VfsFailure (deserialize dec data)))
        else ret (new now))
      else ret (new now))"

definition start :: "(u32 \<Rightarrow> bool) \<Rightarrow> u32 \<Rightarrow> (bytes \<Rightarrow> snapshot option) \<Rightarrow> timespec \<Rightarrow> daemon_config \<Rightarrow> bool \<Rightarrow> daemon machine_prog" where
  "start is_alive own_pid dec now cf from_checkpoint =
     and_then (create_dir_all (dc_data_dir cf)) (\<lambda>_.
     and_then (start_guard is_alive (dc_data_dir cf)) (\<lambda>_.
     and_then (start_fs dec now (dc_data_dir cf) from_checkpoint) (\<lambda>fs.
     and_then (write_pid own_pid (dc_data_dir cf)) (\<lambda>_.
     ret \<lparr>dm_config = cf, dm_fs = fs\<rparr>))))"

definition save_checkpoint :: "(snapshot \<Rightarrow> bytes) \<Rightarrow> daemon \<Rightarrow> unit machine_prog" where
  "save_checkpoint enc d = and_then (atomic_write (path_join (dc_data_dir (dm_config d)) CHECKPOINT) (serialize enc (dm_fs d))) (\<lambda>_. ret ())"

definition stop :: "(snapshot \<Rightarrow> bytes) \<Rightarrow> daemon \<Rightarrow> unit machine_prog" where
  "stop enc d = and_then (if dc_checkpoint_on_stop (dm_config d) then save_checkpoint enc d else ret ()) (\<lambda>_.
     and_then (remove_pid (dc_data_dir (dm_config d))) (\<lambda>_. ret ()))"

section \<open>File names\<close>

lemma path_join_inject [simp]: "path_join dir a = path_join dir b \<longleftrightarrow> a = b"
  by (simp add: path_join_def)

lemma rsplit_once_join: "CHR ''/'' \<notin> set name \<Longrightarrow>
  rsplit_once (path_join dir name) (CHR ''/'') = (if dir = [] then None
     else if last dir = CHR ''/'' then Some (butlast dir, name) else Some (dir, name))"
proof (cases "dir = []")
  case True
  then show "CHR ''/'' \<notin> set name \<Longrightarrow> ?thesis" by (simp add: path_join_def rsplit_once_None)
next
  case False
  then have "last dir = CHR ''/'' \<Longrightarrow> butlast dir @ ''/'' = dir" by (metis append_butlast_last_id)
  then show "CHR ''/'' \<notin> set name \<Longrightarrow> ?thesis"
    using False by (auto simp: path_join_def rsplit_once_Some)
qed

lemma tmp_of_checkpoint: "with_extension (path_join dir CHECKPOINT) ''tmp'' = path_join dir ''checkpoint.tmp''"
proof -
  have s: "rsplit_once CHECKPOINT (CHR ''.'') = Some (''checkpoint'', ''bin'')" "CHR ''/'' \<notin> set CHECKPOINT"
    by (simp_all add: rsplit_once_Some CHECKPOINT_def)
  have l: "last dir = CHR ''/'' \<Longrightarrow> dir \<noteq> [] \<Longrightarrow> butlast dir @ ''/'' = dir"
    by (metis append_butlast_last_id)
  show ?thesis using l
    by (auto simp: with_extension_def rsplit_once_join [OF s(2)] s(1)) (auto simp: path_join_def CHECKPOINT_def)
qed


section \<open>Numbers in files\<close>

lemma ascii_valid: "\<forall>c \<in> set s. (of_char c :: nat) < 128 \<Longrightarrow> utf8_valid s"
proof -
  assume a: "\<forall>c \<in> set s. (of_char c :: nat) < 128"
  have "utf8_encode (map of_char s) = s"
    using a by (induction s) (simp_all add: utf8_encode_def utf8_char_def)
  moreover have "\<forall>cp \<in> set (map of_char s). is_scalar cp" using a by (auto simp: is_scalar_def)
  ultimately show ?thesis using utf8_roundtrip [of "map of_char s"] by (simp add: utf8_valid_def)
qed

lemma show_nat_valid: "utf8_valid (show_nat n)"
proof (intro ascii_valid ballI)
  fix c assume "c \<in> set (show_nat n)"
  then have "visible c" by (intro digit_visible show_nat_digits)
  then show "(of_char c :: nat) < 128" by (simp add: visible_def)
qed

lemma trim_show_nat: "trim (show_nat n) = show_nat n"
proof -
  obtain c cs where s: "show_nat n = c # cs" by (cases "show_nat n") auto
  have "visible c" "visible (last (c # cs))"
    using show_nat_digits [of c n] show_nat_visible [of n] s by (auto intro: digit_visible)
  then show ?thesis using trim_visible s by simp
qed

lemma parse_show_nat: "n < bound \<Longrightarrow> parse_nat_below bound (show_nat n) = Some n"
proof -
  assume n: "n < bound"
  obtain c cs where s: "show_nat n = c # cs" by (cases "show_nat n") auto
  have "c \<noteq> CHR ''+''" using show_nat_digits [of c n] s by (auto simp: is_digit_def less_eq_char_def)
  moreover have "digits_val 0 (c # cs) = Some n" using digits_val_show [of n] s by simp
  ultimately show ?thesis using n by (simp add: parse_nat_below_def s Let_def del: digits_val.simps)
qed

lemma parse_show_u32: "parse_u32 (show_nat (unat p)) = Some p"
proof -
  have "unat p < 2 ^ 32" using unsigned_less [of p, where ?'a = nat] by simp
  from parse_show_nat [OF this] show ?thesis by (simp add: parse_u32_def)
qed

section \<open>What each program does\<close>

text \<open>When nothing more goes wrong.\<close>

lemma op_fine: "mc_faults s = [] \<Longrightarrow> file_op f part s = (case f (mc_files s) of (r, m) \<Rightarrow> (r, s\<lparr>mc_files := m\<rparr>))"
  by (simp add: file_op_def)

lemma read_pid_fine:
  assumes "mc_faults s = []"
  shows "read_pid dir s = ((case mc_files s (path_join dir PID_FILENAME) of None \<Rightarrow> Ok None
     | Some t \<Rightarrow> if utf8_valid t then Ok (parse_u32 (trim t)) else Err IoFailure), s)"
  using assms by (simp add: read_pid_def and_then_def file_exists_def file_read_to_string_def file_read_def op_fine ok_or_def split: option.split)

lemma remove_pid_fine:
  assumes "mc_faults s = []"
  shows "remove_pid dir s = (Ok (), s\<lparr>mc_files := (mc_files s)(path_join dir PID_FILENAME := None)\<rparr>)"
  using assms by (cases "mc_files s (path_join dir PID_FILENAME)")
    (simp_all add: remove_pid_def and_then_def file_exists_def file_remove_def op_fine fun_upd_idem)

text \<open>No live process is on record.\<close>

definition unclaimed :: "(u32 \<Rightarrow> bool) \<Rightarrow> bytes \<Rightarrow> files \<Rightarrow> bool" where
  "unclaimed is_alive dir m \<longleftrightarrow> (case m (path_join dir PID_FILENAME) of None \<Rightarrow> True
     | Some t \<Rightarrow> utf8_valid t \<and> (case parse_u32 (trim t) of None \<Rightarrow> True | Some p \<Rightarrow> \<not> is_alive p))"

lemma start_guard_fine:
  assumes "mc_faults s = []" "unclaimed is_alive dir (mc_files s)"
  shows "\<exists>t. start_guard is_alive dir s = (Ok (), s\<lparr>mc_files := (mc_files s)(path_join dir PID_FILENAME := t)\<rparr>)"
proof -
  let ?f = "path_join dir PID_FILENAME"
  have same: "s = s\<lparr>mc_files := (mc_files s)(?f := mc_files s ?f)\<rparr>" by simp
  show ?thesis
  proof (cases "\<exists>t p. mc_files s ?f = Some t \<and> parse_u32 (trim t) = Some p")
    case True
    with assms show ?thesis
      by (auto simp: start_guard_def and_then_def read_pid_fine remove_pid_fine unclaimed_def)
  next
    case False
    then have "start_guard is_alive dir s = (Ok (), s)" using assms
      by (auto simp: start_guard_def and_then_def read_pid_fine unclaimed_def split: option.splits)
    then show ?thesis using same by metis
  qed
qed

lemma start_fine:
  assumes "mc_faults s = []" "unclaimed is_alive (dc_data_dir cf) (mc_files s)"
    and "mc_files s (path_join (dc_data_dir cf) CHECKPOINT) = Some data" "deserialize dec data = Ok fs"
  shows "\<exists>s'. start is_alive pid dec now cf True s = (Ok \<lparr>dm_config = cf, dm_fs = fs\<rparr>, s') \<and>
     mc_files s' = (mc_files s)(path_join (dc_data_dir cf) PID_FILENAME \<mapsto> show_nat (unat pid))"
proof -
  let ?d = "dc_data_dir cf"
  obtain t where g: "start_guard is_alive ?d s = (Ok (), s\<lparr>mc_files := (mc_files s)(path_join ?d PID_FILENAME := t)\<rparr>)"
    using start_guard_fine [OF assms(1,2)] by blast
  have c: "create_dir_all ?d s = (Ok (), s)" using assms(1) by (simp add: create_dir_all_def op_fine)
  have n: "PID_FILENAME \<noteq> CHECKPOINT" by (simp add: PID_FILENAME_def CHECKPOINT_def)
  then show ?thesis using assms
    by (simp add: start_def and_then_def c g start_fs_def file_exists_def file_read_def op_fine write_pid_def file_write_def)
qed

text \<open>The checkpoint changes in one step, whatever happens.\<close>

lemma atomic_write_outcome:
  assumes "atomic_write target data s = (r, s')" "with_extension target ''tmp'' = tmp" "tmp \<noteq> target"
  shows "mc_files s' target = Some data \<or> r \<noteq> Ok () \<and> mc_files s' target = mc_files s target"
    and "f \<noteq> target \<Longrightarrow> f \<noteq> tmp \<Longrightarrow> mc_files s' f = mc_files s f"
proof -
  obtain q s1 where w: "file_write tmp data s = (q, s1)" by (cases "file_write tmp data s")
  have q: "q = Ok () \<Longrightarrow> mc_files s1 tmp = Some data" "\<And>g. g \<noteq> tmp \<Longrightarrow> mc_files s1 g = mc_files s g"
    using w by (auto simp: file_write_def file_op_def split: list.splits fault.splits option.splits)
  obtain q' s2 where m: "file_rename tmp target s1 = (q', s2)" by (cases "file_rename tmp target s1")
  have q': "mc_files s2 = mc_files s1 \<and> q' \<noteq> Ok () \<or> mc_files s2 = moved tmp target (mc_files s1)"
    using m by (auto simp: file_rename_def file_op_def moved_def split: list.splits fault.splits option.splits)
  have "mc_files s' target = Some data \<or> r \<noteq> Ok () \<and> mc_files s' target = mc_files s target"
    "f \<noteq> target \<Longrightarrow> f \<noteq> tmp \<Longrightarrow> mc_files s' f = mc_files s f"
    if "q = Ok ()"
    using assms w m q q' that by (auto simp: atomic_write_def Let_def and_then_def moved_def split: result.splits)
  moreover have "mc_files s' target = mc_files s target" "r \<noteq> Ok ()" "f \<noteq> tmp \<Longrightarrow> mc_files s' f = mc_files s f" if "q \<noteq> Ok ()"
    using assms w q that by (auto simp: atomic_write_def Let_def and_then_def split: result.splits)
  ultimately show "mc_files s' target = Some data \<or> r \<noteq> Ok () \<and> mc_files s' target = mc_files s target"
    "f \<noteq> target \<Longrightarrow> f \<noteq> tmp \<Longrightarrow> mc_files s' f = mc_files s f"
    by blast+
qed

lemma save_checkpoint_outcome:
  assumes "save_checkpoint enc d s = (r, s')"
  shows "mc_files s' (path_join (dc_data_dir (dm_config d)) CHECKPOINT) = Some (serialize enc (dm_fs d)) \<or>
      r \<noteq> Ok () \<and> mc_files s' (path_join (dc_data_dir (dm_config d)) CHECKPOINT) = mc_files s (path_join (dc_data_dir (dm_config d)) CHECKPOINT)"
    and "mc_files s' (path_join (dc_data_dir (dm_config d)) PID_FILENAME) = mc_files s (path_join (dc_data_dir (dm_config d)) PID_FILENAME)"
proof -
  let ?D = "dc_data_dir (dm_config d)"
  obtain q where a: "atomic_write (path_join ?D CHECKPOINT) (serialize enc (dm_fs d)) s = (q, s')" "q = Ok () \<longleftrightarrow> r = Ok ()"
    using assms by (auto simp: save_checkpoint_def and_then_def split: prod.splits result.splits)
  have "path_join ?D ''checkpoint.tmp'' \<noteq> path_join ?D CHECKPOINT" by (simp add: CHECKPOINT_def)
  note o = atomic_write_outcome [OF a(1) tmp_of_checkpoint this]
  show "mc_files s' (path_join ?D CHECKPOINT) = Some (serialize enc (dm_fs d)) \<or>
      r \<noteq> Ok () \<and> mc_files s' (path_join ?D CHECKPOINT) = mc_files s (path_join ?D CHECKPOINT)"
    using o(1) a(2) by simp
  show "mc_files s' (path_join ?D PID_FILENAME) = mc_files s (path_join ?D PID_FILENAME)"
    by (rule o(2)) (simp_all add: CHECKPOINT_def PID_FILENAME_def)
qed

section \<open>Properties\<close>

text \<open>The process is gone and the next one starts on the same files, with nothing going wrong.\<close>

definition next_boot :: "machine \<Rightarrow> machine" where
  "next_boot s = s\<lparr>mc_faults := []\<rparr>"

text \<open>C31: A checkpoint survives whatever happens while it is saved: let any operation fail or the process be killed
  anywhere in \<open>save_checkpoint\<close>, with any part of the data written; then, unless a live process holds the pid
  file, the next start from the checkpoint comes up, with the filesystem that was to be saved or, when the save had
  not succeeded, with the one of the checkpoint before it, and it holds the pid file.\<close>

theorem checkpoint_survives_kill:
  assumes "fs_wf (dm_fs d)" "dec (enc (to_snapshot (dm_fs d))) = Some (to_snapshot (dm_fs d))"
    and "fs_wf old" "dec (enc (to_snapshot old)) = Some (to_snapshot old)"
    and "mc_files s (path_join (dc_data_dir (dm_config d)) CHECKPOINT) = Some (serialize enc old)"
    and "unclaimed is_alive (dc_data_dir (dm_config d)) (mc_files s)"
    and "save_checkpoint enc d s = (r, s')"
  shows "\<exists>d' s''. start is_alive pid dec now (dm_config d) True (next_boot s') = (Ok d', s'') \<and>
    (dm_fs d' = dm_fs d \<or> r \<noteq> Ok () \<and> dm_fs d' = old) \<and>
    mc_files s'' (path_join (dc_data_dir (dm_config d)) PID_FILENAME) = Some (show_nat (unat pid))"
proof -
  let ?D = "dc_data_dir (dm_config d)"
  note o = save_checkpoint_outcome [OF assms(7)]
  have u: "unclaimed is_alive ?D (mc_files (next_boot s'))" using assms(6) o(2) by (simp add: unclaimed_def next_boot_def)
  obtain fs where fs: "fs = dm_fs d \<or> r \<noteq> Ok () \<and> fs = old" "mc_files (next_boot s') (path_join ?D CHECKPOINT) = Some (serialize enc fs)"
    using o(1) assms(5) by (auto simp: next_boot_def)
  have "deserialize dec (serialize enc fs) = Ok fs"
    using fs(1) serialize_roundtrip_wf [of "dm_fs d" dec enc] serialize_roundtrip_wf [of old dec enc] assms(1-4) by auto
  from start_fine [OF _ u fs(2) this] show ?thesis using fs(1) by (fastforce simp: next_boot_def)
qed

text \<open>A small filesystem, its machine, and a kill after seven bytes of the new checkpoint.\<close>

definition small_fs :: fs where
  "small_fs = with_limit 100 \<lparr>secs = 0, nanos = 0\<rparr>"

definition small_daemon :: daemon where
  "small_daemon = \<lparr>dm_config = \<lparr>dc_data_dir = ''/d'', dc_checkpoint_on_stop = True, dc_foreground = False\<rparr>, dm_fs = small_fs\<rparr>"

definition small_machine :: machine where
  "small_machine = \<lparr>mc_files = [''/d/checkpoint.bin'' \<mapsto> serialize (\<lambda>_. []) small_fs, ''/d/daemon.pid'' \<mapsto> ''41''], mc_faults = [Killed (Some 7)]\<rparr>"

theorem checkpoint_survives_kill_witness:
  "\<exists>d' s''. start (\<lambda>_. False) 42 (\<lambda>_. Some (to_snapshot small_fs)) \<lparr>secs = 0, nanos = 0\<rparr> (dm_config small_daemon) True
      (next_boot (snd (save_checkpoint (\<lambda>_. []) small_daemon small_machine))) = (Ok d', s'') \<and>
    (dm_fs d' = dm_fs small_daemon \<or> Panic \<noteq> (Ok () :: (unit, daemon_error) result) \<and> dm_fs d' = small_fs) \<and>
    mc_files s'' (path_join (dc_data_dir (dm_config small_daemon)) PID_FILENAME) = Some (show_nat (unat (42 :: u32)))"
proof (rule checkpoint_survives_kill)
  show "fs_wf (dm_fs small_daemon)" "fs_wf small_fs" by (simp_all add: small_daemon_def small_fs_def with_limit_wf)
  show "mc_files small_machine (path_join (dc_data_dir (dm_config small_daemon)) CHECKPOINT) = Some (serialize (\<lambda>_. []) small_fs)"
    by (simp add: small_machine_def small_daemon_def path_join_def CHECKPOINT_def)
  have "utf8_valid ''41''" by code_simp
  then show "unclaimed (\<lambda>_. False) (dc_data_dir (dm_config small_daemon)) (mc_files small_machine)"
    by (simp add: unclaimed_def small_machine_def small_daemon_def path_join_def PID_FILENAME_def split: option.split)
  show "save_checkpoint (\<lambda>_. []) small_daemon small_machine = (Panic, snd (save_checkpoint (\<lambda>_. []) small_daemon small_machine))"
    by (simp add: save_checkpoint_def atomic_write_def and_then_def Let_def file_write_def file_op_def small_machine_def)
qed (simp_all add: small_daemon_def)

text \<open>Two daemons never share a data directory when they start one after the other: once a start has returned,
  whatever faults it met on the way, a later start in the same directory by any process that sees the first one alive
  is refused with the pid of the first one and changes no file.\<close>

lemma single_instance:
  assumes "start is_alive pid dec now cf from_checkpoint s = (Ok d, s')" "mc_faults s' = []"
    and "is_alive' pid" "dc_data_dir cf' = dc_data_dir cf"
  shows "start is_alive' pid' dec' now' cf' from_checkpoint' s' = (Err (AlreadyRunning pid), s')"
proof -
  let ?D = "dc_data_dir cf"
  obtain s1 where "write_pid pid ?D s1 = (Ok (), s')" using assms(1) by (auto simp: start_def and_then_Ok)
  then have "mc_files s' (path_join ?D PID_FILENAME) = Some (show_nat (unat pid))"
    by (auto simp: write_pid_def file_write_def file_op_def split: list.splits fault.splits option.splits)
  then have "read_pid ?D s' = (Ok (Some pid), s')"
    using assms(2) by (simp add: read_pid_fine show_nat_valid trim_show_nat parse_show_u32)
  then show ?thesis using assms(2-4) by (simp add: start_def and_then_def create_dir_all_def op_fine start_guard_def)
qed

lemma single_instance_witness:
  "start (\<lambda>p. p = 7) 8 (\<lambda>_. None) \<lparr>secs = 1, nanos = 0\<rparr> (dm_config small_daemon) False
      (snd (start (\<lambda>_. False) 7 (\<lambda>_. None) \<lparr>secs = 0, nanos = 0\<rparr> (dm_config small_daemon) False \<lparr>mc_files = Map.empty, mc_faults = []\<rparr>)) =
    (Err (AlreadyRunning 7), snd (start (\<lambda>_. False) 7 (\<lambda>_. None) \<lparr>secs = 0, nanos = 0\<rparr> (dm_config small_daemon) False \<lparr>mc_files = Map.empty, mc_faults = []\<rparr>))"
proof (rule single_instance)
  let ?s = "\<lparr>mc_files = Map.empty, mc_faults = []\<rparr> :: machine"
  have st: "start (\<lambda>_. False) 7 (\<lambda>_. None) \<lparr>secs = 0, nanos = 0\<rparr> (dm_config small_daemon) False ?s =
      (Ok \<lparr>dm_config = dm_config small_daemon, dm_fs = new \<lparr>secs = 0, nanos = 0\<rparr>\<rparr>,
       ?s\<lparr>mc_files := [path_join (dc_data_dir (dm_config small_daemon)) PID_FILENAME \<mapsto> show_nat 7]\<rparr>)"
    by (simp add: start_def and_then_def create_dir_all_def op_fine start_guard_def read_pid_fine start_fs_def write_pid_def file_write_def)
  then show "start (\<lambda>_. False) 7 (\<lambda>_. None) \<lparr>secs = 0, nanos = 0\<rparr> (dm_config small_daemon) False ?s =
      (Ok \<lparr>dm_config = dm_config small_daemon, dm_fs = new \<lparr>secs = 0, nanos = 0\<rparr>\<rparr>,
       snd (start (\<lambda>_. False) 7 (\<lambda>_. None) \<lparr>secs = 0, nanos = 0\<rparr> (dm_config small_daemon) False ?s))"
    by simp
  show "mc_faults (snd (start (\<lambda>_. False) 7 (\<lambda>_. None) \<lparr>secs = 0, nanos = 0\<rparr> (dm_config small_daemon) False ?s)) = []"
    by (simp add: st)
qed simp_all

text \<open>A stop whose checkpoint fails leaves the pid file behind.\<close>

lemma failed_stop_keeps_pid:
  assumes "dc_checkpoint_on_stop (dm_config d)" "save_checkpoint enc d s = (Err e, s')"
  shows "stop enc d s = (Err e, s')"
    "mc_files s' (path_join (dc_data_dir (dm_config d)) PID_FILENAME) = mc_files s (path_join (dc_data_dir (dm_config d)) PID_FILENAME)"
  using assms save_checkpoint_outcome(2) [OF assms(2)] by (simp_all add: stop_def and_then_def)

end
