(* ===== verification/Cli.thy ===== *)
theory Cli
  imports IpcServer DaemonLife Credentials Ledger
begin

text \<open>
  The subcommands of \<open>devdev\<close> that talk to the daemon, and the root that puts the daemon together
  (\<open>crates/devdev-cli/src/daemon_cli.rs\<close>). An error is its text. A request over the connection is
  a parameter on the state of the other side; what is printed is the result.
\<close>

section \<open>The connection\<close>

definition resolve_data_dir :: "(bytes \<Rightarrow> bytes option) \<Rightarrow> bytes option \<Rightarrow> bytes" where
  "resolve_data_dir env explicit = (case explicit of Some d \<Rightarrow> d | None \<Rightarrow> default_data_dir env)"

definition on_machine :: "(daemon_error \<Rightarrow> bytes) \<Rightarrow> 'a machine_prog \<Rightarrow> (machine, 'a, bytes) prog" where
  "on_machine f m s = (case m s of (r, s') \<Rightarrow> (map_err f r, s'))"

definition connect_ipc :: "(u16 \<Rightarrow> bool) \<Rightarrow> bytes \<Rightarrow> (machine, u16, bytes) prog" where
  "connect_ipc answers dir =
     and_then (on_machine (\<lambda>_. ''reading port file in '' @ dir) (read_port dir)) (\<lambda>p. case p of
       None \<Rightarrow> fail (''daemon not running (no port file in '' @ dir @ '')'')
     | Some port \<Rightarrow> if answers port then ret port else fail (''connecting to daemon on port '' @ show_nat (unat port)))"

type_synonym 'd ipc = "bytes \<Rightarrow> json \<Rightarrow> ('d, ipc_response, unit) prog"

definition request_or :: "'d ipc \<Rightarrow> bytes \<Rightarrow> bytes \<Rightarrow> json \<Rightarrow> ('d, ipc_response, bytes) prog" where
  "request_or ipc context m ps d = (case ipc m ps d of (r, d') \<Rightarrow> (map_err (\<lambda>_. context) r, d'))"

text \<open>What the response must not and must have.\<close>

definition refused :: "bytes \<Rightarrow> ipc_response \<Rightarrow> (unit, bytes) result" where
  "refused prefix r = (case rp_error r of Some e \<Rightarrow> Err (prefix @ ie_message e) | None \<Rightarrow> Ok ())"

definition with_result :: "bytes \<Rightarrow> ipc_response \<Rightarrow> (json, bytes) result" where
  "with_result why r = ok_or (rp_result r) why"

section \<open>Subcommands\<close>

definition run_down :: "'d ipc \<Rightarrow> ('d, bytes, bytes) prog" where
  "run_down ipc = and_then (request_or ipc ''sending shutdown IPC request'' ''shutdown'' (JObj [])) (\<lambda>r.
     query (\<lambda>_. res_bind (refused ''daemon refused shutdown: '' r) (\<lambda>_. Ok [])))"

text \<open>The raw response is printed even when it is an error.\<close>

definition response_text :: "json \<Rightarrow> bytes" where
  "response_text v = (case Option.bind (json_get v ''response'') as_str of Some t \<Rightarrow> t | None \<Rightarrow> [])"

definition run_send :: "(json \<Rightarrow> bytes) \<Rightarrow> 'd ipc \<Rightarrow> bool \<Rightarrow> bytes \<Rightarrow> ('d, bytes, bytes) prog" where
  "run_send print ipc raw_json txt = and_then (request_or ipc ''sending IPC send request'' ''send'' (JObj [(''text'', JStr txt)])) (\<lambda>r.
     query (\<lambda>_. if raw_json then Ok (print (ipc_response_json r) @ [CHR 0x0A])
       else res_bind (refused ''send failed: '' r) (\<lambda>_.
            res_bind (with_result ''daemon returned neither result nor error'' r) (\<lambda>v. Ok (response_text v @ [CHR 0x0A])))))"

definition count_of :: "json \<Rightarrow> bytes \<Rightarrow> bytes" where
  "count_of v k = show_u64 (case Option.bind (json_get v k) as_u64 of Some n \<Rightarrow> n | None \<Rightarrow> 0)"

definition run_status :: "(json \<Rightarrow> bytes) \<Rightarrow> 'd ipc \<Rightarrow> bool \<Rightarrow> ('d, bytes, bytes) prog" where
  "run_status print ipc raw_json = and_then (request_or ipc ''sending IPC status request'' ''status'' (JObj [])) (\<lambda>r.
     query (\<lambda>_. if raw_json then res_bind (with_result ''daemon returned no result'' r) (\<lambda>v. Ok (print v @ [CHR 0x0A]))
       else res_bind (refused ''status failed: '' r) (\<lambda>_.
            res_bind (with_result ''daemon returned neither result nor error'' r) (\<lambda>v.
            Ok (''tasks='' @ count_of v ''tasks'' @ [CHR 0x0A] @ ''sessions='' @ count_of v ''sessions'' @ [CHR 0x0A])))))"

text \<open>Exactly one slash, with something on either side.\<close>

definition split_owner_repo :: "bytes \<Rightarrow> (bytes \<times> bytes, bytes) result" where
  "split_owner_repo slug = (case split_once slug (CHR ''/'') of
     Some (o', r) \<Rightarrow> if o' \<noteq> [] \<and> r \<noteq> [] \<and> CHR ''/'' \<notin> set r then Ok (o', r) else Err (''expected `owner/repo`, got `'' @ slug @ ''`'')
   | None \<Rightarrow> Err (''expected `owner/repo`, got `'' @ slug @ ''`''))"

definition repo_json :: "bytes \<Rightarrow> bytes \<Rightarrow> u64 option \<Rightarrow> json" where
  "repo_json owner repo interval = JObj ([(''owner'', JStr owner), (''repo'', JStr repo)] @ opt_member ''poll_interval_secs'' j_u64 interval)"

definition run_repo_watch :: "'d ipc \<Rightarrow> u64 option \<Rightarrow> bytes \<Rightarrow> ('d, bytes, bytes) prog" where
  "run_repo_watch ipc interval slug =
     and_then (query (\<lambda>_. split_owner_repo slug)) (\<lambda>(owner, repo).
     and_then (request_or ipc ''sending repo/watch IPC request'' ''repo/watch'' (repo_json owner repo interval)) (\<lambda>r.
     and_then (query (\<lambda>_. refused ''repo/watch failed: '' r)) (\<lambda>_.
     let v = (case rp_result r of Some v \<Rightarrow> v | None \<Rightarrow> JNull);
         i = (case as_str (json_at v ''task_id'') of Some i \<Rightarrow> i | None \<Rightarrow> ''?'');
         already = (as_bool (json_at v ''already_watching'') = Some True) in
     ret ((if already then ''already watching '' else ''watching '') @ owner @ ''/'' @ repo @ '' as '' @ i @ [CHR 0x0A]))))"

definition run_repo_unwatch :: "'d ipc \<Rightarrow> bytes \<Rightarrow> ('d, bytes, bytes) prog" where
  "run_repo_unwatch ipc slug =
     and_then (query (\<lambda>_. split_owner_repo slug)) (\<lambda>(owner, repo).
     and_then (request_or ipc ''sending repo/unwatch IPC request'' ''repo/unwatch'' (JObj [(''owner'', JStr owner), (''repo'', JStr repo)])) (\<lambda>r.
     and_then (query (\<lambda>_. refused ''repo/unwatch failed: '' r)) (\<lambda>_.
     ret (''unwatched '' @ owner @ ''/'' @ repo @ [CHR 0x0A]))))"

definition send_one :: "'d ipc \<Rightarrow> bytes \<Rightarrow> ('d, bytes, bytes) prog" where
  "send_one ipc txt = and_then (request_or ipc ''sending IPC send request'' ''send'' (JObj [(''text'', JStr txt)])) (\<lambda>r.
     query (\<lambda>_. res_bind (refused ''send failed: '' r) (\<lambda>_.
       res_bind (with_result ''daemon returned neither result nor error'' r) (\<lambda>v. Ok (response_text v)))))"

text \<open>
  The interview: an opening, then one answer per line until a blank line or the end of the input.
  A read of the terminal that fails ends it with an error.
\<close>

primrec interview :: "'d ipc \<Rightarrow> (bytes, unit) result list \<Rightarrow> bytes list \<Rightarrow> ('d, bytes list, bytes) prog" where
  "interview ipc [] said = ret said"
| "interview ipc (l # ls) said = (case l of
     Ok line \<Rightarrow> if trim line = [] then ret said
       else and_then (send_one ipc (trim line)) (\<lambda>reply. interview ipc ls (said @ [''scribe> '' @ reply @ [CHR 0x0A, CHR 0x0A]]))
   | _ \<Rightarrow> fail ''stdin'')"

definition run_init :: "bytes \<Rightarrow> 'd ipc \<Rightarrow> bytes \<Rightarrow> bool \<Rightarrow> (bytes, unit) result list \<Rightarrow> ('d, bytes list, bytes) prog" where
  "run_init persona ipc workdir one_shot input =
     (let preamble = persona @ [CHR 0x0A, CHR 0x0A] @ ''Working directory: '' @ workdir @ [CHR 0x0A] in
      and_then (send_one ipc (preamble @ [CHR 0x0A, CHR 0x0A] @ ''Greet the user and ask the first question.'')) (\<lambda>opening.
      let said = [''scribe> '' @ opening @ [CHR 0x0A, CHR 0x0A]] in
      if one_shot then ret said else interview ipc input said))"

section \<open>The default adapter\<close>

datatype adapter_choice = UseMock | UseGitHub bytes

text \<open>Any choice but \<open>mock\<close> is the live one.\<close>

definition select_github_adapter :: "(bytes \<Rightarrow> bytes option) \<Rightarrow> bytes option \<Rightarrow> credential_store \<Rightarrow> adapter_choice" where
  "select_github_adapter env flag store =
     (let choice = (case flag of Some c \<Rightarrow> c | None \<Rightarrow> (case env ''DEVDEV_REPO_HOST_ADAPTER'' of Some c \<Rightarrow> c
        | None \<Rightarrow> (case env ''DEVDEV_GITHUB_ADAPTER'' of Some c \<Rightarrow> c | None \<Rightarrow> ''live''))) in
      if choice = ''mock'' then UseMock
      else (case store github_com of Some c \<Rightarrow> UseGitHub (expose (cr_token c)) | None \<Rightarrow> UseMock))"

section \<open>Up\<close>

text \<open>
  The order in which the daemon is put together and taken apart. \<open>bound\<close> is the port of the IPC
  server, \<open>tools\<close> whether the server of the tools started, \<open>ledger_opens\<close> how the ledger opened, and
  \<open>serve\<close> what the time until the shutdown makes of the shared filesystem.
\<close>

definition start_failure :: "(daemon_error \<Rightarrow> bytes) \<Rightarrow> daemon_error \<Rightarrow> bytes" where
  "start_failure show_err e = (case e of
     AlreadyRunning pid \<Rightarrow> ''daemon already running (PID '' @ show_nat (unat pid) @ '')''
   | _ \<Rightarrow> ''failed to start daemon: '' @ show_err e)"

record up_env =
  ue_alive :: "u32 \<Rightarrow> bool"
  ue_pid :: u32
  ue_dec :: "bytes \<Rightarrow> snapshot option"
  ue_enc :: "snapshot \<Rightarrow> bytes"
  ue_now :: timespec
  ue_show :: "daemon_error \<Rightarrow> bytes"
  ue_bound :: "(u16, unit) result"
  ue_tools :: "(unit, unit) result"
  ue_ledger :: "(unit, bytes) result"
  ue_serve :: "fs \<Rightarrow> fs"

text \<open>A failure is printed and dropped; a kill is not.\<close>

definition best_effort :: "'a machine_prog \<Rightarrow> (machine, unit, bytes) prog" where
  "best_effort m s = (case m s of (Panic, s') \<Rightarrow> (Panic, s') | (_, s') \<Rightarrow> (Ok (), s'))"

definition take_down :: "up_env \<Rightarrow> daemon \<Rightarrow> bytes \<Rightarrow> (machine, bytes, bytes) prog" where
  "take_down U d dir =
     and_then (best_effort (stop (ue_enc U) d)) (\<lambda>_.
     and_then (best_effort (file_remove (path_join dir ''daemon.port''))) (\<lambda>_.
     ret (''Checkpoint saved. Daemon stopped.'' @ [CHR 0x0A])))"

definition run_up :: "up_env \<Rightarrow> bytes \<Rightarrow> bool \<Rightarrow> (machine, bytes, bytes) prog" where
  "run_up U dir from_checkpoint =
     (let cf = \<lparr>dc_data_dir = dir, dc_checkpoint_on_stop = True, dc_foreground = True\<rparr> in
      and_then (on_machine (start_failure (ue_show U)) (start (ue_alive U) (ue_pid U) (ue_dec U) (ue_now U) cf from_checkpoint)) (\<lambda>d.
      and_then (query (\<lambda>_. map_err (\<lambda>_. ''binding IPC server on localhost'') (ue_bound U))) (\<lambda>port.
      and_then (on_machine (\<lambda>_. ''writing daemon.port file'') (write_port_file port dir)) (\<lambda>_.
      and_then (query (\<lambda>_. map_err (\<lambda>_. ''starting local MCP server'') (ue_tools U))) (\<lambda>_.
      and_then (query (\<lambda>_. map_err (\<lambda>e. ''failed to open ledger at '' @ path_join dir ''ledger.ndjson'' @ '': '' @ e) (ue_ledger U))) (\<lambda>_.
      take_down U (d\<lparr>dm_fs := ue_serve U (dm_fs d)\<rparr>) dir))))))"

section \<open>Watching through the daemon\<close>

text \<open>Each subcommand is the first request of its own connection.\<close>

definition daemon_ipc :: "('s, 'b) dispatch_env \<Rightarrow> ('s, 'b) dispatch_state ipc" where
  "daemon_ipc E m ps d = (case dispatch E \<lparr>rq_num = 1, rq_method = m, rq_params = ps\<rparr> d of Some x \<Rightarrow> x | None \<Rightarrow> (Panic, d))"

lemma daemon_ipc_watch:
  "daemon_ipc E ''repo/watch'' ps d = respond_with 1 (handle_repo_watch E ps d)"
  "daemon_ipc E ''repo/unwatch'' ps d = respond_with 1 (handle_repo_unwatch E ps d)"
  by (simp_all add: daemon_ipc_def dispatch_def handle_method_def)

lemma split_owner_repo_slug: "split_owner_repo slug = Ok (owner, repo) \<Longrightarrow> slug = owner @ ''/'' @ repo"
  by (auto simp: split_owner_repo_def split_once_Some split: option.splits if_splits)

lemma repo_params_json:
  "repo_params E (repo_json owner repo interval) = Ok (github_com, owner, repo)"
  by (cases interval) (simp_all add: repo_params_def repo_json_def str_param_def json_at_def opt_member_def)

lemma unwatch_params: "repo_params E ps = repo_params E ps' \<Longrightarrow> handle_repo_unwatch E ps = handle_repo_unwatch E ps'"
  by (simp add: handle_repo_unwatch_def)

text \<open>C39: \<open>devdev repo watch\<close> and \<open>devdev repo unwatch\<close> do what they print, through the daemon in any state it
  reaches: the first makes one task under a fresh id and names it, the same command again names the same task
  and changes nothing, and unwatching frees the repository and is an error the second time.\<close>

theorem watch_command_tells_truth:
  assumes "(daemon_step E)\<^sup>*\<^sup>* (dispatch_new w f pol) s" and "split_owner_repo slug = Ok (owner, repo)"
    and "d_watches s (github_com, owner, repo) = None" and "unat (next_task (d_tasks s)) + 1 < 2 ^ 64"
  shows "\<exists>i t s1 s2 e. run_repo_watch (daemon_ipc E) interval slug s = (Ok (''watching '' @ slug @ '' as '' @ i @ [CHR 0x0A]), s1) \<and>
    om_lookup (tasks (d_tasks s)) i = None \<and> tasks (d_tasks s1) = om_insert i t (tasks (d_tasks s)) \<and>
    role t = (adapter_for E github_com, Inl (github_com, owner, repo)) \<and>
    run_repo_watch (daemon_ipc E) interval slug s1 = (Ok (''already watching '' @ slug @ '' as '' @ i @ [CHR 0x0A]), s1) \<and>
    run_repo_unwatch (daemon_ipc E) slug s1 = (Ok (''unwatched '' @ slug @ [CHR 0x0A]), s2) \<and>
    d_watches s2 = d_watches s \<and> run_repo_unwatch (daemon_ipc E) slug s2 = (Err e, s2)"
proof -
  let ?ps = "repo_json owner repo interval" and ?qs = "JObj [(''owner'', JStr owner), (''repo'', JStr repo)]"
  have "?qs = repo_json owner repo None" by (simp add: repo_json_def opt_member_def)
  then have u: "handle_repo_unwatch E ?qs = handle_repo_unwatch E ?ps"
    using unwatch_params [of E ?qs ?ps] repo_params_json [of E owner repo] by metis
  obtain i t s1 s2 e where w: "om_lookup (tasks (d_tasks s)) i = None" "handle_repo_watch E ?ps s = (Ok (watching i False), s1)"
    "tasks (d_tasks s1) = om_insert i t (tasks (d_tasks s))" "role t = (adapter_for E github_com, Inl (github_com, owner, repo))"
    "handle_repo_watch E ?ps s1 = (Ok (watching i True), s1)" "handle_repo_unwatch E ?ps s1 = (Ok (JObj [(''task_id'', JStr i)]), s2)"
    "d_watches s2 = d_watches s" "handle_repo_unwatch E ?ps s2 = (Err e, s2)"
    using watch_and_unwatch [OF assms(1) repo_params_json [of E owner repo interval] assms(3,4)] unfolding fst_conv by blast
  note run = run_repo_watch_def run_repo_unwatch_def request_or_def daemon_ipc_watch refused_def ipc_ok_def ipc_err_def watching_def and_then_def json_at_def
  show ?thesis
    by (rule exI [of _ i], rule exI [of _ t], rule exI [of _ s1], rule exI [of _ s2], rule exI [of _ "''repo/unwatch failed: '' @ ie_message e"])
      (use w assms(2) split_owner_repo_slug [OF assms(2)] u in \<open>simp add: run Let_def\<close>)
qed

theorem watch_command_tells_truth_witness:
  "\<exists>i s1. run_repo_watch (daemon_ipc demo_dispatch_env) (Some 30) ''o/r'' demo_daemon = (Ok (''watching o/r as '' @ i @ [CHR 0x0A]), s1)"
proof -
  have "unat (next_task (d_tasks demo_daemon)) + 1 < 2 ^ 64" "d_watches demo_daemon (github_com, ''o'', ''r'') = None"
    by (simp_all add: demo_daemon_simps task_registry_new_def)
  moreover have "split_owner_repo ''o/r'' = Ok (''o'', ''r'')" by (simp add: split_owner_repo_def)
  ultimately show ?thesis using watch_command_tells_truth [OF demo_start, of "''o/r''" "''o''" "''r''" "Some 30"] by fastforce
qed

section \<open>Up and up again\<close>

text \<open>Programs that meet no fault.\<close>

definition calm :: "(machine, 'a, 'e) prog \<Rightarrow> bool" where
  "calm m \<longleftrightarrow> (\<forall>s. mc_faults s = [] \<longrightarrow> mc_faults (snd (m s)) = [])"

lemma calm_op: "calm (file_op f part)"
  by (simp add: calm_def op_fine split: prod.splits)

lemma calm_bind: "calm m \<Longrightarrow> (\<And>x. calm (k x)) \<Longrightarrow> calm (and_then m k)"
  unfolding calm_def and_then_def by (fastforce split: prod.splits result.splits)

lemma calm_simple: "calm (ret x)" "calm (fail e)" "calm (query g)"
  by (simp_all add: calm_def)

lemma calm_exists: "calm (file_exists path)"
  using calm_op [of "\<lambda>m. (Ok (m path \<noteq> None), m)" "\<lambda>killed n m. m"]
  unfolding calm_def file_exists_def by (auto split: prod.splits result.splits)

lemmas calm_intros = calm_op calm_bind calm_simple calm_exists

lemma calm_start: "calm (start is_alive pid dec now cf c)"
  by (auto simp: start_def create_dir_all_def start_guard_def start_fs_def read_pid_def remove_pid_def write_pid_def file_read_to_string_def
      file_read_def file_write_def file_remove_def intro!: calm_intros split: option.splits)

lemma start_files:
  assumes "start is_alive pid dec now cf c s = (Ok d, s')"
  shows "mc_files s' (path_join (dc_data_dir cf) PID_FILENAME) = Some (show_nat (unat pid))" "dm_config d = cf"
proof -
  obtain s1 where "write_pid pid (dc_data_dir cf) s1 = (Ok (), s')" and d: "d = \<lparr>dm_config = cf, dm_fs = dm_fs d\<rparr>"
    using assms by (auto simp: start_def and_then_Ok)
  then show "mc_files s' (path_join (dc_data_dir cf) PID_FILENAME) = Some (show_nat (unat pid))"
    by (auto simp: write_pid_def file_write_def file_op_def split: list.splits fault.splits option.splits)
  show "dm_config d = cf" by (subst d) simp
qed

lemma stop_fine:
  assumes "mc_faults s = []" "dc_checkpoint_on_stop (dm_config d)"
  shows "\<exists>s'. stop enc d s = (Ok (), s') \<and> mc_faults s' = [] \<and>
    mc_files s' (path_join (dc_data_dir (dm_config d)) PID_FILENAME) = None \<and>
    mc_files s' (path_join (dc_data_dir (dm_config d)) CHECKPOINT) = Some (serialize enc (dm_fs d))"
proof -
  let ?D = "dc_data_dir (dm_config d)"
  have n: "''checkpoint.tmp'' \<noteq> CHECKPOINT" "PID_FILENAME \<noteq> CHECKPOINT" by (simp_all add: CHECKPOINT_def PID_FILENAME_def)
  have "\<exists>s1. save_checkpoint enc d s = (Ok (), s1) \<and> mc_faults s1 = [] \<and> mc_files s1 (path_join ?D CHECKPOINT) = Some (serialize enc (dm_fs d))"
    using assms(1) n by (simp add: save_checkpoint_def atomic_write_def tmp_of_checkpoint and_then_def Let_def file_write_def file_rename_def op_fine moved_def)
  then show ?thesis using assms(2) n by (auto simp: stop_def and_then_def remove_pid_fine)
qed

lemma best_effort_remove: "mc_faults s = [] \<Longrightarrow>
  best_effort (file_remove path) s = (Ok (), s\<lparr>mc_files := (mc_files s)(path := None)\<rparr>)"
  by (simp add: best_effort_def file_remove_def op_fine fun_upd_idem)

text \<open>A daemon that ran to its end without a fault leaves neither its pid file nor its port file, and the next start
  from the checkpoint, by any process, comes up with the filesystem as the run had left it.\<close>

lemma up_and_up_again:
  assumes "run_up U dir c s = (Ok out, s')" and "mc_faults s = []"
    and "cf = \<lparr>dc_data_dir = dir, dc_checkpoint_on_stop = True, dc_foreground = True\<rparr>"
    and "start (ue_alive U) (ue_pid U) (ue_dec U) (ue_now U) cf c s = (Ok d, s1)" and "final = ue_serve U (dm_fs d)"
    and "fs_wf final" and "ue_dec U (ue_enc U (to_snapshot final)) = Some (to_snapshot final)"
  shows "mc_files s' (path_join dir PID_FILENAME) = None \<and> mc_files s' (path_join dir ''daemon.port'') = None \<and>
    (\<exists>s''. start is_alive' pid' (ue_dec U) now' cf True s' = (Ok (d\<lparr>dm_fs := final\<rparr>), s''))"
proof -
  have d: "dm_config d = cf" "dc_data_dir cf = dir" "dc_checkpoint_on_stop cf" using start_files(2) [OF assms(4)] assms(3) by simp_all
  have f1: "mc_faults s1 = []" using calm_start assms(2,4) by (metis calm_def snd_conv)
  obtain port where u: "ue_bound U = Ok port" and run: "take_down U (d\<lparr>dm_fs := final\<rparr>) dir (snd (write_port_file port dir s1)) = (Ok out, s')"
    using assms(1,4,5) f1 by (auto simp: run_up_def Let_def on_machine_def assms(3) [symmetric] and_then_Ok write_port_file_def file_write_def op_fine)
  let ?s2 = "snd (write_port_file port dir s1)"
  have "mc_faults ?s2 = []" using f1 by (simp add: write_port_file_def file_write_def op_fine)
  from stop_fine [OF this, of "d\<lparr>dm_fs := final\<rparr>" "ue_enc U"] obtain s3 where s3: "stop (ue_enc U) (d\<lparr>dm_fs := final\<rparr>) ?s2 = (Ok (), s3)" "mc_faults s3 = []"
    "mc_files s3 (path_join dir PID_FILENAME) = None" "mc_files s3 (path_join dir CHECKPOINT) = Some (serialize (ue_enc U) final)"
    using d by auto
  have stopped: "best_effort (stop (ue_enc U) (d\<lparr>dm_fs := final\<rparr>)) ?s2 = (Ok (), s3)" using s3(1) by (simp add: best_effort_def)
  have s': "s' = s3\<lparr>mc_files := (mc_files s3)(path_join dir ''daemon.port'' := None)\<rparr>"
    using run s3(2) stopped by (simp add: take_down_def and_then_def best_effort_remove)
  have n: "CHECKPOINT \<noteq> ''daemon.port''" "PID_FILENAME \<noteq> ''daemon.port''" by (simp_all add: CHECKPOINT_def PID_FILENAME_def)
  have "deserialize (ue_dec U) (serialize (ue_enc U) final) = Ok final" using serialize_roundtrip_wf [of final "ue_dec U" "ue_enc U"] assms(6,7) by simp
  then have "\<exists>s''. start is_alive' pid' (ue_dec U) now' cf True s' = (Ok \<lparr>dm_config = cf, dm_fs = final\<rparr>, s'')"
    using start_fine [of s' is_alive' cf "serialize (ue_enc U) final" "ue_dec U" final pid' now'] s3 n d(2) s' by (auto simp: unclaimed_def)
  moreover have "d\<lparr>dm_fs := final\<rparr> = \<lparr>dm_config = cf, dm_fs = final\<rparr>" using d(1) by (cases d) simp
  ultimately show ?thesis using s3(3) n s' by simp
qed

text \<open>A first run on an empty machine.\<close>

definition empty_machine :: machine where
  "empty_machine = \<lparr>mc_files = Map.empty, mc_faults = []\<rparr>"

definition demo_up :: up_env where
  "demo_up = \<lparr>ue_alive = (\<lambda>_. False), ue_pid = 41, ue_dec = (\<lambda>_. Some (to_snapshot small_fs)), ue_enc = (\<lambda>_. []), ue_now = \<lparr>secs = 0, nanos = 0\<rparr>,
     ue_show = (\<lambda>_. []), ue_bound = Ok 7000, ue_tools = Ok (), ue_ledger = Ok (), ue_serve = (\<lambda>_. small_fs)\<rparr>"

lemma up_and_up_again_witness:
  "\<exists>out s' s''. run_up demo_up ''/d'' False empty_machine = (Ok out, s') \<and> mc_files s' (path_join ''/d'' PID_FILENAME) = None \<and>
     mc_files s' (path_join ''/d'' ''daemon.port'') = None \<and>
     start (\<lambda>_. True) 42 (ue_dec demo_up) \<lparr>secs = 9, nanos = 0\<rparr> (dm_config small_daemon\<lparr>dc_foreground := True\<rparr>) True s' = (Ok (small_daemon\<lparr>dm_config := dm_config small_daemon\<lparr>dc_foreground := True\<rparr>\<rparr>), s'')"
proof -
  let ?cf = "\<lparr>dc_data_dir = ''/d'', dc_checkpoint_on_stop = True, dc_foreground = True\<rparr>"
  have cf: "dm_config small_daemon\<lparr>dc_foreground := True\<rparr> = ?cf" by (simp add: small_daemon_def)
  have e: "mc_faults empty_machine = []" "mc_files empty_machine = Map.empty" by (simp_all add: empty_machine_def)
  note ops = and_then_def file_write_def file_rename_def file_remove_def file_exists_def op_fine read_pid_fine remove_pid_fine moved_def
  obtain s1 where s: "start (ue_alive demo_up) (ue_pid demo_up) (ue_dec demo_up) (ue_now demo_up) ?cf False empty_machine =
      (Ok \<lparr>dm_config = ?cf, dm_fs = new \<lparr>secs = 0, nanos = 0\<rparr>\<rparr>, s1)" "mc_faults s1 = []"
    using e by (simp add: start_def create_dir_all_def start_guard_def start_fs_def write_pid_def ops demo_up_def)
  obtain out s' where r: "run_up demo_up ''/d'' False empty_machine = (Ok out, s')"
    using s stop_fine [of "snd (write_port_file 7000 ''/d'' s1)" "\<lparr>dm_config = ?cf, dm_fs = small_fs\<rparr>" "\<lambda>_. []"]
    by (auto simp: run_up_def on_machine_def take_down_def write_port_file_def and_then_def file_write_def op_fine demo_up_def best_effort_remove
        best_effort_def [of "stop enc d" for enc d])
  from up_and_up_again [OF r e(1) HOL.refl s(1) HOL.refl, of "\<lambda>_. True" 42 "\<lparr>secs = 9, nanos = 0\<rparr>"]
  show ?thesis unfolding cf using r by (auto simp: demo_up_def small_fs_def with_limit_wf small_daemon_def)
qed

text \<open>A start that fails at the ledger leaves the files of a daemon that does not run.\<close>

lemma failed_up_leaves_files:
  assumes "mc_faults s = []" "start (ue_alive U) (ue_pid U) (ue_dec U) (ue_now U) \<lparr>dc_data_dir = dir, dc_checkpoint_on_stop = True, dc_foreground = True\<rparr> c s = (Ok d, s1)"
    and "ue_bound U = Ok port" "ue_tools U = Ok ()" "ue_ledger U = Err e"
  shows "\<exists>m s'. run_up U dir c s = (Err m, s') \<and> mc_files s' (path_join dir PID_FILENAME) = Some (show_nat (unat (ue_pid U))) \<and>
    mc_files s' (path_join dir ''daemon.port'') = Some (show_nat (unat port))"
proof -
  have f1: "mc_faults s1 = []" using calm_start assms(1,2) by (metis calm_def snd_conv)
  have "PID_FILENAME \<noteq> ''daemon.port''" by (simp add: PID_FILENAME_def)
  then show ?thesis using assms f1 start_files(1) [OF assms(2)]
    by (simp add: run_up_def Let_def on_machine_def and_then_def write_port_file_def file_write_def op_fine)
qed

text \<open>The port that the daemon wrote is the one a subcommand connects to.\<close>

lemma connect_finds_daemon:
  assumes "mc_faults s = []" "write_port_file port dir s = (Ok (), s')" "answers port"
  shows "connect_ipc answers dir s' = (Ok port, s')"
proof -
  have "unat port < 2 ^ 16" using unsigned_less [of port, where ?'a = nat] by simp
  then have "parse_u16 (show_nat (unat port)) = Some port" using parse_show_nat [of "unat port" "2 ^ 16"] by (simp add: parse_u16_def)
  then show ?thesis using assms
    by (auto simp: write_port_file_def file_write_def op_fine connect_ipc_def on_machine_def and_then_def read_port_def file_exists_def
        file_read_to_string_def file_read_def show_nat_valid trim_show_nat)
qed

end
