(* ===== verification/Spec2Isabelle.thy ===== *)
theory Spec2Isabelle
  imports MemFsProps FuseProps WinFspProps Review GitHubApi AzureApi Mcp AcpProps AgentBackend Exec Prefs Cli
begin

text \<open>
  DevDev (\<open>src/crates\<close>) is a Rust workspace. A daemon watches repositories on GitHub, GitHub
  Enterprise and Azure DevOps, and runs a task per pull request that asks an agent, a subprocess that
  speaks the agent protocol, for reviews; the agent works on a virtual filesystem that is mounted through
  FUSE or WinFSP, may call tools of the daemon, and gets credentials only through an approval gate.
  This development models the crates \<open>devdev-workspace\<close>, \<open>devdev-integrations\<close>, \<open>devdev-tasks\<close>,
  \<open>devdev-daemon\<close>, \<open>devdev-acp\<close> and the logic of \<open>devdev-cli\<close>.

  \<^bold>\<open>How the code is modelled.\<close> A struct is a record, an enum a datatype, an integer a word of its width,
  a string the list of its bytes. A fallible function returns a \<open>result\<close>: \<open>Ok\<close>, \<open>Err\<close> or \<open>Panic\<close>, where
  \<open>Panic\<close> is an overflow that the checked profile traps, an index out of range, \<open>unreachable!\<close>, or the end
  of the process. A method on shared state is a program \<open>'s \<Rightarrow> ('a, 'e) result \<times> 's\<close>; \<open>and_then\<close> is the
  question mark operator. A \<open>BTreeMap\<close> or a \<open>HashMap\<close> is an \<open>omap\<close>, ordered by key. Every sample of a
  clock, answer of a server, outcome of a file operation and text of a library is an argument. A future
  that is awaited while other tasks run is a phase that a poll or its timer moves on, so that interleavings
  are lists of events.

  \<^bold>\<open>Shared.\<close> \<open>Prelude\<close>: words, results, programs, ordered maps (the locale \<open>rust_map\<close>, interpreted
  on \<open>omap\<close>). \<open>RustStr\<close>: the string functions of the standard library, UTF-8 and UTF-16 with their round
  trips. \<open>StdPath\<close>: the paths of the standard library on Unix, as lists of components. \<open>Json\<close>: the values
  of \<open>serde_json\<close>.

  \<^bold>\<open>The virtual filesystem\<close> (\<open>devdev-workspace/src/mem.rs\<close>). \<open>MemFs\<close> holds the state \<open>fs\<close> (\<open>Fs\<close>) and
  every operation keyed by inode number under the name it has in the code; \<open>MemFsPath\<close> the path functions;
  \<open>MemFsSnapshot\<close> the snapshots. \<open>MemFsTree\<close> is the specification, a tree of named inodes, and
  \<open>MemFsInv\<close> the invariant \<open>fs_wf\<close> with the abstraction \<open>tree_of\<close>. \<open>MemFsOps\<close>, \<open>MemFsData\<close> and
  \<open>MemFsRename\<close> show what each operation does to the tree and the invariant, \<open>MemFsSafety\<close> that errors
  change nothing and that nothing panics while counters have room, and \<open>MemFsSpec\<close> the functional
  refinement: which error, or which tree. \<open>MemFsProps\<close> has the properties. Bounds: a path follows 40
  symbolic links, as \<open>MAX_SYMLINK_HOPS\<close> says, which is the measure of \<open>resolve_inner\<close>; the ancestor
  walk of \<open>rename\<close> has the rounds of the code, and \<open>ancestor_check_correct\<close> shows that they are enough.

  \<^bold>\<open>The drivers.\<close> \<open>FuseDriver\<close> and \<open>FuseProps\<close> (\<open>driver/fuse.rs\<close>): a request is an element of
  \<open>fuse_req\<close>, \<open>fuse_handle\<close> its handler. \<open>WinFsp\<close> and \<open>WinFspProps\<close> (\<open>driver/winfsp.rs\<close>,
  \<open>winfsp_sys.rs\<close>): one definition per callback, with UTF-16 paths, file times and \<open>NTSTATUS\<close> codes. Both
  show that listings in pages are complete; the fuel of \<open>list_pages\<close> and \<open>list_win_pages\<close> is one more
  than the number of entries, and the theorems show that it is enough. \<open>Exec\<close> (\<open>exec.rs\<close>): a command in the
  mounted workspace, with its directory, environment, polls and output; the turns of its loop are given, and
  one more than its time has intervals of ten milliseconds are shown to be enough.

  \<^bold>\<open>Forges\<close> (\<open>devdev-integrations\<close>). \<open>Forge\<close>: host identifiers and pull request references
  (\<open>host.rs\<close>, \<open>devdev-tasks/src/pr_ref.rs\<close>) and the registry of hosts (\<open>devdev-daemon/src/host_registry.rs\<close>).
  \<open>Adapter\<close>: the data of pull requests and the trait \<open>RepoHostAdapter\<close> as a record of programs
  (\<open>lib.rs\<close>, \<open>types.rs\<close>, \<open>rate_limit.rs\<close>). \<open>GitHubApi\<close> and \<open>AzureApi\<close>: the two adapters
  (\<open>github.rs\<close>, \<open>azure_devops.rs\<close>) over a parameter that answers requests. A GitHub listing ends by
  its \<open>MAX_PAGES\<close>, on which its recursion goes.

  \<^bold>\<open>Tasks\<close> (\<open>devdev-tasks\<close>). \<open>Tasks\<close>: status, events, the bus with a cursor per receiver, the
  registry and the scheduler; a kind of task is a record of operations under the locale \<open>task_contract\<close>.
  \<open>RepoWatch\<close> and \<open>MonitorPr\<close> are the two kinds; \<open>Fleet\<close> makes them one datatype, interprets the
  contract on it and has the registry's properties. The fuel of \<open>monitor_drain\<close> is two more than the events
  published after its cursor, which a drain cannot exceed as it publishes none itself. \<open>Review\<close> parses the agent's answer,
  \<open>Approval\<close> is the approval gate.

  \<^bold>\<open>The daemon\<close> (\<open>devdev-daemon\<close>). \<open>Ledger\<close>: the idempotency ledger on an append-only file with torn
  writes, under the locales \<open>idempotency_ledger\<close> and \<open>durable_ledger\<close>; the watcher sees it through
  \<open>event_ledger\<close>. \<open>Router\<close>: sessions and runners. \<open>Dispatch\<close> and \<open>DispatchProps\<close>: the handlers of
  the IPC methods and the event coordinator on \<open>dispatch_state\<close> (\<open>DispatchContext\<close>), with the reachable
  states and their invariant. \<open>IpcServer\<close>: a connection, from bytes to handlers and back. \<open>DaemonLife\<close>:
  start, stop, pid file and checkpoints on a machine that may fail or be killed at any file operation.
  \<open>Credentials\<close>: providers and the snapshot of tokens. \<open>Mcp\<close>: the tools the agent calls.

  \<^bold>\<open>The agent protocol\<close> (\<open>devdev-acp\<close>). \<open>Rpc\<close>: messages and framing, under the locale \<open>json_codec\<close>;
  \<open>AcpTypes\<close>: every payload with its serde form. \<open>AcpClient\<close>: calls, the reader, the requests of the
  agent; \<open>AcpProps\<close>: its runs, with the invariant that every answer reaches the call that asked.

  \<^bold>\<open>The command line\<close> (\<open>devdev-cli\<close>). \<open>AgentBackend\<close> (\<open>acp_backend.rs\<close>, and \<open>mcp/http.rs\<close> of the daemon):
  the backend of the router on the agent, the handler \<open>router_handler\<close> that routes updates to the prompt
  that waits, as steps \<open>turn_step\<close>, and the bearer token of the tools. \<open>Prefs\<close> (\<open>preferences.rs\<close>): the
  preference files, against the reference \<open>gather\<close> over \<open>layers\<close>. \<open>Cli\<close> (\<open>daemon_cli.rs\<close>): the subcommands over a
  connection, also composed with \<open>Dispatch\<close>, and the order of \<open>up\<close> on the machine of \<open>DaemonLife\<close>.
  \<open>Exec\<close> also has the search for the agent's program (\<open>agent_command.rs\<close>).

  \<^bold>\<open>What the properties show.\<close> The filesystem refines its tree, resolves paths safely, keeps its quota
  and survives snapshots and checkpoints, kills included; drivers change it only through its operations and
  list completely. References and reviews parse what they print. A watcher publishes each change, a
  monitor handles its own events, the ledger keeps what it recorded, and ids never collide. Connections
  answer in order, calls get their own answers, prompts the text of their own session, tokens need an
  approval and tools the header of a session; what a subcommand prints is what the daemon did. Others prove what
  goes wrong, some as lemmas of their theories: a dead agent is never replaced, an open terminal holds a command,
  a rename onto a hard link leaks the inode, a prune during a record forgets it, a torn line blocks the
  ledger, listings of GitHub are cut, recovery strands runners, a late approval decides the next request,
  unread requests block the gate, a monitor of another host hears nothing, a late call only times out.

  \<^bold>\<open>Not modelled.\<close> The parsing of arguments, the wiring of the shared objects of \<open>up\<close>, the launchers of Windows and the
  shim for Node (\<open>devdev-cli\<close>); the terminal interface (\<open>devdev-tui\<close>), which prints; the test environments and scenarios (\<open>devdev-test-env\<close>, \<open>devdev-scenarios\<close>)
  and the mock adapter; processes and pseudo terminals (\<open>pty.rs\<close>), which are calls of the
  operating system; the HTTP library under the tools; sockets, mounting
  and the FFI declarations; tracing. Texts of libraries (the JSON printer and parser, bincode, error
  messages of \<open>serde\<close>) are parameters, with what is relied on as named hypotheses.
\<close>

end
